(* ===== verification/Prelude.thy ===== *)
theory Prelude
  imports Main "HOL-Library.Word" "HOL-Library.Multiset" "HOL-Library.AList"
begin

section \<open>Shared vocabulary of the litep2p development\<close>

text \<open>
  The types and generic lemmas every component uses.

  \<^item> Machine integers: \<open>usize\<close> is used for sizes, counters and identifiers and is modelled by
    \<open>nat\<close> with \<open>usize_max\<close> for \<open>usize::MAX\<close> on a 64-bit target; signed 32-bit scores are \<open>int\<close> with
    the saturating addition of the standard library written out.
  \<^item> \<open>HashMap\<close>: an association list with distinct keys (\<open>hm_ok\<close>). The position of an entry in the
    list carries no meaning; every operation of the source that iterates over a \<open>HashMap\<close> takes the
    iteration order as an argument \<open>order\<close>, of which only \<open>iteration_order order\<close> is known: it visits
    every entry exactly once.
  \<^item> \<open>HashSet\<close>: a HOL set, or a list without repetitions where the source iterates over it.
  \<^item> \<open>BTreeMap\<close>: an association list with strictly increasing keys (\<open>bt_ok\<close>).
  \<^item> \<open>binary_search_by\<close> on a sorted slice: \<open>binary_search\<close>, with \<open>Inr i\<close> for \<open>Ok(i)\<close> and
    \<open>Inl i\<close> for \<open>Err(i)\<close>.
  \<^item> fallible code: the sum type \<open>result\<close>, the error on the left.
\<close>

type_synonym u8 = "8 word"
type_synonym u16 = "16 word"
type_synonym u64 = "64 word"
type_synonym u256 = "256 word"
type_synonym usize = nat
type_synonym i32 = int
type_synonym ('e, 'a) result = "'e + 'a"
type_synonym ('k, 'v) hash_map = "('k \<times> 'v) list"
type_synonym ('k, 'v) btree_map = "('k \<times> 'v) list"

text \<open>The answer of a \<open>poll\<close> function of the standard library's \<open>Future\<close> and \<open>Stream\<close>.\<close>

datatype 'e poll = Pending | Ready 'e

named_theorems hm_simps \<open>lookup and size after an update of a hash map\<close>
named_theorems bt_simps \<open>lookup, keys and size after an update of an ordered map\<close>

subsection \<open>Integers\<close>

definition usize_max :: usize where
  "usize_max = 2 ^ 64 - 1"

definition i32_min :: i32 where
  "i32_min = - (2 ^ 31)"

definition i32_max :: i32 where
  "i32_max = 2 ^ 31 - 1"

definition i32_ok :: "i32 \<Rightarrow> bool" where
  "i32_ok a \<longleftrightarrow> i32_min \<le> a \<and> a \<le> i32_max"

definition saturating_add_i32 :: "i32 \<Rightarrow> i32 \<Rightarrow> i32" where
  "saturating_add_i32 a b = max i32_min (min i32_max (a + b))"

lemma saturating_add_i32_ok [simp]: "i32_ok (saturating_add_i32 a b)"
  by (simp add: saturating_add_i32_def i32_ok_def i32_min_def i32_max_def)

lemma saturating_add_i32_mono: "0 \<le> b \<Longrightarrow> i32_ok a \<Longrightarrow> a \<le> saturating_add_i32 a b"
  by (auto simp: saturating_add_i32_def i32_ok_def)

lemma saturating_add_i32_le: "0 \<le> b \<Longrightarrow> i32_ok a \<Longrightarrow> saturating_add_i32 a b \<le> a + b"
  by (auto simp: saturating_add_i32_def i32_ok_def)

subsection \<open>Options\<close>

definition last_opt :: "'a list \<Rightarrow> 'a option" where
  "last_opt xs = (if xs = [] then None else Some (last xs))"

lemma last_opt_Nil [simp]: "last_opt [] = None"
  by (simp add: last_opt_def)

lemma last_opt_snoc [simp]: "last_opt (xs @ [x]) = Some x"
  by (simp add: last_opt_def)

lemma last_opt_SomeD: "last_opt xs = Some x \<Longrightarrow> \<exists>ys. xs = ys @ [x]"
  by (metis append_butlast_last_id last_opt_def option.distinct(1) option.inject)

subsection \<open>Hash maps\<close>

abbreviation hm_get :: "('k, 'v) hash_map \<Rightarrow> 'k \<Rightarrow> 'v option" where
  "hm_get \<equiv> map_of"

abbreviation hm_insert :: "'k \<Rightarrow> 'v \<Rightarrow> ('k, 'v) hash_map \<Rightarrow> ('k, 'v) hash_map" where
  "hm_insert \<equiv> AList.update"

abbreviation hm_remove :: "'k \<Rightarrow> ('k, 'v) hash_map \<Rightarrow> ('k, 'v) hash_map" where
  "hm_remove \<equiv> AList.delete"

definition hm_ok :: "('k, 'v) hash_map \<Rightarrow> bool" where
  "hm_ok m \<longleftrightarrow> distinct (map fst m)"

definition hm_keys :: "('k, 'v) hash_map \<Rightarrow> 'k set" where
  "hm_keys m = set (map fst m)"

definition iteration_order :: "('a list \<Rightarrow> 'a list) \<Rightarrow> bool" where
  "iteration_order order \<longleftrightarrow> (\<forall>m. mset (order m) = mset m)"

lemma hm_ok_Nil [simp]: "hm_ok []"
  by (simp add: hm_ok_def)

lemma hm_ok_insert [simp, intro]: "hm_ok m \<Longrightarrow> hm_ok (hm_insert k v m)"
  by (simp add: hm_ok_def distinct_update)

lemma hm_ok_remove [simp, intro]: "hm_ok m \<Longrightarrow> hm_ok (hm_remove k m)"
  by (simp add: hm_ok_def distinct_delete)

lemma hm_get_insert [simp, hm_simps]: "hm_get (hm_insert k v m) = (hm_get m)(k \<mapsto> v)"
  by (simp add: update_conv')

lemma hm_get_remove [simp, hm_simps]: "hm_get (hm_remove k m) = (hm_get m)(k := None)"
  by (simp add: delete_conv')

lemma hm_keys_iff: "k \<in> hm_keys m \<longleftrightarrow> hm_get m k \<noteq> None"
  by (simp add: hm_keys_def map_of_eq_None_iff)

lemma hm_keys_dom: "hm_keys m = dom (hm_get m)"
  by (simp add: hm_keys_def dom_map_of_conv_image_fst)

lemma hm_keys_insert [simp, hm_simps]: "hm_keys (hm_insert k v m) = insert k (hm_keys m)"
  by (simp add: hm_keys_dom)

lemma hm_keys_remove [simp, hm_simps]: "hm_keys (hm_remove k m) = hm_keys m - {k}"
  by (simp add: hm_keys_dom)

lemma hm_len_keys: "hm_ok m \<Longrightarrow> length m = card (hm_keys m)"
  by (metis hm_keys_def hm_ok_def distinct_card length_map)

lemma finite_hm_keys [simp, intro]: "finite (hm_keys m)"
  by (simp add: hm_keys_def)

lemma hm_len_insert [hm_simps]:
  "hm_ok m \<Longrightarrow> length (hm_insert k v m) = (if hm_get m k = None then Suc (length m) else length m)"
  by (simp add: hm_len_keys card_insert_if hm_keys_iff)

lemma hm_len_remove [hm_simps]:
  "hm_ok m \<Longrightarrow> length (hm_remove k m) = (if hm_get m k = None then length m else length m - 1)"
  by (auto simp: hm_len_keys hm_keys_iff hm_ok_remove)

lemma hm_get_in_set: "hm_ok m \<Longrightarrow> hm_get m k = Some v \<longleftrightarrow> (k, v) \<in> set m"
  by (simp add: hm_ok_def)

lemma hm_set_insert: "hm_ok m \<Longrightarrow> set (hm_insert k v m) = insert (k, v) (set m - {e. fst e = k})"
  unfolding set_eq_iff by (auto simp flip: hm_get_in_set)

lemma hm_set_remove: "set (hm_remove k m) = set m - {e. fst e = k}"
  by (auto simp: AList.delete_eq)

lemma iteration_orderD:
  assumes "iteration_order order"
  shows "mset (order m) = mset m" "set (order m) = set m" "length (order m) = length m"
proof -
  show m: "mset (order m) = mset m"
    using assms by (simp add: iteration_order_def)
  show "set (order m) = set m" using m by (rule mset_eq_setD)
  show "length (order m) = length m" using m by (rule mset_eq_length)
qed

lemma iteration_order_id: "iteration_order (\<lambda>m. m)" and iteration_order_rev: "iteration_order rev"
  by (simp_all add: iteration_order_def)

lemma iteration_order_distinct: "iteration_order order \<Longrightarrow> hm_ok m \<Longrightarrow> distinct (map fst (order m))"
  unfolding hm_ok_def by (metis iteration_orderD(1) mset_eq_imp_distinct_iff mset_map)

subsection \<open>Ordered maps\<close>

text \<open>
  The operations of \<open>BTreeMap\<close> the source uses: \<open>insert\<close> (overwrites the value of a present key),
  \<open>pop_first\<close>, \<open>pop_last\<close>, \<open>first_key_value\<close>, \<open>last_key_value\<close> and iteration in key order.
\<close>

definition bt_ok :: "('k::linorder, 'v) btree_map \<Rightarrow> bool" where
  "bt_ok m \<longleftrightarrow> sorted_wrt (<) (map fst m)"

fun bt_insert :: "'k::linorder \<Rightarrow> 'v \<Rightarrow> ('k, 'v) btree_map \<Rightarrow> ('k, 'v) btree_map" where
  "bt_insert k v [] = [(k, v)]"
| "bt_insert k v ((k', v') # m) =
     (if k < k' then (k, v) # (k', v') # m
      else if k = k' then (k, v) # m
      else (k', v') # bt_insert k v m)"

fun bt_pop_first :: "('k, 'v) btree_map \<Rightarrow> (('k \<times> 'v) \<times> ('k, 'v) btree_map) option" where
  "bt_pop_first [] = None"
| "bt_pop_first (e # m) = Some (e, m)"

definition bt_pop_last :: "('k, 'v) btree_map \<Rightarrow> ('k, 'v) btree_map" where
  "bt_pop_last m = butlast m"

definition bt_first :: "('k, 'v) btree_map \<Rightarrow> ('k \<times> 'v) option" where
  "bt_first m = (case m of [] \<Rightarrow> None | e # _ \<Rightarrow> Some e)"

definition bt_last :: "('k, 'v) btree_map \<Rightarrow> ('k \<times> 'v) option" where
  "bt_last m = last_opt m"

definition bt_keys :: "('k, 'v) btree_map \<Rightarrow> 'k set" where
  "bt_keys m = fst ` set m"

lemma bt_ok_Nil [simp]: "bt_ok []"
  by (simp add: bt_ok_def)

lemma bt_ok_Cons: "bt_ok (e # m) \<longleftrightarrow> (\<forall>e' \<in> set m. fst e < fst e') \<and> bt_ok m"
  by (auto simp: bt_ok_def)

lemma bt_keys_insert [simp, bt_simps]: "bt_keys (bt_insert k v m) = insert k (bt_keys m)"
  by (induction k v m rule: bt_insert.induct) (auto simp: bt_keys_def)

lemma bt_set_insert_subset: "set (bt_insert k v m) \<subseteq> insert (k, v) (set m)"
  by (induction k v m rule: bt_insert.induct) auto

lemma bt_set_insert [bt_simps]:
  "bt_ok m \<Longrightarrow> set (bt_insert k v m) = insert (k, v) (set m - {e. fst e = k})"
  by (induction k v m rule: bt_insert.induct) (auto simp: bt_ok_Cons)

lemma bt_ok_insert [simp, intro]: "bt_ok m \<Longrightarrow> bt_ok (bt_insert k v m)"
  by (induction k v m rule: bt_insert.induct)
    (auto simp: bt_ok_Cons dest!: subsetD [OF bt_set_insert_subset])

lemma bt_ok_distinct: "bt_ok m \<Longrightarrow> distinct (map fst m)"
  by (simp add: bt_ok_def strict_sorted_iff)

lemma bt_get_insert [bt_simps]: "bt_ok m \<Longrightarrow> map_of (bt_insert k v m) = (map_of m)(k \<mapsto> v)"
proof (induction k v m rule: bt_insert.induct)
  case (2 k v k' v' m)
  have "map_of m k = None" if "k < k'"
    using that "2.prems" by (force simp: map_of_eq_None_iff bt_ok_Cons)
  with 2 show ?case by (auto simp: bt_ok_Cons fun_eq_iff)
qed simp

lemma bt_len_keys: "bt_ok m \<Longrightarrow> length m = card (bt_keys m)"
  unfolding bt_keys_def by (metis bt_ok_distinct distinct_card length_map list.set_map)

lemma finite_bt_keys [simp, intro]: "finite (bt_keys m)"
  by (simp add: bt_keys_def)

lemma bt_len_insert [bt_simps]:
  "bt_ok m \<Longrightarrow> length (bt_insert k v m) = (if k \<in> bt_keys m then length m else Suc (length m))"
  by (simp add: bt_len_keys card_insert_if)

lemma bt_ok_append: "bt_ok (m @ m') \<longleftrightarrow> bt_ok m \<and> bt_ok m' \<and> (\<forall>e \<in> set m. \<forall>e' \<in> set m'. fst e < fst e')"
  by (auto simp: bt_ok_def sorted_wrt_append)

lemma bt_ok_take [simp, intro]: "bt_ok m \<Longrightarrow> bt_ok (take n m)"
  by (metis append_take_drop_id bt_ok_append)

lemma bt_ok_butlast [simp, intro]: "bt_ok m \<Longrightarrow> bt_ok (butlast m)"
  by (simp add: butlast_conv_take)

lemma bt_last_max: "bt_ok m \<Longrightarrow> bt_last m = Some (k, v) \<Longrightarrow> e \<in> set m \<Longrightarrow> fst e \<le> k"
  by (force simp: bt_last_def bt_ok_append dest!: last_opt_SomeD)

lemma bt_first_min: "bt_ok m \<Longrightarrow> bt_first m = Some (k, v) \<Longrightarrow> e \<in> set m \<Longrightarrow> k \<le> fst e"
  by (auto simp: bt_first_def bt_ok_Cons intro: less_imp_le split: list.splits)

lemma bt_pop_first_eq: "bt_pop_first m = Some (e, m') \<longleftrightarrow> m = e # m'"
  by (cases m) auto

lemma bt_pop_first_None: "bt_pop_first m = None \<longleftrightarrow> m = []"
  by (cases m) auto

text \<open>Two ordered maps with the same entries are equal.\<close>

lemma bt_ok_unique: "bt_ok m \<Longrightarrow> bt_ok m' \<Longrightarrow> set m = set m' \<Longrightarrow> m = m'"
proof (induction m arbitrary: m')
  case (Cons e m)
  then obtain e' m'' where m': "m' = e' # m''" by (cases m') auto
  have "e = e'"
    using Cons.prems unfolding m'
    by (metis bt_ok_Cons list.set_intros(1) order_less_asym set_ConsD)
  moreover from this have "set m = set m''"
    using Cons.prems unfolding m' bt_ok_Cons
    by (metis insert_ident less_irrefl list.simps(15))
  ultimately show ?case using Cons m' by (auto simp: bt_ok_Cons)
qed simp

subsection \<open>Binary search\<close>

text \<open>
  \<open>slice::binary_search_by\<close> with the comparison of a key: on a slice sorted by the key without
  duplicates, the index of the entry with the key sought, or else the index at which inserting keeps
  the slice sorted.
\<close>

definition binary_search :: "('a \<Rightarrow> 'k::linorder) \<Rightarrow> 'k \<Rightarrow> 'a list \<Rightarrow> nat + nat" where
  "binary_search f k xs =
     (let i = length (takeWhile (\<lambda>x. f x < k) xs)
      in if i < length xs \<and> f (xs ! i) = k then Inr i else Inl i)"

definition insert_at :: "nat \<Rightarrow> 'a \<Rightarrow> 'a list \<Rightarrow> 'a list" where
  "insert_at i x xs = take i xs @ x # drop i xs"

lemma length_insert_at [simp]: "length (insert_at i x xs) = Suc (length xs)"
  by (simp add: insert_at_def)

lemma set_insert_at [simp]: "set (insert_at i x xs) = insert x (set xs)"
  unfolding insert_at_def by (metis Un_insert_right append_take_drop_id list.simps(15) set_append)

lemma binary_search_Inr:
  "binary_search f k xs = Inr i \<Longrightarrow> i < length xs \<and> f (xs ! i) = k"
  by (simp add: binary_search_def Let_def split: if_splits)

lemma binary_search_Inl_split:
  assumes s: "sorted_wrt (<) (map f xs)" and b: "binary_search f k xs = Inl i"
  shows "i \<le> length xs" "\<forall>x \<in> set (take i xs). f x < k" "\<forall>x \<in> set (drop i xs). k < f x"
proof -
  have i: "i = length (takeWhile (\<lambda>x. f x < k) xs)"
    and n: "\<not> (i < length xs \<and> f (xs ! i) = k)"
    using b by (auto simp: binary_search_def Let_def split: if_splits)
  show "i \<le> length xs" by (simp add: i length_takeWhile_le)
  have "take i xs = takeWhile (\<lambda>x. f x < k) xs"
    unfolding i by (metis takeWhile_eq_take)
  then show "\<forall>x \<in> set (take i xs). f x < k" by (metis set_takeWhileD)
  show "\<forall>x \<in> set (drop i xs). k < f x"
  proof (cases "i < length xs")
    case True
    then have "drop i xs = xs ! i # drop (Suc i) xs" by (simp add: Cons_nth_drop_Suc)
    moreover have "\<not> f (xs ! i) < k" using True i nth_length_takeWhile by blast
    moreover have "sorted_wrt (<) (map f (drop i xs))"
      using s by (metis append_take_drop_id map_append sorted_wrt_append)
    ultimately show ?thesis using n True by force
  qed simp
qed

lemma sorted_insert_at:
  assumes "sorted_wrt (<) (map f xs)" and "binary_search f (f x) xs = Inl i"
  shows "sorted_wrt (<) (map f (insert_at i x xs))"
proof -
  have "sorted_wrt (<) (map f (take i xs) @ map f (drop i xs))"
    using assms(1) by (metis append_take_drop_id map_append)
  with binary_search_Inl_split [OF assms] show ?thesis
    by (auto simp: insert_at_def sorted_wrt_append)
qed

subsection \<open>Sorting by a key\<close>

text \<open>\<open>sort_by_key\<close> and \<open>sort_by\<close> are stable; they are \<open>sort_key\<close>.\<close>

lemma take_sorted_le:
  assumes "sorted (map f xs)" "x \<in> set (take n xs)" "y \<in> set (drop n xs)"
  shows "f x \<le> f y"
proof -
  have "sorted (map f (take n xs) @ map f (drop n xs))"
    using assms(1) by (metis append_take_drop_id map_append)
  with assms(2,3) show ?thesis by (auto simp: sorted_append)
qed

end
