(* ===== verification/Multiaddr.thy ===== *)
theory Multiaddr
  imports Prelude
begin

section \<open>Peer identifiers, addresses and endpoints\<close>

text \<open>
  \<open>src/peer_id.rs\<close>, \<open>src/addresses.rs\<close> and the \<open>Endpoint\<close> type of \<open>src/transport/mod.rs\<close>.

  A \<open>Multiaddr\<close> (crate \<open>multiaddr\<close>) is the list of its protocol components, so \<open>iter().last()\<close>,
  \<open>with\<close>, \<open>push\<close> and \<open>pop\<close> are list operations; the components the source never matches on are
  \<open>OtherProtocol\<close>. A \<open>Multihash\<close> (crate \<open>multihash\<close>) is a code and a digest; the functions of
  that crate the source calls are the fields of the argument \<open>multihash_lib\<close>.
\<close>

record multihash =
  mh_code :: u64
  mh_digest :: "u8 list"

record multihash_lib =
  mh_wrap :: "u64 \<Rightarrow> u8 list \<Rightarrow> multihash option"
  mh_sha2_256 :: "u8 list \<Rightarrow> multihash"
  mh_to_bytes :: "multihash \<Rightarrow> u8 list"
  mh_from_bytes :: "u8 list \<Rightarrow> multihash option"

record peer_id =
  pid_multihash :: multihash

datatype protocol =
    Ip4 "32 word"
  | Ip6 "128 word"
  | Dns string
  | Dns4 string
  | Dns6 string
  | Tcp u16
  | Udp u16
  | QuicV1
  | Ws string
  | Wss string
  | P2p multihash
  | OtherProtocol nat

type_synonym multiaddr = "protocol list"
type_synonym connection_id = usize

datatype parse_error = MultiHash

datatype panic = Panic

subsection \<open>Peer identifiers\<close>

definition MAX_INLINE_KEY_LENGTH :: usize where
  "MAX_INLINE_KEY_LENGTH = 42"

definition MULTIHASH_IDENTITY_CODE :: u64 where
  "MULTIHASH_IDENTITY_CODE = 0"

text \<open>The multicodec code of \<open>Code::Sha2_256\<close>.\<close>

definition SHA2_256_CODE :: u64 where
  "SHA2_256_CODE = 0x12"

definition from_public_key_protobuf :: "multihash_lib \<Rightarrow> u8 list \<Rightarrow> (panic, peer_id) result" where
  "from_public_key_protobuf L key_enc =
     (if length key_enc \<le> MAX_INLINE_KEY_LENGTH then
        (case mh_wrap L MULTIHASH_IDENTITY_CODE key_enc of
           None \<Rightarrow> Inl Panic
         | Some multihash \<Rightarrow> Inr \<lparr>pid_multihash = multihash\<rparr>)
      else Inr \<lparr>pid_multihash = mh_sha2_256 L key_enc\<rparr>)"

definition from_multihash :: "multihash \<Rightarrow> (multihash, peer_id) result" where
  "from_multihash multihash =
     (if mh_code multihash = SHA2_256_CODE then Inr \<lparr>pid_multihash = multihash\<rparr>
      else if mh_code multihash = MULTIHASH_IDENTITY_CODE
              \<and> length (mh_digest multihash) \<le> MAX_INLINE_KEY_LENGTH
        then Inr \<lparr>pid_multihash = multihash\<rparr>
      else Inl multihash)"

definition peer_id_from_bytes :: "multihash_lib \<Rightarrow> u8 list \<Rightarrow> (parse_error, peer_id) result" where
  "peer_id_from_bytes L data =
     (case mh_from_bytes L data of
        None \<Rightarrow> Inl MultiHash
      | Some multihash \<Rightarrow>
          (case from_multihash multihash of
             Inl _ \<Rightarrow> Inl MultiHash
           | Inr peer \<Rightarrow> Inr peer))"

definition peer_id_to_bytes :: "multihash_lib \<Rightarrow> peer_id \<Rightarrow> u8 list" where
  "peer_id_to_bytes L peer = mh_to_bytes L (pid_multihash peer)"

definition try_from_multiaddr :: "multiaddr \<Rightarrow> peer_id option" where
  "try_from_multiaddr address =
     (case last_opt address of
        Some (P2p hash) \<Rightarrow> (case from_multihash hash of Inl _ \<Rightarrow> None | Inr p \<Rightarrow> Some p)
      | _ \<Rightarrow> None)"

definition is_public_key :: "multihash_lib \<Rightarrow> peer_id \<Rightarrow> u8 list \<Rightarrow> (panic, bool option) result" where
  "is_public_key L self enc =
     (if mh_code (pid_multihash self) = SHA2_256_CODE
        then Inr (Some (mh_sha2_256 L enc = pid_multihash self))
      else if mh_code (pid_multihash self) = MULTIHASH_IDENTITY_CODE then
        (case mh_wrap L MULTIHASH_IDENTITY_CODE enc of
           None \<Rightarrow> Inl Panic
         | Some expected \<Rightarrow> Inr (Some (expected = pid_multihash self)))
      else Inr None)"

text \<open>
  What the code relies on from the \<open>multihash\<close> crate: wrapping a digest of at most 64 bytes
  succeeds and keeps code and digest, hashing tags its result with the SHA2-256 code, and the
  binary form of a multihash parses back.
\<close>

definition multihash_lib_ok :: "multihash_lib \<Rightarrow> bool" where
  "multihash_lib_ok L \<longleftrightarrow>
     (\<forall>c d. length d \<le> 64 \<longrightarrow> mh_wrap L c d = Some \<lparr>mh_code = c, mh_digest = d\<rparr>) \<and>
     (\<forall>d. mh_code (mh_sha2_256 L d) = SHA2_256_CODE) \<and>
     (\<forall>m. mh_from_bytes L (mh_to_bytes L m) = Some m)"

text \<open>The invariant of the \<open>PeerId\<close> type, which every constructor establishes.\<close>

definition peer_id_ok :: "peer_id \<Rightarrow> bool" where
  "peer_id_ok p \<longleftrightarrow> from_multihash (pid_multihash p) = Inr p"

lemma from_multihash_Inr: "from_multihash m = Inr p \<Longrightarrow> pid_multihash p = m \<and> peer_id_ok p"
  by (auto simp: from_multihash_def peer_id_ok_def split: if_splits)

lemma peer_id_ok_codes:
  "peer_id_ok p \<Longrightarrow> mh_code (pid_multihash p) = SHA2_256_CODE
     \<or> mh_code (pid_multihash p) = MULTIHASH_IDENTITY_CODE
       \<and> length (mh_digest (pid_multihash p)) \<le> MAX_INLINE_KEY_LENGTH"
  by (auto simp: peer_id_ok_def from_multihash_def split: if_splits)

lemma from_public_key_protobuf_ok:
  assumes "multihash_lib_ok L"
  shows "\<exists>p. from_public_key_protobuf L k = Inr p \<and> peer_id_ok p
           \<and> is_public_key L p k = Inr (Some True)"
  using assms
  by (auto simp: from_public_key_protobuf_def multihash_lib_ok_def peer_id_ok_def from_multihash_def
      is_public_key_def MAX_INLINE_KEY_LENGTH_def MULTIHASH_IDENTITY_CODE_def SHA2_256_CODE_def)

lemma peer_id_bytes_roundtrip:
  "multihash_lib_ok L \<Longrightarrow> peer_id_ok p \<Longrightarrow> peer_id_from_bytes L (peer_id_to_bytes L p) = Inr p"
  by (simp add: peer_id_from_bytes_def peer_id_to_bytes_def multihash_lib_ok_def peer_id_ok_def)

lemma try_from_multiaddr_snoc [simp]:
  "peer_id_ok p \<Longrightarrow> try_from_multiaddr (address @ [P2p (pid_multihash p)]) = Some p"
  by (simp add: try_from_multiaddr_def peer_id_ok_def)

lemma try_from_multiaddr_SomeD:
  "try_from_multiaddr address = Some p \<Longrightarrow> last_opt address = Some (P2p (pid_multihash p)) \<and> peer_id_ok p"
  by (auto simp: try_from_multiaddr_def dest!: from_multihash_Inr
      split: option.splits protocol.splits sum.splits)

subsection \<open>Endpoints\<close>

datatype endpoint =
    Dialer (endpoint_address: multiaddr) (endpoint_connection_id: connection_id)
  | Listener (endpoint_address: multiaddr) (endpoint_connection_id: connection_id)

definition is_listener :: "endpoint \<Rightarrow> bool" where
  "is_listener e = (case e of Listener _ _ \<Rightarrow> True | Dialer _ _ \<Rightarrow> False)"

lemma is_listener_simps [simp]: "is_listener (Listener a c)" "\<not> is_listener (Dialer a c)"
  by (simp_all add: is_listener_def)

subsection \<open>Public addresses of the local node\<close>

datatype insertion_error = EmptyAddress | DifferentPeerId

record public_addresses =
  pa_inner :: "multiaddr set"
  pa_local_peer_id :: peer_id

definition public_addresses_new :: "peer_id \<Rightarrow> public_addresses" where
  "public_addresses_new local = \<lparr>pa_inner = {}, pa_local_peer_id = local\<rparr>"

definition ensure_local_peer :: "multiaddr \<Rightarrow> peer_id \<Rightarrow> (insertion_error, multiaddr) result" where
  "ensure_local_peer address local =
     (if address = [] then Inl EmptyAddress
      else case try_from_multiaddr address of
        Some peer \<Rightarrow> if peer \<noteq> local then Inl DifferentPeerId else Inr address
      | None \<Rightarrow> Inr (address @ [P2p (pid_multihash local)]))"

definition add_address ::
  "public_addresses \<Rightarrow> multiaddr \<Rightarrow> (insertion_error, bool) result \<times> public_addresses" where
  "add_address pa address =
     (case ensure_local_peer address (pa_local_peer_id pa) of
        Inl e \<Rightarrow> (Inl e, pa)
      | Inr a \<Rightarrow> (Inr (a \<notin> pa_inner pa), pa\<lparr>pa_inner := insert a (pa_inner pa)\<rparr>))"

definition remove_address :: "public_addresses \<Rightarrow> multiaddr \<Rightarrow> bool \<times> public_addresses" where
  "remove_address pa address =
     (address \<in> pa_inner pa, pa\<lparr>pa_inner := pa_inner pa - {address}\<rparr>)"

definition public_addresses_ok :: "public_addresses \<Rightarrow> bool" where
  "public_addresses_ok pa \<longleftrightarrow>
     (\<forall>a \<in> pa_inner pa. try_from_multiaddr a = Some (pa_local_peer_id pa))"

lemma ensure_local_peer_Inr:
  "peer_id_ok local \<Longrightarrow> ensure_local_peer a local = Inr b \<Longrightarrow> try_from_multiaddr b = Some local"
  by (auto simp: ensure_local_peer_def split: option.splits if_splits)

lemma add_address_ok:
  "peer_id_ok (pa_local_peer_id pa) \<Longrightarrow> public_addresses_ok pa \<Longrightarrow>
     public_addresses_ok (snd (add_address pa a))"
  by (auto simp: add_address_def public_addresses_ok_def ensure_local_peer_Inr split: sum.splits)

lemma remove_address_ok: "public_addresses_ok pa \<Longrightarrow> public_addresses_ok (snd (remove_address pa a))"
  by (auto simp: remove_address_def public_addresses_ok_def)

end
