(* ===== verification/Address_Store.thy ===== *)
theory Address_Store
  imports Multiaddr
begin

section \<open>The address store of a peer\<close>

text \<open>
  \<open>src/transport/manager/address.rs\<close>: address records with a 32-bit score and the bounded store
  that keeps the best of them. The classification of IP addresses (crate \<open>ip_network\<close>) and the
  iteration order of the \<open>HashMap\<close> are the argument \<open>address_env\<close>. The locale \<open>bounded_store\<close> is
  the contract the users of the store (peer contexts and Kademlia peers) rely on.
\<close>

record address_record =
  ar_score :: i32
  ar_address :: multiaddr

record address_store =
  as_addresses :: "(multiaddr, address_record) hash_map"
  as_max_capacity :: usize

record address_env =
  ip4_is_global :: "32 word \<Rightarrow> bool"
  ip6_is_global :: "128 word \<Rightarrow> bool"
  store_order :: "(multiaddr, address_record) hash_map \<Rightarrow> (multiaddr \<times> address_record) list"

datatype address_error =
  InvalidProtocol | InvalidUrl | PeerIdMissing | AddressNotAvailable | InvalidPeerId multihash

datatype dial_error =
    DialTimeout
  | DialAddressError address_error
  | DialDnsError
  | DialNegotiationError

definition MAX_ADDRESSES :: usize where
  "MAX_ADDRESSES = 64"

definition CONNECTION_ESTABLISHED :: i32 where
  "CONNECTION_ESTABLISHED = 100"

definition CONNECTION_FAILURE :: i32 where
  "CONNECTION_FAILURE = - 100"

definition ADDRESS_FAILURE :: i32 where
  "ADDRESS_FAILURE = i32_min"

definition PUBLIC_ADDRESS_BONUS :: i32 where
  "PUBLIC_ADDRESS_BONUS = 1"

lemmas score_defs = CONNECTION_ESTABLISHED_def CONNECTION_FAILURE_def ADDRESS_FAILURE_def
  PUBLIC_ADDRESS_BONUS_def

subsection \<open>Address records\<close>

definition ends_with_p2p :: "multiaddr \<Rightarrow> bool" where
  "ends_with_p2p address = (case last_opt address of Some (P2p _) \<Rightarrow> True | _ \<Rightarrow> False)"

definition from_raw_multiaddr_with_score :: "multiaddr \<Rightarrow> i32 \<Rightarrow> address_record" where
  "from_raw_multiaddr_with_score address score = \<lparr>ar_score = score, ar_address = address\<rparr>"

definition from_raw_multiaddr :: "multiaddr \<Rightarrow> address_record" where
  "from_raw_multiaddr address = from_raw_multiaddr_with_score address 0"

definition address_record_new :: "peer_id \<Rightarrow> multiaddr \<Rightarrow> i32 \<Rightarrow> address_record" where
  "address_record_new peer address score =
     from_raw_multiaddr_with_score
       (if \<not> ends_with_p2p address then address @ [P2p (pid_multihash peer)] else address) score"

definition address_record_from_multiaddr :: "multiaddr \<Rightarrow> address_record option" where
  "address_record_from_multiaddr address =
     (if \<not> ends_with_p2p address then None else Some (from_raw_multiaddr_with_score address 0))"

definition update_score :: "address_record \<Rightarrow> i32 \<Rightarrow> address_record" where
  "update_score r score = r\<lparr>ar_score := score\<rparr>"

fun is_global_multiaddr :: "address_env \<Rightarrow> multiaddr \<Rightarrow> bool" where
  "is_global_multiaddr E [] = False"
| "is_global_multiaddr E (Ip4 ip # _) = ip4_is_global E ip"
| "is_global_multiaddr E (Ip6 ip # _) = ip6_is_global E ip"
| "is_global_multiaddr E (Dns _ # _) = True"
| "is_global_multiaddr E (Dns4 _ # _) = True"
| "is_global_multiaddr E (Dns6 _ # _) = True"
| "is_global_multiaddr E (_ # rest) = is_global_multiaddr E rest"

subsection \<open>The store\<close>

definition address_store_new :: address_store where
  "address_store_new = \<lparr>as_addresses = [], as_max_capacity = MAX_ADDRESSES\<rparr>"

fun error_score :: "dial_error \<Rightarrow> i32" where
  "error_score (DialAddressError _) = ADDRESS_FAILURE"
| "error_score _ = CONNECTION_FAILURE"

definition address_store_is_empty :: "address_store \<Rightarrow> bool" where
  "address_store_is_empty s \<longleftrightarrow> as_addresses s = []"

text \<open>\<open>values().min()\<close>: the first record, in iteration order, whose score is least.\<close>

fun min_record :: "address_record list \<Rightarrow> address_record option" where
  "min_record [] = None"
| "min_record (r # rs) =
     (case min_record rs of
        None \<Rightarrow> Some r
      | Some r' \<Rightarrow> Some (if ar_score r \<le> ar_score r' then r else r'))"

definition with_public_bonus :: "address_env \<Rightarrow> address_record \<Rightarrow> address_record" where
  "with_public_bonus E r =
     (if is_global_multiaddr E (ar_address r)
      then r\<lparr>ar_score := saturating_add_i32 (ar_score r) PUBLIC_ADDRESS_BONUS\<rparr> else r)"

text \<open>
  The \<open>None\<close> case of the minimum is the \<open>expect\<close> of the source; \<open>address_store_insert_panics\<close>
  says when it is reached.
\<close>

definition address_store_insert :: "address_env \<Rightarrow> address_store \<Rightarrow> address_record \<Rightarrow> address_store" where
  "address_store_insert E s r =
     (case hm_get (as_addresses s) (ar_address r) of
        Some old \<Rightarrow>
          if ar_score r \<noteq> 0
          then s\<lparr>as_addresses := hm_insert (ar_address r) (update_score old (ar_score r)) (as_addresses s)\<rparr>
          else s
      | None \<Rightarrow>
          let score = ar_score r; r' = with_public_bonus E r in
          if length (as_addresses s) \<ge> as_max_capacity s then
            (case min_record (map snd (store_order E (as_addresses s))) of
               None \<Rightarrow> s
             | Some mr \<Rightarrow>
                 if score \<le> ar_score mr then s
                 else s\<lparr>as_addresses := hm_insert (ar_address r') r' (hm_remove (ar_address mr) (as_addresses s))\<rparr>)
          else s\<lparr>as_addresses := hm_insert (ar_address r') r' (as_addresses s)\<rparr>)"

definition address_store_insert_panics :: "address_env \<Rightarrow> address_store \<Rightarrow> address_record \<Rightarrow> bool" where
  "address_store_insert_panics E s r \<longleftrightarrow>
     hm_get (as_addresses s) (ar_address r) = None \<and>
     length (as_addresses s) \<ge> as_max_capacity s \<and>
     min_record (map snd (store_order E (as_addresses s))) = None"

definition address_store_extend :: "address_env \<Rightarrow> address_store \<Rightarrow> address_record list \<Rightarrow> address_store" where
  "address_store_extend E s rs = foldl (address_store_insert E) s rs"

definition address_store_from_records :: "address_env \<Rightarrow> address_record list \<Rightarrow> address_store" where
  "address_store_from_records E rs = foldl (address_store_insert E) address_store_new rs"

definition address_store_from_multiaddrs :: "address_env \<Rightarrow> multiaddr list \<Rightarrow> address_store" where
  "address_store_from_multiaddrs E addresses =
     foldl (\<lambda>s a. case address_record_from_multiaddr a of
              Some r \<Rightarrow> address_store_insert E s r
            | None \<Rightarrow> s) address_store_new addresses"

definition address_store_retain :: "(multiaddr \<Rightarrow> bool) \<Rightarrow> address_store \<Rightarrow> address_store" where
  "address_store_retain p s = s\<lparr>as_addresses := filter (\<lambda>(a, _). p a) (as_addresses s)\<rparr>"

definition address_store_addresses :: "address_env \<Rightarrow> address_store \<Rightarrow> usize \<Rightarrow> multiaddr list" where
  "address_store_addresses E s limit =
     (let records = map snd (store_order E (as_addresses s));
          sorted = sort_key (\<lambda>r. - ar_score r) records
      in map ar_address (take limit sorted))"

subsection \<open>Invariant\<close>

definition address_env_ok :: "address_env \<Rightarrow> bool" where
  "address_env_ok E \<longleftrightarrow> iteration_order (store_order E)"

definition address_store_ok :: "address_store \<Rightarrow> bool" where
  "address_store_ok s \<longleftrightarrow>
     hm_ok (as_addresses s) \<and> 0 < as_max_capacity s \<and>
     length (as_addresses s) \<le> as_max_capacity s \<and>
     (\<forall>(a, r) \<in> set (as_addresses s). ar_address r = a \<and> i32_ok (ar_score r))"

definition score_of :: "address_store \<Rightarrow> multiaddr \<Rightarrow> i32 option" where
  "score_of s a = map_option ar_score (hm_get (as_addresses s) a)"

lemma address_store_okD:
  assumes "address_store_ok s"
  shows "hm_ok (as_addresses s)" "length (as_addresses s) \<le> as_max_capacity s"
    "hm_get (as_addresses s) a = Some r \<Longrightarrow> ar_address r = a \<and> i32_ok (ar_score r)"
  using assms by (auto simp: address_store_ok_def dest: map_of_SomeD)

lemma address_store_okI:
  assumes "hm_ok (as_addresses s)" "0 < as_max_capacity s"
    "length (as_addresses s) \<le> as_max_capacity s"
    "\<And>a r. hm_get (as_addresses s) a = Some r \<Longrightarrow> ar_address r = a \<and> i32_ok (ar_score r)"
  shows "address_store_ok s"
  using assms unfolding address_store_ok_def by (auto simp: hm_get_in_set)

lemma address_store_new_ok [simp]: "address_store_ok address_store_new"
  by (simp add: address_store_ok_def address_store_new_def MAX_ADDRESSES_def)

lemma min_record_None: "min_record rs = None \<longleftrightarrow> rs = []"
  by (cases rs) (auto split: option.splits)

lemma min_record_Some:
  "min_record rs = Some mr \<Longrightarrow> mr \<in> set rs \<and> (\<forall>r \<in> set rs. ar_score mr \<le> ar_score r)"
proof (induction rs arbitrary: mr)
  case (Cons r rs)
  then show ?case by (cases "min_record rs") (fastforce simp: min_record_None split: if_splits)+
qed simp

lemma ar_address_with_public_bonus [simp]: "ar_address (with_public_bonus E r) = ar_address r"
  by (simp add: with_public_bonus_def)

lemma with_public_bonus_score:
  "i32_ok (ar_score r) \<Longrightarrow> i32_ok (ar_score (with_public_bonus E r))
     \<and> ar_score r \<le> ar_score (with_public_bonus E r)"
  by (simp add: with_public_bonus_def saturating_add_i32_mono PUBLIC_ADDRESS_BONUS_def)

text \<open>The record \<open>insert\<close> evicts: least score, present in the store.\<close>

lemma store_min:
  assumes "address_env_ok E" "address_store_ok s"
    "min_record (map snd (store_order E (as_addresses s))) = Some mr"
  shows "hm_get (as_addresses s) (ar_address mr) = Some mr"
    "\<And>a r. hm_get (as_addresses s) a = Some r \<Longrightarrow> ar_score mr \<le> ar_score r"
proof -
  have set_eq: "set (store_order E (as_addresses s)) = set (as_addresses s)"
    using assms(1) by (simp add: address_env_ok_def iteration_orderD)
  then have "mr \<in> snd ` set (as_addresses s)"
    and le: "\<forall>r \<in> snd ` set (as_addresses s). ar_score mr \<le> ar_score r"
    using min_record_Some [OF assms(3)] by auto
  then show "hm_get (as_addresses s) (ar_address mr) = Some mr"
    using assms(2) by (auto simp: address_store_ok_def hm_get_in_set)
  show "ar_score mr \<le> ar_score r" if "hm_get (as_addresses s) a = Some r" for a r
    using le map_of_SomeD [OF that] by force
qed

text \<open>The values of the map, in any iteration order, are the stored records, each under its address.\<close>

lemma store_records:
  assumes E: "address_env_ok E" and s: "address_store_ok s"
  shows "ar_address ` set (map snd (store_order E (as_addresses s))) = hm_keys (as_addresses s)"
    "distinct (map ar_address (map snd (store_order E (as_addresses s))))"
    "\<And>r. r \<in> set (map snd (store_order E (as_addresses s))) \<Longrightarrow>
       hm_get (as_addresses s) (ar_address r) = Some r"
    "length (map snd (store_order E (as_addresses s))) = length (as_addresses s)"
proof -
  let ?o = "store_order E (as_addresses s)"
  have o: "set ?o = set (as_addresses s)" "length ?o = length (as_addresses s)"
      "distinct (map fst ?o)"
    using E s by (simp_all add: address_env_ok_def address_store_ok_def iteration_orderD
        iteration_order_distinct)
  have "map ar_address (map snd ?o) = map fst ?o"
    using s o(1) by (auto simp: address_store_ok_def)
  then show "ar_address ` set (map snd ?o) = hm_keys (as_addresses s)"
    and "distinct (map ar_address (map snd ?o))"
    using o by (metis hm_keys_def list.set_map, metis)
  show "hm_get (as_addresses s) (ar_address r) = Some r" if "r \<in> set (map snd ?o)" for r
    using that o(1) s by (auto simp: address_store_ok_def hm_get_in_set)
  show "length (map snd ?o) = length (as_addresses s)" using o by simp
qed

lemma insert_no_panic:
  "address_env_ok E \<Longrightarrow> address_store_ok s \<Longrightarrow> \<not> address_store_insert_panics E s r"
  unfolding address_store_insert_panics_def
  by (auto simp: min_record_None address_store_ok_def address_env_ok_def
      dest: iteration_orderD(3) [of _ "as_addresses s"])

text \<open>The effect of \<open>insert\<close> as a case distinction over the four outcomes of the source.\<close>

lemma address_store_insert_cases [consumes 2, case_names Updated Kept Rejected Evicted Added]:
  assumes "address_env_ok E" "address_store_ok s"
  obtains (Updated) old where "hm_get (as_addresses s) (ar_address r) = Some old" "ar_score r \<noteq> 0"
      "address_store_insert E s r
         = s\<lparr>as_addresses := hm_insert (ar_address r) (update_score old (ar_score r)) (as_addresses s)\<rparr>"
  | (Kept) old where "hm_get (as_addresses s) (ar_address r) = Some old" "ar_score r = 0"
      "address_store_insert E s r = s"
  | (Rejected) mr where "hm_get (as_addresses s) (ar_address r) = None"
      "as_max_capacity s = length (as_addresses s)"
      "hm_get (as_addresses s) (ar_address mr) = Some mr"
      "\<And>a q. hm_get (as_addresses s) a = Some q \<Longrightarrow> ar_score mr \<le> ar_score q"
      "ar_score r \<le> ar_score mr" "address_store_insert E s r = s"
  | (Evicted) mr where "hm_get (as_addresses s) (ar_address r) = None"
      "as_max_capacity s = length (as_addresses s)"
      "hm_get (as_addresses s) (ar_address mr) = Some mr"
      "\<And>a q. hm_get (as_addresses s) a = Some q \<Longrightarrow> ar_score mr \<le> ar_score q"
      "ar_score mr < ar_score r"
      "address_store_insert E s r = s\<lparr>as_addresses := hm_insert (ar_address r) (with_public_bonus E r)
         (hm_remove (ar_address mr) (as_addresses s))\<rparr>"
  | (Added) "hm_get (as_addresses s) (ar_address r) = None"
      "length (as_addresses s) < as_max_capacity s"
      "address_store_insert E s r
         = s\<lparr>as_addresses := hm_insert (ar_address r) (with_public_bonus E r) (as_addresses s)\<rparr>"
proof (cases "hm_get (as_addresses s) (ar_address r)")
  case (Some old)
  then show ?thesis
    by (cases "ar_score r = 0") (auto simp: address_store_insert_def intro: Updated Kept)
next
  case None
  show ?thesis
  proof (cases "length (as_addresses s) < as_max_capacity s")
    case True
    with None Added show ?thesis by (simp add: address_store_insert_def)
  next
    case False
    then have full: "as_max_capacity s = length (as_addresses s)"
      using assms(2) by (simp add: address_store_ok_def)
    from insert_no_panic [OF assms, of r] None False obtain mr
      where mr: "min_record (map snd (store_order E (as_addresses s))) = Some mr"
      by (auto simp: address_store_insert_panics_def)
    show ?thesis
      using Rejected [OF None full store_min [OF assms mr]]
        Evicted [OF None full store_min [OF assms mr]] None False mr
      by (cases "ar_score r \<le> ar_score mr") (simp_all add: address_store_insert_def)
  qed
qed

lemma as_max_capacity_insert [simp]: "as_max_capacity (address_store_insert E s r) = as_max_capacity s"
  by (simp add: address_store_insert_def Let_def split: option.splits)

text \<open>Writing one well-formed entry within the capacity keeps the invariant.\<close>

lemma address_store_ok_put:
  assumes "hm_ok m" "0 < as_max_capacity s" "length (hm_insert a r m) \<le> as_max_capacity s"
    and "\<And>b q. hm_get m b = Some q \<Longrightarrow> ar_address q = b \<and> i32_ok (ar_score q)"
    and "ar_address r = a" "i32_ok (ar_score r)"
  shows "address_store_ok (s\<lparr>as_addresses := hm_insert a r m\<rparr>)"
  using assms by (intro address_store_okI) (auto split: if_splits)

lemma address_store_insert_ok:
  assumes E: "address_env_ok E" and s: "address_store_ok s" and r: "i32_ok (ar_score r)"
  shows "address_store_ok (address_store_insert E s r)"
proof -
  note ok = address_store_okD [OF s]
  have cap: "0 < as_max_capacity s" using s by (simp add: address_store_ok_def)
  from E s show ?thesis
  proof (cases rule: address_store_insert_cases [of E s r])
    case (Updated old)
    have "address_store_ok (s\<lparr>as_addresses := hm_insert (ar_address r) (update_score old (ar_score r)) (as_addresses s)\<rparr>)"
      using Updated(1) ok(1,2) cap r ok(3) [OF Updated(1)]
      by (intro address_store_ok_put ok(3)) (simp_all add: hm_len_insert update_score_def)
    with Updated(3) show ?thesis by simp
  next
    case (Evicted mr)
    let ?m = "hm_remove (ar_address mr) (as_addresses s)"
    have ne: "ar_address r \<noteq> ar_address mr" using Evicted(1,3) by auto
    have len: "length (hm_insert (ar_address r) (with_public_bonus E r) ?m) \<le> as_max_capacity s"
      using Evicted(1,3) ne ok(1) cap Evicted(2) by (simp add: hm_len_insert hm_len_remove)
    have "address_store_ok (s\<lparr>as_addresses := hm_insert (ar_address r) (with_public_bonus E r) ?m\<rparr>)"
      using ok(1) cap len with_public_bonus_score [OF r]
      by (intro address_store_ok_put) (auto dest: ok(3) split: if_splits)
    with Evicted(6) show ?thesis by simp
  next
    case Added
    have len: "length (hm_insert (ar_address r) (with_public_bonus E r) (as_addresses s)) \<le> as_max_capacity s"
      using Added(1,2) ok(1) by (simp add: hm_len_insert)
    have "address_store_ok (s\<lparr>as_addresses := hm_insert (ar_address r) (with_public_bonus E r) (as_addresses s)\<rparr>)"
      using ok(1) cap len with_public_bonus_score [OF r]
      by (intro address_store_ok_put) (auto dest: ok(3))
    with Added(3) show ?thesis by simp
  qed (use s in simp_all)
qed

lemma address_store_insert_keys:
  assumes "address_env_ok E" "address_store_ok s"
  shows "hm_keys (as_addresses (address_store_insert E s r)) \<subseteq> insert (ar_address r) (hm_keys (as_addresses s))"
  using assms by (cases rule: address_store_insert_cases [of E s r]) auto

lemma address_store_retain_ok: "address_store_ok s \<Longrightarrow> address_store_ok (address_store_retain p s)"
  by (auto simp: address_store_ok_def address_store_retain_def hm_ok_def distinct_map_filter
      intro: order_trans [OF length_filter_le])

subsection \<open>The contract of the store\<close>

text \<open>
  A bounded collection of keyed records: inserting a well-formed record keeps the invariant and the
  capacity and adds at most the record's key. Its clients insert lists of records.
\<close>

locale bounded_store =
  fixes insert :: "'s \<Rightarrow> 'r \<Rightarrow> 's"
    and keys :: "'s \<Rightarrow> 'k set"
    and key :: "'r \<Rightarrow> 'k"
    and capacity :: "'s \<Rightarrow> nat"
    and ok :: "'s \<Rightarrow> bool"
    and valid :: "'r \<Rightarrow> bool"
  assumes ok_insert: "ok s \<Longrightarrow> valid r \<Longrightarrow> ok (insert s r)"
    and ok_bound: "ok s \<Longrightarrow> finite (keys s) \<and> card (keys s) \<le> capacity s"
    and capacity_insert: "capacity (insert s r) = capacity s"
    and keys_insert: "ok s \<Longrightarrow> keys (insert s r) \<subseteq> Set.insert (key r) (keys s)"
begin

lemma ok_foldl: "ok s \<Longrightarrow> list_all valid rs \<Longrightarrow> ok (foldl insert s rs)"
  by (induction rs arbitrary: s) (auto simp: ok_insert)

lemma capacity_foldl: "capacity (foldl insert s rs) = capacity s"
  by (induction rs arbitrary: s) (auto simp: capacity_insert)

lemma card_foldl: "ok s \<Longrightarrow> list_all valid rs \<Longrightarrow> card (keys (foldl insert s rs)) \<le> capacity s"
  using ok_bound ok_foldl capacity_foldl by metis

lemma keys_foldl:
  "ok s \<Longrightarrow> list_all valid rs \<Longrightarrow> keys (foldl insert s rs) \<subseteq> key ` set rs \<union> keys s"
proof (induction rs arbitrary: s)
  case (Cons r rs)
  then have "keys (foldl insert (insert s r) rs) \<subseteq> key ` set rs \<union> keys (insert s r)"
    by (simp add: ok_insert)
  with keys_insert [of s r] Cons.prems show ?case by auto
qed simp

end

interpretation astore: bounded_store "address_store_insert E" "\<lambda>s. hm_keys (as_addresses s)" ar_address
  as_max_capacity "\<lambda>s. address_env_ok E \<and> address_store_ok s" "\<lambda>r. i32_ok (ar_score r)" for E
proof
  fix s r
  assume "address_env_ok E \<and> address_store_ok s"
  then show "hm_keys (as_addresses (address_store_insert E s r)) \<subseteq> insert (ar_address r) (hm_keys (as_addresses s))"
    by (simp add: address_store_insert_keys)
next
  fix s
  assume "address_env_ok E \<and> address_store_ok s"
  then show "finite (hm_keys (as_addresses s)) \<and> card (hm_keys (as_addresses s)) \<le> as_max_capacity s"
    by (auto simp: address_store_ok_def simp flip: hm_len_keys)
qed (simp_all add: address_store_insert_ok)

lemma i32_ok_0 [simp]: "i32_ok 0"
  by (simp add: i32_ok_def i32_min_def i32_max_def)

lemma i32_ok_scores [simp]:
  "i32_ok CONNECTION_ESTABLISHED" "i32_ok CONNECTION_FAILURE" "i32_ok ADDRESS_FAILURE"
  by (simp_all add: i32_ok_def i32_min_def i32_max_def score_defs)

lemma ar_score_from_raw [simp]:
  "ar_score (from_raw_multiaddr a) = 0" "ar_score (from_raw_multiaddr_with_score a n) = n"
  "ar_address (from_raw_multiaddr a) = a" "ar_address (from_raw_multiaddr_with_score a n) = a"
  by (simp_all add: from_raw_multiaddr_def from_raw_multiaddr_with_score_def)

lemma error_score_ok [simp]: "i32_ok (error_score e)"
  by (cases e) simp_all

lemma address_store_extend_ok:
  "address_env_ok E \<Longrightarrow> address_store_ok s \<Longrightarrow> list_all (\<lambda>r. i32_ok (ar_score r)) rs \<Longrightarrow>
     address_store_ok (address_store_extend E s rs)"
  unfolding address_store_extend_def using astore.ok_foldl by blast

subsection \<open>Properties\<close>

text \<open>A concrete environment and stores for the witnesses.\<close>

definition example_env :: address_env where
  "example_env = \<lparr>ip4_is_global = (\<lambda>ip. ip = 0x08080808), ip6_is_global = (\<lambda>_. False), store_order = rev\<rparr>"

definition example_store :: address_store where
  "example_store = \<lparr>as_addresses =
     [([Tcp 1], from_raw_multiaddr_with_score [Tcp 1] (- 100)),
      ([Tcp 2], from_raw_multiaddr_with_score [Tcp 2] 100)], as_max_capacity = 2\<rparr>"

lemma example_env_ok [simp]: "address_env_ok example_env"
  by (simp add: address_env_ok_def example_env_def iteration_order_rev)

lemma example_store_ok [simp]: "address_store_ok example_store"
  by (simp add: address_store_ok_def example_store_def hm_ok_def i32_ok_def i32_min_def i32_max_def)

text \<open>
  C1: Inserting any record into a well-formed address store never reaches the \<open>expect\<close> on the minimum,
  never exceeds the capacity, and keeps the store well-formed: distinct addresses, every record filed
  under its own address, every score a 32-bit value.
\<close>

theorem address_store_insert_safe:
  assumes "address_env_ok E" and "address_store_ok s" and "i32_ok (ar_score r)"
  shows "\<not> address_store_insert_panics E s r
    \<and> address_store_ok (address_store_insert E s r)
    \<and> length (as_addresses (address_store_insert E s r)) \<le> as_max_capacity s"
  using insert_no_panic [OF assms(1,2)] address_store_insert_ok [OF assms]
    address_store_okD(2) [OF address_store_insert_ok [OF assms]] by simp

theorem address_store_insert_safe_witness:
  "address_store_ok (address_store_insert example_env example_store (from_raw_multiaddr [Dns ''x'']))"
  using address_store_insert_safe [of example_env example_store "from_raw_multiaddr [Dns ''x'']"] by simp

text \<open>
  C2: Inserting a record changes no other address except by evicting at most one: an address other than
  the inserted one keeps its score, or it is the single evicted address, in which case the store was
  full, its score was least in the store and strictly below the score of the new record before the
  public-address bonus, and the new address is now stored.
\<close>

theorem address_store_insert_eviction:
  assumes E: "address_env_ok E" and s: "address_store_ok s"
  shows "\<exists>victim. \<forall>a. a \<noteq> ar_address r \<longrightarrow>
    score_of (address_store_insert E s r) a = score_of s a \<or>
    (a = victim \<and> score_of (address_store_insert E s r) a = None \<and>
     length (as_addresses s) = as_max_capacity s \<and>
     (\<exists>v. score_of s a = Some v \<and> v < ar_score r \<and>
        (\<forall>b w. score_of s b = Some w \<longrightarrow> v \<le> w)) \<and>
     score_of (address_store_insert E s r) (ar_address r) \<noteq> None)"
  using assms
proof (cases rule: address_store_insert_cases [of E s r])
  case (Evicted mr)
  then have "score_of s (ar_address mr) = Some (ar_score mr)"
    and "\<forall>b w. score_of s b = Some w \<longrightarrow> ar_score mr \<le> w"
    by (auto simp: score_of_def)
  with Evicted show ?thesis
    by (intro exI [of _ "ar_address mr"]) (auto simp: score_of_def)
qed (auto simp: score_of_def)

theorem address_store_insert_eviction_witness:
  "score_of (address_store_insert example_env example_store (from_raw_multiaddr [Tcp 3])) [Tcp 1] = None
   \<and> score_of (address_store_insert example_env example_store (from_raw_multiaddr [Tcp 3])) [Tcp 2] = Some 100
   \<and> (\<exists>victim. \<forall>a. a \<noteq> [Tcp 3] \<longrightarrow>
        score_of (address_store_insert example_env example_store (from_raw_multiaddr [Tcp 3])) a
          = score_of example_store a \<or> a = victim)"
proof -
  have "score_of (address_store_insert example_env example_store (from_raw_multiaddr [Tcp 3])) [Tcp 1] = None"
    and "score_of (address_store_insert example_env example_store (from_raw_multiaddr [Tcp 3])) [Tcp 2] = Some 100"
    by (simp_all add: score_of_def address_store_insert_def example_store_def example_env_def with_public_bonus_def)
  with address_store_insert_eviction [of example_env example_store "from_raw_multiaddr [Tcp 3]"]
  show ?thesis by auto
qed

text \<open>
  C3: \<open>addresses(limit)\<close> returns \<open>min(limit, size)\<close> distinct stored addresses in order of decreasing score,
  and no address it leaves out has a higher score than one it returns, whatever order the hash map is
  iterated in.
\<close>

theorem address_store_addresses_best:
  assumes E: "address_env_ok E" and s: "address_store_ok s"
  shows "let out = address_store_addresses E s limit in
    distinct out \<and> length out = min limit (length (as_addresses s)) \<and>
    set out \<subseteq> hm_keys (as_addresses s) \<and>
    sorted (map (\<lambda>a. - the (score_of s a)) out) \<and>
    (\<forall>a \<in> set out. \<forall>b \<in> hm_keys (as_addresses s) - set out.
       the (score_of s b) \<le> the (score_of s a))"
proof -
  let ?recs = "map snd (store_order E (as_addresses s))"
  define xs where "xs = sort_key (\<lambda>r. - ar_score r) ?recs"
  note recs = store_records [OF E s]
  have xs_set: "set xs = set ?recs" and srt: "sorted (map (\<lambda>r. - ar_score r) xs)"
    by (simp_all add: xs_def)
  have dist: "distinct (map ar_address xs)"
  proof -
    have "mset (map ar_address xs) = mset (map ar_address ?recs)"
      by (simp add: xs_def multiset.map_comp)
    then show ?thesis using recs(2) mset_eq_imp_distinct_iff by blast
  qed
  have out: "address_store_addresses E s limit = map ar_address (take limit xs)"
    by (simp add: address_store_addresses_def xs_def)
  have score: "the (score_of s (ar_address r)) = ar_score r" if "r \<in> set xs" for r
    using recs(3) that xs_set by (simp add: score_of_def)
  have "map (\<lambda>a. - the (score_of s a)) (map ar_address (take limit xs))
      = take limit (map (\<lambda>r. - ar_score r) xs)"
    using score by (auto simp: take_map dest: in_set_takeD)
  then have srt_out: "sorted (map (\<lambda>a. - the (score_of s a)) (map ar_address (take limit xs)))"
    using srt by (simp only: sorted_wrt_take)
  have best: "the (score_of s b) \<le> the (score_of s a)"
    if a: "a \<in> set (map ar_address (take limit xs))"
      and b: "b \<in> hm_keys (as_addresses s) - set (map ar_address (take limit xs))" for a b
  proof -
    from a obtain r where r: "r \<in> set (take limit xs)" "a = ar_address r" by auto
    have "b \<in> ar_address ` set xs" using b recs(1) xs_set by simp
    then obtain q where q: "q \<in> set xs" "b = ar_address q" by blast
    then have "q \<in> set (drop limit xs)"
      using b by (metis DiffD2 Un_iff append_take_drop_id image_eqI list.set_map set_append)
    then have "- ar_score r \<le> - ar_score q"
      using take_sorted_le [OF srt r(1)] by simp
    with r q score show ?thesis by (metis in_set_takeD neg_le_iff_le)
  qed
  have "distinct (map ar_address (take limit xs))"
    using dist by (metis distinct_take take_map)
  moreover have "length (map ar_address (take limit xs)) = min limit (length (as_addresses s))"
    using recs(4) by (simp add: xs_def min.commute)
  moreover have "set (map ar_address (take limit xs)) \<subseteq> hm_keys (as_addresses s)"
    using recs(1) xs_set by (metis image_mono list.set_map set_take_subset)
  ultimately show ?thesis
    unfolding Let_def out using srt_out best by blast
qed

theorem address_store_addresses_best_witness:
  "address_store_addresses example_env example_store 1 = [[Tcp 2]]
   \<and> the (score_of example_store [Tcp 1]) \<le> the (score_of example_store [Tcp 2])"
proof -
  have out: "address_store_addresses example_env example_store 1 = [[Tcp 2]]"
    by (simp add: address_store_addresses_def example_env_def example_store_def)
  moreover have "hm_keys (as_addresses example_store) = {[Tcp 1], [Tcp 2]}"
    by (simp add: hm_keys_def example_store_def)
  ultimately show ?thesis
    using address_store_addresses_best [of example_env example_store 1]
    by (simp only: example_env_ok example_store_ok out Let_def) simp
qed

end
