(* ===== verification/Peer_State.thy ===== *)
theory Peer_State
  imports Address_Store
begin

section \<open>The connection state machine of a peer\<close>

text \<open>
  \<open>src/transport/manager/peer_state.rs\<close> and \<open>src/transport/manager/types.rs\<close>. Every method that
  takes \<open>&mut self\<close> returns its result together with the new state. The abstract view of a peer is
  the set of its live connections and the identifier of the outstanding dial attempt; the
  transitions are shown to implement the obvious operations on that view.
\<close>

datatype supported_transport = TransportTcp | TransportQuic | TransportWebRtc | TransportWebSocket

record connection_record =
  cr_address :: multiaddr
  cr_connection_id :: connection_id

datatype secondary_or_dialing =
    Secondary connection_record
  | SecondaryDialing connection_record

datatype peer_state =
    Connected connection_record "secondary_or_dialing option"
  | Opening "multiaddr set" connection_id "supported_transport set"
  | Dialing connection_record
  | Disconnected "connection_record option"

datatype state_dial_result = AlreadyConnected | DialingInProgress | DialOk

record peer_context =
  pc_state :: peer_state
  pc_addresses :: address_store

definition peer_context_default :: peer_context where
  "peer_context_default = \<lparr>pc_state = Disconnected None, pc_addresses = address_store_new\<rparr>"

subsection \<open>Transitions\<close>

fun can_dial :: "peer_state \<Rightarrow> state_dial_result" where
  "can_dial (Connected _ _) = AlreadyConnected"
| "can_dial (Dialing _) = DialingInProgress"
| "can_dial (Opening _ _ _) = DialingInProgress"
| "can_dial (Disconnected (Some _)) = DialingInProgress"
| "can_dial (Disconnected None) = DialOk"

definition dial_single_address ::
  "peer_state \<Rightarrow> connection_record \<Rightarrow> state_dial_result \<times> peer_state" where
  "dial_single_address self dial_record =
     (case can_dial self of
        DialOk \<Rightarrow> (DialOk, Dialing dial_record)
      | reason \<Rightarrow> (reason, self))"

definition dial_addresses ::
  "peer_state \<Rightarrow> connection_id \<Rightarrow> multiaddr set \<Rightarrow> supported_transport set
     \<Rightarrow> state_dial_result \<times> peer_state" where
  "dial_addresses self connection_id addresses transports =
     (case can_dial self of
        DialOk \<Rightarrow> (DialOk, Opening addresses connection_id transports)
      | reason \<Rightarrow> (reason, self))"

fun peer_on_dial_failure :: "peer_state \<Rightarrow> connection_id \<Rightarrow> bool \<times> peer_state" where
  "peer_on_dial_failure (Dialing dial_record) connection_id =
     (if cr_connection_id dial_record = connection_id then (True, Disconnected None)
      else (False, Dialing dial_record))"
| "peer_on_dial_failure (Connected record (Some (SecondaryDialing dial_record))) connection_id =
     (if cr_connection_id dial_record = connection_id then (True, Connected record None)
      else (False, Connected record (Some (SecondaryDialing dial_record))))"
| "peer_on_dial_failure (Disconnected (Some dial_record)) connection_id =
     (if cr_connection_id dial_record = connection_id then (True, Disconnected None)
      else (False, Disconnected (Some dial_record)))"
| "peer_on_dial_failure self connection_id = (False, self)"

definition convert_or_preserve :: "connection_record \<Rightarrow> connection_record \<Rightarrow> bool \<times> peer_state" where
  "convert_or_preserve dial_record connection =
     (if cr_connection_id dial_record = cr_connection_id connection
      then (True, Connected connection None)
      else (True, Connected connection (Some (SecondaryDialing dial_record))))"

fun peer_on_connection_established :: "peer_state \<Rightarrow> connection_record \<Rightarrow> bool \<times> peer_state" where
  "peer_on_connection_established (Connected record (Some (SecondaryDialing dial_record))) connection =
     (if cr_connection_id dial_record = cr_connection_id connection
      then (True, Connected record (Some (Secondary connection)))
      else (False, Connected record (Some (SecondaryDialing dial_record))))"
| "peer_on_connection_established (Connected record None) connection =
     (True, Connected record (Some (Secondary connection)))"
| "peer_on_connection_established (Dialing dial_record) connection =
     convert_or_preserve dial_record connection"
| "peer_on_connection_established (Disconnected (Some dial_record)) connection =
     convert_or_preserve dial_record connection"
| "peer_on_connection_established (Disconnected None) connection = (True, Connected connection None)"
| "peer_on_connection_established (Opening _ _ _) connection = (True, Connected connection None)"
| "peer_on_connection_established self connection = (False, self)"

fun peer_on_connection_closed :: "peer_state \<Rightarrow> connection_id \<Rightarrow> bool \<times> peer_state" where
  "peer_on_connection_closed (Connected record secondary) connection_id =
     (if cr_connection_id record = connection_id then
        (case secondary of
           Some (Secondary sec) \<Rightarrow> (False, Connected sec None)
         | Some (SecondaryDialing dial_record) \<Rightarrow> (True, Disconnected (Some dial_record))
         | None \<Rightarrow> (True, Disconnected None))
      else
        (case secondary of
           Some (Secondary sec) \<Rightarrow>
             if cr_connection_id sec = connection_id then (False, Connected record None)
             else (False, Connected record secondary)
         | _ \<Rightarrow> (False, Connected record secondary)))"
| "peer_on_connection_closed self connection_id = (False, self)"

fun peer_on_open_failure :: "peer_state \<Rightarrow> supported_transport \<Rightarrow> bool \<times> peer_state" where
  "peer_on_open_failure (Opening addresses connection_id transports) transport =
     (let remaining = transports - {transport}
      in if remaining = {} then (True, Disconnected None)
         else (False, Opening addresses connection_id remaining))"
| "peer_on_open_failure self transport = (False, self)"

fun peer_on_connection_opened :: "peer_state \<Rightarrow> connection_record \<Rightarrow> bool \<times> peer_state" where
  "peer_on_connection_opened (Opening addresses connection_id transports) record =
     (True, Dialing record)"
| "peer_on_connection_opened self record = (False, self)"

definition ensure_peer_id :: "peer_id \<Rightarrow> multiaddr \<Rightarrow> multiaddr" where
  "ensure_peer_id peer address =
     (case last_opt address of
        Some (P2p multihash) \<Rightarrow>
          if multihash \<noteq> pid_multihash peer then butlast address @ [P2p (pid_multihash peer)]
          else address
      | _ \<Rightarrow> address @ [P2p (pid_multihash peer)])"

definition connection_record_new :: "peer_id \<Rightarrow> multiaddr \<Rightarrow> connection_id \<Rightarrow> connection_record" where
  "connection_record_new peer address connection_id =
     \<lparr>cr_address = ensure_peer_id peer address, cr_connection_id = connection_id\<rparr>"

definition connection_record_from_endpoint :: "peer_id \<Rightarrow> endpoint \<Rightarrow> connection_record" where
  "connection_record_from_endpoint peer e =
     \<lparr>cr_address = ensure_peer_id peer (endpoint_address e),
      cr_connection_id = endpoint_connection_id e\<rparr>"

lemma ensure_peer_id_last [simp]: "last_opt (ensure_peer_id peer a) = Some (P2p (pid_multihash peer))"
  by (auto simp: ensure_peer_id_def split: option.splits protocol.splits)

lemma cr_connection_id_new [simp]:
  "cr_connection_id (connection_record_new p a c) = c"
  "cr_connection_id (connection_record_from_endpoint p e) = endpoint_connection_id e"
  by (simp_all add: connection_record_new_def connection_record_from_endpoint_def)

subsection \<open>The abstract view\<close>

fun live :: "peer_state \<Rightarrow> connection_id set" where
  "live (Connected record (Some (Secondary sec))) = {cr_connection_id record, cr_connection_id sec}"
| "live (Connected record _) = {cr_connection_id record}"
| "live _ = {}"

fun attempt :: "peer_state \<Rightarrow> connection_id option" where
  "attempt (Connected _ (Some (SecondaryDialing dial_record))) = Some (cr_connection_id dial_record)"
| "attempt (Opening _ connection_id _) = Some connection_id"
| "attempt (Dialing dial_record) = Some (cr_connection_id dial_record)"
| "attempt (Disconnected (Some dial_record)) = Some (cr_connection_id dial_record)"
| "attempt _ = None"

fun is_opening :: "peer_state \<Rightarrow> bool" where
  "is_opening (Opening _ _ _) = True"
| "is_opening _ = False"

fun peer_state_ok :: "peer_state \<Rightarrow> bool" where
  "peer_state_ok (Connected record (Some (Secondary sec))) \<longleftrightarrow>
     cr_connection_id record \<noteq> cr_connection_id sec"
| "peer_state_ok (Connected record (Some (SecondaryDialing dial_record))) \<longleftrightarrow>
     cr_connection_id record \<noteq> cr_connection_id dial_record"
| "peer_state_ok (Opening _ _ transports) \<longleftrightarrow> transports \<noteq> {}"
| "peer_state_ok _ \<longleftrightarrow> True"

record peer_view =
  pv_live :: "connection_id set"
  pv_attempt :: "connection_id option"

definition view :: "peer_state \<Rightarrow> peer_view" where
  "view s = \<lparr>pv_live = live s, pv_attempt = attempt s\<rparr>"

definition spec_closed :: "peer_view \<Rightarrow> connection_id \<Rightarrow> bool \<times> peer_view" where
  "spec_closed v c = (pv_live v = {c}, v\<lparr>pv_live := pv_live v - {c}\<rparr>)"

definition spec_dial_failure :: "peer_view \<Rightarrow> connection_id \<Rightarrow> bool \<times> peer_view" where
  "spec_dial_failure v c =
     (if pv_attempt v = Some c then (True, v\<lparr>pv_attempt := None\<rparr>) else (False, v))"

definition spec_accepts :: "peer_view \<Rightarrow> connection_id \<Rightarrow> bool" where
  "spec_accepts v c \<longleftrightarrow>
     card (pv_live v) < 2 \<and> (pv_live v = {} \<or> pv_attempt v = None \<or> pv_attempt v = Some c)"

definition spec_established :: "bool \<Rightarrow> peer_view \<Rightarrow> connection_id \<Rightarrow> bool \<times> peer_view" where
  "spec_established opening v c =
     (if spec_accepts v c
      then (True, \<lparr>pv_live = insert c (pv_live v),
                   pv_attempt = (if opening \<or> pv_attempt v = Some c then None else pv_attempt v)\<rparr>)
      else (False, v))"

lemma finite_live [simp]: "finite (live s)"
  by (cases s rule: live.cases) auto

lemma card_live: "card (live s) \<le> 2"
  by (cases s rule: live.cases) (auto simp: card_insert_if)

lemma attempt_not_live: "peer_state_ok s \<Longrightarrow> attempt s = Some c \<Longrightarrow> c \<notin> live s"
  by (cases s rule: peer_state_ok.cases) (auto elim: attempt.elims)

lemma can_dial_DialOk: "can_dial s = DialOk \<longleftrightarrow> live s = {} \<and> attempt s = None"
  by (cases s rule: can_dial.cases) (auto elim: live.elims)

lemma can_dial_AlreadyConnected: "can_dial s = AlreadyConnected \<longleftrightarrow> live s \<noteq> {}"
  by (cases s rule: can_dial.cases) (auto elim: live.elims)

lemma view_closed:
  "peer_state_ok s \<Longrightarrow>
     spec_closed (view s) c = map_prod id view (peer_on_connection_closed s c)"
  by (cases s rule: peer_state_ok.cases)
    (auto simp: spec_closed_def view_def map_prod_def split: option.splits)

lemma view_dial_failure:
  "\<not> is_opening s \<Longrightarrow> spec_dial_failure (view s) c = map_prod id view (peer_on_dial_failure s c)"
  by (cases "(s, c)" rule: peer_on_dial_failure.cases)
    (auto simp: spec_dial_failure_def view_def map_prod_def)

lemma view_established:
  assumes "peer_state_ok s" "cr_connection_id r \<notin> live s"
  shows "spec_established (is_opening s) (view s) (cr_connection_id r)
           = map_prod id view (peer_on_connection_established s r)"
  using assms
  by (cases "(s, r)" rule: peer_on_connection_established.cases)
    (auto simp: spec_established_def spec_accepts_def view_def map_prod_def convert_or_preserve_def)

subsection \<open>Reachable states\<close>

datatype peer_event =
    EvDialSingle connection_record
  | EvDialAddresses connection_id "multiaddr set" "supported_transport set"
  | EvDialFailure connection_id
  | EvEstablished connection_record
  | EvClosed connection_id
  | EvOpenFailure supported_transport
  | EvOpened connection_record
  | EvNegotiationFailed

fun peer_apply :: "peer_state \<Rightarrow> peer_event \<Rightarrow> peer_state" where
  "peer_apply s (EvDialSingle r) = snd (dial_single_address s r)"
| "peer_apply s (EvDialAddresses c as ts) = snd (dial_addresses s c as ts)"
| "peer_apply s (EvDialFailure c) = snd (peer_on_dial_failure s c)"
| "peer_apply s (EvEstablished r) = snd (peer_on_connection_established s r)"
| "peer_apply s (EvClosed c) = snd (peer_on_connection_closed s c)"
| "peer_apply s (EvOpenFailure t) = snd (peer_on_open_failure s t)"
| "peer_apply s (EvOpened r) = snd (peer_on_connection_opened s r)"
| "peer_apply s EvNegotiationFailed = (if live s = {} then Disconnected None else s)"

text \<open>
  The events the manager can deliver: an established connection carries an identifier that is not
  live, and a dial over several addresses names at least one transport.
\<close>

fun peer_event_ok :: "peer_state \<Rightarrow> peer_event \<Rightarrow> bool" where
  "peer_event_ok s (EvEstablished r) \<longleftrightarrow> cr_connection_id r \<notin> live s"
| "peer_event_ok s (EvDialAddresses c as ts) \<longleftrightarrow> ts \<noteq> {}"
| "peer_event_ok s _ \<longleftrightarrow> True"

inductive peer_reachable :: "peer_state \<Rightarrow> bool" where
  start: "peer_reachable (Disconnected None)"
| step: "peer_reachable s \<Longrightarrow> peer_event_ok s e \<Longrightarrow> peer_reachable (peer_apply s e)"

lemma dial_ok: "peer_state_ok s \<Longrightarrow> peer_state_ok (snd (dial_single_address s r))"
  "peer_state_ok s \<Longrightarrow> ts \<noteq> {} \<Longrightarrow> peer_state_ok (snd (dial_addresses s c as ts))"
  by (auto simp: dial_single_address_def dial_addresses_def split: state_dial_result.splits)

lemma peer_on_dial_failure_ok: "peer_state_ok s \<Longrightarrow> peer_state_ok (snd (peer_on_dial_failure s c))"
  by (cases "(s, c)" rule: peer_on_dial_failure.cases) auto

lemma peer_on_connection_established_ok:
  "peer_state_ok s \<Longrightarrow> cr_connection_id r \<notin> live s \<Longrightarrow>
     peer_state_ok (snd (peer_on_connection_established s r))"
  by (cases "(s, r)" rule: peer_on_connection_established.cases)
    (auto simp: convert_or_preserve_def)

lemma peer_on_connection_closed_ok:
  "peer_state_ok s \<Longrightarrow> peer_state_ok (snd (peer_on_connection_closed s c))"
  by (cases s rule: peer_state_ok.cases) (auto split: option.splits)

lemma peer_on_open_failure_ok: "peer_state_ok s \<Longrightarrow> peer_state_ok (snd (peer_on_open_failure s t))"
  by (cases "(s, t)" rule: peer_on_open_failure.cases) (auto simp: Let_def)

lemma peer_on_connection_opened_ok:
  "peer_state_ok s \<Longrightarrow> peer_state_ok (snd (peer_on_connection_opened s r))"
  by (cases "(s, r)" rule: peer_on_connection_opened.cases) auto

lemmas peer_transition_ok = dial_ok peer_on_dial_failure_ok peer_on_connection_established_ok
  peer_on_connection_closed_ok peer_on_open_failure_ok peer_on_connection_opened_ok

lemma peer_apply_ok: "peer_state_ok s \<Longrightarrow> peer_event_ok s e \<Longrightarrow> peer_state_ok (peer_apply s e)"
  by (cases e) (simp_all add: peer_transition_ok)

lemma peer_reachable_ok: "peer_reachable s \<Longrightarrow> peer_state_ok s"
  by (induction rule: peer_reachable.induct) (auto intro: peer_apply_ok)

subsection \<open>Properties\<close>

abbreviation example_record :: "connection_id \<Rightarrow> connection_record" where
  "example_record c \<equiv> \<lparr>cr_address = [], cr_connection_id = c\<rparr>"

lemma example_reachable: "peer_reachable (Connected (example_record 2) (Some (SecondaryDialing (example_record 1))))"
proof -
  have "peer_reachable (Dialing (example_record 1))"
    using peer_reachable.step [OF peer_reachable.start, of "EvDialSingle (example_record 1)"]
    by (simp add: dial_single_address_def)
  then show ?thesis
    using peer_reachable.step [of "Dialing (example_record 1)" "EvEstablished (example_record 2)"]
    by (simp add: convert_or_preserve_def)
qed

text \<open>
  C4: Whatever sequence of events a peer goes through, it has at most two live connections, the
  identifier of an outstanding dial attempt is never that of a live connection, and a new dial is
  accepted exactly when the peer has neither a live connection nor an outstanding attempt.
\<close>

theorem peer_state_invariant:
  assumes "peer_reachable s"
  shows "card (live s) \<le> 2 \<and> (\<forall>c. attempt s = Some c \<longrightarrow> c \<notin> live s)
    \<and> (can_dial s = DialOk \<longleftrightarrow> live s = {} \<and> attempt s = None)
    \<and> (can_dial s = AlreadyConnected \<longleftrightarrow> live s \<noteq> {})"
  using assms peer_reachable_ok attempt_not_live card_live can_dial_DialOk can_dial_AlreadyConnected
  by blast

theorem peer_state_invariant_witness:
  "card (live (Connected (example_record 2) (Some (SecondaryDialing (example_record 1))))) \<le> 2
   \<and> attempt (Connected (example_record 2) (Some (SecondaryDialing (example_record 1)))) = Some 1
   \<and> 1 \<notin> live (Connected (example_record 2) (Some (SecondaryDialing (example_record 1))))"
  using peer_state_invariant [OF example_reachable] by simp

text \<open>
  C5: In every reachable state the concrete transitions implement the abstract peer: closing a
  connection removes it from the live set and reports closure exactly when it was the last one; an
  established connection is added, unless two are live or another dial is outstanding beside a live
  one, and completes the attempt that carries its identifier; a dial failure outside the opening
  phase clears exactly the attempt that carries its identifier.
\<close>

theorem peer_state_refines:
  assumes "peer_reachable s"
  shows "map_prod id view (peer_on_connection_closed s c) = spec_closed (view s) c
    \<and> (cr_connection_id r \<notin> live s \<longrightarrow>
        map_prod id view (peer_on_connection_established s r)
          = spec_established (is_opening s) (view s) (cr_connection_id r))
    \<and> (\<not> is_opening s \<longrightarrow>
        map_prod id view (peer_on_dial_failure s c) = spec_dial_failure (view s) c)"
  using assms by (simp_all add: view_closed view_established view_dial_failure peer_reachable_ok)

theorem peer_state_refines_witness:
  "view (snd (peer_on_connection_established
      (Connected (example_record 2) (Some (SecondaryDialing (example_record 1)))) (example_record 1)))
     = \<lparr>pv_live = {1, 2}, pv_attempt = None\<rparr>
   \<and> fst (peer_on_connection_established
      (Connected (example_record 2) (Some (SecondaryDialing (example_record 1)))) (example_record 3)) = False"
  using peer_state_refines [OF example_reachable, of _ "example_record 1"]
    peer_state_refines [OF example_reachable, of _ "example_record 3"]
  by (auto simp: view_def)

end
