(* ===== verification/Connection_Limits.thy ===== *)
theory Connection_Limits
  imports Multiaddr
begin

section \<open>Connection limits\<close>

text \<open>
  \<open>src/transport/manager/limits.rs\<close>. The locale \<open>admission_control\<close> is the contract the transport
  manager relies on: admitting a connection that was checked keeps the limits, and closing one
  releases it.
\<close>

record connection_limits_config =
  max_incoming_connections :: "usize option"
  max_outgoing_connections :: "usize option"

datatype connection_limits_error = MaxIncomingConnectionsExceeded | MaxOutgoingConnectionsExceeded

record connection_limits =
  cl_config :: connection_limits_config
  incoming_connections :: "connection_id set"
  outgoing_connections :: "connection_id set"

definition limits_config_max_incoming ::
  "connection_limits_config \<Rightarrow> usize option \<Rightarrow> connection_limits_config" where
  "limits_config_max_incoming config limit = config\<lparr>max_incoming_connections := limit\<rparr>"

definition limits_config_max_outgoing ::
  "connection_limits_config \<Rightarrow> usize option \<Rightarrow> connection_limits_config" where
  "limits_config_max_outgoing config limit = config\<lparr>max_outgoing_connections := limit\<rparr>"

definition connection_limits_new :: "connection_limits_config \<Rightarrow> connection_limits" where
  "connection_limits_new config =
     \<lparr>cl_config = config, incoming_connections = {}, outgoing_connections = {}\<rparr>"

definition limits_on_dial_address :: "connection_limits \<Rightarrow> (connection_limits_error, usize) result" where
  "limits_on_dial_address l =
     (case max_outgoing_connections (cl_config l) of
        Some m \<Rightarrow>
          if card (outgoing_connections l) \<ge> m then Inl MaxOutgoingConnectionsExceeded
          else Inr (m - card (outgoing_connections l))
      | None \<Rightarrow> Inr usize_max)"

definition limits_on_incoming :: "connection_limits \<Rightarrow> (connection_limits_error, unit) result" where
  "limits_on_incoming l =
     (case max_incoming_connections (cl_config l) of
        Some m \<Rightarrow>
          if card (incoming_connections l) \<ge> m then Inl MaxIncomingConnectionsExceeded else Inr ()
      | None \<Rightarrow> Inr ())"

definition can_accept_connection ::
  "connection_limits \<Rightarrow> bool \<Rightarrow> (connection_limits_error, unit) result" where
  "can_accept_connection l listener =
     (if listener then
        (case max_incoming_connections (cl_config l) of
           Some m \<Rightarrow>
             if card (incoming_connections l) \<ge> m then Inl MaxIncomingConnectionsExceeded else Inr ()
         | None \<Rightarrow> Inr ())
      else
        (case max_outgoing_connections (cl_config l) of
           Some m \<Rightarrow>
             if card (outgoing_connections l) \<ge> m then Inl MaxOutgoingConnectionsExceeded else Inr ()
         | None \<Rightarrow> Inr ()))"

definition accept_established_connection ::
  "connection_limits \<Rightarrow> connection_id \<Rightarrow> bool \<Rightarrow> connection_limits" where
  "accept_established_connection l connection_id listener =
     (if listener then
        (if max_incoming_connections (cl_config l) \<noteq> None
         then l\<lparr>incoming_connections := insert connection_id (incoming_connections l)\<rparr> else l)
      else if max_outgoing_connections (cl_config l) \<noteq> None
        then l\<lparr>outgoing_connections := insert connection_id (outgoing_connections l)\<rparr> else l)"

definition limits_on_connection_closed :: "connection_limits \<Rightarrow> connection_id \<Rightarrow> connection_limits" where
  "limits_on_connection_closed l connection_id =
     l\<lparr>incoming_connections := incoming_connections l - {connection_id},
       outgoing_connections := outgoing_connections l - {connection_id}\<rparr>"

subsection \<open>Invariant\<close>

definition limits_ok :: "connection_limits \<Rightarrow> bool" where
  "limits_ok l \<longleftrightarrow>
     finite (incoming_connections l) \<and> finite (outgoing_connections l) \<and>
     (\<forall>m. max_incoming_connections (cl_config l) = Some m \<longrightarrow> card (incoming_connections l) \<le> m) \<and>
     (\<forall>m. max_outgoing_connections (cl_config l) = Some m \<longrightarrow> card (outgoing_connections l) \<le> m)"

definition limits_held :: "connection_limits \<Rightarrow> connection_id set" where
  "limits_held l = incoming_connections l \<union> outgoing_connections l"

lemma connection_limits_new_ok [simp]: "limits_ok (connection_limits_new config)"
  "limits_held (connection_limits_new config) = {}"
  by (simp_all add: limits_ok_def limits_held_def connection_limits_new_def)

lemma accept_established_connection_ok:
  "limits_ok l \<Longrightarrow> can_accept_connection l d = Inr () \<Longrightarrow> limits_ok (accept_established_connection l c d)"
  by (auto simp: limits_ok_def can_accept_connection_def accept_established_connection_def
      card_insert_if split: if_splits option.splits)

lemma limits_on_connection_closed_ok: "limits_ok l \<Longrightarrow> limits_ok (limits_on_connection_closed l c)"
  by (auto simp: limits_ok_def limits_on_connection_closed_def intro: order_trans [OF card_Diff1_le])

lemma limits_held_accept: "limits_held (accept_established_connection l c d) \<subseteq> insert c (limits_held l)"
  by (auto simp: limits_held_def accept_established_connection_def)

lemma limits_held_closed: "limits_held (limits_on_connection_closed l c) = limits_held l - {c}"
  by (auto simp: limits_held_def limits_on_connection_closed_def)

lemma limits_config_kept [simp]:
  "cl_config (accept_established_connection l c d) = cl_config l"
  "cl_config (limits_on_connection_closed l c) = cl_config l"
  by (simp_all add: accept_established_connection_def limits_on_connection_closed_def)

lemma on_dial_address_capacity:
  assumes "limits_on_dial_address l = Inr n" "limits_ok l"
  shows "0 < n" "max_outgoing_connections (cl_config l) = Some m \<Longrightarrow>
    card (outgoing_connections l) + n = m"
  using assms by (auto simp: limits_on_dial_address_def usize_max_def split: option.splits if_splits)

subsection \<open>The contract of admission control\<close>

locale admission_control =
  fixes admits :: "'l \<Rightarrow> bool \<Rightarrow> bool"
    and admit :: "'l \<Rightarrow> 'i \<Rightarrow> bool \<Rightarrow> 'l"
    and release :: "'l \<Rightarrow> 'i \<Rightarrow> 'l"
    and held :: "'l \<Rightarrow> 'i set"
    and ok :: "'l \<Rightarrow> bool"
  assumes ok_admit: "ok l \<Longrightarrow> admits l d \<Longrightarrow> ok (admit l i d)"
    and ok_release: "ok l \<Longrightarrow> ok (release l i)"
    and held_admit: "held (admit l i d) \<subseteq> insert i (held l)"
    and held_release: "held (release l i) = held l - {i}"
begin

lemma ok_guarded: "ok l \<Longrightarrow> ok (if admits l d then admit l i d else l)"
  by (simp add: ok_admit)

lemma held_guarded: "held (if admits l d then admit l i d else l) \<subseteq> insert i (held l)"
  using held_admit by auto

lemma ok_admit_release: "ok l \<Longrightarrow> admits l d \<Longrightarrow> ok (release (admit l i d) i)"
  by (simp add: ok_admit ok_release)

lemma held_admit_release: "held (release (admit l i d) i) \<subseteq> held l"
  using held_admit [of l i d] by (auto simp: held_release)

end

interpretation limits: admission_control "\<lambda>l d. can_accept_connection l d = Inr ()"
  accept_established_connection limits_on_connection_closed limits_held limits_ok
  by unfold_locales (simp_all add: accept_established_connection_ok limits_on_connection_closed_ok
      limits_held_accept limits_held_closed)

end
