(* ===== verification/Transport_Manager.thy ===== *)
theory Transport_Manager
  imports Peer_State Connection_Limits
begin

section \<open>The transport manager\<close>

text \<open>
  \<open>src/transport/manager/mod.rs\<close>: the state of \<open>TransportManager\<close>, its dialing entry points, the
  handlers of transport events and one iteration of the event loop \<open>next\<close>.

  Calls on installed transports and messages to installed protocols are appended to \<open>tm_calls\<close> in the
  order the code makes them. What the transports answer, the iteration order of hash maps and the
  enabled cargo features are fields of \<open>manager_env\<close>, an argument of every operation. An \<open>expect\<close>, \<open>panic!\<close>
  or \<open>assert!\<close> of the source is the value \<open>Inl Panic\<close>; a \<open>debug_assert!(false)\<close> is compiled out.
  The keypair, the bandwidth counters and the channel endpoints carry no state the handlers read and
  are left out.
\<close>

subsection \<open>State\<close>

datatype protocol_codec = Identity usize | UnsignedVarint "usize option" | Unspecified

datatype substream_keep_alive = KeepAliveYes | KeepAliveNo

datatype inbound_protocol = InboundAccept | InboundDeny

type_synonym protocol_name = string

record protocol_context =
  pr_codec :: protocol_codec
  pr_fallback_names :: "protocol_name list"
  pr_keep_alive :: substream_keep_alive
  pr_inbound :: inbound_protocol

datatype transport_event =
    ConnectionEstablished peer_id endpoint
  | PendingInboundConnection connection_id
  | ConnectionOpened connection_id multiaddr "(multiaddr \<times> dial_error) list"
  | ConnectionClosed peer_id connection_id
  | DialFailure connection_id multiaddr dial_error
  | OpenFailure connection_id "(multiaddr \<times> dial_error) list"

text \<open>The methods of the \<open>Transport\<close> trait the manager calls, and the message it sends to protocols.\<close>

datatype call =
    CallDial supported_transport connection_id multiaddr
  | CallOpen supported_transport connection_id "multiaddr list"
  | CallNegotiate supported_transport connection_id
  | CallCancel supported_transport connection_id
  | CallAccept supported_transport connection_id
  | CallReject supported_transport connection_id
  | CallAcceptPending supported_transport connection_id
  | CallRejectPending supported_transport connection_id
  | NotifyDialFailure protocol_name peer_id "multiaddr list"

record transport_context =
  tc_index :: usize
  tc_transports :: "supported_transport list"

record transport_manager =
  tm_local_peer_id :: peer_id
  tm_protocols :: "(protocol_name, protocol_context) hash_map"
  tm_protocol_names :: "protocol_name set"
  tm_listen_addresses :: "multiaddr set"
  tm_public_addresses :: public_addresses
  tm_next_connection_id :: usize
  tm_transports :: transport_context
  tm_supported_transport :: "supported_transport set"
  tm_peers :: "(peer_id, peer_context) hash_map"
  tm_pending_connections :: "(connection_id, peer_id) hash_map"
  tm_connection_limits :: connection_limits
  tm_opening_errors :: "(connection_id, (multiaddr \<times> dial_error) list) hash_map"
  tm_pending_accept :: "(peer_id \<times> endpoint) list"
  tm_calls :: "call list"

record manager_env =
  me_address :: address_env
  me_quic :: bool
  me_websocket :: bool
  me_transport_order :: "supported_transport set \<Rightarrow> supported_transport list"
  me_multiaddr_order :: "multiaddr list \<Rightarrow> multiaddr list"
  me_group_order :: "(supported_transport, multiaddr list) hash_map \<Rightarrow> (supported_transport \<times> multiaddr list) list"
  me_protocol_order :: "(protocol_name, protocol_context) hash_map \<Rightarrow> (protocol_name \<times> protocol_context) list"
  me_open :: "supported_transport \<Rightarrow> connection_id \<Rightarrow> multiaddr list \<Rightarrow> bool"
  me_dial :: "supported_transport \<Rightarrow> connection_id \<Rightarrow> multiaddr \<Rightarrow> bool"
  me_negotiate :: "supported_transport \<Rightarrow> connection_id \<Rightarrow> bool"
  me_accept :: "supported_transport \<Rightarrow> connection_id \<Rightarrow> bool"

datatype manager_error =
    ConnectionLimitError connection_limits_error
  | TriedToDialSelf
  | AlreadyConnectedError
  | NoAddressAvailable peer_id
  | AddressErrorPeerIdMissing
  | TransportNotSupported multiaddr
  | InvalidState
  | TransportError

datatype connection_established_result = Accept | Reject

definition transport_context_new :: transport_context where
  "transport_context_new = \<lparr>tc_index = 0, tc_transports = []\<rparr>"

definition transport_manager_build ::
  "peer_id \<Rightarrow> supported_transport set \<Rightarrow> connection_limits_config \<Rightarrow> transport_manager" where
  "transport_manager_build local supported config =
     \<lparr>tm_local_peer_id = local, tm_protocols = [], tm_protocol_names = {},
      tm_listen_addresses = {}, tm_public_addresses = public_addresses_new local,
      tm_next_connection_id = 0, tm_transports = transport_context_new,
      tm_supported_transport = supported, tm_peers = [], tm_pending_connections = [],
      tm_connection_limits = connection_limits_new config, tm_opening_errors = [],
      tm_pending_accept = [], tm_calls = []\<rparr>"

abbreviation emit :: "call \<Rightarrow> transport_manager \<Rightarrow> transport_manager" where
  "emit c m \<equiv> m\<lparr>tm_calls := tm_calls m @ [c]\<rparr>"

abbreviation installed :: "transport_manager \<Rightarrow> supported_transport set" where
  "installed m \<equiv> set (tc_transports (tm_transports m))"

text \<open>\<open>peers.entry(peer).or_default()\<close>, and the same followed by an update of the entry.\<close>

definition peer_entry :: "transport_manager \<Rightarrow> peer_id \<Rightarrow> peer_context" where
  "peer_entry m peer =
     (case hm_get (tm_peers m) peer of Some context \<Rightarrow> context | None \<Rightarrow> peer_context_default)"

definition modify_peer ::
  "peer_id \<Rightarrow> (peer_context \<Rightarrow> peer_context) \<Rightarrow> transport_manager \<Rightarrow> transport_manager" where
  "modify_peer peer f m = m\<lparr>tm_peers := hm_insert peer (f (peer_entry m peer)) (tm_peers m)\<rparr>"

abbreviation set_peer_state :: "peer_id \<Rightarrow> peer_state \<Rightarrow> transport_manager \<Rightarrow> transport_manager" where
  "set_peer_state peer state \<equiv> modify_peer peer (\<lambda>context. context\<lparr>pc_state := state\<rparr>)"

abbreviation insert_peer_address ::
  "manager_env \<Rightarrow> peer_id \<Rightarrow> address_record \<Rightarrow> transport_manager \<Rightarrow> transport_manager" where
  "insert_peer_address env peer r \<equiv>
     modify_peer peer (\<lambda>context.
       context\<lparr>pc_addresses := address_store_insert (me_address env) (pc_addresses context) r\<rparr>)"

subsection \<open>Polling the installed transports\<close>

definition transport_context_register ::
  "transport_context \<Rightarrow> supported_transport \<Rightarrow> (panic, transport_context) result" where
  "transport_context_register tc name =
     (if name \<in> set (tc_transports tc) then Inl Panic
      else Inr (tc\<lparr>tc_transports := tc_transports tc @ [name]\<rparr>))"

text \<open>
  \<open>stream t\<close> is what polling transport \<open>t\<close> answers. The \<open>for\<close> loop of \<open>poll_next\<close> with \<open>n\<close> rounds left;
  an index out of range is the \<open>expect\<close>.
\<close>

fun poll_loop ::
  "(supported_transport \<Rightarrow> 'e option poll) \<Rightarrow> nat \<Rightarrow> transport_context
     \<Rightarrow> (panic, (supported_transport \<times> 'e) option poll \<times> transport_context) result" where
  "poll_loop stream 0 tc = Inr (Pending, tc)"
| "poll_loop stream (Suc n) tc =
     (let current = tc_index tc; tc' = tc\<lparr>tc_index := (current + 1) mod length (tc_transports tc)\<rparr>
      in if current < length (tc_transports tc) then
           (case stream (tc_transports tc ! current) of
              Pending \<Rightarrow> poll_loop stream n tc'
            | Ready None \<Rightarrow> Inr (Ready None, tc')
            | Ready (Some event) \<Rightarrow> Inr (Ready (Some (tc_transports tc ! current, event)), tc'))
         else Inl Panic)"

definition transport_poll_next ::
  "(supported_transport \<Rightarrow> 'e option poll) \<Rightarrow> transport_context
     \<Rightarrow> (panic, (supported_transport \<times> 'e) option poll \<times> transport_context) result" where
  "transport_poll_next stream tc =
     (if tc_transports tc = [] then Inr (Ready None, tc)
      else poll_loop stream (length (tc_transports tc)) tc)"

subsection \<open>Registration\<close>

definition advertised_protocols :: "transport_manager \<Rightarrow> protocol_name set" where
  "advertised_protocols m = fst ` set (filter (\<lambda>(_, c). pr_inbound c = InboundAccept) (tm_protocols m))"

definition next_connection_id :: "transport_manager \<Rightarrow> connection_id \<times> transport_manager" where
  "next_connection_id m =
     (tm_next_connection_id m,
      m\<lparr>tm_next_connection_id := (tm_next_connection_id m + 1) mod 2 ^ 64\<rparr>)"

definition register_protocol ::
  "transport_manager \<Rightarrow> protocol_name \<Rightarrow> protocol_name list \<Rightarrow> protocol_codec \<Rightarrow> substream_keep_alive
     \<Rightarrow> inbound_protocol \<Rightarrow> (panic, transport_manager) result" where
  "register_protocol m name fallback_names codec keep_alive inbound =
     (if name \<in> tm_protocol_names m then Inl Panic
      else if \<exists>fallback \<in> set fallback_names. fallback \<in> tm_protocol_names m then Inl Panic
      else Inr (m\<lparr>tm_protocols := hm_insert name
                    \<lparr>pr_codec = codec, pr_fallback_names = fallback_names,
                     pr_keep_alive = keep_alive, pr_inbound = inbound\<rparr> (tm_protocols m),
                  tm_protocol_names := insert name (tm_protocol_names m) \<union> set fallback_names\<rparr>))"

definition unregister_protocol :: "transport_manager \<Rightarrow> protocol_name \<Rightarrow> transport_manager" where
  "unregister_protocol m name =
     (case hm_get (tm_protocols m) name of
        None \<Rightarrow> m
      | Some context \<Rightarrow>
          m\<lparr>tm_protocols := hm_remove name (tm_protocols m),
            tm_protocol_names := tm_protocol_names m - set (pr_fallback_names context)\<rparr>)"

definition register_transport ::
  "transport_manager \<Rightarrow> supported_transport \<Rightarrow> (panic, transport_manager) result" where
  "register_transport m name =
     (case transport_context_register (tm_transports m) name of
        Inl p \<Rightarrow> Inl p
      | Inr tc \<Rightarrow> Inr (m\<lparr>tm_transports := tc,
                       tm_supported_transport := insert name (tm_supported_transport m)\<rparr>))"

definition register_listen_address ::
  "transport_manager \<Rightarrow> multiaddr \<Rightarrow> (panic, transport_manager) result" where
  "register_listen_address m address =
     (if \<exists>p \<in> set address. case p of P2p _ \<Rightarrow> True | _ \<Rightarrow> False then Inl Panic
      else Inr (m\<lparr>tm_listen_addresses :=
             insert (address @ [P2p (pid_multihash (tm_local_peer_id m))])
               (insert address (tm_listen_addresses m))\<rparr>))"

subsection \<open>Dialing\<close>

definition address_transport :: "manager_env \<Rightarrow> multiaddr \<Rightarrow> supported_transport" where
  "address_transport env address =
     (if me_quic env \<and> QuicV1 \<in> set address then TransportQuic
      else if me_websocket env \<and> (\<exists>p \<in> set address. case p of Ws _ \<Rightarrow> True | Wss _ \<Rightarrow> True | _ \<Rightarrow> False)
        then TransportWebSocket
      else TransportTcp)"

definition supported_transports_addresses ::
  "manager_env \<Rightarrow> multiaddr list \<Rightarrow> (supported_transport, multiaddr list) hash_map" where
  "supported_transports_addresses env addresses =
     foldl (\<lambda>groups address.
              let t = address_transport env address
              in hm_insert t ((case hm_get groups t of Some g \<Rightarrow> g | None \<Rightarrow> []) @ [address]) groups)
       [] addresses"

fun open_transports ::
  "manager_env \<Rightarrow> transport_manager \<Rightarrow> connection_id \<Rightarrow> (supported_transport \<times> multiaddr list) list
     \<Rightarrow> (manager_error, unit) result \<times> transport_manager" where
  "open_transports env m connection_id [] = (Inr (), m)"
| "open_transports env m connection_id ((transport, addresses) # rest) =
     (if addresses = [] then open_transports env m connection_id rest
      else if transport \<notin> installed m then open_transports env m connection_id rest
      else
        let m' = emit (CallOpen transport connection_id addresses) m
        in if me_open env transport connection_id addresses
           then open_transports env m' connection_id rest
           else (Inl TransportError, m'))"

definition dial ::
  "manager_env \<Rightarrow> transport_manager \<Rightarrow> peer_id \<Rightarrow> (manager_error, unit) result \<times> transport_manager" where
  "dial env m peer =
     (case limits_on_dial_address (tm_connection_limits m) of
        Inl e \<Rightarrow> (Inl (ConnectionLimitError e), m)
      | Inr available_capacity \<Rightarrow>
          if peer = tm_local_peer_id m then (Inl TriedToDialSelf, m)
          else
            let context = peer_entry m peer; m1 = modify_peer peer (\<lambda>c. c) m
            in case can_dial (pc_state context) of
                 AlreadyConnected \<Rightarrow> (Inl AlreadyConnectedError, m1)
               | DialingInProgress \<Rightarrow> (Inr (), m1)
               | DialOk \<Rightarrow>
                   let addresses = address_store_addresses (me_address env) (pc_addresses context) available_capacity
                   in if addresses = [] then (Inl (NoAddressAvailable peer), m1)
                      else
                        let (connection_id, m2) = next_connection_id m1;
                            transports = supported_transports_addresses env addresses;
                            (_, state) = dial_addresses (pc_state context) connection_id (set addresses)
                              (hm_keys transports);
                            (result, m3) = open_transports env (set_peer_state peer state m2) connection_id
                              (me_group_order env transports)
                        in case result of
                             Inl e \<Rightarrow> (Inl e, m3)
                           | Inr _ \<Rightarrow> (Inr (), m3\<lparr>tm_pending_connections :=
                               hm_insert connection_id peer (tm_pending_connections m3)\<rparr>))"

text \<open>The protocol stack \<open>dial_address\<close> accepts; \<open>None\<close> is \<open>TransportNotSupported\<close>.\<close>

definition starts_with_host :: "multiaddr \<Rightarrow> bool" where
  "starts_with_host address =
     (case address of
        Ip4 _ # _ \<Rightarrow> True | Ip6 _ # _ \<Rightarrow> True
      | Dns _ # _ \<Rightarrow> True | Dns4 _ # _ \<Rightarrow> True | Dns6 _ # _ \<Rightarrow> True | _ \<Rightarrow> False)"

definition dial_transport :: "manager_env \<Rightarrow> multiaddr \<Rightarrow> supported_transport option" where
  "dial_transport env address =
     (if \<not> starts_with_host address then None
      else case tl address of
        Tcp _ # Ws _ # _ \<Rightarrow> if me_websocket env then Some TransportWebSocket else None
      | Tcp _ # Wss _ # _ \<Rightarrow> if me_websocket env then Some TransportWebSocket else None
      | Tcp _ # P2p _ # _ \<Rightarrow> Some TransportTcp
      | Udp _ # QuicV1 # _ \<Rightarrow> if me_quic env then Some TransportQuic else None
      | _ \<Rightarrow> None)"

definition dial_address ::
  "manager_env \<Rightarrow> transport_manager \<Rightarrow> multiaddr
     \<Rightarrow> (panic, (manager_error, unit) result \<times> transport_manager) result" where
  "dial_address env m address =
     (case limits_on_dial_address (tm_connection_limits m) of
        Inl e \<Rightarrow> Inr (Inl (ConnectionLimitError e), m)
      | Inr _ \<Rightarrow>
        (case address_record_from_multiaddr address of
           None \<Rightarrow> Inr (Inl AddressErrorPeerIdMissing, m)
         | Some address_record \<Rightarrow>
           if ar_address address_record \<in> tm_listen_addresses m then Inr (Inl TriedToDialSelf, m)
           else
             (case dial_transport env (ar_address address_record) of
                None \<Rightarrow> Inr (Inl (TransportNotSupported (ar_address address_record)), m)
              | Some transport \<Rightarrow>
                (case try_from_multiaddr (ar_address address_record) of
                   None \<Rightarrow> Inl Panic
                 | Some peer \<Rightarrow>
                   let (connection_id, m1) = next_connection_id m;
                       dial_record = \<lparr>cr_address = ar_address address_record,
                                      cr_connection_id = connection_id\<rparr>;
                       m2 = insert_peer_address env peer address_record m1;
                       (result, state) = dial_single_address (pc_state (peer_entry m2 peer)) dial_record;
                       m3 = set_peer_state peer state m2
                   in case result of
                        AlreadyConnected \<Rightarrow> Inr (Inl AlreadyConnectedError, m3)
                      | DialingInProgress \<Rightarrow> Inr (Inr (), m3)
                      | DialOk \<Rightarrow>
                          if transport \<notin> installed m3
                          then Inr (Inl (TransportNotSupported (ar_address address_record)), m3)
                          else
                            let m4 = emit (CallDial transport connection_id (ar_address address_record)) m3
                            in if \<not> me_dial env transport connection_id (ar_address address_record)
                               then Inr (Inl TransportError, m4)
                               else Inr (Inr (), m4\<lparr>tm_pending_connections :=
                                 hm_insert connection_id peer (tm_pending_connections m4)\<rparr>)))))"

subsection \<open>Handlers of transport events\<close>

definition update_address_on_dial_failure ::
  "manager_env \<Rightarrow> transport_manager \<Rightarrow> multiaddr \<Rightarrow> dial_error \<Rightarrow> transport_manager" where
  "update_address_on_dial_failure env m address error =
     (case try_from_multiaddr address of
        None \<Rightarrow> m
      | Some peer \<Rightarrow>
          insert_peer_address env peer (address_record_new peer address (error_score error)) m)"

definition on_dial_failure ::
  "transport_manager \<Rightarrow> connection_id \<Rightarrow> (manager_error, unit) result \<times> transport_manager" where
  "on_dial_failure m connection_id =
     (case hm_get (tm_pending_connections m) connection_id of
        None \<Rightarrow> (Inl InvalidState, m)
      | Some peer \<Rightarrow>
          let m1 = m\<lparr>tm_pending_connections := hm_remove connection_id (tm_pending_connections m)\<rparr>;
              state = snd (peer_on_dial_failure (pc_state (peer_entry m1 peer)) connection_id)
          in (Inr (), set_peer_state peer state m1))"

definition on_pending_incoming_connection :: "transport_manager \<Rightarrow> (manager_error, unit) result" where
  "on_pending_incoming_connection m =
     (case limits_on_incoming (tm_connection_limits m) of
        Inl e \<Rightarrow> Inl (ConnectionLimitError e) | Inr _ \<Rightarrow> Inr ())"

definition on_connection_closed ::
  "transport_manager \<Rightarrow> peer_id \<Rightarrow> connection_id \<Rightarrow> transport_event option \<times> transport_manager" where
  "on_connection_closed m peer connection_id =
     (let m1 = m\<lparr>tm_connection_limits := limits_on_connection_closed (tm_connection_limits m) connection_id\<rparr>;
          (closed, state) = peer_on_connection_closed (pc_state (peer_entry m1 peer)) connection_id
      in (if closed then Some (ConnectionClosed peer connection_id) else None,
          set_peer_state peer state m1))"

definition update_address_on_connection_established ::
  "manager_env \<Rightarrow> transport_manager \<Rightarrow> peer_id \<Rightarrow> endpoint \<Rightarrow> transport_manager" where
  "update_address_on_connection_established env m peer e =
     (if is_listener e then m
      else insert_peer_address env peer
             (address_record_new peer (endpoint_address e) CONNECTION_ESTABLISHED) m)"

fun cancel_transports ::
  "transport_manager \<Rightarrow> connection_id \<Rightarrow> supported_transport list \<Rightarrow> (panic, transport_manager) result" where
  "cancel_transports m connection_id [] = Inr m"
| "cancel_transports m connection_id (transport # rest) =
     (if transport \<notin> installed m then Inl Panic
      else cancel_transports (emit (CallCancel transport connection_id) m) connection_id rest)"

definition on_connection_established ::
  "manager_env \<Rightarrow> transport_manager \<Rightarrow> peer_id \<Rightarrow> endpoint
     \<Rightarrow> (panic, (manager_error, connection_established_result) result \<times> transport_manager) result" where
  "on_connection_established env m peer e =
     (let m0 = update_address_on_connection_established env m peer e;
          dialed = hm_get (tm_pending_connections m0) (endpoint_connection_id e);
          m1 = m0\<lparr>tm_pending_connections :=
                 hm_remove (endpoint_connection_id e) (tm_pending_connections m0)\<rparr>
      in if dialed \<noteq> None \<and> dialed \<noteq> Some peer then Inr (Inl InvalidState, m1)
         else if can_accept_connection (tm_connection_limits m1) (is_listener e) \<noteq> Inr ()
           then Inr (Inr Reject, m1)
         else
           let previous_state = pc_state (peer_entry m1 peer);
               (accepted, state) = peer_on_connection_established previous_state
                 (connection_record_from_endpoint peer e);
               m2 = set_peer_state peer state m1
           in if accepted then
                let m3 = m2\<lparr>tm_connection_limits := accept_established_connection
                       (tm_connection_limits m2) (endpoint_connection_id e) (is_listener e)\<rparr>
                in (case previous_state of
                      Opening _ connection_id transports \<Rightarrow>
                        (case cancel_transports m3 connection_id (me_transport_order env transports) of
                           Inl p \<Rightarrow> Inl p
                         | Inr m4 \<Rightarrow> Inr (Inr Accept, m4\<lparr>tm_pending_connections :=
                             hm_remove connection_id (tm_pending_connections m4)\<rparr>))
                    | _ \<Rightarrow> Inr (Inr Accept, m3))
              else Inr (Inr Reject, m2))"

definition on_connection_opened ::
  "manager_env \<Rightarrow> transport_manager \<Rightarrow> supported_transport \<Rightarrow> connection_id \<Rightarrow> multiaddr
     \<Rightarrow> (panic, (manager_error, unit) result \<times> transport_manager) result" where
  "on_connection_opened env m transport connection_id address =
     (case hm_get (tm_pending_connections m) connection_id of
        None \<Rightarrow> Inr (Inl InvalidState, m)
      | Some peer \<Rightarrow>
          let m1 = m\<lparr>tm_pending_connections := hm_remove connection_id (tm_pending_connections m)\<rparr>;
              m2 = insert_peer_address env peer
                     (address_record_new peer address CONNECTION_ESTABLISHED) m1;
              previous_state = pc_state (peer_entry m2 peer);
              (advanced, state) = peer_on_connection_opened previous_state
                (connection_record_new peer address connection_id);
              m3 = set_peer_state peer state m2
          in if \<not> advanced then Inr (Inl InvalidState, m3)
             else (case previous_state of
                 Opening _ opening_id transports \<Rightarrow>
                   (case cancel_transports m3 opening_id (me_transport_order env transports) of
                      Inl p \<Rightarrow> Inl p
                    | Inr m4 \<Rightarrow>
                        if transport \<notin> installed m4 then Inl Panic
                        else
                          let m5 = emit (CallNegotiate transport opening_id) m4
                          in if me_negotiate env transport opening_id
                             then Inr (Inr (), m5\<lparr>tm_pending_connections :=
                               hm_insert opening_id peer (tm_pending_connections m5)\<rparr>)
                             else Inr (Inl InvalidState, set_peer_state peer (Disconnected None) m5))
               | _ \<Rightarrow> Inr (Inl InvalidState, m3)))"

definition on_open_failure ::
  "transport_manager \<Rightarrow> supported_transport \<Rightarrow> connection_id
     \<Rightarrow> (manager_error, peer_id option) result \<times> transport_manager" where
  "on_open_failure m transport connection_id =
     (case hm_get (tm_pending_connections m) connection_id of
        None \<Rightarrow> (Inl InvalidState, m)
      | Some peer \<Rightarrow>
          let previous_state = pc_state (peer_entry m peer);
              (last_transport, state) = peer_on_open_failure previous_state transport;
              m1 = set_peer_state peer state m
          in if state = previous_state then (Inl InvalidState, m1)
             else if last_transport then
               (Inr (Some peer), m1\<lparr>tm_pending_connections :=
                  hm_remove connection_id (tm_pending_connections m1)\<rparr>)
             else (Inr None, m1))"

subsection \<open>The event loop\<close>

datatype transport_manager_event = ManagerConnectionClosed peer_id connection_id

datatype inner_command =
    DialPeer peer_id
  | DialAddress multiaddr
  | UnregisterProtocol protocol_name

text \<open>What \<open>select!\<close> can yield: one constructor per branch, \<open>None\<close> for a closed channel.\<close>

datatype manager_input =
    AcceptCompleted peer_id endpoint bool
  | EventReceived "transport_manager_event option"
  | CommandReceived "inner_command option"
  | TransportYielded "(supported_transport \<times> transport_event) option"

text \<open>An iteration of \<open>next\<close> continues the loop or returns from it.\<close>

datatype next_outcome = Continue | Return "transport_event option"

definition notify_protocols ::
  "manager_env \<Rightarrow> transport_manager \<Rightarrow> peer_id \<Rightarrow> multiaddr list \<Rightarrow> transport_manager" where
  "notify_protocols env m peer addresses =
     foldl (\<lambda>m (name, _). emit (NotifyDialFailure name peer addresses) m) m
       (me_protocol_order env (tm_protocols m))"

definition next_dial_failure ::
  "manager_env \<Rightarrow> transport_manager \<Rightarrow> connection_id \<Rightarrow> multiaddr \<Rightarrow> dial_error
     \<Rightarrow> next_outcome \<times> transport_manager" where
  "next_dial_failure env m connection_id address error =
     (let m0 = update_address_on_dial_failure env m address error
      in case on_dial_failure m0 connection_id of
           (Inl _, m1) \<Rightarrow> (Continue, m1)
         | (Inr _, m1) \<Rightarrow>
             (Return (Some (DialFailure connection_id address error)),
              case try_from_multiaddr address of
                Some peer \<Rightarrow> notify_protocols env m1 peer [address]
              | None \<Rightarrow> m1))"

definition next_connection_established ::
  "manager_env \<Rightarrow> transport_manager \<Rightarrow> supported_transport \<Rightarrow> peer_id \<Rightarrow> endpoint
     \<Rightarrow> (panic, next_outcome \<times> transport_manager) result" where
  "next_connection_established env m transport peer e =
     (let m0 = m\<lparr>tm_opening_errors := hm_remove (endpoint_connection_id e) (tm_opening_errors m)\<rparr>
      in case on_connection_established env m0 peer e of
           Inl p \<Rightarrow> Inl p
         | Inr (result, m1) \<Rightarrow>
             if transport \<notin> installed m1 then Inl Panic
             else if result = Inr Accept then
               let m2 = emit (CallAccept transport (endpoint_connection_id e)) m1
               in if me_accept env transport (endpoint_connection_id e)
                  then Inr (Continue, m2\<lparr>tm_pending_accept := tm_pending_accept m2 @ [(peer, e)]\<rparr>)
                  else Inr (Continue, snd (on_connection_closed m2 peer (endpoint_connection_id e)))
             else Inr (Continue, emit (CallReject transport (endpoint_connection_id e)) m1))"

definition record_failures ::
  "manager_env \<Rightarrow> transport_manager \<Rightarrow> (multiaddr \<times> dial_error) list \<Rightarrow> transport_manager" where
  "record_failures env m errors =
     foldl (\<lambda>m (address, error). update_address_on_dial_failure env m address error) m errors"

definition next_connection_opened ::
  "manager_env \<Rightarrow> transport_manager \<Rightarrow> supported_transport \<Rightarrow> connection_id \<Rightarrow> multiaddr
     \<Rightarrow> (multiaddr \<times> dial_error) list \<Rightarrow> (panic, next_outcome \<times> transport_manager) result" where
  "next_connection_opened env m transport connection_id address errors =
     (let m0 = m\<lparr>tm_opening_errors := hm_remove connection_id (tm_opening_errors m)\<rparr>
      in case on_connection_opened env (record_failures env m0 errors) transport connection_id address of
           Inl p \<Rightarrow> Inl p
         | Inr (_, m1) \<Rightarrow> Inr (Continue, m1))"

definition next_open_failure ::
  "manager_env \<Rightarrow> transport_manager \<Rightarrow> supported_transport \<Rightarrow> connection_id
     \<Rightarrow> (multiaddr \<times> dial_error) list \<Rightarrow> next_outcome \<times> transport_manager" where
  "next_open_failure env m transport connection_id errors =
     (case on_open_failure (record_failures env m errors) transport connection_id of
        (Inl _, m1) \<Rightarrow> (Continue, m1)
      | (Inr (Some peer), m1) \<Rightarrow>
          let m2 = notify_protocols env m1 peer (map fst errors);
              grouped = (case hm_get (tm_opening_errors m2) connection_id of Some es \<Rightarrow> es | None \<Rightarrow> [])
          in (Return (Some (OpenFailure connection_id (grouped @ errors))),
              m2\<lparr>tm_opening_errors := hm_remove connection_id (tm_opening_errors m2)\<rparr>)
      | (Inr None, m1) \<Rightarrow>
          (Continue, m1\<lparr>tm_opening_errors := hm_insert connection_id
             ((case hm_get (tm_opening_errors m1) connection_id of Some es \<Rightarrow> es | None \<Rightarrow> []) @ errors)
             (tm_opening_errors m1)\<rparr>))"

definition next_pending_inbound ::
  "transport_manager \<Rightarrow> supported_transport \<Rightarrow> connection_id
     \<Rightarrow> (panic, next_outcome \<times> transport_manager) result" where
  "next_pending_inbound m transport connection_id =
     (if transport \<notin> installed m then Inl Panic
      else if on_pending_incoming_connection m = Inr ()
        then Inr (Continue, emit (CallAcceptPending transport connection_id) m)
      else Inr (Continue, emit (CallRejectPending transport connection_id) m))"

fun next_transport_event ::
  "manager_env \<Rightarrow> transport_manager \<Rightarrow> supported_transport \<Rightarrow> transport_event
     \<Rightarrow> (panic, next_outcome \<times> transport_manager) result" where
  "next_transport_event env m t (DialFailure c address error) =
     Inr (next_dial_failure env m c address error)"
| "next_transport_event env m t (ConnectionEstablished peer e) =
     next_connection_established env m t peer e"
| "next_transport_event env m t (ConnectionOpened c address errors) =
     next_connection_opened env m t c address errors"
| "next_transport_event env m t (OpenFailure c errors) = Inr (next_open_failure env m t c errors)"
| "next_transport_event env m t (PendingInboundConnection c) = next_pending_inbound m t c"
| "next_transport_event env m t (ConnectionClosed _ _) = Inl Panic"

fun next_command ::
  "manager_env \<Rightarrow> transport_manager \<Rightarrow> inner_command \<Rightarrow> (panic, transport_manager) result" where
  "next_command env m (DialPeer peer) = Inr (snd (dial env m peer))"
| "next_command env m (DialAddress address) =
     (case dial_address env m address of Inl p \<Rightarrow> Inl p | Inr (_, m1) \<Rightarrow> Inr m1)"
| "next_command env m (UnregisterProtocol name) = Inr (unregister_protocol m name)"

fun manager_next ::
  "manager_env \<Rightarrow> transport_manager \<Rightarrow> manager_input \<Rightarrow> (panic, next_outcome \<times> transport_manager) result" where
  "manager_next env m (AcceptCompleted peer e ok) =
     (let m0 = m\<lparr>tm_pending_accept := remove1 (peer, e) (tm_pending_accept m)\<rparr>
      in if ok then Inr (Return (Some (ConnectionEstablished peer e)), m0)
         else Inr (Continue, snd (on_connection_closed m0 peer (endpoint_connection_id e))))"
| "manager_next env m (EventReceived None) = Inr (Return None, m)"
| "manager_next env m (EventReceived (Some (ManagerConnectionClosed peer c))) =
     (case on_connection_closed m peer c of
        (Some event, m1) \<Rightarrow> Inr (Return (Some event), m1)
      | (None, m1) \<Rightarrow> Inr (Continue, m1))"
| "manager_next env m (CommandReceived None) = Inr (Return None, m)"
| "manager_next env m (CommandReceived (Some command)) =
     (case next_command env m command of Inl p \<Rightarrow> Inl p | Inr m1 \<Rightarrow> Inr (Continue, m1))"
| "manager_next env m (TransportYielded None) = Inr (Return None, m)"
| "manager_next env m (TransportYielded (Some (t, event))) = next_transport_event env m t event"

end
