(* ===== verification/Manager_Handle.thy ===== *)
theory Manager_Handle
  imports Transport_Manager
begin

section \<open>The handle of the transport manager\<close>

text \<open>
  \<open>src/transport/manager/handle.rs\<close>: the filter on known addresses and the dial requests protocols
  make. A handle shares the peers and the listen addresses with the manager and owns the set of
  supported transports, which is the argument \<open>supported\<close>. A request is the command placed on the
  channel, with the answer of \<open>try_send\<close> as an argument.
\<close>

datatype ip_addr = V4 "32 word" | V6 "128 word"

text \<open>The classification of the standard library.\<close>

fun is_unspecified :: "ip_addr \<Rightarrow> bool" where
  "is_unspecified (V4 ip) \<longleftrightarrow> ip = 0"
| "is_unspecified (V6 ip) \<longleftrightarrow> ip = 0"

fun is_loopback :: "ip_addr \<Rightarrow> bool" where
  "is_loopback (V4 ip) \<longleftrightarrow> drop_bit 24 ip = 127"
| "is_loopback (V6 ip) \<longleftrightarrow> ip = 1"

definition host_supported :: "multiaddr \<Rightarrow> bool" where
  "host_supported address =
     (case address of
        Ip4 ip # _ \<Rightarrow> \<not> is_unspecified (V4 ip)
      | Ip6 ip # _ \<Rightarrow> \<not> is_unspecified (V6 ip)
      | Dns _ # _ \<Rightarrow> True | Dns4 _ # _ \<Rightarrow> True | Dns6 _ # _ \<Rightarrow> True
      | _ \<Rightarrow> False)"

definition handle_supported_transport ::
  "manager_env \<Rightarrow> supported_transport set \<Rightarrow> multiaddr \<Rightarrow> bool" where
  "handle_supported_transport env supported address =
     (host_supported address \<and>
      (case tl address of
         [Tcp _, P2p _] \<Rightarrow> TransportTcp \<in> supported
       | [Tcp _, Ws _, P2p _] \<Rightarrow> me_websocket env \<and> TransportWebSocket \<in> supported
       | [Tcp _, Wss _, P2p _] \<Rightarrow> me_websocket env \<and> TransportWebSocket \<in> supported
       | [Udp _, QuicV1, P2p _] \<Rightarrow> me_quic env \<and> TransportQuic \<in> supported
       | _ \<Rightarrow> False))"

definition extract_ip_port :: "multiaddr \<Rightarrow> (ip_addr \<times> u16) option" where
  "extract_ip_port address =
     (case address of
        Ip4 ip # Tcp port # _ \<Rightarrow> Some (V4 ip, port)
      | Ip4 ip # Udp port # _ \<Rightarrow> Some (V4 ip, port)
      | Ip6 ip # Tcp port # _ \<Rightarrow> Some (V6 ip, port)
      | Ip6 ip # Udp port # _ \<Rightarrow> Some (V6 ip, port)
      | _ \<Rightarrow> None)"

definition is_p2p :: "protocol \<Rightarrow> bool" where
  "is_p2p p = (case p of P2p _ \<Rightarrow> True | _ \<Rightarrow> False)"

definition is_local_address :: "transport_manager \<Rightarrow> multiaddr \<Rightarrow> bool" where
  "is_local_address m address =
     (let stripped = takeWhile (\<lambda>p. \<not> is_p2p p) address
      in stripped \<in> tm_listen_addresses m \<or>
         (case extract_ip_port stripped of
            None \<Rightarrow> False
          | Some (ip, port) \<Rightarrow>
              \<exists>listen \<in> tm_listen_addresses m.
                case extract_ip_port listen of
                  None \<Rightarrow> False
                | Some (listen_ip, listen_port) \<Rightarrow>
                    port = listen_port \<and>
                    (listen_ip = ip
                     \<or> is_unspecified listen_ip \<and> is_loopback ip
                     \<or> is_loopback listen_ip \<and> is_loopback ip)))"

definition known_address ::
  "manager_env \<Rightarrow> supported_transport set \<Rightarrow> transport_manager \<Rightarrow> peer_id \<Rightarrow> multiaddr \<Rightarrow> multiaddr option" where
  "known_address env supported m peer address =
     (if \<not> handle_supported_transport env supported address then None
      else if is_local_address m address then None
      else case last_opt address of
        Some (P2p multihash) \<Rightarrow> if multihash \<noteq> pid_multihash peer then None else Some address
      | _ \<Rightarrow> Some (address @ [P2p (pid_multihash peer)]))"

definition add_known_address ::
  "manager_env \<Rightarrow> supported_transport set \<Rightarrow> transport_manager \<Rightarrow> peer_id \<Rightarrow> multiaddr list
     \<Rightarrow> usize \<times> transport_manager" where
  "add_known_address env supported m peer addresses =
     (let peer_addresses = remdups (List.map_filter (known_address env supported m peer) addresses);
          records = List.map_filter address_record_from_multiaddr (me_multiaddr_order env peer_addresses)
      in (length peer_addresses,
          modify_peer peer (\<lambda>context. context\<lparr>pc_addresses :=
            address_store_extend (me_address env) (pc_addresses context) records\<rparr>) m))"

datatype immediate_dial_error =
    ImmediatePeerIdMissing
  | ImmediateTriedToDialSelf
  | ImmediateAlreadyConnected
  | ImmediateNoAddressAvailable
  | TaskClosed
  | ChannelClogged

datatype send_result = Sent | Full | Closed

fun send_error :: "send_result \<Rightarrow> (immediate_dial_error, unit) result" where
  "send_error Sent = Inr ()"
| "send_error Full = Inl ChannelClogged"
| "send_error Closed = Inl TaskClosed"

definition handle_dial ::
  "send_result \<Rightarrow> transport_manager \<Rightarrow> peer_id
     \<Rightarrow> (immediate_dial_error, unit) result \<times> inner_command option" where
  "handle_dial sent m peer =
     (if peer = tm_local_peer_id m then (Inl ImmediateTriedToDialSelf, None)
      else case hm_get (tm_peers m) peer of
        None \<Rightarrow> (Inl ImmediateNoAddressAvailable, None)
      | Some context \<Rightarrow>
          (case can_dial (pc_state context) of
             AlreadyConnected \<Rightarrow> (Inl ImmediateAlreadyConnected, None)
           | DialingInProgress \<Rightarrow> (Inr (), None)
           | DialOk \<Rightarrow>
               if address_store_is_empty (pc_addresses context)
               then (Inl ImmediateNoAddressAvailable, None)
               else (send_error sent, if sent = Sent then Some (DialPeer peer) else None)))"

definition handle_dial_address ::
  "send_result \<Rightarrow> multiaddr \<Rightarrow> (immediate_dial_error, unit) result \<times> inner_command option" where
  "handle_dial_address sent address =
     (if \<not> (\<exists>p \<in> set address. is_p2p p) then (Inl ImmediatePeerIdMissing, None)
      else (send_error sent, if sent = Sent then Some (DialAddress address) else None))"

definition handle_unregister_protocol :: "send_result \<Rightarrow> protocol_name \<Rightarrow> inner_command option" where
  "handle_unregister_protocol sent name =
     (if sent = Sent then Some (UnregisterProtocol name) else None)"

subsection \<open>Properties\<close>

text \<open>A concrete environment for the witnesses.\<close>

definition all_transports :: "supported_transport list" where
  "all_transports = [TransportTcp, TransportQuic, TransportWebRtc, TransportWebSocket]"

definition example_manager_env :: manager_env where
  "example_manager_env = \<lparr>me_address = example_env, me_quic = False, me_websocket = True,
     me_transport_order = (\<lambda>S. filter (\<lambda>t. t \<in> S) all_transports),
     me_multiaddr_order = rev, me_group_order = rev, me_protocol_order = rev,
     me_open = (\<lambda>_ _ _. True), me_dial = (\<lambda>_ _ _. True), me_negotiate = (\<lambda>_ _. True),
     me_accept = (\<lambda>_ _. True)\<rparr>"

definition example_peer :: peer_id where
  "example_peer = \<lparr>pid_multihash = \<lparr>mh_code = 0, mh_digest = [1]\<rparr>\<rparr>"

definition example_local :: peer_id where
  "example_local = \<lparr>pid_multihash = \<lparr>mh_code = 0, mh_digest = [2]\<rparr>\<rparr>"

definition acceptable_address ::
  "manager_env \<Rightarrow> supported_transport set \<Rightarrow> transport_manager \<Rightarrow> peer_id \<Rightarrow> multiaddr \<Rightarrow> bool" where
  "acceptable_address env supported m peer a \<longleftrightarrow>
     handle_supported_transport env supported a \<and> \<not> is_local_address m a \<and>
     last_opt a = Some (P2p (pid_multihash peer))"

text \<open>A supported address ends with a peer identifier.\<close>

lemma handle_supported_transport_p2p:
  assumes "handle_supported_transport env supported a"
  shows "\<exists>h. last_opt a = Some (P2p h)"
proof -
  have ht: "host_supported a" and t: "(case tl a of
         [Tcp _, P2p _] \<Rightarrow> TransportTcp \<in> supported
       | [Tcp _, Ws _, P2p _] \<Rightarrow> me_websocket env \<and> TransportWebSocket \<in> supported
       | [Tcp _, Wss _, P2p _] \<Rightarrow> me_websocket env \<and> TransportWebSocket \<in> supported
       | [Udp _, QuicV1, P2p _] \<Rightarrow> me_quic env \<and> TransportQuic \<in> supported
       | _ \<Rightarrow> False)"
    using assms by (simp_all add: handle_supported_transport_def)
  have "\<exists>h. last_opt (tl a) = Some (P2p h)"
    using t by (auto simp: last_opt_def split: list.splits protocol.splits)
  then show ?thesis by (cases a) (auto simp: last_opt_def split: if_splits)
qed

lemma known_address_iff:
  "known_address env supported m peer a = Some b \<longleftrightarrow> a = b \<and> acceptable_address env supported m peer a"
  using handle_supported_transport_p2p [of env supported a]
  by (auto simp: known_address_def acceptable_address_def split: option.splits protocol.splits)

lemma set_map_filter_known:
  "set (List.map_filter (known_address env supported m peer) as) =
     {a \<in> set as. acceptable_address env supported m peer a}"
  by (auto simp: List.map_filter_def image_iff known_address_iff)
    (metis known_address_iff option.distinct(1) option.sel)+

lemma address_record_from_acceptable:
  "acceptable_address env supported m peer a \<Longrightarrow> address_record_from_multiaddr a = Some (from_raw_multiaddr a)"
  by (simp add: acceptable_address_def address_record_from_multiaddr_def ends_with_p2p_def from_raw_multiaddr_def)



end
