(* ===== verification/Manager_Safety.thy ===== *)
theory Manager_Safety
  imports Manager_Handle
begin

section \<open>Invariants of the transport manager\<close>

text \<open>
  The connection table of a manager is the state of every peer, the connection limits, the pending
  connections and the connections whose acceptance is being announced. \<open>conn_ok\<close> is the invariant
  of the table; the handlers of \<open>Transport_Manager\<close> are shown to preserve it, so it holds in every
  state the manager can reach (\<open>manager_reachable\<close>).
\<close>

definition mstate :: "transport_manager \<Rightarrow> peer_id \<Rightarrow> peer_state" where
  "mstate m p = pc_state (peer_entry m p)"

definition mstore :: "transport_manager \<Rightarrow> peer_id \<Rightarrow> address_store" where
  "mstore m p = pc_addresses (peer_entry m p)"

definition all_live :: "(peer_id \<Rightarrow> peer_state) \<Rightarrow> connection_id set" where
  "all_live st = (\<Union>p. live (st p))"

definition limits_total :: "connection_limits \<Rightarrow> bool" where
  "limits_total l \<longleftrightarrow> max_incoming_connections (cl_config l) \<noteq> None
     \<and> max_outgoing_connections (cl_config l) \<noteq> None"

definition conn_ok ::
  "(peer_id \<Rightarrow> peer_state) \<Rightarrow> connection_limits \<Rightarrow> (connection_id \<Rightarrow> peer_id option)
     \<Rightarrow> (peer_id \<times> endpoint) list \<Rightarrow> bool" where
  "conn_ok st l pd ac \<longleftrightarrow>
     limits_ok l \<and> (\<forall>p. peer_state_ok (st p)) \<and>
     (\<forall>p q c. c \<in> live (st p) \<longrightarrow> c \<in> live (st q) \<longrightarrow> p = q) \<and>
     limits_held l \<subseteq> all_live st \<and> (limits_total l \<longrightarrow> all_live st \<subseteq> limits_held l) \<and>
     (\<forall>c p. pd c = Some p \<longrightarrow> attempt (st p) = Some c) \<and>
     (\<forall>p e q. (p, e) \<in> set ac \<longrightarrow> endpoint_connection_id e \<in> live (st q) \<longrightarrow> q = p)"

lemma conn_okD:
  assumes "conn_ok st l pd ac"
  shows "limits_ok l" "peer_state_ok (st p)" "limits_held l \<subseteq> all_live st"
    "limits_total l \<Longrightarrow> all_live st \<subseteq> limits_held l"
    "pd c = Some p \<Longrightarrow> attempt (st p) = Some c"
    "c \<in> live (st p) \<Longrightarrow> c \<in> live (st q) \<Longrightarrow> p = q"
    "(p, e) \<in> set ac \<Longrightarrow> endpoint_connection_id e \<in> live (st q) \<Longrightarrow> q = p"
  using assms unfolding conn_ok_def by blast+

lemma conn_okI:
  assumes "limits_ok l" "\<And>p. peer_state_ok (st p)" "limits_held l \<subseteq> all_live st"
    "limits_total l \<Longrightarrow> all_live st \<subseteq> limits_held l"
    "\<And>c p. pd c = Some p \<Longrightarrow> attempt (st p) = Some c"
    "\<And>c p q. c \<in> live (st p) \<Longrightarrow> c \<in> live (st q) \<Longrightarrow> p = q"
    "\<And>p e q. (p, e) \<in> set ac \<Longrightarrow> endpoint_connection_id e \<in> live (st q) \<Longrightarrow> q = p"
  shows "conn_ok st l pd ac"
  unfolding conn_ok_def using assms by blast

lemma all_live_upd: "all_live (st(p := s)) = live s \<union> (\<Union>q \<in> - {p}. live (st q))"
  by (auto simp: all_live_def split: if_splits)

lemma all_live_split: "all_live st = live (st p) \<union> (\<Union>q \<in> - {p}. live (st q))"
  by (auto simp: all_live_def)

subsection \<open>Changes of the connection table\<close>

text \<open>A peer changes its dial attempt and keeps its connections.\<close>

lemma conn_ok_attempt:
  assumes ok: "conn_ok st l pd ac" and s: "live s = live (st p)" "peer_state_ok s"
    and pd: "\<And>c q. pd' c = Some q \<Longrightarrow> (q \<noteq> p \<and> pd c = Some q) \<or> (q = p \<and> attempt s = Some c)"
  shows "conn_ok (st(p := s)) l pd' ac"
proof -
  have all: "all_live (st(p := s)) = all_live st"
    using s by (simp add: all_live_upd all_live_split [of st p])
  have lv: "live ((st(p := s)) q) = live (st q)" for q
    using s by simp
  show ?thesis
  proof (rule conn_okI, unfold lv all)
    show "peer_state_ok ((st(p := s)) q)" for q
      using conn_okD(2) [OF ok] s(2) by simp
    show "attempt ((st(p := s)) q) = Some c" if "pd' c = Some q" for c q
      using pd [OF that] conn_okD(5) [OF ok] by auto
  qed (use conn_okD [OF ok] in blast)+
qed

lemma conn_ok_pending:
  assumes "conn_ok st l pd ac" "\<And>c q. pd' c = Some q \<Longrightarrow> pd c = Some q"
  shows "conn_ok st l pd' ac"
  using assms unfolding conn_ok_def by blast

lemma conn_ok_pending_remove: "conn_ok st l pd ac \<Longrightarrow> conn_ok st l (pd(c := None)) ac"
  by (erule conn_ok_pending) (simp split: if_splits)

lemma conn_ok_accept_subset:
  "conn_ok st l pd ac \<Longrightarrow> set ac' \<subseteq> set ac \<Longrightarrow> conn_ok st l pd ac'"
  unfolding conn_ok_def by blast

text \<open>A connection that no other peer has is closed.\<close>

lemma live_closed: "peer_state_ok s \<Longrightarrow> live (snd (peer_on_connection_closed s c)) = live s - {c}"
  and attempt_closed: "peer_state_ok s \<Longrightarrow> attempt (snd (peer_on_connection_closed s c)) = attempt s"
  using view_closed [of s c] by (auto simp: spec_closed_def view_def map_prod_def split: prod.splits)

lemma conn_ok_closed:
  assumes ok: "conn_ok st l pd ac" and other: "\<And>q. q \<noteq> p \<Longrightarrow> c \<notin> live (st q)"
  shows "conn_ok (st(p := snd (peer_on_connection_closed (st p) c)))
           (limits_on_connection_closed l c) pd ac"
proof -
  let ?st = "st(p := snd (peer_on_connection_closed (st p) c))"
  note s = conn_okD(2) [OF ok, of p]
  have lv: "live (?st q) = live (st q) - {c}" for q
    using live_closed [OF s] other by auto
  then have all: "all_live ?st = all_live st - {c}"
    by (auto simp: all_live_def)
  have att: "attempt (?st q) = attempt (st q)" and pok: "peer_state_ok (?st q)" for q
    using attempt_closed [OF s] peer_on_connection_closed_ok [OF s] conn_okD(2) [OF ok] by simp_all
  show ?thesis
  proof (rule conn_okI, unfold lv all att limits_held_closed)
    show "limits_ok (limits_on_connection_closed l c)"
      using limits.ok_release conn_okD(1) [OF ok] .
    show "all_live st - {c} \<subseteq> limits_held l - {c}" if "limits_total (limits_on_connection_closed l c)"
      using that conn_okD(4) [OF ok] by (auto simp: limits_total_def)
  qed (use conn_okD [OF ok] pok in blast)+
qed

text \<open>A new connection is established and admitted by the limits.\<close>

lemma limits_held_accept_total:
  "limits_total l \<Longrightarrow> limits_held (accept_established_connection l c d) = insert c (limits_held l)"
  by (auto simp: limits_total_def limits_held_def accept_established_connection_def)

lemma established_view:
  assumes "peer_state_ok s" "cr_connection_id r \<notin> live s" "peer_on_connection_established s r = (True, s')"
  shows "live s' = insert (cr_connection_id r) (live s)"
    "attempt s' = (if is_opening s \<or> attempt s = Some (cr_connection_id r) then None else attempt s)"
  using view_established [OF assms(1,2)] assms(3)
  by (auto simp: spec_established_def view_def map_prod_def split: if_splits)

lemma conn_ok_established:
  assumes ok: "conn_ok st l pd ac" and fresh: "\<And>q. c \<notin> live (st q)"
    and ac: "\<And>q e. (q, e) \<in> set ac \<Longrightarrow> endpoint_connection_id e \<noteq> c"
    and est: "peer_on_connection_established (st p) r = (True, s')" "cr_connection_id r = c"
    and lim: "can_accept_connection l d = Inr ()"
    and pd: "\<And>c' q. pd' c' = Some q \<Longrightarrow> pd c' = Some q \<and> (q = p \<longrightarrow> c' \<noteq> c \<and> \<not> is_opening (st p))"
  shows "conn_ok (st(p := s')) (accept_established_connection l c d) pd' ac"
proof -
  let ?st = "st(p := s')"
  let ?l = "accept_established_connection l c d"
  note pok = conn_okD(2) [OF ok, of p]
  have lv: "live s' = insert c (live (st p))"
    and att: "attempt s' = (if is_opening (st p) \<or> attempt (st p) = Some c then None else attempt (st p))"
    using established_view [OF pok _ est(1)] fresh est(2) by auto
  have all: "all_live ?st = insert c (all_live st)"
    using lv by (auto simp: all_live_upd all_live_split [of st p])
  have "limits_held ?l \<subseteq> insert c (all_live st)"
    using limits.held_admit conn_okD(3) [OF ok] by blast
  moreover have "limits_total ?l \<Longrightarrow> insert c (all_live st) \<subseteq> limits_held ?l"
    using conn_okD(4) [OF ok] limits_held_accept_total by (auto simp: limits_total_def)
  moreover have "limits_ok ?l"
    using limits.ok_admit [OF conn_okD(1) [OF ok] lim] .
  moreover have "peer_state_ok (?st q)" for q
    using conn_okD(2) [OF ok] peer_on_connection_established_ok [OF pok, of r] fresh est by auto
  moreover have "attempt (?st q) = Some c'" if "pd' c' = Some q" for c' q
    using pd [OF that] conn_okD(5) [OF ok, of c' q] att by auto
  moreover have "q = q'" if "c' \<in> live (?st q)" "c' \<in> live (?st q')" for c' q q'
    using that fresh conn_okD(6) [OF ok] lv by (auto split: if_splits)
  moreover have "q = p'" if "(p', e) \<in> set ac" "endpoint_connection_id e \<in> live (?st q)" for p' e q
    using that ac conn_okD(7) [OF ok] lv by (auto split: if_splits)
  ultimately show ?thesis by (intro conn_okI) (simp_all only: all)
qed

subsection \<open>Frames\<close>

text \<open>What the small updates of the handlers leave alone.\<close>

lemma peer_entry_modify [simp]:
  "peer_entry (modify_peer p f m) = (peer_entry m)(p := f (peer_entry m p))"
  by (auto simp: peer_entry_def modify_peer_def)

lemma modify_peer_fields [simp]:
  "tm_connection_limits (modify_peer p f m) = tm_connection_limits m"
  "tm_pending_connections (modify_peer p f m) = tm_pending_connections m"
  "tm_pending_accept (modify_peer p f m) = tm_pending_accept m"
  "tm_transports (modify_peer p f m) = tm_transports m"
  "tm_next_connection_id (modify_peer p f m) = tm_next_connection_id m"
  "tm_protocols (modify_peer p f m) = tm_protocols m"
  "tm_protocol_names (modify_peer p f m) = tm_protocol_names m"
  "tm_opening_errors (modify_peer p f m) = tm_opening_errors m"
  "tm_listen_addresses (modify_peer p f m) = tm_listen_addresses m"
  "tm_local_peer_id (modify_peer p f m) = tm_local_peer_id m"
  "tm_calls (modify_peer p f m) = tm_calls m"
  by (simp_all add: modify_peer_def)

lemma peer_entry_frame [simp]:
  "peer_entry (m\<lparr>tm_calls := a\<rparr>) = peer_entry m"
  "peer_entry (m\<lparr>tm_pending_connections := b\<rparr>) = peer_entry m"
  "peer_entry (m\<lparr>tm_connection_limits := d\<rparr>) = peer_entry m"
  "peer_entry (m\<lparr>tm_next_connection_id := e\<rparr>) = peer_entry m"
  "peer_entry (m\<lparr>tm_opening_errors := f\<rparr>) = peer_entry m"
  "peer_entry (m\<lparr>tm_pending_accept := g\<rparr>) = peer_entry m"
  "peer_entry (m\<lparr>tm_protocols := h\<rparr>) = peer_entry m"
  "peer_entry (m\<lparr>tm_protocol_names := i\<rparr>) = peer_entry m"
  "peer_entry (m\<lparr>tm_transports := j\<rparr>) = peer_entry m"
  "peer_entry (m\<lparr>tm_supported_transport := k\<rparr>) = peer_entry m"
  "peer_entry (m\<lparr>tm_listen_addresses := l\<rparr>) = peer_entry m"
  by (simp_all add: peer_entry_def fun_eq_iff)

lemma mstate_eq: "mstate m = (\<lambda>p. pc_state (peer_entry m p))"
  by (simp add: mstate_def fun_eq_iff)

lemma mstore_eq: "mstore m = (\<lambda>p. pc_addresses (peer_entry m p))"
  by (simp add: mstore_def fun_eq_iff)

lemma mstate_set [simp]: "mstate (set_peer_state p s m) = (mstate m)(p := s)"
  "mstate (insert_peer_address env p r m) = mstate m"
  "mstate (modify_peer p (\<lambda>c. c) m) = mstate m"
  "mstate (modify_peer p (\<lambda>c. c\<lparr>pc_addresses := g c\<rparr>) m) = mstate m"
  by (simp_all add: mstate_eq fun_eq_iff)

lemma mstore_set [simp]: "mstore (set_peer_state p s m) = mstore m"
  "mstore (insert_peer_address env p r m) =
     (mstore m)(p := address_store_insert (me_address env) (mstore m p) r)"
  "mstore (modify_peer p (\<lambda>c. c) m) = mstore m"
  by (simp_all add: mstore_eq fun_eq_iff)

lemma mstate_frame [simp]:
  "mstate (m\<lparr>tm_calls := a\<rparr>) = mstate m" "mstate (m\<lparr>tm_pending_connections := b\<rparr>) = mstate m"
  "mstate (m\<lparr>tm_connection_limits := d\<rparr>) = mstate m" "mstate (m\<lparr>tm_next_connection_id := e\<rparr>) = mstate m"
  "mstate (m\<lparr>tm_opening_errors := f\<rparr>) = mstate m" "mstate (m\<lparr>tm_pending_accept := g\<rparr>) = mstate m"
  "mstate (m\<lparr>tm_protocols := h\<rparr>) = mstate m" "mstate (m\<lparr>tm_protocol_names := i\<rparr>) = mstate m"
  "mstate (m\<lparr>tm_transports := j\<rparr>) = mstate m" "mstate (m\<lparr>tm_supported_transport := k\<rparr>) = mstate m"
  "mstate (m\<lparr>tm_listen_addresses := l\<rparr>) = mstate m"
  by (simp_all add: mstate_eq)

lemma mstore_frame [simp]:
  "mstore (m\<lparr>tm_calls := a\<rparr>) = mstore m" "mstore (m\<lparr>tm_pending_connections := b\<rparr>) = mstore m"
  "mstore (m\<lparr>tm_connection_limits := d\<rparr>) = mstore m" "mstore (m\<lparr>tm_next_connection_id := e\<rparr>) = mstore m"
  "mstore (m\<lparr>tm_opening_errors := f\<rparr>) = mstore m" "mstore (m\<lparr>tm_pending_accept := g\<rparr>) = mstore m"
  "mstore (m\<lparr>tm_protocols := h\<rparr>) = mstore m" "mstore (m\<lparr>tm_protocol_names := i\<rparr>) = mstore m"
  "mstore (m\<lparr>tm_transports := j\<rparr>) = mstore m" "mstore (m\<lparr>tm_supported_transport := k\<rparr>) = mstore m"
  "mstore (m\<lparr>tm_listen_addresses := l\<rparr>) = mstore m"
  by (simp_all add: mstore_eq)

lemma open_transports_frame: "\<exists>xs. snd (open_transports env m c gs) = m\<lparr>tm_calls := xs\<rparr>"
proof (induction gs arbitrary: m)
  case Nil
  show ?case by (rule exI [of _ "tm_calls m"]) simp
next
  case (Cons g gs)
  obtain t as where g: "g = (t, as)" by (cases g)
  obtain xs where xs: "snd (open_transports env m c gs) = m\<lparr>tm_calls := xs\<rparr>"
    using Cons by blast
  obtain ys where ys: "snd (open_transports env (emit (CallOpen t c as) m) c gs)
      = (emit (CallOpen t c as) m)\<lparr>tm_calls := ys\<rparr>"
    using Cons by blast
  show ?case
    using exI [of "\<lambda>xs. snd (open_transports env m c gs) = m\<lparr>tm_calls := xs\<rparr>", OF xs] ys
    by (simp add: g Let_def) blast
qed

lemma cancel_transports_frame:
  "cancel_transports m c ts = Inr m' \<Longrightarrow> m' = m\<lparr>tm_calls := tm_calls m @ map (\<lambda>t. CallCancel t c) ts\<rparr>"
  by (induction m c ts rule: cancel_transports.induct) (auto split: if_splits)

lemma cancel_transports_panic: "cancel_transports m c ts = Inl p \<longleftrightarrow> \<not> set ts \<subseteq> installed m"
  by (cases p) (induction m c ts rule: cancel_transports.induct, auto)

lemma notify_protocols_frame: "\<exists>xs. notify_protocols env m peer as = m\<lparr>tm_calls := xs\<rparr>"
proof -
  have "\<exists>xs. foldl (\<lambda>m (n, _). emit (NotifyDialFailure n peer as) m) m ps = m\<lparr>tm_calls := xs\<rparr>"
    for ps :: "(protocol_name \<times> protocol_context) list"
  proof (induction ps arbitrary: m)
    case Nil
    show ?case by (rule exI [of _ "tm_calls m"]) simp
  next
    case (Cons x ps)
    obtain n ctx where x: "x = (n, ctx)" by (cases x)
    from Cons [of "emit (NotifyDialFailure n peer as) m"] show ?case by (auto simp: x)
  qed
  then show ?thesis by (simp add: notify_protocols_def)
qed

subsection \<open>Preservation by the handlers\<close>

definition manager_env_ok :: "manager_env \<Rightarrow> bool" where
  "manager_env_ok env \<longleftrightarrow>
     address_env_ok (me_address env) \<and>
     (\<forall>S. set (me_transport_order env S) = S \<and> distinct (me_transport_order env S)) \<and>
     iteration_order (me_multiaddr_order env) \<and> iteration_order (me_group_order env) \<and> iteration_order (me_protocol_order env)"

definition table_ok :: "transport_manager \<Rightarrow> bool" where
  "table_ok m \<longleftrightarrow>
     conn_ok (mstate m) (tm_connection_limits m) (hm_get (tm_pending_connections m)) (tm_pending_accept m)"

definition stores_ok :: "transport_manager \<Rightarrow> bool" where
  "stores_ok m \<longleftrightarrow> (\<forall>p. address_store_ok (mstore m p))"

lemmas table_frame = table_ok_def mstate_frame mstate_set modify_peer_fields

lemma keys_supported_transports:
  "hm_keys (supported_transports_addresses env as) = address_transport env ` set as"
proof -
  let ?f = "\<lambda>groups address. let t = address_transport env address
              in hm_insert t ((case hm_get groups t of Some g \<Rightarrow> g | None \<Rightarrow> []) @ [address]) groups"
  have "hm_keys (foldl ?f gs as) = hm_keys gs \<union> address_transport env ` set as" for gs
    by (induction as arbitrary: gs) (auto simp: Let_def)
  then show ?thesis by (simp add: supported_transports_addresses_def hm_keys_def)
qed

definition frame :: "transport_manager \<Rightarrow> transport_manager \<Rightarrow> bool" where
  "frame m m' \<longleftrightarrow> tm_connection_limits m' = tm_connection_limits m \<and>
     tm_pending_accept m' = tm_pending_accept m \<and> tm_transports m' = tm_transports m"

definition opening_from :: "manager_env \<Rightarrow> address_store \<Rightarrow> connection_id \<Rightarrow> peer_state \<Rightarrow> bool" where
  "opening_from env store c s \<longleftrightarrow>
     (\<exists>k. let as = address_store_addresses (me_address env) store k
          in as \<noteq> [] \<and> s = Opening (set as) c (address_transport env ` set as))"

text \<open>Everything \<open>dial\<close> can do to the connection table.\<close>

lemma dial_effect:
  assumes "snd (dial env m p) = m'"
  shows "frame m m' \<and> mstore m' = mstore m \<and>
    (mstate m' = mstate m \<and> tm_pending_connections m' = tm_pending_connections m \<or>
     (\<exists>s c. can_dial (mstate m p) = DialOk \<and> opening_from env (mstore m p) c s \<and>
        mstate m' = (mstate m)(p := s) \<and>
        (tm_pending_connections m' = tm_pending_connections m \<or>
         tm_pending_connections m' = hm_insert c p (tm_pending_connections m))))"
proof (cases "limits_on_dial_address (tm_connection_limits m)")
  case (Inl e)
  then show ?thesis using assms by (auto simp: dial_def frame_def)
next
  case (Inr k)
  let ?as = "address_store_addresses (me_address env) (mstore m p) k"
  let ?c = "tm_next_connection_id m"
  let ?s = "Opening (set ?as) ?c (address_transport env ` set ?as)"
  let ?m = "set_peer_state p ?s (snd (next_connection_id (modify_peer p (\<lambda>c. c) m)))"
  consider "p = tm_local_peer_id m"
    | "p \<noteq> tm_local_peer_id m" "can_dial (mstate m p) \<noteq> DialOk \<or> ?as = []"
    | "p \<noteq> tm_local_peer_id m" "can_dial (mstate m p) = DialOk" "?as \<noteq> []"
    by blast
  then show ?thesis
  proof cases
    case 1
    then show ?thesis using Inr assms by (auto simp: dial_def frame_def)
  next
    case 2
    then have "m' = modify_peer p (\<lambda>c. c) m"
      using Inr assms
      by (auto simp: dial_def mstate_def mstore_def Let_def split: state_dial_result.splits)
    then show ?thesis by (simp add: frame_def)
  next
    case 3
    obtain xs where xs: "snd (open_transports env ?m ?c
        (me_group_order env (supported_transports_addresses env ?as))) = ?m\<lparr>tm_calls := xs\<rparr>"
      using open_transports_frame by blast
    have m': "m' = ?m\<lparr>tm_calls := xs\<rparr> \<or> m' = ?m\<lparr>tm_calls := xs,
        tm_pending_connections := hm_insert ?c p (tm_pending_connections m)\<rparr>"
      using 3 Inr assms xs
      by (auto simp: dial_def mstate_def mstore_def Let_def next_connection_id_def dial_addresses_def
          keys_supported_transports split: sum.splits prod.splits)
    have "opening_from env (mstore m p) ?c ?s"
      using 3(3) by (auto simp: opening_from_def Let_def)
    moreover have "frame m m' \<and> mstore m' = mstore m \<and> mstate m' = (mstate m)(p := ?s) \<and>
        (tm_pending_connections m' = tm_pending_connections m \<or>
         tm_pending_connections m' = hm_insert ?c p (tm_pending_connections m))"
      using m' by (auto simp: frame_def next_connection_id_def)
    ultimately show ?thesis using 3(2) by blast
  qed
qed

lemma dial_address_effect:
  assumes "dial_address env m a = Inr (res, m')"
  shows "frame m m' \<and>
    (m' = m \<or>
     (\<exists>p c. try_from_multiaddr a = Some p \<and>
        mstore m' = (mstore m)(p := address_store_insert (me_address env) (mstore m p) (from_raw_multiaddr a)) \<and>
        (mstate m' = mstate m \<and> tm_pending_connections m' = tm_pending_connections m \<or>
         can_dial (mstate m p) = DialOk \<and>
         mstate m' = (mstate m)(p := Dialing \<lparr>cr_address = a, cr_connection_id = c\<rparr>) \<and>
         (tm_pending_connections m' = tm_pending_connections m \<or>
          tm_pending_connections m' = hm_insert c p (tm_pending_connections m)))))"
proof (cases "m' = m")
  case False
  have rec: "address_record_from_multiaddr a = Some (from_raw_multiaddr a)"
    if "address_record_from_multiaddr a \<noteq> None"
    using that by (auto simp: address_record_from_multiaddr_def from_raw_multiaddr_def split: if_splits)
  obtain t p where p: "try_from_multiaddr a = Some p" "dial_transport env a = Some t"
    "address_record_from_multiaddr a = Some (from_raw_multiaddr a)"
    using assms False rec
    by (auto simp: dial_address_def split: sum.splits option.splits if_splits)
  let ?c = "tm_next_connection_id m"
  let ?r = "\<lparr>cr_address = a, cr_connection_id = ?c\<rparr>"
  let ?m2 = "insert_peer_address env p (from_raw_multiaddr a) (snd (next_connection_id m))"
  obtain d s where ds: "dial_single_address (mstate m p) ?r = (d, s)" by fastforce
  let ?m3 = "set_peer_state p s ?m2"
  have m2: "pc_state (peer_entry ?m2 p) = mstate m p"
    by (simp add: next_connection_id_def mstate_def)
  have m': "m' = ?m3 \<or> d = DialOk \<and> (\<exists>xs. m' = ?m3\<lparr>tm_calls := xs\<rparr> \<or>
      m' = ?m3\<lparr>tm_calls := xs, tm_pending_connections := hm_insert ?c p (tm_pending_connections m)\<rparr>)"
    using assms False p ds m2
    by (auto simp: dial_address_def Let_def next_connection_id_def
        split: sum.splits if_splits state_dial_result.splits)
  have ds': "d = DialOk \<longleftrightarrow> can_dial (mstate m p) = DialOk"
    "s = (if d = DialOk then Dialing ?r else mstate m p)"
    using ds by (auto simp: dial_single_address_def split: state_dial_result.splits)
  have "frame m m'
    \<and> mstore m' = (mstore m)(p := address_store_insert (me_address env) (mstore m p) (from_raw_multiaddr a))
    \<and> mstate m' = (mstate m)(p := s)"
    using m' by (auto simp: frame_def next_connection_id_def)
  moreover have "tm_pending_connections m' = tm_pending_connections m \<or>
      d = DialOk \<and> tm_pending_connections m' = hm_insert ?c p (tm_pending_connections m)"
    using m' by (auto simp: next_connection_id_def)
  ultimately show ?thesis using p(1) ds' by (auto split: if_splits)
qed (simp add: frame_def)

text \<open>A peer with nothing outstanding starts an attempt.\<close>

lemma table_ok_dialing:
  assumes ok: "table_ok m" and d: "can_dial (mstate m p) = DialOk" and f: "frame m m'"
    and s: "mstate m' = (mstate m)(p := s)" "live s = {}" "attempt s = Some c" "peer_state_ok s"
    and pd: "tm_pending_connections m' = tm_pending_connections m
       \<or> tm_pending_connections m' = hm_insert c p (tm_pending_connections m)"
  shows "table_ok m'"
proof -
  have none: "live (mstate m p) = {}" "attempt (mstate m p) = None"
    using d can_dial_DialOk by auto
  have "conn_ok ((mstate m)(p := s)) (tm_connection_limits m) (hm_get (tm_pending_connections m'))
      (tm_pending_accept m)"
  proof (rule conn_ok_attempt)
    show "conn_ok (mstate m) (tm_connection_limits m) (hm_get (tm_pending_connections m))
        (tm_pending_accept m)"
      using ok by (simp add: table_ok_def)
    then show "q \<noteq> p \<and> hm_get (tm_pending_connections m) c' = Some q \<or> q = p \<and> attempt s = Some c'"
      if "hm_get (tm_pending_connections m') c' = Some q" for c' q
      using that pd s(3) none(2) conn_okD(5) by (auto split: if_splits)
  qed (use s none in simp_all)
  with f s(1) show ?thesis by (simp add: table_ok_def frame_def)
qed

lemma table_ok_same:
  "table_ok m \<Longrightarrow> frame m m' \<Longrightarrow> mstate m' = mstate m \<Longrightarrow>
     tm_pending_connections m' = tm_pending_connections m \<Longrightarrow> table_ok m'"
  by (simp add: table_ok_def frame_def)

lemma opening_from_ok: "opening_from env store c s \<Longrightarrow> live s = {} \<and> attempt s = Some c \<and> peer_state_ok s"
  by (auto simp: opening_from_def Let_def)

lemma dial_ok_table: "table_ok m \<Longrightarrow> table_ok (snd (dial env m p))"
  using dial_effect [of env m p, OF refl] table_ok_same table_ok_dialing opening_from_ok by metis

lemma dial_address_ok_table:
  assumes "table_ok m" "dial_address env m a = Inr (res, m')"
  shows "table_ok m'"
proof -
  have "live (Dialing r) = {}" "attempt (Dialing r) = Some (cr_connection_id r)"
    "peer_state_ok (Dialing r)" for r by simp_all
  then show ?thesis
    using dial_address_effect [OF assms(2)] assms(1) table_ok_same
      table_ok_dialing [OF assms(1), of _ m' "Dialing _"]
    by (metis connection_record.select_convs(2))
qed

lemma table_pending: "table_ok m \<Longrightarrow> hm_get (tm_pending_connections m) c = Some p \<Longrightarrow> attempt (mstate m p) = Some c"
  using conn_okD(5) by (auto simp: table_ok_def)

text \<open>The attempt of a peer with a pending connection ends or moves on.\<close>

lemma table_ok_advance:
  assumes ok: "table_ok m" and c: "hm_get (tm_pending_connections m) c = Some p"
    and f: "frame m m'" and s: "mstate m' = (mstate m)(p := s)" "live s = live (mstate m p)" "peer_state_ok s"
    and pd: "hm_get (tm_pending_connections m') = (hm_get (tm_pending_connections m))(c := None) \<or>
      attempt s = Some c \<and> hm_get (tm_pending_connections m') = hm_get (tm_pending_connections m)"
  shows "table_ok m'"
proof -
  have "conn_ok ((mstate m)(p := s)) (tm_connection_limits m) (hm_get (tm_pending_connections m'))
      (tm_pending_accept m)"
  proof (rule conn_ok_attempt)
    show "conn_ok (mstate m) (tm_connection_limits m) (hm_get (tm_pending_connections m))
        (tm_pending_accept m)"
      using ok by (simp add: table_ok_def)
    show "q \<noteq> p \<and> hm_get (tm_pending_connections m) c' = Some q \<or> q = p \<and> attempt s = Some c'"
      if "hm_get (tm_pending_connections m') c' = Some q" for c' q
      using that pd table_pending [OF ok c] table_pending [OF ok, of c' q]
      by (auto split: if_splits)
  qed (use s in simp_all)
  with f s(1) show ?thesis by (simp add: table_ok_def frame_def)
qed

lemma live_dial_failure: "live (snd (peer_on_dial_failure s c)) = live s"
  by (cases "(s, c)" rule: peer_on_dial_failure.cases) auto

lemma live_open_failure: "live (snd (peer_on_open_failure s t)) = live s"
  by (cases "(s, t)" rule: peer_on_open_failure.cases) (auto simp: Let_def)

lemma live_connection_opened: "live (snd (peer_on_connection_opened s r)) = live s"
  by (cases "(s, r)" rule: peer_on_connection_opened.cases) auto

lemma table_state_ok: "table_ok m \<Longrightarrow> peer_state_ok (mstate m p)"
  using conn_okD(2) by (auto simp: table_ok_def)

lemma on_dial_failure_ok_table:
  assumes "table_ok m"
  shows "table_ok (snd (on_dial_failure m c))"
proof (cases "hm_get (tm_pending_connections m) c")
  case None
  then show ?thesis using assms by (simp add: on_dial_failure_def)
next
  case (Some p)
  show ?thesis
    by (rule table_ok_advance [OF assms Some, where s = "snd (peer_on_dial_failure (mstate m p) c)"])
      (use Some in \<open>simp_all add: on_dial_failure_def Let_def frame_def live_dial_failure mstate_def [symmetric]
        peer_on_dial_failure_ok table_state_ok [OF assms]\<close>)
qed

lemma on_open_failure_ok_table:
  assumes "table_ok m"
  shows "table_ok (snd (on_open_failure m t c))"
proof (cases "hm_get (tm_pending_connections m) c")
  case None
  then show ?thesis using assms by (simp add: on_open_failure_def)
next
  case (Some p)
  let ?s = "mstate m p" and ?r = "peer_on_open_failure (mstate m p) t"
  have att: "snd ?r = ?s \<or> fst ?r \<or> attempt (snd ?r) = Some c"
    using table_pending [OF assms Some]
    by (cases "(?s, t)" rule: peer_on_open_failure.cases) (auto simp: Let_def)
  show ?thesis
    by (rule table_ok_advance [OF assms Some, where s = "snd ?r"])
      (use Some att table_pending [OF assms Some] in \<open>auto simp: on_open_failure_def Let_def frame_def live_open_failure
        mstate_def [symmetric] peer_on_open_failure_ok table_state_ok [OF assms] split: prod.splits\<close>)
qed

lemma on_connection_closed_ok_table:
  assumes "table_ok m" "\<And>q. q \<noteq> p \<Longrightarrow> c \<notin> live (mstate m q)"
  shows "table_ok (snd (on_connection_closed m p c))"
  using conn_ok_closed [of "mstate m" "tm_connection_limits m" "hm_get (tm_pending_connections m)"
      "tm_pending_accept m" p c] assms
  by (auto simp: table_ok_def on_connection_closed_def Let_def mstate_def [symmetric] split: prod.splits)

lemma insert_address_table [simp]: "table_ok (insert_peer_address env p r m) = table_ok m"
  by (simp add: table_ok_def)

lemma update_address_failure_table [simp]:
  "table_ok (update_address_on_dial_failure env m a e) = table_ok m"
  "mstate (update_address_on_dial_failure env m a e) = mstate m"
  "frame m (update_address_on_dial_failure env m a e)"
  by (auto simp: update_address_on_dial_failure_def frame_def split: option.splits)

lemma record_failures_table [simp]:
  "table_ok (record_failures env m es) = table_ok m"
  "mstate (record_failures env m es) = mstate m"
  "installed (record_failures env m es) = installed m"
proof -
  have "table_ok (record_failures env m es) = table_ok m
    \<and> mstate (record_failures env m es) = mstate m
    \<and> installed (record_failures env m es) = installed m"
    unfolding record_failures_def
  proof (induction es arbitrary: m)
    case (Cons x es)
    have "installed (update_address_on_dial_failure env m a e) = installed m" for a e
      using update_address_failure_table(3) [of m env a e] by (simp add: frame_def)
    with Cons show ?case by (auto simp: case_prod_beta)
  qed simp
  then show "table_ok (record_failures env m es) = table_ok m"
    "mstate (record_failures env m es) = mstate m"
    "installed (record_failures env m es) = installed m" by blast+
qed

lemma on_connection_opened_ok_table:
  assumes ok: "table_ok m" and r: "on_connection_opened env m t c a = Inr (res, m')"
  shows "table_ok m'"
proof (cases "hm_get (tm_pending_connections m) c")
  case None
  then show ?thesis using ok r by (simp add: on_connection_opened_def)
next
  case (Some p)
  let ?rec = "connection_record_new p a c"
  show ?thesis
  proof (cases "is_opening (mstate m p)")
    case True
    then obtain as c' ts where Opening: "mstate m p = Opening as c' ts"
      by (cases "mstate m p") auto
    have c': "c' = c" using table_pending [OF ok Some] Opening by simp
    let ?pd = "(hm_get (tm_pending_connections m))(c := None)"
    have "frame m m' \<and> (mstate m' = (mstate m)(p := Dialing ?rec)
        \<and> hm_get (tm_pending_connections m') = hm_get (tm_pending_connections m) \<or>
      mstate m' = (mstate m)(p := Disconnected None) \<and> hm_get (tm_pending_connections m') = ?pd)"
      using r Some Opening c'
      by (auto simp: on_connection_opened_def Let_def frame_def mstate_def [symmetric] fun_upd_idem
          dest!: cancel_transports_frame split: sum.splits if_splits)
    then show ?thesis
      using table_ok_advance [OF ok Some, of m' "Dialing ?rec"]
        table_ok_advance [OF ok Some, of m' "Disconnected None"] Opening by auto
  next
    case False
    have "m' = set_peer_state p (mstate m p) (insert_peer_address env p
        (address_record_new p a CONNECTION_ESTABLISHED)
        (m\<lparr>tm_pending_connections := hm_remove c (tm_pending_connections m)\<rparr>))"
      using r Some False
      by (cases "mstate m p") (simp_all add: on_connection_opened_def Let_def mstate_def [symmetric])
    then show ?thesis
      by (intro table_ok_advance [OF ok Some, where s = "mstate m p"])
        (simp_all add: frame_def table_state_ok [OF ok])
  qed
qed

text \<open>What an established connection can do to the connection table.\<close>

lemma update_address_established [simp]:
  "mstate (update_address_on_connection_established env m p e) = mstate m"
  "tm_pending_connections (update_address_on_connection_established env m p e) = tm_pending_connections m"
  "tm_connection_limits (update_address_on_connection_established env m p e) = tm_connection_limits m"
  "tm_pending_accept (update_address_on_connection_established env m p e) = tm_pending_accept m"
  "tm_transports (update_address_on_connection_established env m p e) = tm_transports m"
  by (simp_all add: update_address_on_connection_established_def)

lemma established_rejected: "peer_on_connection_established s r = (False, s') \<Longrightarrow> s' = s"
  by (cases "(s, r)" rule: peer_on_connection_established.cases)
    (auto simp: convert_or_preserve_def split: if_splits)

lemma on_connection_established_effect:
  assumes "on_connection_established env m p e = Inr (res, m')"
  shows "tm_pending_accept m' = tm_pending_accept m \<and> tm_transports m' = tm_transports m \<and>
    (if res = Inr Accept then
       (\<exists>s. peer_on_connection_established (mstate m p) (connection_record_from_endpoint p e) = (True, s)
          \<and> mstate m' = (mstate m)(p := s))
       \<and> can_accept_connection (tm_connection_limits m) (is_listener e) = Inr ()
       \<and> tm_connection_limits m' = accept_established_connection (tm_connection_limits m)
            (endpoint_connection_id e) (is_listener e)
       \<and> (\<forall>c q. hm_get (tm_pending_connections m') c = Some q \<longrightarrow>
            hm_get (tm_pending_connections m) c = Some q \<and> c \<noteq> endpoint_connection_id e \<and>
            (is_opening (mstate m p) \<longrightarrow> attempt (mstate m p) \<noteq> Some c))
     else mstate m' = mstate m \<and> tm_connection_limits m' = tm_connection_limits m
       \<and> hm_get (tm_pending_connections m') =
            (hm_get (tm_pending_connections m))(endpoint_connection_id e := None))"
proof -
  let ?r = "connection_record_from_endpoint p e"
  obtain a s where est: "peer_on_connection_established (mstate m p) ?r = (a, s)"
    by fastforce
  have entry: "pc_state (peer_entry (update_address_on_connection_established env m p e) p) = mstate m p"
    by (simp flip: mstate_def)
  show ?thesis
    using assms est established_rejected [of "mstate m p" ?r s]
    unfolding on_connection_established_def Let_def peer_entry_frame entry
    by (cases "mstate m p"; cases a)
      (auto dest!: cancel_transports_frame simp: fun_upd_idem split: if_splits sum.splits)
qed

subsection \<open>Runs of the manager\<close>

text \<open>
  What the event loop relies on. A transport reports an established connection under an identifier
  that no live or just accepted connection has, it never reports \<open>ConnectionClosed\<close> itself, and only
  installed transports are polled. A connection is reported closed for the peer it belongs to, a
  completed acceptance is one of the pending ones, and the \<open>/p2p\<close> components of a \<open>Multiaddr\<close> are
  valid peer identifiers, which its constructor checks.
\<close>

definition multiaddr_valid :: "multiaddr \<Rightarrow> bool" where
  "multiaddr_valid a \<longleftrightarrow> (\<forall>h. P2p h \<in> set a \<longrightarrow> (\<exists>p. from_multihash h = Inr p))"

fun input_ok :: "transport_manager \<Rightarrow> manager_input \<Rightarrow> bool" where
  "input_ok m (AcceptCompleted p e _) \<longleftrightarrow> (p, e) \<in> set (tm_pending_accept m)"
| "input_ok m (EventReceived (Some (ManagerConnectionClosed p c))) \<longleftrightarrow>
     (\<forall>q. c \<in> live (mstate m q) \<longrightarrow> q = p)"
| "input_ok m (CommandReceived (Some (DialAddress a))) \<longleftrightarrow> multiaddr_valid a"
| "input_ok m (TransportYielded (Some (t, ConnectionEstablished p e))) \<longleftrightarrow>
     t \<in> installed m \<and> (\<forall>q. endpoint_connection_id e \<notin> live (mstate m q)) \<and>
     (\<forall>(q, e') \<in> set (tm_pending_accept m). endpoint_connection_id e' \<noteq> endpoint_connection_id e)"
| "input_ok m (TransportYielded (Some (t, ConnectionClosed _ _))) \<longleftrightarrow> False"
| "input_ok m (TransportYielded (Some (t, _))) \<longleftrightarrow> t \<in> installed m"
| "input_ok m _ \<longleftrightarrow> True"

definition env_for :: "bool \<Rightarrow> bool \<Rightarrow> manager_env \<Rightarrow> bool" where
  "env_for quic websocket env \<longleftrightarrow>
     manager_env_ok env \<and> me_quic env = quic \<and> me_websocket env = websocket"

text \<open>
  A run interleaves iterations of the event loop with the calls of the public interface, for a build
  with the features \<open>quic\<close> and \<open>websocket\<close>.
\<close>

inductive manager_run :: "bool \<Rightarrow> bool \<Rightarrow> transport_manager \<Rightarrow> transport_manager \<Rightarrow> bool"
  for quic websocket m0 where
  start: "manager_run quic websocket m0 m0"
| next_step: "manager_run quic websocket m0 m \<Longrightarrow> env_for quic websocket env \<Longrightarrow> input_ok m inp \<Longrightarrow>
    manager_next env m inp = Inr (out, m') \<Longrightarrow> manager_run quic websocket m0 m'"
| call_dial: "manager_run quic websocket m0 m \<Longrightarrow> env_for quic websocket env \<Longrightarrow>
    dial env m p = (res, m') \<Longrightarrow> manager_run quic websocket m0 m'"
| call_dial_address: "manager_run quic websocket m0 m \<Longrightarrow> env_for quic websocket env \<Longrightarrow>
    dial_address env m a = Inr (res, m') \<Longrightarrow> manager_run quic websocket m0 m'"
| call_add_known_address: "manager_run quic websocket m0 m \<Longrightarrow> env_for quic websocket env \<Longrightarrow>
    add_known_address env supported m p as = (n, m') \<Longrightarrow> manager_run quic websocket m0 m'"
| call_register_protocol: "manager_run quic websocket m0 m \<Longrightarrow>
    register_protocol m name fallbacks codec keep_alive inbound = Inr m' \<Longrightarrow>
    manager_run quic websocket m0 m'"
| call_register_transport: "manager_run quic websocket m0 m \<Longrightarrow>
    register_transport m t = Inr m' \<Longrightarrow> manager_run quic websocket m0 m'"
| call_register_listen_address: "manager_run quic websocket m0 m \<Longrightarrow>
    register_listen_address m a = Inr m' \<Longrightarrow> manager_run quic websocket m0 m'"

text \<open>A manager before its first connection.\<close>

definition fresh :: "transport_manager \<Rightarrow> bool" where
  "fresh m \<longleftrightarrow> tm_peers m = [] \<and> tm_pending_connections m = [] \<and> tm_pending_accept m = [] \<and>
     tm_connection_limits m = connection_limits_new (cl_config (tm_connection_limits m))"

lemma fresh_build [simp]: "fresh (transport_manager_build local supported config)"
  by (simp add: fresh_def transport_manager_build_def connection_limits_new_def)

lemma fresh_mstate: "fresh m \<Longrightarrow> mstate m = (\<lambda>_. Disconnected None)"
  and fresh_mstore: "fresh m \<Longrightarrow> mstore m = (\<lambda>_. address_store_new)"
  by (simp_all add: fresh_def mstate_eq mstore_eq peer_entry_def peer_context_default_def)

lemma fresh_table:
  assumes "fresh m"
  shows "table_ok m"
proof -
  obtain cfg where l: "tm_connection_limits m = connection_limits_new cfg"
    using assms by (auto simp: fresh_def)
  show ?thesis
    using assms unfolding table_ok_def l fresh_mstate [OF assms]
    by (intro conn_okI) (auto simp: all_live_def fresh_def)
qed

lemma next_connection_established_ok_table:
  assumes ok: "table_ok m" and "input_ok m (TransportYielded (Some (t, ConnectionEstablished p e)))"
    and r: "next_connection_established env m t p e = Inr (out, m')"
  shows "table_ok m'"
proof -
  let ?c = "endpoint_connection_id e"
  let ?m0 = "m\<lparr>tm_opening_errors := hm_remove ?c (tm_opening_errors m)\<rparr>"
  have fresh: "?c \<notin> live (mstate m q)" for q using assms(2) by simp
  have ac: "endpoint_connection_id e' \<noteq> ?c" if "(q, e') \<in> set (tm_pending_accept m)" for q e'
    using assms(2) that by auto
  obtain res m1 where est: "on_connection_established env ?m0 p e = Inr (res, m1)"
    using r by (auto simp: next_connection_established_def Let_def split: sum.splits)
  note eff = on_connection_established_effect [OF est]
  have c0: "conn_ok (mstate m) (tm_connection_limits m) (hm_get (tm_pending_connections m)) (tm_pending_accept m)"
    using ok by (simp add: table_ok_def)
  show ?thesis
  proof (cases "res = Inr Accept")
    case False
    then have "m' = emit (CallReject t ?c) m1"
      using r est by (auto simp: next_connection_established_def Let_def split: if_splits)
    moreover have "table_ok m1"
      using eff False conn_ok_pending_remove [OF c0] by (simp add: table_ok_def)
    ultimately show ?thesis by (simp add: table_ok_def)
  next
    case True
    obtain s where s: "peer_on_connection_established (mstate m p) (connection_record_from_endpoint p e) = (True, s)"
      "mstate m1 = (mstate m)(p := s)"
      using eff True by auto
    have t1: "table_ok m1"
      unfolding table_ok_def using eff True s
      by (auto intro!: conn_ok_established [OF c0 fresh ac s(1)] dest: conn_okD(5) [OF c0])
    have lv: "?c \<notin> live (mstate m1 q)" if "q \<noteq> p" for q using that s(2) fresh by simp
    have "m' = (emit (CallAccept t ?c) m1)\<lparr>tm_pending_accept := tm_pending_accept m1 @ [(p, e)]\<rparr> \<or>
        m' = snd (on_connection_closed (emit (CallAccept t ?c) m1) p ?c)"
      using r est True by (auto simp: next_connection_established_def Let_def split: if_splits)
    moreover have "table_ok ((emit (CallAccept t ?c) m1)\<lparr>tm_pending_accept := tm_pending_accept m1 @ [(p, e)]\<rparr>)"
      using t1 lv unfolding table_ok_def by (intro conn_okI) (auto dest: conn_okD)
    moreover have "table_ok (snd (on_connection_closed (emit (CallAccept t ?c) m1) p ?c))"
      using t1 lv by (intro on_connection_closed_ok_table) (simp_all add: table_ok_def)
    ultimately show ?thesis by blast
  qed
qed

lemma notify_protocols_table [simp]: "table_ok (notify_protocols env m p as) = table_ok m"
  "mstate (notify_protocols env m p as) = mstate m" "mstore (notify_protocols env m p as) = mstore m"
  "tm_transports (notify_protocols env m p as) = tm_transports m"
  "tm_pending_connections (notify_protocols env m p as) = tm_pending_connections m"
  using notify_protocols_frame [of env m p as] by (auto simp: table_ok_def)

lemma table_ok_frame [simp]:
  "table_ok (m\<lparr>tm_opening_errors := es\<rparr>) = table_ok m" "table_ok (m\<lparr>tm_calls := cs\<rparr>) = table_ok m"
  by (simp_all add: table_ok_def)

lemma next_transport_event_ok_table:
  assumes ok: "table_ok m" and i: "input_ok m (TransportYielded (Some (t, ev)))"
    and r: "next_transport_event env m t ev = Inr (out, m')"
  shows "table_ok m'"
proof (cases ev)
  case (ConnectionEstablished p e)
  then show ?thesis using next_connection_established_ok_table [OF ok] i r by simp
next
  case (PendingInboundConnection c)
  then show ?thesis using ok r by (auto simp: next_pending_inbound_def split: if_splits)
next
  case (ConnectionOpened c a es)
  let ?m = "record_failures env (m\<lparr>tm_opening_errors := hm_remove c (tm_opening_errors m)\<rparr>) es"
  obtain res m1 where "on_connection_opened env ?m t c a = Inr (res, m1)" "m' = m1"
    using r ConnectionOpened by (auto simp: next_connection_opened_def Let_def split: sum.splits)
  then show ?thesis using on_connection_opened_ok_table [of ?m] ok by simp
next
  case (DialFailure c a e)
  let ?m = "update_address_on_dial_failure env m a e"
  have "table_ok (snd (on_dial_failure ?m c))"
    using on_dial_failure_ok_table [of ?m c] ok by simp
  then show ?thesis using r DialFailure
    by (auto simp: next_dial_failure_def Let_def split: prod.splits sum.splits option.splits)
next
  case (OpenFailure c es)
  let ?m = "record_failures env m es"
  have "table_ok (snd (on_open_failure ?m t c))"
    using on_open_failure_ok_table [of ?m t c] ok by simp
  then show ?thesis using r OpenFailure
    by (auto simp: next_open_failure_def Let_def split: prod.splits sum.splits option.splits)
qed (use i in simp)

lemma manager_next_ok_table:
  assumes ok: "table_ok m" and i: "input_ok m inp" and r: "manager_next env m inp = Inr (out, m')"
  shows "table_ok m'"
proof (cases inp)
  case (AcceptCompleted p e b)
  let ?m = "m\<lparr>tm_pending_accept := remove1 (p, e) (tm_pending_accept m)\<rparr>"
  have t: "table_ok ?m"
    using ok conn_ok_accept_subset [OF _ set_remove1_subset] by (simp add: table_ok_def)
  moreover have "endpoint_connection_id e \<notin> live (mstate ?m q)" if "q \<noteq> p" for q
    using ok i that conn_okD(7) AcceptCompleted by (fastforce simp: table_ok_def)
  ultimately show ?thesis
    using r AcceptCompleted on_connection_closed_ok_table [OF t]
    by (auto simp: Let_def split: if_splits)
next
  case (EventReceived x)
  show ?thesis
  proof (cases x)
    case None
    then show ?thesis using r ok EventReceived by simp
  next
    case (Some ev)
    obtain p c where ev: "ev = ManagerConnectionClosed p c" by (cases ev)
    then have "table_ok (snd (on_connection_closed m p c))"
      using on_connection_closed_ok_table [OF ok] i EventReceived Some by auto
    then show ?thesis
      using r EventReceived Some ev by (auto split: prod.splits option.splits)
  qed
next
  case (CommandReceived x)
  show ?thesis
  proof (cases x)
    case (Some cmd)
    then show ?thesis
      using r ok CommandReceived dial_ok_table dial_address_ok_table
      by (cases cmd) (auto simp: table_ok_def unregister_protocol_def split: sum.splits option.splits)
  qed (use r ok CommandReceived in simp)
next
  case (TransportYielded x)
  then show ?thesis
    using r ok i next_transport_event_ok_table by (cases x) auto
qed

lemma register_frames:
  "register_protocol m n fs cd ka ib = Inr m' \<Longrightarrow> frame m m' \<and> mstate m' = mstate m \<and> mstore m' = mstore m
     \<and> tm_pending_connections m' = tm_pending_connections m"
  "register_listen_address m a = Inr m' \<Longrightarrow> frame m m' \<and> mstate m' = mstate m \<and> mstore m' = mstore m
     \<and> tm_pending_connections m' = tm_pending_connections m"
  "register_transport m t = Inr m' \<Longrightarrow> tm_connection_limits m' = tm_connection_limits m
     \<and> tm_pending_accept m' = tm_pending_accept m \<and> mstate m' = mstate m \<and> mstore m' = mstore m
     \<and> tm_pending_connections m' = tm_pending_connections m \<and> installed m \<subseteq> installed m'"
  by (auto simp: register_protocol_def register_listen_address_def register_transport_def frame_def
      transport_context_register_def split: if_splits sum.splits)

lemma manager_run_table: "manager_run q w m0 m \<Longrightarrow> table_ok m0 \<Longrightarrow> table_ok m"
proof (induction rule: manager_run.induct)
  case (next_step m env inp out m')
  then show ?case using manager_next_ok_table by blast
next
  case (call_dial m env p res m')
  then show ?case using dial_ok_table [of m env p] by simp
next
  case (call_dial_address m env a res m')
  then show ?case using dial_address_ok_table by blast
next
  case (call_add_known_address m env supported p as n m')
  then show ?case by (auto simp: add_known_address_def Let_def table_ok_def)
next
  case (call_register_protocol m)
  then show ?case using register_frames(1) table_ok_same by metis
next
  case (call_register_transport m t m')
  then show ?case using register_frames(3) by (simp add: table_ok_def)
next
  case (call_register_listen_address m a m')
  then show ?case using register_frames(2) table_ok_same by metis
qed simp

lemma all_live_limited:
  assumes "table_ok m" "max_incoming_connections (cl_config (tm_connection_limits m)) = Some a"
    "max_outgoing_connections (cl_config (tm_connection_limits m)) = Some b"
  shows "finite (all_live (mstate m)) \<and> card (all_live (mstate m)) \<le> a + b"
proof -
  let ?l = "tm_connection_limits m"
  have ok: "conn_ok (mstate m) ?l (hm_get (tm_pending_connections m)) (tm_pending_accept m)"
    using assms(1) by (simp add: table_ok_def)
  have sub: "all_live (mstate m) \<subseteq> limits_held ?l"
    using conn_okD(4) [OF ok] assms(2,3) by (simp add: limits_total_def)
  have l: "limits_ok ?l" by (rule conn_okD(1) [OF ok])
  have fin: "finite (limits_held ?l)"
    using l by (simp add: limits_ok_def limits_held_def)
  have "card (limits_held ?l) \<le> a + b"
    using l assms(2,3) card_Un_le [of "incoming_connections ?l" "outgoing_connections ?l"]
    by (fastforce simp: limits_ok_def limits_held_def)
  with sub fin show ?thesis
    by (meson card_mono finite_subset order_trans)
qed

subsection \<open>Properties\<close>

text \<open>A concrete run over the example environment.\<close>

lemma all_transports_UNIV: "set all_transports = UNIV" "distinct all_transports"
proof -
  have "t \<in> set all_transports" for t by (cases t) (simp_all add: all_transports_def)
  then show "set all_transports = UNIV" by blast
qed (simp add: all_transports_def)

lemma example_manager_env_ok [simp]: "env_for False True example_manager_env"
  by (simp add: env_for_def manager_env_ok_def example_manager_env_def iteration_order_rev
      all_transports_UNIV)

definition example_manager :: transport_manager where
  "example_manager =
     (transport_manager_build example_local {}
        \<lparr>max_incoming_connections = Some 1, max_outgoing_connections = Some 1\<rparr>)
       \<lparr>tm_transports := \<lparr>tc_index = 0, tc_transports = [TransportTcp]\<rparr>\<rparr>"

lemma example_manager_fresh [simp]: "fresh example_manager"
  by (simp add: fresh_def example_manager_def transport_manager_build_def connection_limits_new_def)

definition example_inbound :: "connection_id \<Rightarrow> manager_input" where
  "example_inbound c = TransportYielded (Some (TransportTcp,
     ConnectionEstablished example_peer (Listener [Tcp 1] c)))"

definition after :: "manager_env \<Rightarrow> transport_manager \<Rightarrow> manager_input \<Rightarrow> transport_manager" where
  "after env m inp = (case manager_next env m inp of Inr (_, m') \<Rightarrow> m' | Inl _ \<Rightarrow> m)"

lemma manager_run_after:
  "manager_run q w m0 m \<Longrightarrow> env_for q w env \<Longrightarrow> input_ok m inp \<Longrightarrow> manager_run q w m0 (after env m inp)"
  by (auto simp: after_def intro: manager_run.next_step split: sum.splits)

lemmas manager_eval = after_def next_connection_established_def on_connection_established_def
  update_address_on_connection_established_def peer_entry_def peer_context_default_def modify_peer_def
  can_accept_connection_def accept_established_connection_def connection_limits_new_def
  connection_record_from_endpoint_def transport_manager_build_def

definition example_state :: transport_manager where
  "example_state = after example_manager_env example_manager (example_inbound 5)"

lemma example_state_run: "manager_run False True example_manager example_state"
  unfolding example_state_def
proof (rule manager_run_after)
  show "input_ok example_manager (example_inbound 5)"
    by (simp add: example_inbound_def fresh_mstate)
      (simp add: example_manager_def transport_manager_build_def)
qed (simp_all add: manager_run.start)

lemma example_state_eval:
  "mstate example_state example_peer = Connected \<lparr>cr_address = ensure_peer_id example_peer [Tcp 1], cr_connection_id = 5\<rparr> None"
  "incoming_connections (tm_connection_limits example_state) = {5}"
  by (simp_all add: example_state_def manager_eval mstate_def example_inbound_def example_manager_def
      example_manager_env_def Let_def)

text \<open>
  C6: In every state a manager can reach, the number of counted inbound and outbound connections
  stays within the configured limits, every counted connection is a live connection of some peer, so
  no slot leaks, and when both limits are set the live connections of all peers together number at
  most the sum of the limits.
\<close>

theorem manager_limits_respected:
  assumes "fresh m0" and "manager_run q w m0 m"
  shows "let l = tm_connection_limits m in
    (\<forall>k. max_incoming_connections (cl_config l) = Some k \<longrightarrow> card (incoming_connections l) \<le> k) \<and>
    (\<forall>k. max_outgoing_connections (cl_config l) = Some k \<longrightarrow> card (outgoing_connections l) \<le> k) \<and>
    incoming_connections l \<union> outgoing_connections l \<subseteq> all_live (mstate m) \<and>
    (\<forall>a b. max_incoming_connections (cl_config l) = Some a \<longrightarrow>
       max_outgoing_connections (cl_config l) = Some b \<longrightarrow>
       finite (all_live (mstate m)) \<and> card (all_live (mstate m)) \<le> a + b)"
proof -
  have t: "table_ok m" using manager_run_table [OF assms(2)] fresh_table [OF assms(1)] .
  then show ?thesis
    using all_live_limited [OF t] conn_okD(1,3)
    by (simp add: Let_def table_ok_def limits_ok_def limits_held_def conn_ok_def)
qed

theorem manager_limits_respected_witness:
  "incoming_connections (tm_connection_limits example_state) = {5}
   \<and> 5 \<in> all_live (mstate example_state)
   \<and> card (incoming_connections (tm_connection_limits example_state)) \<le> 1"
  using manager_limits_respected [OF example_manager_fresh example_state_run] example_state_eval(2)
  by (simp add: Let_def)

text \<open>
  C7: In every reachable state each pending outbound connection is the outstanding dial attempt of
  its peer and is not live, a peer has at most one pending connection and at most two live ones, and
  no connection is live at two peers.
\<close>

theorem manager_connections_consistent:
  assumes "fresh m0" and "manager_run q w m0 m"
  shows "(\<forall>c p. hm_get (tm_pending_connections m) c = Some p \<longrightarrow>
      attempt (mstate m p) = Some c \<and> c \<notin> live (mstate m p)) \<and>
    (\<forall>c c' p. hm_get (tm_pending_connections m) c = Some p \<longrightarrow>
      hm_get (tm_pending_connections m) c' = Some p \<longrightarrow> c = c') \<and>
    (\<forall>p. card (live (mstate m p)) \<le> 2) \<and>
    (\<forall>c p p'. c \<in> live (mstate m p) \<longrightarrow> c \<in> live (mstate m p') \<longrightarrow> p = p')"
proof -
  have t: "table_ok m" using manager_run_table [OF assms(2)] fresh_table [OF assms(1)] .
  note att = table_pending [OF t] and nl = attempt_not_live [OF table_state_ok [OF t]]
  have disj: "p = p'" if "c \<in> live (mstate m p)" "c \<in> live (mstate m p')" for c p p'
    using t that conn_okD(6) unfolding table_ok_def by blast
  have one: "c = c'" if "hm_get (tm_pending_connections m) c = Some p"
    "hm_get (tm_pending_connections m) c' = Some p" for c c' p
    using att [OF that(1)] att [OF that(2)] by simp
  show ?thesis using att nl card_live disj one by blast
qed

theorem manager_connections_consistent_witness:
  "card (live (mstate example_state example_peer)) \<le> 2 \<and> 5 \<in> live (mstate example_state example_peer)"
  using manager_connections_consistent [OF example_manager_fresh example_state_run] example_state_eval(1)
  by simp

end
