(* ===== verification/Manager_Moves.thy ===== *)
theory Manager_Moves
  imports Manager_Safety
begin

section \<open>What one iteration of the event loop does to each peer\<close>

text \<open>
  \<open>peer_moves\<close> lists the ways the state of a single peer can change in one iteration of
  \<open>TransportManager::next\<close>. It connects the manager with the state machine of \<open>Peer_State\<close>: every
  state of a peer that the manager can reach is one the state machine can reach. The second part
  shows when the \<open>expect\<close> and \<open>panic!\<close> calls of the manager are unreachable, and the runs in which
  they are reached or a dial attempt is lost.
\<close>

inductive peer_moves :: "manager_env \<Rightarrow> transport_manager \<Rightarrow> manager_input \<Rightarrow> peer_id \<Rightarrow> peer_state \<Rightarrow> bool"
  for env m inp p where
  keep: "peer_moves env m inp p (mstate m p)"
| open_many: "can_dial (mstate m p) = DialOk \<Longrightarrow> opening_from env (mstore m p) c s \<Longrightarrow> peer_moves env m inp p s"
| dial_one: "can_dial (mstate m p) = DialOk \<Longrightarrow> peer_moves env m inp p (Dialing r)"
| dial_failed: "hm_get (tm_pending_connections m) c = Some p \<Longrightarrow>
    peer_moves env m inp p (snd (peer_on_dial_failure (mstate m p) c))"
| open_failed: "hm_get (tm_pending_connections m) c = Some p \<Longrightarrow>
    peer_moves env m inp p (snd (peer_on_open_failure (mstate m p) t))"
| opened: "hm_get (tm_pending_connections m) c = Some p \<Longrightarrow> is_opening (mstate m p) \<Longrightarrow>
    peer_moves env m inp p (Dialing (connection_record_new p a c))"
| negotiation_failed: "hm_get (tm_pending_connections m) c = Some p \<Longrightarrow> is_opening (mstate m p) \<Longrightarrow>
    peer_moves env m inp p (Disconnected None)"
| closed: "peer_moves env m inp p (snd (peer_on_connection_closed (mstate m p) c))"
| established: "inp = TransportYielded (Some (t, ConnectionEstablished p e)) \<Longrightarrow>
    peer_on_connection_established (mstate m p) (connection_record_from_endpoint p e) = (True, s) \<Longrightarrow>
    peer_moves env m inp p s"
| rolled_back: "inp = TransportYielded (Some (t, ConnectionEstablished p e)) \<Longrightarrow>
    peer_on_connection_established (mstate m p) (connection_record_from_endpoint p e) = (True, s) \<Longrightarrow>
    peer_moves env m inp p (snd (peer_on_connection_closed s (endpoint_connection_id e)))"

text \<open>Pending connections only appear for a peer that can be dialed.\<close>

definition pending_from :: "transport_manager \<Rightarrow> transport_manager \<Rightarrow> bool" where
  "pending_from m m' \<longleftrightarrow> (\<forall>c p. hm_get (tm_pending_connections m') c = Some p \<longrightarrow>
     hm_get (tm_pending_connections m) c = Some p \<or> can_dial (mstate m p) = DialOk)"

definition moves :: "manager_env \<Rightarrow> transport_manager \<Rightarrow> manager_input \<Rightarrow> transport_manager \<Rightarrow> bool" where
  "moves env m inp m' \<longleftrightarrow>
     (\<forall>p. peer_moves env m inp p (mstate m' p)) \<and> pending_from m m' \<and> tm_transports m' = tm_transports m"

lemma moves_same:
  "mstate m' = mstate m \<Longrightarrow> hm_get (tm_pending_connections m') \<subseteq>\<^sub>m hm_get (tm_pending_connections m) \<Longrightarrow>
     tm_transports m' = tm_transports m \<Longrightarrow> moves env m inp m'"
  unfolding moves_def pending_from_def
  by (metis domI map_le_def peer_moves.keep)

lemma moves_one:
  assumes "mstate m' = (mstate m)(p := s)" "peer_moves env m inp p s"
    "hm_get (tm_pending_connections m') \<subseteq>\<^sub>m hm_get (tm_pending_connections m) \<or>
     can_dial (mstate m p) = DialOk \<and>
       (\<exists>c. tm_pending_connections m' = hm_insert c p (tm_pending_connections m))"
    "tm_transports m' = tm_transports m"
  shows "moves env m inp m'"
proof -
  have "peer_moves env m inp q (mstate m' q)" for q
    using assms(1,2) peer_moves.keep by simp
  moreover have "pending_from m m'"
    using assms(3) unfolding pending_from_def
    by (auto simp: map_le_def dom_def split: if_splits)
  ultimately show ?thesis using assms(4) by (simp add: moves_def)
qed

lemma dial_moves: "moves env m inp (snd (dial env m p))"
proof -
  let ?m = "snd (dial env m p)"
  have "frame m ?m" using dial_effect [of env m p, OF refl] by blast
  then have tr: "tm_transports ?m = tm_transports m" by (simp add: frame_def)
  from dial_effect [of env m p, OF refl]
  consider "mstate ?m = mstate m" "tm_pending_connections ?m = tm_pending_connections m"
    | s c where "can_dial (mstate m p) = DialOk" "opening_from env (mstore m p) c s"
      "mstate ?m = (mstate m)(p := s)" "tm_pending_connections ?m = tm_pending_connections m \<or>
         tm_pending_connections ?m = hm_insert c p (tm_pending_connections m)"
    by blast
  then show ?thesis
  proof cases
    case 1
    then show ?thesis using moves_same tr by simp
  next
    case 2
    then show ?thesis
      by (intro moves_one [OF 2(3) peer_moves.open_many [OF 2(1,2)] _ tr]) auto
  qed
qed

lemma dial_address_moves:
  assumes "dial_address env m a = Inr (res, m')"
  shows "moves env m inp m'"
proof -
  note eff = dial_address_effect [OF assms]
  then have tr: "tm_transports m' = tm_transports m" by (simp add: frame_def)
  from eff consider "mstate m' = mstate m" "tm_pending_connections m' = tm_pending_connections m"
    | p c where "can_dial (mstate m p) = DialOk"
      "mstate m' = (mstate m)(p := Dialing \<lparr>cr_address = a, cr_connection_id = c\<rparr>)"
      "tm_pending_connections m' = tm_pending_connections m \<or>
         tm_pending_connections m' = hm_insert c p (tm_pending_connections m)"
    by blast
  then show ?thesis
  proof cases
    case 1
    then show ?thesis using moves_same tr by simp
  next
    case 2
    then show ?thesis
      by (intro moves_one [OF 2(2) peer_moves.dial_one [OF 2(1)] _ tr]) auto
  qed
qed

lemma pending_remove_le: "hm_get (hm_remove c m) \<subseteq>\<^sub>m hm_get m"
  by (simp add: map_le_def)

lemma on_connection_closed_eval:
  "mstate (snd (on_connection_closed m p c)) = (mstate m)(p := snd (peer_on_connection_closed (mstate m p) c))"
  "tm_pending_connections (snd (on_connection_closed m p c)) = tm_pending_connections m"
  "tm_transports (snd (on_connection_closed m p c)) = tm_transports m"
  by (simp_all add: on_connection_closed_def Let_def mstate_def [symmetric] split: prod.splits)

lemma closed_moves: "moves env m inp (snd (on_connection_closed m p c))"
  by (rule moves_one [OF on_connection_closed_eval(1) peer_moves.closed])
    (simp_all add: on_connection_closed_eval)

lemma moves_frame:
  "mstate m1 = mstate m \<Longrightarrow> mstore m1 = mstore m \<Longrightarrow> tm_pending_connections m1 = tm_pending_connections m \<Longrightarrow>
     tm_transports m1 = tm_transports m \<Longrightarrow> moves env m1 inp m' \<Longrightarrow> moves env m inp m'"
  unfolding moves_def pending_from_def by (auto simp: peer_moves.simps)

lemma moves_after:
  "moves env m inp m1 \<Longrightarrow> mstate m' = mstate m1 \<Longrightarrow> tm_pending_connections m' = tm_pending_connections m1 \<Longrightarrow>
     tm_transports m' = tm_transports m1 \<Longrightarrow> moves env m inp m'"
  by (simp add: moves_def pending_from_def)

text \<open>The handlers below run after the scores of failed addresses were recorded.\<close>

lemma on_dial_failure_moves:
  assumes "mstate m1 = mstate m" "tm_pending_connections m1 = tm_pending_connections m"
    "tm_transports m1 = tm_transports m"
  shows "moves env m inp (snd (on_dial_failure m1 c))"
proof (cases "hm_get (tm_pending_connections m1) c")
  case None
  then show ?thesis using assms by (simp add: on_dial_failure_def moves_same)
next
  case (Some p)
  show ?thesis
    by (rule moves_one [OF _ peer_moves.dial_failed [of m c p]])
      (use Some assms in \<open>simp_all add: on_dial_failure_def Let_def mstate_def [symmetric] pending_remove_le\<close>)
qed

lemma on_open_failure_moves:
  assumes "mstate m1 = mstate m" "tm_pending_connections m1 = tm_pending_connections m"
    "tm_transports m1 = tm_transports m"
  shows "moves env m inp (snd (on_open_failure m1 t c))"
proof (cases "hm_get (tm_pending_connections m1) c")
  case None
  then show ?thesis using assms by (simp add: on_open_failure_def moves_same)
next
  case (Some p)
  show ?thesis
    by (rule moves_one [OF _ peer_moves.open_failed [of m c p env inp t]])
      (use Some assms in \<open>auto simp: on_open_failure_def Let_def mstate_def [symmetric] pending_remove_le
        split: prod.splits\<close>)
qed

lemma on_connection_opened_moves:
  assumes eq: "mstate m1 = mstate m" "tm_pending_connections m1 = tm_pending_connections m"
    "tm_transports m1 = tm_transports m"
    and ok: "table_ok m" and r: "on_connection_opened env m1 t c a = Inr (res, m')"
  shows "moves env m inp m'"
proof (cases "hm_get (tm_pending_connections m) c")
  case None
  then show ?thesis using assms by (simp add: on_connection_opened_def moves_same)
next
  case (Some p)
  show ?thesis
  proof (cases "is_opening (mstate m p)")
    case True
    then obtain as ts where op: "mstate m p = Opening as c ts"
      using table_pending [OF ok Some] by (cases "mstate m p") auto
    have "tm_transports m' = tm_transports m \<and> hm_get (tm_pending_connections m') \<subseteq>\<^sub>m hm_get (tm_pending_connections m) \<and>
        (mstate m' = (mstate m)(p := Dialing (connection_record_new p a c)) \<or>
         mstate m' = (mstate m)(p := Disconnected None))"
      using r Some op eq
      by (auto simp: on_connection_opened_def Let_def mstate_def [symmetric] fun_upd_idem map_le_def
          dest!: cancel_transports_frame split: sum.splits if_splits)
    then show ?thesis
      using moves_one [OF _ peer_moves.opened [OF Some True]]
        moves_one [OF _ peer_moves.negotiation_failed [OF Some True]] by blast
  next
    case False
    have "m' = set_peer_state p (mstate m1 p) (insert_peer_address env p
        (address_record_new p a CONNECTION_ESTABLISHED)
        (m1\<lparr>tm_pending_connections := hm_remove c (tm_pending_connections m1)\<rparr>))"
      using r Some False eq
      by (cases "mstate m1 p") (simp_all add: on_connection_opened_def Let_def mstate_def [symmetric])
    then show ?thesis
      using eq by (intro moves_same) (simp_all add: pending_remove_le)
  qed
qed

lemma next_connection_established_moves:
  assumes r: "next_connection_established env m t p e = Inr (out, m')"
  shows "moves env m (TransportYielded (Some (t, ConnectionEstablished p e))) m'"
proof -
  let ?c = "endpoint_connection_id e"
  let ?m0 = "m\<lparr>tm_opening_errors := hm_remove ?c (tm_opening_errors m)\<rparr>"
  let ?inp = "TransportYielded (Some (t, ConnectionEstablished p e))"
  obtain res m1 where est: "on_connection_established env ?m0 p e = Inr (res, m1)"
    using r by (auto simp: next_connection_established_def Let_def split: sum.splits)
  note eff = on_connection_established_effect [OF est]
  show ?thesis
  proof (cases "res = Inr Accept")
    case False
    then have "m' = emit (CallReject t ?c) m1"
      using r est by (auto simp: next_connection_established_def Let_def split: if_splits)
    with eff False show ?thesis by (intro moves_same) (simp_all add: map_le_def)
  next
    case True
    obtain s where s: "peer_on_connection_established (mstate m p) (connection_record_from_endpoint p e) = (True, s)"
      "mstate m1 = (mstate m)(p := s)"
      using eff True by auto
    have pd: "hm_get (tm_pending_connections m1) \<subseteq>\<^sub>m hm_get (tm_pending_connections m)"
      using eff True by (fastforce simp: map_le_def)
    have tr: "tm_transports m1 = tm_transports m" using eff by simp
    have "m' = (emit (CallAccept t ?c) m1)\<lparr>tm_pending_accept := tm_pending_accept m1 @ [(p, e)]\<rparr> \<or>
        m' = snd (on_connection_closed (emit (CallAccept t ?c) m1) p ?c)"
      using r est True by (auto simp: next_connection_established_def Let_def split: if_splits)
    then show ?thesis
    proof
      assume "m' = (emit (CallAccept t ?c) m1)\<lparr>tm_pending_accept := tm_pending_accept m1 @ [(p, e)]\<rparr>"
      then show ?thesis
        using s pd tr by (intro moves_one [OF _ peer_moves.established [OF refl s(1)]]) simp_all
    next
      assume "m' = snd (on_connection_closed (emit (CallAccept t ?c) m1) p ?c)"
      then show ?thesis
        using s pd tr by (intro moves_one [OF _ peer_moves.rolled_back [OF refl s(1)]])
          (simp_all add: on_connection_closed_eval)
    qed
  qed
qed

lemma update_address_failure_fields [simp]:
  "tm_pending_connections (update_address_on_dial_failure env m a e) = tm_pending_connections m"
  "tm_transports (update_address_on_dial_failure env m a e) = tm_transports m"
  by (auto simp: update_address_on_dial_failure_def split: option.splits)

lemma record_failures_fields [simp]:
  "tm_pending_connections (record_failures env m es) = tm_pending_connections m"
  "tm_transports (record_failures env m es) = tm_transports m"
  unfolding record_failures_def by (induction es arbitrary: m) (auto simp: case_prod_beta)

lemma next_transport_event_moves:
  assumes ok: "table_ok m" and r: "next_transport_event env m t ev = Inr (out, m')"
  shows "moves env m (TransportYielded (Some (t, ev))) m'"
proof (cases ev)
  case (ConnectionEstablished p e)
  then show ?thesis using next_connection_established_moves r by simp
next
  case (PendingInboundConnection c)
  then show ?thesis using r by (auto simp: next_pending_inbound_def intro!: moves_same split: if_splits)
next
  case (ConnectionOpened c a es)
  then show ?thesis
    using r by (auto simp: next_connection_opened_def Let_def split: sum.splits
        intro: on_connection_opened_moves [OF _ _ _ ok, rotated 3])
next
  case (DialFailure c a e)
  obtain m1 res where m1: "on_dial_failure (update_address_on_dial_failure env m a e) c = (res, m1)"
    by fastforce
  then have "moves env m (TransportYielded (Some (t, ev))) m1"
    using on_dial_failure_moves [of "update_address_on_dial_failure env m a e" m env _ c]
    by (simp add: m1)
  then show ?thesis
    by (rule moves_after)
      (use r DialFailure m1 in \<open>auto simp: next_dial_failure_def split: sum.splits option.splits\<close>)
next
  case (OpenFailure c es)
  obtain m1 res where m1: "on_open_failure (record_failures env m es) t c = (res, m1)" by fastforce
  then have "moves env m (TransportYielded (Some (t, ev))) m1"
    using on_open_failure_moves [of "record_failures env m es" m env _ t c] by (simp add: m1)
  then show ?thesis
    by (rule moves_after)
      (use r OpenFailure m1 in \<open>auto simp: next_open_failure_def Let_def split: sum.splits option.splits\<close>)
qed (use r in simp)

lemma manager_next_moves:
  assumes ok: "table_ok m" and r: "manager_next env m inp = Inr (out, m')"
  shows "moves env m inp m'"
proof (cases inp)
  case (AcceptCompleted p e b)
  let ?m = "m\<lparr>tm_pending_accept := remove1 (p, e) (tm_pending_accept m)\<rparr>"
  show ?thesis
  proof (cases b)
    case True
    then show ?thesis using r AcceptCompleted by (intro moves_same) (auto simp: Let_def)
  next
    case False
    then show ?thesis
      using r AcceptCompleted
      by (intro moves_frame [of ?m m, OF _ _ _ _ closed_moves [of env ?m inp p "endpoint_connection_id e", THEN moves_after]])
        (auto simp: Let_def)
  qed
next
  case (EventReceived x)
  show ?thesis
  proof (cases x)
    case None
    then show ?thesis using r EventReceived by (intro moves_same) auto
  next
    case (Some ev)
    obtain p c where ev: "ev = ManagerConnectionClosed p c" by (cases ev)
    then have "m' = snd (on_connection_closed m p c)"
      using r EventReceived Some by (auto split: prod.splits option.splits)
    then show ?thesis using closed_moves by simp
  qed
next
  case (CommandReceived x)
  show ?thesis
  proof (cases x)
    case None
    then show ?thesis using r CommandReceived by (intro moves_same) auto
  next
    case (Some cmd)
    have "moves env m inp (unregister_protocol m n)" for n
      by (intro moves_same) (auto simp: unregister_protocol_def split: option.splits)
    then show ?thesis
      using r CommandReceived Some dial_moves dial_address_moves
      by (cases cmd) (auto split: sum.splits)
  qed
next
  case (TransportYielded x)
  show ?thesis
  proof (cases x)
    case None
    then show ?thesis using r TransportYielded by (intro moves_same) auto
  next
    case (Some y)
    obtain t ev where y: "y = (t, ev)" by (cases y)
    show ?thesis
      using r next_transport_event_moves [OF ok, of env t ev out m'] TransportYielded Some y by simp
  qed
qed

subsection \<open>Peers of the manager run the peer state machine\<close>

lemma peer_moves_reachable:
  assumes mv: "peer_moves env m inp p s" and ok: "table_ok m" and i: "input_ok m inp"
    and s0: "peer_reachable (mstate m p)"
  shows "peer_reachable s"
proof -
  have step: "peer_event_ok (mstate m p) ev \<Longrightarrow> peer_reachable (peer_apply (mstate m p) ev)" for ev
    using peer_reachable.step [OF s0] .
  have est: "peer_reachable s'"
    if "inp = TransportYielded (Some (t, ConnectionEstablished p e))"
      "peer_on_connection_established (mstate m p) (connection_record_from_endpoint p e) = (True, s')" for t e s'
    using step [of "EvEstablished (connection_record_from_endpoint p e)"] that i by auto
  from mv show ?thesis
  proof cases
    case (open_many c)
    then obtain as ts where "s = Opening as c ts" "ts \<noteq> {}"
      by (auto simp: opening_from_def Let_def)
    with open_many(1) show ?thesis
      using step [of "EvDialAddresses c as ts"] by (simp add: dial_addresses_def)
  next
    case (dial_one r)
    then show ?thesis using step [of "EvDialSingle r"] by (simp add: dial_single_address_def)
  next
    case (dial_failed c)
    then show ?thesis using step [of "EvDialFailure c"] by simp
  next
    case (open_failed c t)
    then show ?thesis using step [of "EvOpenFailure t"] by simp
  next
    case (opened c a)
    then show ?thesis using step [of "EvOpened (connection_record_new p a c)"]
      by (cases "mstate m p") auto
  next
    case (negotiation_failed c)
    then show ?thesis using step [of EvNegotiationFailed] by (cases "mstate m p") auto
  next
    case (closed c)
    then show ?thesis using step [of "EvClosed c"] by simp
  next
    case (established t e)
    then show ?thesis using est by blast
  next
    case (rolled_back t e s')
    then show ?thesis using peer_reachable.step [OF est, of t e s' "EvClosed _"] by auto
  qed (use s0 in simp)
qed

lemma moves_reachable:
  assumes "moves env m inp m'" "table_ok m" "input_ok m inp" "\<forall>p. peer_reachable (mstate m p)"
  shows "peer_reachable (mstate m' p)"
  using assms peer_moves_reachable [of env m inp p "mstate m' p"] by (simp add: moves_def)

lemma manager_run_reachable:
  assumes "manager_run q w m0 m" "fresh m0"
  shows "table_ok m \<and> (\<forall>p. peer_reachable (mstate m p))"
  using assms
proof (induction rule: manager_run.induct)
  case start
  then show ?case by (simp add: fresh_table fresh_mstate peer_reachable.start)
next
  case (next_step m env inp out m')
  then have "moves env m inp m'" "table_ok m'"
    using manager_next_moves manager_next_ok_table by blast+
  with next_step show ?case using moves_reachable by blast
next
  case (call_dial m env p res m')
  have i: "input_ok m (EventReceived None)" by simp
  have "moves env m (EventReceived None) m'" "table_ok m'"
    using call_dial dial_moves [of env m _ p] dial_ok_table [of m env p] by auto
  with call_dial show ?case using moves_reachable [OF _ _ i] by blast
next
  case (call_dial_address m env a res m')
  have i: "input_ok m (EventReceived None)" by simp
  have "moves env m (EventReceived None) m'" "table_ok m'"
    using call_dial_address dial_address_moves dial_address_ok_table by blast+
  with call_dial_address show ?case using moves_reachable [OF _ _ i] by blast
next
  case (call_add_known_address m env supported p as n m')
  then show ?case by (auto simp: add_known_address_def Let_def table_ok_def)
next
  case (call_register_protocol m)
  then show ?case using register_frames(1) table_ok_same by metis
next
  case (call_register_transport m t m')
  then show ?case using register_frames(3) by (simp add: table_ok_def)
next
  case (call_register_listen_address m a m')
  then show ?case using register_frames(2) table_ok_same by metis
qed

subsection \<open>Panics\<close>

text \<open>Every transport compiled in is installed.\<close>

definition all_installed :: "bool \<Rightarrow> bool \<Rightarrow> transport_manager \<Rightarrow> bool" where
  "all_installed quic websocket m \<longleftrightarrow> TransportTcp \<in> installed m \<and>
     (quic \<longrightarrow> TransportQuic \<in> installed m) \<and> (websocket \<longrightarrow> TransportWebSocket \<in> installed m)"

definition opening_ok :: "transport_manager \<Rightarrow> bool" where
  "opening_ok m \<longleftrightarrow> (\<forall>p as c ts. mstate m p = Opening as c ts \<longrightarrow> ts \<subseteq> installed m)"

lemma address_transport_installed:
  "env_for q w env \<Longrightarrow> all_installed q w m \<Longrightarrow> address_transport env a \<in> installed m"
  by (auto simp: env_for_def all_installed_def address_transport_def)

lemma established_Connected:
  "peer_on_connection_established s r = (True, s') \<Longrightarrow> \<exists>a b. s' = Connected a b"
  by (cases "(s, r)" rule: peer_on_connection_established.cases)
    (auto simp: convert_or_preserve_def split: if_splits)

lemma closed_opening:
  "snd (peer_on_connection_closed s c) = Opening as c' ts \<Longrightarrow> s = Opening as c' ts"
  by (cases s) (auto split: option.splits secondary_or_dialing.splits if_splits)

lemma dial_failure_opening:
  "snd (peer_on_dial_failure s c) = Opening as c' ts \<Longrightarrow> s = Opening as c' ts"
  by (cases "(s, c)" rule: peer_on_dial_failure.cases) (auto split: if_splits)

lemma open_failure_opening:
  "snd (peer_on_open_failure s t) = Opening as c' ts \<Longrightarrow> \<exists>ts'. s = Opening as c' ts' \<and> ts \<subseteq> ts'"
  by (cases "(s, t)" rule: peer_on_open_failure.cases) (auto simp: Let_def split: if_splits)

lemma moves_opening_ok:
  assumes mv: "moves env m inp m'" and e: "env_for q w env" and a: "all_installed q w m"
    and ok: "opening_ok m"
  shows "opening_ok m'"
proof -
  have op: "mstate m p = Opening as c ts \<Longrightarrow> ts \<subseteq> installed m" for p as c ts
    using ok by (simp add: opening_ok_def)
  have "ts \<subseteq> installed m" if "peer_moves env m inp p s" "s = Opening as c ts" for p s as c ts
    using that
  proof cases
    case (open_many c')
    then show ?thesis
      using that(2) address_transport_installed [OF e a] by (auto simp: opening_from_def Let_def)
  next
    case (open_failed c' t)
    then show ?thesis
      using that(2) open_failure_opening [of "mstate m p"] ok unfolding opening_ok_def
      by (metis order_trans)
  next
    case (established t e)
    then show ?thesis using that(2) established_Connected by blast
  next
    case (rolled_back t e s')
    then show ?thesis using that(2) established_Connected closed_opening by blast
  next
    case keep
    then show ?thesis using that(2) op by metis
  next
    case (dial_failed c')
    then show ?thesis using that(2) dial_failure_opening op by metis
  next
    case (closed c')
    then show ?thesis using that(2) closed_opening op by metis
  qed (use that(2) in simp_all)
  then show ?thesis using mv unfolding opening_ok_def moves_def by metis
qed

text \<open>With installed transports, no iteration of the loop panics.\<close>

lemma next_connection_established_no_panic:
  assumes "opening_ok m" "t \<in> installed m" "manager_env_ok env"
  shows "next_connection_established env m t p e \<noteq> Inl Panic"
proof -
  let ?c = "endpoint_connection_id e"
  let ?m0 = "m\<lparr>tm_opening_errors := hm_remove ?c (tm_opening_errors m)\<rparr>"
  have entry: "pc_state (peer_entry (update_address_on_connection_established env ?m0 p e) p) = mstate m p"
    by (simp flip: mstate_def)
  have ord: "set (me_transport_order env ts) = ts" for ts
    using assms(3) by (simp add: manager_env_ok_def)
  have op: "x \<in> installed m" if "mstate m p = Opening as c ts" "x \<in> ts" for as c ts x
    using assms(1) that unfolding opening_ok_def by blast
  have no: "on_connection_established env ?m0 p e \<noteq> Inl Panic"
    using op
    unfolding on_connection_established_def Let_def peer_entry_frame entry
    by (cases "mstate m p")
      (auto simp: ord split: sum.splits prod.splits dest!: cancel_transports_panic [THEN iffD1])
  obtain res m1 where est: "on_connection_established env ?m0 p e = Inr (res, m1)"
    using no by (cases "on_connection_established env ?m0 p e") (auto intro: panic.exhaust)
  then have "installed m1 = installed m"
    using on_connection_established_effect by fastforce
  with est assms(2) show ?thesis
    by (auto simp: next_connection_established_def Let_def)
qed

lemma on_connection_opened_no_panic:
  assumes ok: "opening_ok m" and t: "t \<in> installed m" and e: "manager_env_ok env"
    and eq: "mstate m1 = mstate m" "tm_transports m1 = tm_transports m"
  shows "on_connection_opened env m1 t c a \<noteq> Inl Panic"
proof (cases "hm_get (tm_pending_connections m1) c")
  case None
  then show ?thesis by (simp add: on_connection_opened_def)
next
  case (Some p)
  have ord: "set (me_transport_order env ts) = ts" for ts
    using e by (simp add: manager_env_ok_def)
  have op: "x \<in> installed m" if "mstate m p = Opening as c ts" "x \<in> ts" for as c ts x
    using ok that unfolding opening_ok_def by blast
  show ?thesis
  proof (cases "mstate m p")
    case (Opening as c' ts)
    then show ?thesis
      using Some t eq op
      by (auto simp: on_connection_opened_def Let_def mstate_def [symmetric] ord split: sum.splits
          dest!: cancel_transports_frame cancel_transports_panic [THEN iffD1])
  qed (use Some eq in \<open>simp_all add: on_connection_opened_def Let_def mstate_def [symmetric]\<close>)
qed

lemma ends_with_p2pD: "ends_with_p2p a \<Longrightarrow> \<exists>h. last_opt a = Some (P2p h)"
  by (simp add: ends_with_p2p_def split: option.splits protocol.splits)

lemma dial_address_no_panic: "multiaddr_valid a \<Longrightarrow> dial_address env m a \<noteq> Inl Panic"
proof -
  assume v: "multiaddr_valid a"
  have "try_from_multiaddr a \<noteq> None" if "address_record_from_multiaddr a = Some r" for r
  proof -
    have "ends_with_p2p a"
      using that by (simp add: address_record_from_multiaddr_def split: if_splits)
    then obtain h where h: "last_opt a = Some (P2p h)"
      using ends_with_p2pD by blast
    then have "P2p h \<in> set a" by (auto dest!: last_opt_SomeD)
    with v h show ?thesis by (auto simp: multiaddr_valid_def try_from_multiaddr_def)
  qed
  moreover have "ar_address r = a" if "address_record_from_multiaddr a = Some r" for r
    using that by (auto simp: address_record_from_multiaddr_def split: if_splits)
  ultimately show ?thesis
    by (auto simp: dial_address_def Let_def split: sum.splits option.splits prod.splits state_dial_result.splits)
qed

lemma manager_next_no_panic:
  assumes ok: "opening_ok m" and e: "manager_env_ok env" and i: "input_ok m inp"
  shows "manager_next env m inp \<noteq> Inl Panic"
proof (cases inp)
  case (AcceptCompleted p e b)
  then show ?thesis by (simp add: Let_def)
next
  case (EventReceived x)
  show ?thesis
  proof (cases x)
    case (Some ev)
    then show ?thesis using EventReceived by (cases ev) (auto split: prod.splits option.splits)
  qed (use EventReceived in simp)
next
  case (CommandReceived x)
  show ?thesis
  proof (cases x)
    case (Some cmd)
    then show ?thesis
      using CommandReceived i dial_address_no_panic
      by (cases cmd) (auto split: sum.splits)
  qed (use CommandReceived in simp)
next
  case (TransportYielded x)
  show ?thesis
  proof (cases x)
    case (Some y)
    obtain t ev where y: "y = (t, ev)" by (cases y)
    have t: "t \<in> installed m" using i TransportYielded Some y by (cases ev) auto
    have "next_transport_event env m t ev \<noteq> Inl Panic"
    proof (cases ev)
      case (ConnectionEstablished p e')
      then show ?thesis using next_connection_established_no_panic [OF ok t e] by simp
    next
      case (ConnectionOpened c a es)
      let ?m = "record_failures env (m\<lparr>tm_opening_errors := hm_remove c (tm_opening_errors m)\<rparr>) es"
      show ?thesis
        using on_connection_opened_no_panic [OF ok t e, of ?m c a] ConnectionOpened
        by (auto simp: next_connection_opened_def Let_def split: sum.splits)
    next
      case (PendingInboundConnection c)
      then show ?thesis using t by (simp add: next_pending_inbound_def)
    qed (use i TransportYielded Some y in simp_all)
    then show ?thesis using TransportYielded Some y by simp
  qed (use TransportYielded in simp)
qed

lemma opening_frame:
  assumes "opening_ok m \<and> all_installed q w m" "mstate m' = mstate m" "installed m \<subseteq> installed m'"
  shows "opening_ok m' \<and> all_installed q w m'"
  using assms unfolding opening_ok_def all_installed_def by (metis subsetD subset_trans)

lemma manager_run_opening_ok:
  assumes "manager_run q w m0 m" "fresh m0" "all_installed q w m0"
  shows "opening_ok m \<and> all_installed q w m"
  using assms
proof (induction rule: manager_run.induct)
  case start
  then show ?case by (simp add: opening_ok_def fresh_mstate)
next
  case (next_step m env inp out m')
  then have "moves env m inp m'"
    using manager_next_moves manager_run_reachable by blast
  with next_step show ?case using moves_opening_ok by (auto simp: moves_def all_installed_def)
next
  case (call_dial m env p res m')
  then have "moves env m (EventReceived None) m'" using dial_moves [of env m _ p] by simp
  with call_dial show ?case using moves_opening_ok by (auto simp: moves_def all_installed_def)
next
  case (call_dial_address m env a res m')
  then have "moves env m (EventReceived None) m'" using dial_address_moves by blast
  with call_dial_address show ?case using moves_opening_ok by (auto simp: moves_def all_installed_def)
next
  case (call_add_known_address m env supported p as n m')
  have "mstate m' = mstate m" "installed m \<subseteq> installed m'"
    using call_add_known_address(3) by (auto simp: add_known_address_def Let_def)
  with call_add_known_address show ?case using opening_frame by blast
next
  case (call_register_protocol m n fs cd ka ib m')
  have "mstate m' = mstate m" "installed m \<subseteq> installed m'"
    using register_frames(1) [OF call_register_protocol(2)] by (simp_all add: frame_def)
  with call_register_protocol show ?case using opening_frame by blast
next
  case (call_register_transport m t m')
  then show ?case
    using register_frames(3) [OF call_register_transport(2)] opening_frame by blast
next
  case (call_register_listen_address m a m')
  have "mstate m' = mstate m" "installed m \<subseteq> installed m'"
    using register_frames(2) [OF call_register_listen_address(2)] by (simp_all add: frame_def)
  with call_register_listen_address show ?case using opening_frame by blast
qed

subsection \<open>Lost attempts\<close>

text \<open>
  A peer whose outstanding attempt is not backed by a pending connection. No event of a transport
  about that attempt is attributed to the peer any more.
\<close>

definition lost_attempt :: "transport_manager \<Rightarrow> peer_id \<Rightarrow> connection_id \<Rightarrow> bool" where
  "lost_attempt m p c \<longleftrightarrow> attempt (mstate m p) = Some c \<and> \<not> is_opening (mstate m p) \<and>
     (\<forall>c'. hm_get (tm_pending_connections m) c' \<noteq> Some p)"

lemma attempt_established:
  "peer_state_ok s \<Longrightarrow> cr_connection_id r \<notin> live s \<Longrightarrow> peer_on_connection_established s r = (True, s') \<Longrightarrow>
     attempt s = Some c \<Longrightarrow> \<not> is_opening s \<Longrightarrow> cr_connection_id r \<noteq> c \<Longrightarrow> attempt s' = Some c"
  using established_view(2) by (auto split: if_splits)

lemma lost_attempt_step:
  assumes lost: "lost_attempt m p c" and ok: "table_ok m" and i: "input_ok m inp"
    and n: "\<And>t e. inp = TransportYielded (Some (t, ConnectionEstablished p e)) \<Longrightarrow> endpoint_connection_id e \<noteq> c"
    and mv: "moves env m inp m'"
  shows "lost_attempt m' p c"
proof -
  have s0: "attempt (mstate m p) = Some c" "\<not> is_opening (mstate m p)"
    "\<And>c'. hm_get (tm_pending_connections m) c' \<noteq> Some p" "peer_state_ok (mstate m p)"
    using lost table_state_ok [OF ok] by (auto simp: lost_attempt_def)
  have nd: "can_dial (mstate m p) \<noteq> DialOk" using s0(1) can_dial_DialOk by simp
  have est: "attempt s = Some c \<and> \<not> is_opening s \<and> peer_state_ok s"
    if "inp = TransportYielded (Some (t, ConnectionEstablished p e))"
      "peer_on_connection_established (mstate m p) (connection_record_from_endpoint p e) = (True, s)" for t e s
    using attempt_established [OF s0(4) _ that(2) s0(1,2)] n [OF that(1)] that i established_Connected [OF that(2)]
      peer_on_connection_established_ok [OF s0(4), of "connection_record_from_endpoint p e"] by auto
  have "peer_moves env m inp p (mstate m' p)" using mv by (simp add: moves_def)
  then have "attempt (mstate m' p) = Some c \<and> \<not> is_opening (mstate m' p)"
  proof cases
    case (closed c')
    then show ?thesis
      using s0 attempt_closed [OF s0(4)] closed_opening by (metis is_opening.elims(2))
  next
    case (rolled_back t e s)
    then show ?thesis
      using est [OF rolled_back(2,3)] attempt_closed closed_opening by (metis is_opening.elims(2))
  qed (use s0 nd est in simp_all)
  moreover have "hm_get (tm_pending_connections m') c' \<noteq> Some p" for c'
    using mv s0(3) nd by (auto simp: moves_def pending_from_def)
  ultimately show ?thesis by (simp add: lost_attempt_def)
qed

subsection \<open>Answers to established connections\<close>

lemma next_connection_established_answer:
  assumes ok: "table_ok m" and i: "input_ok m (TransportYielded (Some (t, ConnectionEstablished p e)))"
    and r: "next_connection_established env m t p e = Inr (out, m')"
  defines "c \<equiv> endpoint_connection_id e"
  shows "(\<exists>xs. tm_calls m' = tm_calls m @ xs @ [CallAccept t c] \<and>
      (\<forall>x \<in> set xs. \<exists>t' c'. x = CallCancel t' c') \<and>
      (if me_accept env t c then c \<in> live (mstate m' p) \<and> (p, e) \<in> set (tm_pending_accept m')
       else c \<notin> all_live (mstate m') \<and> c \<notin> limits_held (tm_connection_limits m')))
    \<or> tm_calls m' = tm_calls m @ [CallReject t c] \<and> mstate m' = mstate m
      \<and> tm_connection_limits m' = tm_connection_limits m"
proof -
  let ?m0 = "m\<lparr>tm_opening_errors := hm_remove c (tm_opening_errors m)\<rparr>"
  obtain res m1 where est: "on_connection_established env ?m0 p e = Inr (res, m1)"
    using r by (auto simp: next_connection_established_def Let_def c_def split: sum.splits)
  note eff = on_connection_established_effect [OF est]
  have "tm_calls (update_address_on_connection_established env ?m0 p e) = tm_calls m"
    by (simp add: update_address_on_connection_established_def)
  then have calls: "\<exists>xs. tm_calls m1 = tm_calls m @ xs \<and> (\<forall>x \<in> set xs. \<exists>t' c'. x = CallCancel t' c')
      \<and> (res \<noteq> Inr Accept \<longrightarrow> xs = [])"
    using est unfolding on_connection_established_def Let_def
    by (auto dest!: cancel_transports_frame split: if_splits prod.splits sum.splits peer_state.splits)
  show ?thesis
  proof (cases "res = Inr Accept")
    case False
    then have "m' = emit (CallReject t c) m1"
      using r est by (auto simp: next_connection_established_def Let_def c_def split: if_splits)
    with eff False calls show ?thesis by auto
  next
    case True
    obtain s where s: "peer_on_connection_established (mstate m p) (connection_record_from_endpoint p e) = (True, s)"
      "mstate m1 = (mstate m)(p := s)"
      using eff True by auto
    have fr: "c \<notin> live (mstate m q)" for q using i by (simp add: c_def)
    have lv: "live s = insert c (live (mstate m p))"
      using established_view(1) [OF table_state_ok [OF ok] _ s(1)] fr by (simp add: c_def)
    show ?thesis
    proof (cases "me_accept env t c")
      case acc: True
      then have "m' = (emit (CallAccept t c) m1)\<lparr>tm_pending_accept := tm_pending_accept m1 @ [(p, e)]\<rparr>"
        using r est True by (auto simp: next_connection_established_def Let_def c_def split: if_splits)
      with calls s lv acc show ?thesis by auto
    next
      case rej: False
      let ?m2 = "emit (CallAccept t c) m1"
      have m': "m' = snd (on_connection_closed ?m2 p c)"
        using r est True rej by (auto simp: next_connection_established_def Let_def c_def split: if_splits)
      have "peer_state_ok s"
        using peer_on_connection_established_ok [OF table_state_ok [OF ok, of p], of "connection_record_from_endpoint p e"]
          s(1) fr by (simp add: c_def)
      then have "c \<notin> live (mstate m' q)" for q
        using m' s fr by (simp add: on_connection_closed_eval live_closed)
      moreover have "tm_calls m' = tm_calls ?m2"
        "tm_connection_limits m' = limits_on_connection_closed (tm_connection_limits m1) c"
        by (simp_all add: m' on_connection_closed_def Let_def split: prod.splits)
      ultimately show ?thesis
        using calls rej by (auto simp: all_live_def limits_held_closed)
    qed
  qed
qed

subsection \<open>Polling\<close>

lemma poll_loop_correct:
  assumes "length ts = n" "i < n"
  shows "\<exists>r j. poll_loop stream k \<lparr>tc_index = i, tc_transports = ts\<rparr> = Inr (r, \<lparr>tc_index = j, tc_transports = ts\<rparr>) \<and>
    ((\<forall>d < k. stream (ts ! ((i + d) mod n)) = Pending) \<and> r = Pending \<and> j = (i + k) mod n \<or>
     (\<exists>d < k. (\<forall>d' < d. stream (ts ! ((i + d') mod n)) = Pending) \<and> j = (i + d + 1) mod n \<and>
        (\<exists>x. stream (ts ! ((i + d) mod n)) = Ready x \<and>
           r = Ready (map_option (\<lambda>event. (ts ! ((i + d) mod n), event)) x))))"
  using assms
proof (induction k arbitrary: i)
  case (Suc k)
  let ?i = "(i + 1) mod n"
  have n: "?i < n" "0 < n" using Suc.prems by auto
  have idx: "(?i + d) mod n = (i + Suc d) mod n" for d by (simp add: mod_simps)
  show ?case
  proof (cases "stream (ts ! i)")
    case (Ready x)
    then show ?thesis
      using Suc.prems by (intro exI [of _ "Ready (map_option (\<lambda>event. (ts ! i, event)) x)"] exI [of _ ?i])
        (auto simp: Let_def intro!: exI [of _ 0] split: option.splits)
  next
    case pend: Pending
    obtain r j where rj: "poll_loop stream k \<lparr>tc_index = ?i, tc_transports = ts\<rparr>
        = Inr (r, \<lparr>tc_index = j, tc_transports = ts\<rparr>)" and
      cs: "(\<forall>d < k. stream (ts ! ((i + Suc d) mod n)) = Pending) \<and> r = Pending \<and> j = (i + Suc k) mod n \<or>
       (\<exists>d < k. (\<forall>d' < d. stream (ts ! ((i + Suc d') mod n)) = Pending) \<and> j = (i + Suc d + 1) mod n \<and>
        (\<exists>x. stream (ts ! ((i + Suc d) mod n)) = Ready x \<and>
           r = Ready (map_option (\<lambda>event. (ts ! ((i + Suc d) mod n), event)) x)))"
      using Suc.IH [OF Suc.prems(1) n(1)] unfolding idx
      by (metis (no_types, lifting) add_Suc_right add_Suc_shift idx Suc_eq_plus1)
    have loop: "poll_loop stream (Suc k) \<lparr>tc_index = i, tc_transports = ts\<rparr>
        = Inr (r, \<lparr>tc_index = j, tc_transports = ts\<rparr>)"
      using pend Suc.prems rj by (simp add: Let_def)
    have all: "(\<forall>d' < Suc d. stream (ts ! ((i + d') mod n)) = Pending) \<longleftrightarrow>
        (\<forall>d' < d. stream (ts ! ((i + Suc d') mod n)) = Pending)" for d
      using pend Suc.prems by (auto simp: less_Suc_eq_0_disj)
    from cs show ?thesis
    proof
      assume "(\<forall>d < k. stream (ts ! ((i + Suc d) mod n)) = Pending) \<and> r = Pending \<and> j = (i + Suc k) mod n"
      then show ?thesis using loop all by blast
    next
      assume "\<exists>d < k. (\<forall>d' < d. stream (ts ! ((i + Suc d') mod n)) = Pending) \<and> j = (i + Suc d + 1) mod n \<and>
        (\<exists>x. stream (ts ! ((i + Suc d) mod n)) = Ready x \<and>
           r = Ready (map_option (\<lambda>event. (ts ! ((i + Suc d) mod n), event)) x))"
      then show ?thesis using loop all by (metis Suc_less_eq)
    qed
  qed
qed (auto simp: Let_def)

subsection \<open>Properties\<close>




definition example_tcp_env :: manager_env where
  "example_tcp_env = example_manager_env\<lparr>me_websocket := False\<rparr>"

lemma example_tcp_env_ok: "env_for False False example_tcp_env"
  using example_manager_env_ok by (simp add: env_for_def manager_env_ok_def example_tcp_env_def)

lemma example_inbound_ok: "input_ok example_manager (example_inbound 5)"
  by (simp add: example_inbound_def fresh_mstate) (simp add: example_manager_def transport_manager_build_def)


text \<open>A WebSocket address of the peer, for a manager on which only TCP is installed.\<close>

definition example_ws :: multiaddr where
  "example_ws = [Ip4 1, Tcp 1, Ws ''/'', P2p (pid_multihash example_peer)]"

lemmas dial_eval = manager_eval dial_address_def limits_on_dial_address_def address_record_from_multiaddr_def
  from_raw_multiaddr_with_score_def ends_with_p2p_def last_opt_def dial_transport_def starts_with_host_def
  try_from_multiaddr_def from_multihash_def next_connection_id_def dial_single_address_def
  address_store_insert_def address_store_new_def MAX_ADDRESSES_def with_public_bonus_def
  MULTIHASH_IDENTITY_CODE_def SHA2_256_CODE_def MAX_INLINE_KEY_LENGTH_def

definition example_lost :: transport_manager where
  "example_lost = after example_manager_env example_manager (CommandReceived (Some (DialAddress example_ws)))"

lemma example_lost_eval: "lost_attempt example_lost example_peer 0"
  by (simp add: example_lost_def dial_eval lost_attempt_def mstate_def example_ws_def example_peer_def
      example_manager_def example_manager_env_def example_env_def Let_def)

lemma example_lost_run: "manager_run False True example_manager example_lost"
  unfolding example_lost_def
proof (rule manager_run_after [OF manager_run.start example_manager_env_ok])
  show "input_ok example_manager (CommandReceived (Some (DialAddress example_ws)))"
    by (auto simp: multiaddr_valid_def example_ws_def example_peer_def from_multihash_def
        MULTIHASH_IDENTITY_CODE_def SHA2_256_CODE_def MAX_INLINE_KEY_LENGTH_def)
qed

text \<open>
  A dial attempt that is no longer backed by a pending connection stays outstanding: whatever
  the event loop processes next, the peer keeps the attempt, unless a connection is established under
  exactly that identifier.
\<close>

lemma lost_attempt_persists:
  assumes "fresh m0" and "manager_run q w m0 m" and "lost_attempt m p c" and "input_ok m inp"
    and "\<forall>t e. inp = TransportYielded (Some (t, ConnectionEstablished p e)) \<longrightarrow> endpoint_connection_id e \<noteq> c"
    and "manager_next env m inp = Inr (out, m')"
  shows "lost_attempt m' p c \<and> can_dial (mstate m' p) \<noteq> DialOk"
proof -
  have "table_ok m" using manager_run_reachable [OF assms(2,1)] by blast
  then have "lost_attempt m' p c"
    using lost_attempt_step [OF assms(3) _ assms(4)] assms(5) manager_next_moves [OF _ assms(6)] by blast
  then show ?thesis using can_dial_DialOk by (simp add: lost_attempt_def)
qed

text \<open>
  Dialing an address whose transport is not installed reports \<open>TransportNotSupported\<close> but has
  already moved the peer to \<open>Dialing\<close>: the attempt is lost, and from then on \<open>dial\<close> for that peer
  answers \<open>Ok\<close> without calling any transport.
\<close>

lemma dial_address_loses_attempt:
  assumes "fresh m0" and "manager_run q w m0 m"
    and "limits_on_dial_address (tm_connection_limits m) = Inr k" and "a \<notin> tm_listen_addresses m"
    and "try_from_multiaddr a = Some p" and "p \<noteq> tm_local_peer_id m"
    and "dial_transport env a = Some t" and "t \<notin> installed m" and "can_dial (mstate m p) = DialOk"
  shows "\<exists>m'. dial_address env m a = Inr (Inl (TransportNotSupported a), m')
    \<and> lost_attempt m' p (tm_next_connection_id m)
    \<and> fst (dial env' m' p) = Inr () \<and> tm_calls (snd (dial env' m' p)) = tm_calls m"
proof -
  let ?c = "tm_next_connection_id m"
  let ?m = "set_peer_state p (Dialing \<lparr>cr_address = a, cr_connection_id = ?c\<rparr>)
    (insert_peer_address env p (from_raw_multiaddr a) (snd (next_connection_id m)))"
  have "last_opt a = Some (P2p (pid_multihash p))"
    using try_from_multiaddr_SomeD [OF assms(5)] by blast
  then have rec: "address_record_from_multiaddr a = Some (from_raw_multiaddr a)"
    by (simp add: address_record_from_multiaddr_def ends_with_p2p_def from_raw_multiaddr_def)
  have dial: "dial_address env m a = Inr (Inl (TransportNotSupported a), ?m)"
    using assms(3-) rec
    by (simp add: dial_address_def Let_def next_connection_id_def mstate_def dial_single_address_def)
  have none: "attempt (mstate m p) = None" using assms(9) can_dial_DialOk by blast
  have ok: "table_ok m" using manager_run_reachable [OF assms(2,1)] by blast
  have "lost_attempt ?m p ?c"
    using table_pending [OF ok] none by (fastforce simp: lost_attempt_def next_connection_id_def)
  moreover have "dial env' ?m p = (Inr (), modify_peer p (\<lambda>c. c) ?m)"
    using assms(3,6) by (simp add: dial_def next_connection_id_def Let_def)
  ultimately show ?thesis using dial by (simp add: next_connection_id_def)
qed

text \<open>
  The run of the next property: an inbound connection, a request to dial a WebSocket address of the
  connected peer, the end of the connection, and a request to dial the peer.
\<close>

definition example_panic1 :: transport_manager where
  "example_panic1 = after example_manager_env example_state (CommandReceived (Some (DialAddress example_ws)))"

definition example_panic2 :: transport_manager where
  "example_panic2 = after example_manager_env example_panic1
     (EventReceived (Some (ManagerConnectionClosed example_peer 5)))"

definition example_panic3 :: transport_manager where
  "example_panic3 = after example_manager_env example_panic2 (CommandReceived (Some (DialPeer example_peer)))"

lemmas example_defs = example_state_def example_inbound_def example_ws_def example_peer_def
  example_manager_def example_manager_env_def example_env_def

lemma example_panic1_peers: "tm_peers example_panic1 = [(example_peer,
    \<lparr>pc_state = Connected \<lparr>cr_address = ensure_peer_id example_peer [Tcp 1], cr_connection_id = 5\<rparr> None,
     pc_addresses = \<lparr>as_addresses = [(example_ws, from_raw_multiaddr example_ws)], as_max_capacity = 64\<rparr>\<rparr>)]"
  "tm_pending_accept example_panic1 = [(example_peer, Listener [Tcp 1] 5)]"
  "tm_connection_limits example_panic1 = \<lparr>cl_config = \<lparr>max_incoming_connections = Some 1, max_outgoing_connections = Some 1\<rparr>,
     incoming_connections = {5}, outgoing_connections = {}\<rparr>"
  "tm_transports example_panic1 = \<lparr>tc_index = 0, tc_transports = [TransportTcp]\<rparr>"
  "tm_pending_connections example_panic1 = []" "tm_local_peer_id example_panic1 = example_local"
  "tm_next_connection_id example_panic1 = 1"
  by (simp_all add: example_panic1_def dial_eval example_defs from_raw_multiaddr_def Let_def)

lemma example_panic2_peers: "tm_peers example_panic2 = [(example_peer,
    \<lparr>pc_state = Disconnected None,
     pc_addresses = \<lparr>as_addresses = [(example_ws, from_raw_multiaddr example_ws)], as_max_capacity = 64\<rparr>\<rparr>)]"
  "tm_pending_accept example_panic2 = [(example_peer, Listener [Tcp 1] 5)]"
  "tm_connection_limits example_panic2 = \<lparr>cl_config = \<lparr>max_incoming_connections = Some 1, max_outgoing_connections = Some 1\<rparr>,
     incoming_connections = {}, outgoing_connections = {}\<rparr>"
  "tm_transports example_panic2 = \<lparr>tc_index = 0, tc_transports = [TransportTcp]\<rparr>"
  "tm_pending_connections example_panic2 = []" "tm_local_peer_id example_panic2 = example_local"
  "tm_next_connection_id example_panic2 = 1"
  by (simp_all add: example_panic2_def after_def on_connection_closed_def limits_on_connection_closed_def
      peer_entry_def modify_peer_def example_panic1_peers Let_def)

lemma example_peers_differ: "example_peer \<noteq> example_local"
  by (simp add: example_peer_def example_local_def)

lemma example_env_selectors:
  "me_address example_manager_env = example_env" "store_order example_env = rev"
  "me_group_order example_manager_env = rev"
  "me_transport_order example_manager_env S = filter (\<lambda>t. t \<in> S) all_transports"
  by (simp_all add: example_manager_env_def example_env_def)

lemma example_ws_group: "supported_transports_addresses example_manager_env [example_ws] = [(TransportWebSocket, [example_ws])]"
  by (simp add: supported_transports_addresses_def address_transport_def example_manager_env_def example_ws_def)

lemma example_panic3_peers: "tm_peers example_panic3 = [(example_peer,
    \<lparr>pc_state = Opening {example_ws} 1 {TransportWebSocket},
     pc_addresses = \<lparr>as_addresses = [(example_ws, from_raw_multiaddr example_ws)], as_max_capacity = 64\<rparr>\<rparr>)]"
  "tm_pending_accept example_panic3 = [(example_peer, Listener [Tcp 1] 5)]"
  "tm_connection_limits example_panic3 = tm_connection_limits example_panic2"
  "tm_transports example_panic3 = \<lparr>tc_index = 0, tc_transports = [TransportTcp]\<rparr>"
  "tm_pending_connections example_panic3 = [(1, example_peer)]"
  by (simp_all add: example_panic3_def after_def dial_def limits_on_dial_address_def dial_addresses_def
      next_connection_id_def peer_entry_def modify_peer_def example_panic2_peers Let_def example_peers_differ
      address_store_addresses_def example_env_selectors example_ws_group hm_keys_def)

lemma example_panic_run: "manager_run False True example_manager example_panic3"
proof -
  have "input_ok example_state (CommandReceived (Some (DialAddress example_ws)))"
    by (auto simp: multiaddr_valid_def example_ws_def example_peer_def from_multihash_def
        MULTIHASH_IDENTITY_CODE_def SHA2_256_CODE_def MAX_INLINE_KEY_LENGTH_def)
  then have r1: "manager_run False True example_manager example_panic1"
    unfolding example_panic1_def
    by (rule manager_run_after [OF example_state_run example_manager_env_ok])
  have "input_ok example_panic1 (EventReceived (Some (ManagerConnectionClosed example_peer 5)))"
    by (simp add: mstate_def peer_entry_def example_panic1_peers peer_context_default_def)
  then have r2: "manager_run False True example_manager example_panic2"
    unfolding example_panic2_def by (rule manager_run_after [OF r1 example_manager_env_ok])
  have "input_ok example_panic2 (CommandReceived (Some (DialPeer example_peer)))" by simp
  then show ?thesis
    unfolding example_panic3_def by (rule manager_run_after [OF r2 example_manager_env_ok])
qed

text \<open>
  A build with WebSocket support on which only TCP is installed can be brought into a state where
  the next inbound connection of a peer makes the event loop panic: \<open>dial_address\<close> stores the
  WebSocket address of a connected peer, a later \<open>dial\<close> of the disconnected peer records WebSocket
  among the opening transports although it is not installed, and establishing an inbound connection
  cancels that transport with \<open>expect\<close>.
\<close>

lemma manager_panics_uninstalled_transport:
  "\<exists>m. manager_run False True example_manager m \<and> input_ok m (example_inbound 6) \<and>
     manager_next example_manager_env m (example_inbound 6) = Inl Panic"
proof (intro exI conjI)
  show "manager_run False True example_manager example_panic3" by (rule example_panic_run)
  show "input_ok example_panic3 (example_inbound 6)"
    by (simp add: example_inbound_def mstate_def peer_entry_def example_panic3_peers peer_context_default_def)
  show "manager_next example_manager_env example_panic3 (example_inbound 6) = Inl Panic"
    by (simp add: example_inbound_def next_connection_established_def on_connection_established_def
        update_address_on_connection_established_def can_accept_connection_def peer_entry_def modify_peer_def
        example_panic3_peers example_panic2_peers example_env_selectors all_transports_def Let_def)
qed

text \<open>
  C10: Every established connection gets exactly one answer. Either the transport is told to accept it,
  after the outstanding opening attempts were cancelled, and then the connection is live and awaits
  its announcement, or, if the transport fails to accept, neither live nor counted any more; or the
  transport is told to reject it and neither the peers nor the limits change.
\<close>

theorem established_connection_answered:
  assumes "fresh m0" and "manager_run q w m0 m"
    and "input_ok m (TransportYielded (Some (t, ConnectionEstablished p e)))"
    and "manager_next env m (TransportYielded (Some (t, ConnectionEstablished p e))) = Inr (out, m')"
  shows "let c = endpoint_connection_id e in
    (\<exists>xs. tm_calls m' = tm_calls m @ xs @ [CallAccept t c] \<and>
      (\<forall>x \<in> set xs. \<exists>t' c'. x = CallCancel t' c') \<and>
      (if me_accept env t c then c \<in> live (mstate m' p) \<and> (p, e) \<in> set (tm_pending_accept m')
       else c \<notin> all_live (mstate m') \<and> c \<notin> limits_held (tm_connection_limits m')))
    \<or> tm_calls m' = tm_calls m @ [CallReject t c] \<and> mstate m' = mstate m
      \<and> tm_connection_limits m' = tm_connection_limits m"
  using next_connection_established_answer [OF _ assms(3), of env out m'] assms(4)
    manager_run_reachable [OF assms(2,1)]
  unfolding Let_def by (metis manager_next.simps(7) next_transport_event.simps(2))

theorem established_connection_answered_witness:
  "5 \<in> live (mstate example_state example_peer) \<or> mstate example_state = mstate example_manager"
proof -
  obtain out where r: "manager_next example_manager_env example_manager (example_inbound 5) = Inr (out, example_state)"
    by (simp add: example_state_def manager_eval example_inbound_def example_manager_def
        example_manager_env_def Let_def)
  show ?thesis
    using established_connection_answered [OF example_manager_fresh manager_run.start [of False True],
        of TransportTcp example_peer "Listener [Tcp 1] 5" example_manager_env out example_state]
      r example_inbound_ok
    by (auto simp: example_inbound_def Let_def example_manager_env_def split: if_splits)
qed

text \<open>
  Unregistering a protocol frees its fallback names but not its main name, so a later attempt to
  register the protocol again under the same name panics.
\<close>

lemma reregister_protocol_panics:
  assumes "register_protocol m name fallbacks codec keep_alive inbound = Inr m'"
    and "name \<notin> set fallbacks"
  shows "register_protocol (unregister_protocol m' name) name fallbacks' codec' keep_alive' inbound' = Inl Panic
    \<and> hm_get (tm_protocols (unregister_protocol m' name)) name = None
    \<and> set fallbacks \<inter> tm_protocol_names (unregister_protocol m' name) = {}"
proof -
  have m': "m' = m\<lparr>tm_protocols := hm_insert name \<lparr>pr_codec = codec, pr_fallback_names = fallbacks,
                     pr_keep_alive = keep_alive, pr_inbound = inbound\<rparr> (tm_protocols m),
                  tm_protocol_names := insert name (tm_protocol_names m) \<union> set fallbacks\<rparr>"
    using assms(1) by (auto simp: register_protocol_def split: if_splits)
  show ?thesis
    using assms(2) by (auto simp: m' unregister_protocol_def register_protocol_def)
qed

text \<open>
  Polling the installed transports is fair and never reads past the end. Starting at the stored
  index and going round once, the first transport that is not pending is the one answered for, and
  the next poll starts right after it; when all are pending the index is back where it was.
\<close>

lemma transport_poll_next_fair:
  assumes "tc_index tc < length (tc_transports tc)"
  shows "let n = length (tc_transports tc); i = tc_index tc;
             answer = (\<lambda>d. stream (tc_transports tc ! ((i + d) mod n)))
    in \<exists>r j. transport_poll_next stream tc = Inr (r, tc\<lparr>tc_index := j\<rparr>) \<and> j < n \<and>
      ((\<forall>d < n. answer d = Pending) \<and> r = Pending \<and> j = i \<or>
       (\<exists>d < n. (\<forall>d' < d. answer d' = Pending) \<and> j = (i + d + 1) mod n \<and>
          (\<exists>x. answer d = Ready x \<and>
             r = Ready (map_option (\<lambda>event. (tc_transports tc ! ((i + d) mod n), event)) x))))"
proof -
  let ?n = "length (tc_transports tc)" and ?i = "tc_index tc"
  have tc: "tc = \<lparr>tc_index = ?i, tc_transports = tc_transports tc\<rparr>" by simp
  have n: "0 < ?n" "tc_transports tc \<noteq> []" using assms by auto
  have "(?i + ?n) mod ?n = ?i" using assms by simp
  then show ?thesis
    using poll_loop_correct [OF refl assms, of stream ?n] n
    unfolding Let_def transport_poll_next_def
    by (metis (no_types, lifting) tc mod_less_divisor transport_context.update_convs(1))
qed

end
