(* ===== verification/Kad_Types.thy ===== *)
theory Kad_Types
  imports Address_Store "HOL-Library.Countable"
begin

section \<open>Keys, distances and peers of Kademlia\<close>

text \<open>
  \<open>src/protocol/libp2p/kademlia/types.rs\<close>. The 32 bytes of a key are read as the 256-bit word that
  \<open>U256::from_big_endian\<close> gives; two keys are equal when their bytes are. SHA-256, the binary form of
  multihashes and of multiaddresses come from third-party crates and are fields of \<open>kad_env\<close>.
\<close>

unbundle bit_operations_syntax

record kad_env =
  ke_address :: address_env
  ke_multihash :: multihash_lib
  ke_sha256 :: "u8 list \<Rightarrow> u256"
  ke_multiaddr_to_bytes :: "multiaddr \<Rightarrow> u8 list"
  ke_multiaddr_from_bytes :: "u8 list \<Rightarrow> multiaddr option"

record 'a kad_key =
  key_preimage :: 'a
  key_bytes :: u256

type_synonym distance = u256

definition KAD_MAX_ADDRESSES :: usize where
  "KAD_MAX_ADDRESSES = 32"

definition key_new :: "kad_env \<Rightarrow> u8 list \<Rightarrow> u8 list kad_key" where
  "key_new K preimage = \<lparr>key_preimage = preimage, key_bytes = ke_sha256 K preimage\<rparr>"

definition key_from_peer :: "kad_env \<Rightarrow> peer_id \<Rightarrow> peer_id kad_key" where
  "key_from_peer K p =
     \<lparr>key_preimage = p, key_bytes = ke_sha256 K (peer_id_to_bytes (ke_multihash K) p)\<rparr>"

definition key_eq :: "'a kad_key \<Rightarrow> 'b kad_key \<Rightarrow> bool" where
  "key_eq k k' \<longleftrightarrow> key_bytes k = key_bytes k'"

definition key_distance :: "'a kad_key \<Rightarrow> 'b kad_key \<Rightarrow> distance" where
  "key_distance k k' = key_bytes k XOR key_bytes k'"

definition leading_zeros :: "u256 \<Rightarrow> nat" where
  "leading_zeros w = length (takeWhile (\<lambda>i. \<not> bit w i) (rev [0..<256]))"

definition ilog2 :: "distance \<Rightarrow> nat option" where
  "ilog2 d = (if 256 - leading_zeros d \<ge> 1 then Some (256 - leading_zeros d - 1) else None)"

datatype connection_type = NotConnected | ConnConnected | CanConnect | CannotConnect

definition connection_type_try_from :: "i32 \<Rightarrow> (unit, connection_type) result" where
  "connection_type_try_from v =
     (if v = 0 then Inr NotConnected
      else if v = 1 then Inr ConnConnected
      else if v = 2 then Inr CanConnect
      else if v = 3 then Inr CannotConnect
      else Inl ())"

fun connection_type_into :: "connection_type \<Rightarrow> i32" where
  "connection_type_into NotConnected = 0"
| "connection_type_into ConnConnected = 1"
| "connection_type_into CanConnect = 2"
| "connection_type_into CannotConnect = 3"

record kademlia_peer =
  kp_key :: "peer_id kad_key"
  kp_peer :: peer_id
  kp_address_store :: address_store
  kp_connection :: connection_type

definition push_raw_addresses :: "kad_env \<Rightarrow> address_store \<Rightarrow> multiaddr list \<Rightarrow> address_store" where
  "push_raw_addresses K store addresses =
     foldl (\<lambda>s a. address_store_insert (ke_address K) s (from_raw_multiaddr a)) store addresses"

definition kademlia_peer_new ::
  "kad_env \<Rightarrow> peer_id \<Rightarrow> multiaddr list \<Rightarrow> connection_type \<Rightarrow> kademlia_peer" where
  "kademlia_peer_new K peer addresses connection =
     \<lparr>kp_key = key_from_peer K peer, kp_peer = peer,
      kp_address_store = push_raw_addresses K address_store_new addresses,
      kp_connection = connection\<rparr>"

definition push_addresses :: "kad_env \<Rightarrow> kademlia_peer \<Rightarrow> multiaddr list \<Rightarrow> kademlia_peer" where
  "push_addresses K self addresses =
     self\<lparr>kp_address_store := push_raw_addresses K (kp_address_store self) addresses\<rparr>"

definition kademlia_peer_addresses :: "kad_env \<Rightarrow> kademlia_peer \<Rightarrow> multiaddr list" where
  "kademlia_peer_addresses K self =
     address_store_addresses (ke_address K) (kp_address_store self) KAD_MAX_ADDRESSES"

definition retain_global_addresses :: "kad_env \<Rightarrow> kademlia_peer \<Rightarrow> kademlia_peer" where
  "retain_global_addresses K self =
     self\<lparr>kp_address_store := address_store_retain (is_global_multiaddr (ke_address K)) (kp_address_store self)\<rparr>"

text \<open>The protobuf message \<open>schema::kademlia::Peer\<close>.\<close>

record schema_peer =
  sp_id :: "u8 list"
  sp_addrs :: "u8 list list"
  sp_connection :: i32

definition kademlia_peer_try_from :: "kad_env \<Rightarrow> schema_peer \<Rightarrow> (unit, kademlia_peer) result" where
  "kademlia_peer_try_from K r =
     (case peer_id_from_bytes (ke_multihash K) (sp_id r) of
        Inl _ \<Rightarrow> Inl ()
      | Inr peer \<Rightarrow>
          let address_store =
                foldl (\<lambda>s bytes. case ke_multiaddr_from_bytes K bytes of
                         None \<Rightarrow> s
                       | Some address \<Rightarrow> address_store_insert (ke_address K) s (from_raw_multiaddr address))
                  address_store_new (sp_addrs r)
          in case connection_type_try_from (sp_connection r) of
               Inl _ \<Rightarrow> Inl ()
             | Inr connection \<Rightarrow>
                 Inr \<lparr>kp_key = key_from_peer K peer, kp_peer = peer,
                      kp_address_store = address_store, kp_connection = connection\<rparr>)"

definition kademlia_peer_into_schema :: "kad_env \<Rightarrow> kademlia_peer \<Rightarrow> schema_peer" where
  "kademlia_peer_into_schema K p =
     \<lparr>sp_id = peer_id_to_bytes (ke_multihash K) (kp_peer p),
      sp_addrs = map (ke_multiaddr_to_bytes K)
        (address_store_addresses (ke_address K) (kp_address_store p) KAD_MAX_ADDRESSES),
      sp_connection = connection_type_into (kp_connection p)\<rparr>"

subsection \<open>The XOR metric\<close>

lemma key_distance_sym: "key_distance a b = key_distance b a"
  by (simp add: key_distance_def xor.commute)

lemma key_distance_0 [simp]: "key_distance a b = 0 \<longleftrightarrow> key_eq a b"
  by (auto simp: key_distance_def key_eq_def bit_eq_iff bit_xor_iff)

lemma key_distance_compose: "key_distance a c = key_distance a b XOR key_distance b c"
  by (simp add: key_distance_def xor.assoc xor.left_commute)

lemma key_distance_inj: "key_distance a b = key_distance a c \<longleftrightarrow> key_eq b c"
  by (metis key_distance_0 key_distance_compose key_distance_sym xor_self_eq)

lemma highest_index:
  "(\<exists>i<n. Q i) \<Longrightarrow>
     \<exists>i<n. Q i \<and> (\<forall>j<n. i < j \<longrightarrow> \<not> Q j) \<and> n - length (takeWhile (\<lambda>i. \<not> Q i) (rev [0..<n])) = Suc i"
proof (induction n)
  case (Suc n)
  show ?case
  proof (cases "Q n")
    case False
    then have "\<exists>i<n. Q i" using Suc.prems less_Suc_eq by blast
    from Suc.IH [OF this] obtain i where i: "i < n" "Q i" "\<forall>j<n. i < j \<longrightarrow> \<not> Q j"
      "n - length (takeWhile (\<lambda>i. \<not> Q i) (rev [0..<n])) = Suc i" by blast
    with False show ?thesis by (intro exI [of _ i]) (auto simp: less_Suc_eq)
  qed auto
qed simp

lemma ilog2_Some: "ilog2 d = Some i \<longleftrightarrow> i < 256 \<and> bit d i \<and> (\<forall>j>i. \<not> bit d j)"
proof -
  have b: "bit d j \<Longrightarrow> j < 256" for j
    using bit_imp_le_length [of d j] by simp
  show ?thesis
  proof (cases "\<exists>i<256. bit d i")
    case True
    from highest_index [OF True] obtain k where k: "k < 256" "bit d k" "\<forall>j<256. k < j \<longrightarrow> \<not> bit d j"
      "256 - leading_zeros d = Suc k" unfolding leading_zeros_def by blast
    then have "ilog2 d = Some k" by (simp add: ilog2_def)
    moreover have "\<forall>j>k. \<not> bit d j" using k(3) b by blast
    ultimately show ?thesis using k(1,2) by (metis linorder_neqE_nat option.inject)
  next
    case False
    have "takeWhile (\<lambda>i. \<not> bit d i) (rev [0..<256]) = rev [0..<256]"
      using False by (intro takeWhile_eq_all_conv [THEN iffD2]) auto
    then have "leading_zeros d = 256"
      unfolding leading_zeros_def by (simp only: length_rev length_upt)
    then show ?thesis using False b by (auto simp: ilog2_def)
  qed
qed

lemma ilog2_None: "ilog2 d = None \<longleftrightarrow> d = 0"
proof
  assume n: "ilog2 d = None"
  show "d = 0"
  proof (rule ccontr)
    assume "d \<noteq> 0"
    then obtain j where "bit d j" by (auto simp: bit_eq_iff)
    then have "\<exists>i<256. bit d i" using bit_imp_le_length [of d j] by auto
    from highest_index [OF this] have "256 - leading_zeros d \<ge> 1"
      unfolding leading_zeros_def by (metis Suc_le_mono le0 One_nat_def)
    with n show False by (simp add: ilog2_def)
  qed
next
  assume "d = 0"
  then show "ilog2 d = None" by (metis bit_0_eq bot_apply bot_bool_def ilog2_Some not_None_eq)
qed

lemma ilog2_drop_bit: "ilog2 d = Some i \<Longrightarrow> drop_bit i d = 1"
  by (rule bit_word_eqI)
    (auto simp: ilog2_Some bit_drop_bit_eq bit_1_iff, metis less_add_same_cancel1 not_gr0)

lemma ilog2_drop_bit_less:
  assumes "ilog2 d = Some i" "i < j"
  shows "drop_bit j d = 0"
  using assms by (intro bit_word_eqI) (auto simp: ilog2_Some bit_drop_bit_eq)

lemma drop_bit_less:
  fixes a b :: "'a::len word"
  assumes "drop_bit n a < drop_bit n b"
  shows "a < b"
proof (rule ccontr)
  assume "\<not> a < b"
  then have "unat b \<le> unat a" by (simp add: word_le_nat_alt not_less)
  then have "drop_bit n (unat b) \<le> drop_bit n (unat a)"
    by (simp add: drop_bit_eq_div div_le_mono)
  with assms show False
    by (simp add: word_less_nat_alt unat_drop_bit_eq)
qed

lemma xor_one_word:
  fixes x :: u256
  shows "bit x 0 \<Longrightarrow> x XOR 1 < x" and "\<not> bit x 0 \<Longrightarrow> x < x XOR 1"
proof -
  have nat: "unat (x XOR 1) = (if even (unat x) then unat x + 1 else unat x - 1)"
    using xor_Suc_0_eq [of "unat x"] by (simp add: unsigned_xor_eq del: xor_Suc_0_eq)
  have ev: "bit x 0 \<longleftrightarrow> odd (unat x)"
    by (simp flip: bit_0 add: bit_unsigned_iff)
  show "bit x 0 \<Longrightarrow> x XOR 1 < x"
    using ev nat by (simp add: word_less_nat_alt odd_pos)
  show "\<not> bit x 0 \<Longrightarrow> x < x XOR 1"
    using ev nat by (simp add: word_less_nat_alt)
qed

text \<open>
  Peers of bucket \<open>j\<close> against peers of smaller buckets, seen from a target at distance \<open>D\<close>: bit
  \<open>j\<close> of \<open>D\<close> decides which are closer.
\<close>

lemma bucket_order_closer:
  fixes D :: distance
  assumes j: "ilog2 d1 = Some j" and d2: "drop_bit j d2 = 0"
  shows "bit D j \<Longrightarrow> D XOR d1 < D XOR d2" and "\<not> bit D j \<Longrightarrow> D XOR d2 < D XOR d1"
proof -
  have e1: "drop_bit j (D XOR d1) = drop_bit j D XOR 1"
    and e2: "drop_bit j (D XOR d2) = drop_bit j D"
    using ilog2_drop_bit [OF j] d2 by (simp_all only: drop_bit_xor xor.right_neutral)
  have b: "bit (drop_bit j D) 0 = bit D j" by (simp add: bit_drop_bit_eq)
  show "bit D j \<Longrightarrow> D XOR d1 < D XOR d2"
    by (rule drop_bit_less [of j]) (simp only: e1 e2, rule xor_one_word(1), simp only: b)
  show "\<not> bit D j \<Longrightarrow> D XOR d2 < D XOR d1"
    by (rule drop_bit_less [of j]) (simp only: e1 e2, rule xor_one_word(2), simp only: b simp_thms)
qed

subsection \<open>Peers\<close>

text \<open>What is relied on of the third-party encodings: they parse back.\<close>

definition kad_env_ok :: "kad_env \<Rightarrow> bool" where
  "kad_env_ok K \<longleftrightarrow> address_env_ok (ke_address K) \<and> multihash_lib_ok (ke_multihash K) \<and>
     (\<forall>a. ke_multiaddr_from_bytes K (ke_multiaddr_to_bytes K a) = Some a)"

definition kademlia_peer_ok :: "kad_env \<Rightarrow> kademlia_peer \<Rightarrow> bool" where
  "kademlia_peer_ok K p \<longleftrightarrow> kp_key p = key_from_peer K (kp_peer p) \<and> address_store_ok (kp_address_store p)"

lemma kad_env_okD: "kad_env_ok K \<Longrightarrow> address_env_ok (ke_address K)"
  "kad_env_ok K \<Longrightarrow> multihash_lib_ok (ke_multihash K)"
  by (simp_all add: kad_env_ok_def)

lemma push_raw_addresses_eq:
  "push_raw_addresses K store as = address_store_extend (ke_address K) store (map from_raw_multiaddr as)"
  by (simp add: push_raw_addresses_def address_store_extend_def foldl_map)

lemma push_raw_addresses_ok [intro]:
  "address_env_ok (ke_address K) \<Longrightarrow> address_store_ok store \<Longrightarrow>
     address_store_ok (push_raw_addresses K store as)"
  unfolding push_raw_addresses_eq by (rule address_store_extend_ok) (simp_all add: list_all_iff)

lemma kademlia_peer_new_ok:
  "address_env_ok (ke_address K) \<Longrightarrow> kademlia_peer_ok K (kademlia_peer_new K p as c)"
  by (auto simp: kademlia_peer_ok_def kademlia_peer_new_def)

lemma push_addresses_ok:
  "address_env_ok (ke_address K) \<Longrightarrow> kademlia_peer_ok K p \<Longrightarrow> kademlia_peer_ok K (push_addresses K p as)"
  by (auto simp: kademlia_peer_ok_def push_addresses_def)

lemma address_store_insert_room:
  assumes E: "address_env_ok E" and s: "address_store_ok s" and n: "length (as_addresses s) < as_max_capacity s"
  shows "hm_keys (as_addresses (address_store_insert E s r)) = insert (ar_address r) (hm_keys (as_addresses s))
    \<and> length (as_addresses (address_store_insert E s r)) \<le> Suc (length (as_addresses s))"
  using E s
proof (cases rule: address_store_insert_cases [of E s r])
  case (Updated old)
  then show ?thesis
    using address_store_okD(1) [OF s] by (auto simp: hm_keys_iff hm_len_insert)
next
  case (Kept old)
  then show ?thesis by (auto simp: hm_keys_iff)
next
  case Added
  then show ?thesis using address_store_okD(1) [OF s] by (simp add: hm_len_insert)
qed (use n in simp_all)

lemma push_raw_addresses_room:
  assumes E: "address_env_ok (ke_address K)"
  shows "address_store_ok s \<Longrightarrow> length (as_addresses s) + length as \<le> as_max_capacity s \<Longrightarrow>
    hm_keys (as_addresses (push_raw_addresses K s as)) = set as \<union> hm_keys (as_addresses s)"
proof (induction as arbitrary: s)
  case Nil
  then show ?case by (simp add: push_raw_addresses_def)
next
  case (Cons a as)
  let ?s = "address_store_insert (ke_address K) s (from_raw_multiaddr a)"
  have room: "length (as_addresses s) < as_max_capacity s" using Cons.prems(2) by simp
  note i = address_store_insert_room [OF E Cons.prems(1) room, of "from_raw_multiaddr a"]
  have "hm_keys (as_addresses (push_raw_addresses K ?s as)) = set as \<union> hm_keys (as_addresses ?s)"
    using i Cons.prems by (intro Cons.IH) (auto intro: address_store_insert_ok [OF E])
  then show ?case using i by (simp add: push_raw_addresses_def)
qed

lemma schema_addresses:
  "kad_env_ok K \<Longrightarrow>
     foldl (\<lambda>s bytes. case ke_multiaddr_from_bytes K bytes of None \<Rightarrow> s
        | Some a \<Rightarrow> address_store_insert (ke_address K) s (from_raw_multiaddr a)) s (map (ke_multiaddr_to_bytes K) as)
     = push_raw_addresses K s as"
  by (simp add: push_raw_addresses_def foldl_map kad_env_ok_def)

lemma connection_type_roundtrip [simp]: "connection_type_try_from (connection_type_into c) = Inr c"
  by (cases c) (simp_all add: connection_type_try_from_def)

text \<open>What a recipient reads of a peer.\<close>

definition reread_peer :: "kad_env \<Rightarrow> kademlia_peer \<Rightarrow> kademlia_peer" where
  "reread_peer K p = kademlia_peer_new K (kp_peer p) (kademlia_peer_addresses K p) (kp_connection p)"

lemma schema_peer_reread:
  assumes K: "kad_env_ok K" and id: "peer_id_ok (kp_peer p)"
  shows "kademlia_peer_try_from K (kademlia_peer_into_schema K p) = Inr (reread_peer K p)"
  using peer_id_bytes_roundtrip [OF kad_env_okD(2) [OF K] id]
  by (simp add: kademlia_peer_try_from_def kademlia_peer_into_schema_def schema_addresses [OF K]
      kademlia_peer_addresses_def reread_peer_def kademlia_peer_new_def)

lemma reread_peer_addresses:
  assumes K: "kad_env_ok K"
  shows "hm_keys (as_addresses (kp_address_store (reread_peer K p))) = set (kademlia_peer_addresses K p)"
proof -
  let ?as = "kademlia_peer_addresses K p"
  have "length ?as \<le> 32"
    by (simp add: kademlia_peer_addresses_def address_store_addresses_def KAD_MAX_ADDRESSES_def Let_def)
  then show ?thesis
    using push_raw_addresses_room [OF kad_env_okD(1) [OF K] address_store_new_ok, of ?as]
    by (simp add: reread_peer_def kademlia_peer_new_def address_store_new_def MAX_ADDRESSES_def hm_keys_def)
qed

text \<open>
  A peer written to the protobuf message and read back is the same peer with the same key and
  connection type, and it carries exactly the addresses that were written: the best 32 of its store.
\<close>

lemma kademlia_peer_schema_roundtrip:
  assumes K: "kad_env_ok K" and p: "kademlia_peer_ok K p" and id: "peer_id_ok (kp_peer p)"
  shows "\<exists>p'. kademlia_peer_try_from K (kademlia_peer_into_schema K p) = Inr p' \<and> kademlia_peer_ok K p' \<and>
    kp_peer p' = kp_peer p \<and> kp_key p' = kp_key p \<and> kp_connection p' = kp_connection p \<and>
    hm_keys (as_addresses (kp_address_store p')) = set (kademlia_peer_addresses K p)"
proof -
  have "kademlia_peer_ok K (reread_peer K p)"
    unfolding reread_peer_def by (rule kademlia_peer_new_ok [OF kad_env_okD(1) [OF K]])
  with schema_peer_reread [OF K id] reread_peer_addresses [OF K, of p] p show ?thesis
    by (auto simp: kademlia_peer_ok_def reread_peer_def kademlia_peer_new_def)
qed

text \<open>A concrete environment in which the third-party encodings are injective functions.\<close>

instance multihash_ext :: (countable) countable
proof (rule countable_classI [of "\<lambda>m. to_nat (mh_code m, mh_digest m, multihash.more m)"])
  fix m m' :: "'a multihash_ext"
  assume "to_nat (mh_code m, mh_digest m, multihash.more m) = to_nat (mh_code m', mh_digest m', multihash.more m')"
  then show "m = m'" by (intro multihash.equality) simp_all
qed

instance protocol :: countable
  by countable_datatype

definition example_kad_env :: kad_env where
  "example_kad_env = \<lparr>ke_address = example_env,
     ke_multihash = \<lparr>mh_wrap = (\<lambda>c d. Some \<lparr>mh_code = c, mh_digest = d\<rparr>),
       mh_sha2_256 = (\<lambda>d. \<lparr>mh_code = SHA2_256_CODE, mh_digest = take 32 d\<rparr>),
       mh_to_bytes = (\<lambda>m. replicate (unat (mh_code m)) 1 @ 0 # mh_digest m),
       mh_from_bytes = (\<lambda>b. Some \<lparr>mh_code = of_nat (length (takeWhile (\<lambda>x. x \<noteq> 0) b)),
         mh_digest = tl (dropWhile (\<lambda>x. x \<noteq> 0) b)\<rparr>)\<rparr>,
     ke_sha256 = (\<lambda>b. case b of [] \<Rightarrow> 0 | _ \<Rightarrow> ucast (last b)),
     ke_multiaddr_to_bytes = (\<lambda>a. replicate (to_nat a) 0),
     ke_multiaddr_from_bytes = (\<lambda>b. Some (from_nat (length b)))\<rparr>"

lemma example_kad_env_ok [simp]: "kad_env_ok example_kad_env"
proof -
  have tw: "takeWhile (\<lambda>x. x \<noteq> 0) (replicate n 1 @ 0 # d) = replicate n 1"
    and dw: "dropWhile (\<lambda>x. x \<noteq> 0) (replicate n 1 @ 0 # d) = 0 # d" for n and d :: "u8 list"
    by (induction n) simp_all
  show ?thesis
    by (simp add: kad_env_ok_def example_kad_env_def multihash_lib_ok_def tw dw)
qed

definition example_kad_id :: "u8 \<Rightarrow> peer_id" where
  "example_kad_id b = \<lparr>pid_multihash = \<lparr>mh_code = 0, mh_digest = [b]\<rparr>\<rparr>"

lemma example_kad_id_ok [simp]: "peer_id_ok (example_kad_id b)"
  by (simp add: peer_id_ok_def example_kad_id_def from_multihash_def MULTIHASH_IDENTITY_CODE_def
      MAX_INLINE_KEY_LENGTH_def SHA2_256_CODE_def)

definition example_kad_peer :: "u8 \<Rightarrow> kademlia_peer" where
  "example_kad_peer b = kademlia_peer_new example_kad_env (example_kad_id b) [[Tcp 1]] NotConnected"

end
