(* ===== verification/Kad_Routing.thy ===== *)
theory Kad_Routing
  imports Kad_Types
begin

section \<open>K-buckets and the routing table\<close>

text \<open>
  \<open>src/protocol/libp2p/kademlia/bucket.rs\<close> and \<open>routing_table.rs\<close>. A mutable reference to a bucket
  entry is the position of the entry in its bucket. \<open>KBucket::entry\<close> may push a placeholder for a
  random peer; the random peer id is the argument \<open>rnd\<close>. The iterator \<open>ClosestBucketsIter\<close> is its
  \<open>next\<close> function together with the list of all indices it yields.
\<close>

type_synonym kbucket = "kademlia_peer list"

datatype kbucket_entry = LocalNode | Occupied nat | Vacant nat | NoSlot

text \<open>The loops over the positions of a bucket: the first position that satisfies a condition.\<close>

fun find_slot :: "('a \<Rightarrow> bool) \<Rightarrow> 'a list \<Rightarrow> nat option" where
  "find_slot P [] = None"
| "find_slot P (x # xs) = (if P x then Some 0 else map_option Suc (find_slot P xs))"

definition kbucket_entry_insert :: "kad_env \<Rightarrow> kbucket \<Rightarrow> kbucket_entry \<Rightarrow> kademlia_peer \<Rightarrow> kbucket" where
  "kbucket_entry_insert K nodes entry new =
     (case entry of
        Vacant i \<Rightarrow> nodes[i := (nodes ! i)\<lparr>kp_peer := kp_peer new, kp_key := key_from_peer K (kp_peer new),
            kp_address_store := kp_address_store new, kp_connection := kp_connection new\<rparr>]
      | _ \<Rightarrow> nodes)"

definition kbucket_entry_of :: "kad_env \<Rightarrow> peer_id \<Rightarrow> kbucket \<Rightarrow> 'a kad_key \<Rightarrow> kbucket_entry \<times> kbucket" where
  "kbucket_entry_of K rnd nodes key =
     (case find_slot (\<lambda>n. key_eq (kp_key n) key) nodes of
        Some i \<Rightarrow> (Occupied i, nodes)
      | None \<Rightarrow>
          if length nodes < 20
          then (Vacant (length nodes), nodes @ [kademlia_peer_new K rnd [] NotConnected])
          else case find_slot (\<lambda>n. kp_connection n = NotConnected \<or> kp_connection n = CannotConnect) nodes of
            Some i \<Rightarrow> (Vacant i, nodes)
          | None \<Rightarrow> (NoSlot, nodes))"

definition closest_iter :: "kbucket \<Rightarrow> 'a kad_key \<Rightarrow> kademlia_peer list" where
  "closest_iter nodes target =
     filter (\<lambda>p. \<not> address_store_is_empty (kp_address_store p))
       (sort_key (\<lambda>p. key_distance target (kp_key p)) nodes)"

definition NUM_BUCKETS :: nat where
  "NUM_BUCKETS = 256"

record routing_table =
  rt_local_key :: "peer_id kad_key"
  rt_buckets :: "kbucket list"

definition bucket_index_new :: "distance \<Rightarrow> nat option" where
  "bucket_index_new d = ilog2 d"

definition bucket_index_range :: "nat \<Rightarrow> distance \<times> distance" where
  "bucket_index_range i =
     (let min = 2 ^ i in if i = 255 then (min, - 1) else (min, 2 ^ (i + 1) - 1))"

definition routing_table_new :: "peer_id kad_key \<Rightarrow> routing_table" where
  "routing_table_new local_key =
     \<lparr>rt_local_key = local_key, rt_buckets = map (\<lambda>_. []) [0..<NUM_BUCKETS]\<rparr>"

text \<open>\<open>RoutingTable::entry\<close>: the index of the bucket, the entry in it, and the table.\<close>

definition routing_table_entry ::
  "kad_env \<Rightarrow> peer_id \<Rightarrow> routing_table \<Rightarrow> peer_id kad_key \<Rightarrow> nat \<times> kbucket_entry \<times> routing_table" where
  "routing_table_entry K rnd t key =
     (case bucket_index_new (key_distance (rt_local_key t) key) of
        None \<Rightarrow> (0, LocalNode, t)
      | Some i \<Rightarrow>
          (case kbucket_entry_of K rnd (rt_buckets t ! i) key of
             (entry, nodes) \<Rightarrow> (i, entry, t\<lparr>rt_buckets := (rt_buckets t)[i := nodes]\<rparr>)))"

definition update_slot :: "routing_table \<Rightarrow> nat \<Rightarrow> nat \<Rightarrow> (kademlia_peer \<Rightarrow> kademlia_peer) \<Rightarrow> routing_table" where
  "update_slot t b i f =
     t\<lparr>rt_buckets := (rt_buckets t)[b := (rt_buckets t ! b)[i := f (rt_buckets t ! b ! i)]]\<rparr>"

definition rt_on_dial_failure ::
  "kad_env \<Rightarrow> peer_id \<Rightarrow> routing_table \<Rightarrow> peer_id kad_key \<Rightarrow> multiaddr list \<Rightarrow> routing_table" where
  "rt_on_dial_failure K rnd t key addresses =
     (case routing_table_entry K rnd t key of
        (b, Occupied i, t') \<Rightarrow>
          update_slot t' b i (\<lambda>entry. entry\<lparr>kp_address_store :=
            foldl (\<lambda>s a. address_store_insert (ke_address K) s
                     (from_raw_multiaddr_with_score a CONNECTION_FAILURE))
              (kp_address_store entry) addresses\<rparr>)
      | (_, _, t') \<Rightarrow> t')"

definition rt_on_connection_established ::
  "kad_env \<Rightarrow> peer_id \<Rightarrow> routing_table \<Rightarrow> peer_id kad_key \<Rightarrow> endpoint \<Rightarrow> routing_table" where
  "rt_on_connection_established K rnd t key e =
     (case routing_table_entry K rnd t key of
        (b, Occupied i, t') \<Rightarrow>
          update_slot t' b i (\<lambda>entry.
            let entry' = entry\<lparr>kp_connection := ConnConnected\<rparr>
            in case e of
                 Dialer address _ \<Rightarrow> entry'\<lparr>kp_address_store :=
                   address_store_insert (ke_address K) (kp_address_store entry')
                     (from_raw_multiaddr_with_score address CONNECTION_ESTABLISHED)\<rparr>
               | Listener _ _ \<Rightarrow> entry')
      | (_, _, t') \<Rightarrow> t')"

definition add_known_peer ::
  "kad_env \<Rightarrow> peer_id \<Rightarrow> routing_table \<Rightarrow> peer_id \<Rightarrow> multiaddr list \<Rightarrow> connection_type \<Rightarrow> routing_table" where
  "add_known_peer K rnd t peer addresses connection =
     (let addresses = map (\<lambda>a. if ends_with_p2p a then a else a @ [P2p (pid_multihash peer)]) addresses
      in if addresses = [] then t
         else case routing_table_entry K rnd t (key_from_peer K peer) of
           (b, Occupied i, t') \<Rightarrow>
             update_slot t' b i (\<lambda>entry. (push_addresses K entry addresses)\<lparr>kp_connection := connection\<rparr>)
         | (b, Vacant i, t') \<Rightarrow>
             t'\<lparr>rt_buckets := (rt_buckets t')[b :=
               kbucket_entry_insert K (rt_buckets t' ! b) (Vacant i)
                 (kademlia_peer_new K peer addresses connection)]\<rparr>
         | (_, LocalNode, t') \<Rightarrow> t'
         | (_, NoSlot, t') \<Rightarrow> t')"

subsection \<open>The order in which the buckets are visited\<close>

datatype closest_buckets_state = IterStart nat | ZoomIn nat | ZoomOut nat | IterDone

definition closest_buckets_new :: "distance \<Rightarrow> closest_buckets_state" where
  "closest_buckets_new d = (case bucket_index_new d of Some i \<Rightarrow> IterStart i | None \<Rightarrow> IterStart 0)"

definition next_in :: "distance \<Rightarrow> nat \<Rightarrow> nat option" where
  "next_in d i = find (\<lambda>j. bit d j) (rev [0..<i])"

definition next_out :: "distance \<Rightarrow> nat \<Rightarrow> nat option" where
  "next_out d i = find (\<lambda>j. \<not> bit d j) [i + 1..<NUM_BUCKETS]"

fun closest_buckets_next :: "distance \<Rightarrow> closest_buckets_state \<Rightarrow> nat option \<times> closest_buckets_state" where
  "closest_buckets_next d (IterStart i) = (Some i, ZoomIn i)"
| "closest_buckets_next d (ZoomIn i) =
     (case next_in d i of Some j \<Rightarrow> (Some j, ZoomIn j) | None \<Rightarrow> (Some 0, ZoomOut 0))"
| "closest_buckets_next d (ZoomOut i) =
     (case next_out d i of Some j \<Rightarrow> (Some j, ZoomOut j) | None \<Rightarrow> (None, IterDone))"
| "closest_buckets_next d IterDone = (None, IterDone)"

fun iter_measure :: "closest_buckets_state \<Rightarrow> nat" where
  "iter_measure (IterStart i) = 2 * NUM_BUCKETS + i + 2"
| "iter_measure (ZoomIn i) = 2 * NUM_BUCKETS + i + 1"
| "iter_measure (ZoomOut i) = NUM_BUCKETS - i + 1"
| "iter_measure IterDone = 0"

lemma find_Some_mem: "find P xs = Some x \<Longrightarrow> x \<in> set xs \<and> P x"
  by (induction xs) (auto split: if_splits)

lemma next_in_less: "next_in d i = Some j \<Longrightarrow> j < i \<and> bit d j"
  by (auto simp: next_in_def dest!: find_Some_mem)

lemma next_out_greater: "next_out d i = Some j \<Longrightarrow> i < j \<and> j < NUM_BUCKETS \<and> \<not> bit d j"
  by (auto simp: next_out_def dest!: find_Some_mem)

lemma iter_measure_decreases: "closest_buckets_next d st = (Some i, st') \<Longrightarrow> iter_measure st' < iter_measure st"
  by (cases st) (auto dest!: next_in_less next_out_greater split: option.splits simp: NUM_BUCKETS_def)

text \<open>All indices the iterator yields, until it returns \<open>None\<close>.\<close>

function closest_buckets :: "distance \<Rightarrow> closest_buckets_state \<Rightarrow> nat list" where
  "closest_buckets d st =
     (case closest_buckets_next d st of
        (None, _) \<Rightarrow> []
      | (Some i, st') \<Rightarrow> i # closest_buckets d st')"
  by pat_completeness auto
termination
  by (relation "measure (\<lambda>(_, st). iter_measure st)") (auto dest!: iter_measure_decreases [OF sym])

declare closest_buckets.simps [simp del]

definition closest :: "routing_table \<Rightarrow> 'a kad_key \<Rightarrow> usize \<Rightarrow> kademlia_peer list" where
  "closest t target limit =
     take limit (concat (map (\<lambda>i. closest_iter (rt_buckets t ! i) target)
       (let d = key_distance (rt_local_key t) target in closest_buckets d (closest_buckets_new d))))"

lemma find_None_filter: "find P xs = None \<Longrightarrow> filter P xs = []"
  by (induction xs) (auto split: if_splits)

lemma find_rev_upt: "find P (rev [0..<i]) = Some j \<Longrightarrow> filter P (rev [0..<i]) = j # filter P (rev [0..<j])"
  by (induction i) (auto split: if_splits)

lemma find_upt: "find P [a..<n] = Some j \<Longrightarrow> filter P [a..<n] = j # filter P [Suc j..<n]"
proof (induction "n - a" arbitrary: a)
  case (Suc k)
  then have "a < n" by simp
  then have "[a..<n] = a # [Suc a..<n]" by (rule upt_conv_Cons)
  with Suc show ?case by (auto split: if_splits)
qed simp

lemma closest_buckets_ZoomOut: "closest_buckets d (ZoomOut i) = filter (\<lambda>j. \<not> bit d j) [Suc i..<NUM_BUCKETS]"
proof (induction "NUM_BUCKETS - i" arbitrary: i rule: less_induct)
  case less
  show ?case
  proof (cases "next_out d i")
    case None
    then show ?thesis
      using find_None_filter [of "\<lambda>j. \<not> bit d j" "[Suc i..<NUM_BUCKETS]"]
      by (simp add: closest_buckets.simps [of d "ZoomOut i"] next_out_def)
  next
    case (Some j)
    then have "closest_buckets d (ZoomOut j) = filter (\<lambda>j. \<not> bit d j) [Suc j..<NUM_BUCKETS]"
      using next_out_greater [OF Some] by (intro less.hyps) auto
    with Some find_upt [of "\<lambda>j. \<not> bit d j" "Suc i" NUM_BUCKETS j] show ?thesis
      by (simp add: closest_buckets.simps [of d "ZoomOut i"] next_out_def)
  qed
qed

lemma closest_buckets_ZoomIn:
  "closest_buckets d (ZoomIn i) = filter (bit d) (rev [0..<i]) @ 0 # filter (\<lambda>j. \<not> bit d j) [1..<NUM_BUCKETS]"
proof (induction i rule: less_induct)
  case (less i)
  show ?case
  proof (cases "next_in d i")
    case None
    then show ?thesis
      using find_None_filter [of "bit d" "rev [0..<i]"]
      by (simp add: closest_buckets.simps [of d "ZoomIn i"] closest_buckets_ZoomOut next_in_def)
  next
    case (Some j)
    with find_rev_upt [of "bit d" i j] less.IH [of j] next_in_less [OF Some] show ?thesis
      by (simp add: closest_buckets.simps [of d "ZoomIn i"] next_in_def)
  qed
qed

text \<open>The iterator in closed form.\<close>

definition bucket_visits :: "distance \<Rightarrow> nat list" where
  "bucket_visits d = closest_buckets d (closest_buckets_new d)"

lemma bucket_visits_eq:
  "bucket_visits d = (let i = (case ilog2 d of Some i \<Rightarrow> i | None \<Rightarrow> 0)
     in i # filter (bit d) (rev [0..<i]) @ 0 # filter (\<lambda>j. \<not> bit d j) [1..<NUM_BUCKETS])"
  by (simp add: bucket_visits_def closest_buckets_new_def bucket_index_new_def
      closest_buckets.simps [of d "IterStart _"] closest_buckets_ZoomIn split: option.splits)

text \<open>
  \<open>before d x y\<close>: from a target at distance \<open>d\<close>, bucket \<open>x\<close> is not farther than bucket \<open>y\<close>. Only
  bucket \<open>0\<close> may be visited again.
\<close>

definition before :: "distance \<Rightarrow> nat \<Rightarrow> nat \<Rightarrow> bool" where
  "before d x y \<longleftrightarrow> (y < x \<longrightarrow> bit d x) \<and> (x < y \<longrightarrow> \<not> bit d y) \<and> (x = y \<longrightarrow> x = 0)"

lemma sorted_zoom_in: "sorted_wrt (before d) (filter (bit d) (rev [0..<n]))"
  by (induction n) (auto simp: before_def)

lemma sorted_zoom_out: "sorted_wrt (before d) (filter (\<lambda>j. \<not> bit d j) [a..<n])"
  by (induction n) (auto simp: before_def sorted_wrt_append)

lemma bucket_visits_sorted: "sorted_wrt (before d) (bucket_visits d)"
proof -
  define i where "i = (case ilog2 d of Some i \<Rightarrow> i | None \<Rightarrow> 0)"
  have i0: "i = 0 \<or> bit d i"
    by (auto simp: i_def ilog2_Some split: option.splits)
  then have "before d i y" if "y < i \<or> \<not> bit d y" for y
    using that by (auto simp: before_def)
  then show ?thesis
    using sorted_zoom_in [of d i] sorted_zoom_out [of d 1 NUM_BUCKETS]
    by (simp add: bucket_visits_eq i_def [symmetric] sorted_wrt_append) (auto simp: before_def)
qed

lemma set_bucket_visits: "set (bucket_visits d) = {0..<NUM_BUCKETS}"
proof -
  define i where "i = (case ilog2 d of Some i \<Rightarrow> i | None \<Rightarrow> 0)"
  have i: "i < NUM_BUCKETS"
    by (auto simp: i_def NUM_BUCKETS_def ilog2_Some split: option.splits)
  have "j \<le> i" if "bit d j" for j
  proof (cases "ilog2 d")
    case None
    then show ?thesis using that ilog2_None [of d] by simp
  next
    case (Some k)
    then have "i = k" "\<not> k < j" using that ilog2_Some [of d k] by (auto simp: i_def)
    then show ?thesis by simp
  qed
  with i show ?thesis
    by (auto simp: bucket_visits_eq i_def [symmetric] le_less)
qed

lemma distinct_bucket_visits:
  assumes "d \<noteq> 0" "\<not> bit d 0"
  shows "distinct (bucket_visits d)"
proof -
  obtain i where i: "ilog2 d = Some i" using assms(1) ilog2_None by blast
  then have "bit d i" "i \<noteq> 0" using assms(2) by (auto simp: ilog2_Some intro: gr0I)
  with assms(2) i show ?thesis by (auto simp: bucket_visits_eq)
qed

text \<open>Otherwise bucket \<open>0\<close> is visited twice, and only that bucket.\<close>

lemma bucket_visits_zero_twice:
  assumes "d = 0 \<or> bit d 0"
  shows "\<exists>xs ys. bucket_visits d = xs @ 0 # 0 # ys \<and> distinct (xs @ 0 # ys)"
proof (cases "ilog2 d")
  case None
  then show ?thesis
    by (intro exI [of _ "[]"] exI [of _ "filter (\<lambda>j. \<not> bit d j) [1..<NUM_BUCKETS]"])
      (simp add: bucket_visits_eq)
next
  case (Some i)
  have b0: "bit d 0" using assms Some ilog2_None [of d] by auto
  show ?thesis
  proof (cases "i = 0")
    case True
    then show ?thesis using Some
      by (intro exI [of _ "[]"] exI [of _ "filter (\<lambda>j. \<not> bit d j) [1..<NUM_BUCKETS]"])
        (simp add: bucket_visits_eq)
  next
    case False
    have "rev [0..<i] = rev [1..<i] @ [0]"
      using False by (metis gr0I rev.simps(2) upt_conv_Cons One_nat_def)
    then have "bucket_visits d = (i # filter (bit d) (rev [1..<i])) @ 0 # 0 # filter (\<lambda>j. \<not> bit d j) [1..<NUM_BUCKETS]"
      using Some b0 by (simp add: bucket_visits_eq)
    moreover have "distinct ((i # filter (bit d) (rev [1..<i])) @ 0 # filter (\<lambda>j. \<not> bit d j) [1..<NUM_BUCKETS])"
      using False Some by (auto simp: ilog2_Some)
    ultimately show ?thesis by blast
  qed
qed

subsection \<open>Well-formed tables\<close>

definition visible :: "kademlia_peer \<Rightarrow> bool" where
  "visible p \<longleftrightarrow> \<not> address_store_is_empty (kp_address_store p)"

definition bucket_ok :: "kad_env \<Rightarrow> peer_id kad_key \<Rightarrow> nat \<Rightarrow> kbucket \<Rightarrow> bool" where
  "bucket_ok K local b nodes \<longleftrightarrow> length nodes \<le> 20 \<and>
     (\<forall>p \<in> set nodes. kademlia_peer_ok K p \<and> (visible p \<longrightarrow> ilog2 (key_distance local (kp_key p)) = Some b)) \<and>
     sorted_wrt (\<lambda>p q. visible q \<longrightarrow> \<not> key_eq (kp_key p) (kp_key q)) nodes"

definition routing_table_ok :: "kad_env \<Rightarrow> routing_table \<Rightarrow> bool" where
  "routing_table_ok K t \<longleftrightarrow> length (rt_buckets t) = NUM_BUCKETS \<and>
     (\<forall>b < NUM_BUCKETS. bucket_ok K (rt_local_key t) b (rt_buckets t ! b))"

lemma routing_table_new_ok: "routing_table_ok K (routing_table_new local)"
  by (simp add: routing_table_ok_def routing_table_new_def bucket_ok_def)

lemma find_slot_Some:
  "find_slot P xs = Some i \<Longrightarrow> i < length xs \<and> P (xs ! i) \<and> (\<forall>j < i. \<not> P (xs ! j))"
  by (induction xs arbitrary: i) (auto simp: less_Suc_eq_0_disj nth_Cons split: if_splits nat.splits)

lemma find_slot_None: "find_slot P xs = None \<Longrightarrow> x \<in> set xs \<Longrightarrow> \<not> P x"
  by (induction xs) (auto split: if_splits)

text \<open>Writing one node: its key must be new to the earlier nodes and to the visible later ones.\<close>

lemma bucket_ok_put:
  assumes ok: "bucket_ok K local b nodes" and i: "i < length nodes" and q: "kademlia_peer_ok K q"
    and b: "ilog2 (key_distance local (kp_key q)) = Some b"
    and before: "\<And>j. j < i \<Longrightarrow> \<not> key_eq (kp_key (nodes ! j)) (kp_key q)"
    and after: "\<And>j. i < j \<Longrightarrow> j < length nodes \<Longrightarrow> visible (nodes ! j) \<Longrightarrow> \<not> key_eq (kp_key q) (kp_key (nodes ! j))"
  shows "bucket_ok K local b (nodes[i := q])"
proof -
  have "kademlia_peer_ok K p \<and> (visible p \<longrightarrow> ilog2 (key_distance local (kp_key p)) = Some b)"
    if "p \<in> set (nodes[i := q])" for p
    using that ok q b set_update_subset_insert [of nodes i q] by (auto simp: bucket_ok_def)
  moreover have "sorted_wrt (\<lambda>p q. visible q \<longrightarrow> \<not> key_eq (kp_key p) (kp_key q)) (nodes[i := q])"
    unfolding sorted_wrt_iff_nth_less
  proof (intro allI impI)
    fix j k
    assume jk: "j < k" "k < length (nodes[i := q])" "visible (nodes[i := q] ! k)"
    have old: "visible (nodes ! k) \<Longrightarrow> \<not> key_eq (kp_key (nodes ! j)) (kp_key (nodes ! k))"
      using ok jk by (simp add: bucket_ok_def sorted_wrt_iff_nth_less)
    show "\<not> key_eq (kp_key (nodes[i := q] ! j)) (kp_key (nodes[i := q] ! k))"
      using old jk i before [of j] after [of k] by (cases "k = i"; cases "j = i") auto
  qed
  ultimately show ?thesis using ok by (simp add: bucket_ok_def)
qed

lemma placeholder_invisible: "\<not> visible (kademlia_peer_new K rnd [] c)"
  by (simp add: visible_def kademlia_peer_new_def push_raw_addresses_def address_store_is_empty_def
      address_store_new_def)

lemma kbucket_entry_of_ok:
  assumes E: "address_env_ok (ke_address K)" and ok: "bucket_ok K local b nodes"
    and r: "kbucket_entry_of K rnd nodes key = (entry, nodes')"
  shows "bucket_ok K local b nodes'"
    "entry = Occupied i \<Longrightarrow> i < length nodes' \<and> key_eq (kp_key (nodes' ! i)) key \<and>
       (\<forall>j < i. \<not> key_eq (kp_key (nodes' ! j)) key)"
    "entry = Vacant i \<Longrightarrow> i < length nodes' \<and> (\<forall>j < length nodes'. j \<noteq> i \<longrightarrow> \<not> key_eq (kp_key (nodes' ! j)) key)"
    "entry \<noteq> LocalNode"
proof -
  consider (occ) i where "find_slot (\<lambda>n. key_eq (kp_key n) key) nodes = Some i" "entry = Occupied i" "nodes' = nodes"
    | (push) "find_slot (\<lambda>n. key_eq (kp_key n) key) nodes = None" "length nodes < 20"
        "entry = Vacant (length nodes)" "nodes' = nodes @ [kademlia_peer_new K rnd [] NotConnected]"
    | (reuse) i where "find_slot (\<lambda>n. key_eq (kp_key n) key) nodes = None"
        "find_slot (\<lambda>n. kp_connection n = NotConnected \<or> kp_connection n = CannotConnect) nodes = Some i"
        "entry = Vacant i" "nodes' = nodes"
    | (none) "entry = NoSlot" "nodes' = nodes"
    using r by (auto simp: kbucket_entry_of_def split: option.splits if_splits)
  then have "bucket_ok K local b nodes' \<and>
    (\<forall>i. entry = Occupied i \<longrightarrow> i < length nodes' \<and> key_eq (kp_key (nodes' ! i)) key \<and>
       (\<forall>j < i. \<not> key_eq (kp_key (nodes' ! j)) key)) \<and>
    (\<forall>i. entry = Vacant i \<longrightarrow> i < length nodes' \<and> (\<forall>j < length nodes'. j \<noteq> i \<longrightarrow> \<not> key_eq (kp_key (nodes' ! j)) key)) \<and>
    entry \<noteq> LocalNode"
  proof cases
    case occ
    then show ?thesis using ok find_slot_Some [OF occ(1)] by auto
  next
    case push
    have "bucket_ok K local b nodes'"
      using ok push placeholder_invisible kademlia_peer_new_ok [OF E]
      by (auto simp: bucket_ok_def sorted_wrt_append)
    then show ?thesis
      using push find_slot_None [OF push(1)] by (auto simp: nth_append)
  next
    case reuse
    then show ?thesis
      using ok find_slot_Some [OF reuse(2)] find_slot_None [OF reuse(1)] by auto
  qed (use ok in auto)
  then show "bucket_ok K local b nodes'"
    "entry = Occupied i \<Longrightarrow> i < length nodes' \<and> key_eq (kp_key (nodes' ! i)) key \<and>
       (\<forall>j < i. \<not> key_eq (kp_key (nodes' ! j)) key)"
    "entry = Vacant i \<Longrightarrow> i < length nodes' \<and> (\<forall>j < length nodes'. j \<noteq> i \<longrightarrow> \<not> key_eq (kp_key (nodes' ! j)) key)"
    "entry \<noteq> LocalNode" by blast+
qed

lemma update_bucket_ok:
  assumes "routing_table_ok K t" "bucket_ok K (rt_local_key t) b nodes"
  shows "routing_table_ok K (t\<lparr>rt_buckets := (rt_buckets t)[b := nodes]\<rparr>)"
  using assms by (auto simp: routing_table_ok_def) (metis nth_list_update_eq nth_list_update_neq)

lemma ilog2_less: "ilog2 d = Some i \<Longrightarrow> i < NUM_BUCKETS"
  by (simp add: ilog2_Some NUM_BUCKETS_def)

lemma routing_table_entry_ok:
  assumes E: "address_env_ok (ke_address K)" and ok: "routing_table_ok K t"
    and r: "routing_table_entry K rnd t key = (b, entry, t')"
  shows "routing_table_ok K t'" "rt_local_key t' = rt_local_key t"
    "entry \<noteq> LocalNode \<Longrightarrow> ilog2 (key_distance (rt_local_key t) key) = Some b \<and> b < NUM_BUCKETS"
    "entry = Occupied i \<Longrightarrow> i < length (rt_buckets t' ! b) \<and> key_eq (kp_key (rt_buckets t' ! b ! i)) key \<and>
       (\<forall>j < i. \<not> key_eq (kp_key (rt_buckets t' ! b ! j)) key)"
    "entry = Vacant i \<Longrightarrow> i < length (rt_buckets t' ! b) \<and>
       (\<forall>j < length (rt_buckets t' ! b). j \<noteq> i \<longrightarrow> \<not> key_eq (kp_key (rt_buckets t' ! b ! j)) key)"
proof -
  show "rt_local_key t' = rt_local_key t"
    using r by (auto simp: routing_table_entry_def split: option.splits prod.splits)
  have *: "routing_table_ok K t' \<and>
    (entry \<noteq> LocalNode \<longrightarrow> ilog2 (key_distance (rt_local_key t) key) = Some b \<and> b < NUM_BUCKETS) \<and>
    (\<forall>i. entry = Occupied i \<longrightarrow> i < length (rt_buckets t' ! b) \<and> key_eq (kp_key (rt_buckets t' ! b ! i)) key \<and>
       (\<forall>j < i. \<not> key_eq (kp_key (rt_buckets t' ! b ! j)) key)) \<and>
    (\<forall>i. entry = Vacant i \<longrightarrow> i < length (rt_buckets t' ! b) \<and>
       (\<forall>j < length (rt_buckets t' ! b). j \<noteq> i \<longrightarrow> \<not> key_eq (kp_key (rt_buckets t' ! b ! j)) key))"
  proof (cases "ilog2 (key_distance (rt_local_key t) key)")
    case None
    then show ?thesis using r ok by (auto simp: routing_table_entry_def bucket_index_new_def)
  next
    case (Some i)
    obtain nodes where e: "kbucket_entry_of K rnd (rt_buckets t ! i) key = (entry, nodes)"
      and t': "b = i" "t' = t\<lparr>rt_buckets := (rt_buckets t)[i := nodes]\<rparr>"
      using r Some by (auto simp: routing_table_entry_def bucket_index_new_def split: prod.splits)
    have i: "i < NUM_BUCKETS" "i < length (rt_buckets t)"
      using ilog2_less [OF Some] ok by (simp_all add: routing_table_ok_def)
    have bk: "bucket_ok K (rt_local_key t) i (rt_buckets t ! i)"
      using ok i by (simp add: routing_table_ok_def)
    note entry = kbucket_entry_of_ok [OF E bk e]
    show ?thesis
      using entry update_bucket_ok [OF ok entry(1)] Some i t' by auto
  qed
  then show "routing_table_ok K t'"
    "entry \<noteq> LocalNode \<Longrightarrow> ilog2 (key_distance (rt_local_key t) key) = Some b \<and> b < NUM_BUCKETS"
    "entry = Occupied i \<Longrightarrow> i < length (rt_buckets t' ! b) \<and> key_eq (kp_key (rt_buckets t' ! b ! i)) key \<and>
       (\<forall>j < i. \<not> key_eq (kp_key (rt_buckets t' ! b ! j)) key)"
    "entry = Vacant i \<Longrightarrow> i < length (rt_buckets t' ! b) \<and>
       (\<forall>j < length (rt_buckets t' ! b). j \<noteq> i \<longrightarrow> \<not> key_eq (kp_key (rt_buckets t' ! b ! j)) key)"
    by blast+
qed

lemma key_distance_eq: "key_eq k k' \<Longrightarrow> key_distance l k = key_distance l k'"
  by (simp add: key_eq_def key_distance_def)

text \<open>Updating an occupied entry without changing its peer.\<close>

lemma update_occupied_ok:
  assumes E: "address_env_ok (ke_address K)" and ok: "routing_table_ok K t"
    and r: "routing_table_entry K rnd t key = (b, Occupied i, t')"
    and f: "\<And>p. kademlia_peer_ok K p \<Longrightarrow> kademlia_peer_ok K (f p) \<and> kp_key (f p) = kp_key p"
  shows "routing_table_ok K (update_slot t' b i f)"
proof -
  note e = routing_table_entry_ok [OF E ok r]
  have b: "ilog2 (key_distance (rt_local_key t) key) = Some b" "b < NUM_BUCKETS" using e(3) by simp_all
  let ?nodes = "rt_buckets t' ! b"
  have bk: "bucket_ok K (rt_local_key t') b ?nodes"
    using e(1) b(2) by (simp add: routing_table_ok_def)
  have i: "i < length ?nodes" "key_eq (kp_key (?nodes ! i)) key" "\<And>j. j < i \<Longrightarrow> \<not> key_eq (kp_key (?nodes ! j)) key"
    using e(4) by auto
  have p: "kademlia_peer_ok K (?nodes ! i)" using bk i(1) by (simp add: bucket_ok_def)
  have "bucket_ok K (rt_local_key t') b (?nodes[i := f (?nodes ! i)])"
  proof (rule bucket_ok_put [OF bk i(1)])
    show "ilog2 (key_distance (rt_local_key t') (kp_key (f (?nodes ! i)))) = Some b"
      using b(1) f [OF p] e(2) key_distance_eq [OF i(2), of "rt_local_key t"] by simp
    show "\<not> key_eq (kp_key (?nodes ! j)) (kp_key (f (?nodes ! i)))" if "j < i" for j
      using i(2) i(3) [OF that] f [OF p] by (simp add: key_eq_def)
    show "\<not> key_eq (kp_key (f (?nodes ! i))) (kp_key (?nodes ! j))"
      if "i < j" "j < length ?nodes" "visible (?nodes ! j)" for j
      using bk that f [OF p] by (simp add: bucket_ok_def sorted_wrt_iff_nth_less)
  qed (use f [OF p] in simp)
  then show ?thesis
    unfolding update_slot_def by (rule update_bucket_ok [OF e(1)])
qed

lemma foldl_insert_ok:
  assumes "address_env_ok E" "i32_ok n"
  shows "address_store_ok s \<Longrightarrow>
    address_store_ok (foldl (\<lambda>s a. address_store_insert E s (from_raw_multiaddr_with_score a n)) s as)"
  by (induction as arbitrary: s) (simp_all add: address_store_insert_ok [OF assms(1)] assms(2))

lemma rt_on_dial_failure_ok:
  assumes E: "address_env_ok (ke_address K)" and ok: "routing_table_ok K t"
  shows "routing_table_ok K (rt_on_dial_failure K rnd t key as)"
proof -
  obtain b entry t' where r: "routing_table_entry K rnd t key = (b, entry, t')" by (cases "routing_table_entry K rnd t key")
  show ?thesis
  proof (cases entry)
    case (Occupied i)
    then show ?thesis
      using update_occupied_ok [OF E ok, of rnd key b i t'] r foldl_insert_ok [OF E i32_ok_scores(2)]
      by (simp add: rt_on_dial_failure_def kademlia_peer_ok_def)
  qed (use routing_table_entry_ok(1) [OF E ok r] r in \<open>simp_all add: rt_on_dial_failure_def\<close>)
qed

lemma rt_on_connection_established_ok:
  assumes E: "address_env_ok (ke_address K)" and ok: "routing_table_ok K t"
  shows "routing_table_ok K (rt_on_connection_established K rnd t key e)"
proof -
  obtain b entry t' where r: "routing_table_entry K rnd t key = (b, entry, t')" by (cases "routing_table_entry K rnd t key")
  show ?thesis
  proof (cases entry)
    case (Occupied i)
    then show ?thesis
      using update_occupied_ok [OF E ok, of rnd key b i t'] r address_store_insert_ok [OF E]
      by (simp add: rt_on_connection_established_def kademlia_peer_ok_def Let_def split: endpoint.splits)
  qed (use routing_table_entry_ok(1) [OF E ok r] r in \<open>simp_all add: rt_on_connection_established_def\<close>)
qed

lemma insert_vacant_ok:
  assumes E: "address_env_ok (ke_address K)" and ok: "routing_table_ok K t"
    and r: "routing_table_entry K rnd t (key_from_peer K p) = (b, Vacant i, t')"
    and q: "kademlia_peer_ok K q" "kp_peer q = p"
  shows "routing_table_ok K (t'\<lparr>rt_buckets := (rt_buckets t')[b :=
    kbucket_entry_insert K (rt_buckets t' ! b) (Vacant i) q]\<rparr>)"
proof -
  note e = routing_table_entry_ok [OF E ok r]
  let ?nodes = "rt_buckets t' ! b"
  have b: "ilog2 (key_distance (rt_local_key t) (key_from_peer K p)) = Some b" "b < NUM_BUCKETS" using e(3) by simp_all
  have bk: "bucket_ok K (rt_local_key t') b ?nodes"
    using e(1) b(2) by (simp add: routing_table_ok_def)
  have i: "i < length ?nodes" "\<And>j. j < length ?nodes \<Longrightarrow> j \<noteq> i \<Longrightarrow> \<not> key_eq (kp_key (?nodes ! j)) (key_from_peer K p)"
    using e(5) by auto
  have key: "kp_key q = key_from_peer K p" using q by (simp add: kademlia_peer_ok_def)
  have "p'\<lparr>kp_peer := kp_peer q, kp_key := key_from_peer K (kp_peer q),
      kp_address_store := kp_address_store q, kp_connection := kp_connection q\<rparr> = q" for p'
    using key q(2) by (intro kademlia_peer.equality) simp_all
  then have ins: "kbucket_entry_insert K ?nodes (Vacant i) q = ?nodes[i := q]"
    by (simp add: kbucket_entry_insert_def)
  have "bucket_ok K (rt_local_key t') b (?nodes[i := q])"
  proof (rule bucket_ok_put [OF bk i(1) q(1)])
    show "\<not> key_eq (kp_key q) (kp_key (?nodes ! j))" if "i < j" "j < length ?nodes" for j
      using i(2) [of j] that key by (simp add: key_eq_def)
  qed (use b e(2) i key in simp_all)
  then show ?thesis
    unfolding ins by (rule update_bucket_ok [OF e(1)])
qed

lemma add_known_peer_ok:
  assumes E: "address_env_ok (ke_address K)" and ok: "routing_table_ok K t"
  shows "routing_table_ok K (add_known_peer K rnd t p as c)"
proof -
  obtain b entry t' where r: "routing_table_entry K rnd t (key_from_peer K p) = (b, entry, t')"
    by (cases "routing_table_entry K rnd t (key_from_peer K p)")
  show ?thesis
  proof (cases entry)
    case (Occupied i)
    then show ?thesis
      using update_occupied_ok [OF E ok, of rnd "key_from_peer K p" b i t'] r ok push_addresses_ok [OF E]
      by (simp add: add_known_peer_def Let_def kademlia_peer_ok_def push_addresses_def)
  next
    case (Vacant i)
    have "kp_peer (kademlia_peer_new K p as' c) = p" for as' by (simp add: kademlia_peer_new_def)
    then show ?thesis
      using insert_vacant_ok [OF E ok, of rnd p b i t'] r ok Vacant kademlia_peer_new_ok [OF E]
      by (simp add: add_known_peer_def Let_def)
  qed (use routing_table_entry_ok(1) [OF E ok r] r ok in \<open>simp_all add: add_known_peer_def Let_def\<close>)
qed

lemma add_known_peer_local: "rt_local_key (add_known_peer K rnd t p as c) = rt_local_key t"
proof -
  obtain b entry t' where r: "routing_table_entry K rnd t (key_from_peer K p) = (b, entry, t')"
    by (cases "routing_table_entry K rnd t (key_from_peer K p)")
  then have "rt_local_key t' = rt_local_key t"
    by (auto simp: routing_table_entry_def split: option.splits prod.splits)
  with r show ?thesis
    by (simp add: add_known_peer_def Let_def update_slot_def split: kbucket_entry.splits)
qed

lemmas routing_table_preserves =
  rt_on_dial_failure_ok rt_on_connection_established_ok add_known_peer_ok

subsection \<open>The closest peers\<close>

definition visible_peers :: "routing_table \<Rightarrow> kademlia_peer set" where
  "visible_peers t = (\<Union>b < NUM_BUCKETS. {p \<in> set (rt_buckets t ! b). visible p})"

abbreviation peer_distance :: "'a kad_key \<Rightarrow> kademlia_peer \<Rightarrow> distance" where
  "peer_distance target p \<equiv> key_distance target (kp_key p)"

lemma sorted_wrt_concat:
  "sorted_wrt R (concat xss) \<longleftrightarrow>
     (\<forall>xs \<in> set xss. sorted_wrt R xs) \<and> sorted_wrt (\<lambda>xs ys. \<forall>x \<in> set xs. \<forall>y \<in> set ys. R x y) xss"
  by (induction xss) (auto simp: sorted_wrt_append)

definition closest_all :: "routing_table \<Rightarrow> 'a kad_key \<Rightarrow> kademlia_peer list" where
  "closest_all t target = concat (map (\<lambda>i. closest_iter (rt_buckets t ! i) target)
     (bucket_visits (key_distance (rt_local_key t) target)))"

lemma closest_eq: "closest t target limit = take limit (closest_all t target)"
  by (simp add: closest_def closest_all_def bucket_visits_def Let_def)

lemma set_closest_iter: "set (closest_iter nodes target) = {p \<in> set nodes. visible p}"
  by (auto simp: closest_iter_def visible_def)

lemma set_closest_all: "set (closest_all t target) = visible_peers t"
  by (auto simp: closest_all_def set_closest_iter set_bucket_visits visible_peers_def)

lemma sorted_closest_iter: "sorted_wrt (\<lambda>p q. peer_distance target p \<le> peer_distance target q) (closest_iter nodes target)"
  using sorted_sort_key [of "peer_distance target" nodes]
  by (simp add: closest_iter_def sorted_wrt_map sorted_wrt_filter)

lemma bucket_okD:
  assumes "routing_table_ok K t" "b < NUM_BUCKETS" "p \<in> set (closest_iter (rt_buckets t ! b) target)"
  shows "ilog2 (key_distance (rt_local_key t) (kp_key p)) = Some b"
  using assms by (simp add: routing_table_ok_def bucket_ok_def set_closest_iter)

lemma peer_distance_split:
  "peer_distance target p = key_distance (rt_local_key t) target XOR key_distance (rt_local_key t) (kp_key p)"
  by (metis key_distance_compose key_distance_sym)

lemma before_closer:
  assumes ok: "routing_table_ok K t" and xy: "x < NUM_BUCKETS" "y < NUM_BUCKETS"
    and bf: "before (key_distance (rt_local_key t) target) x y"
    and p: "p \<in> set (closest_iter (rt_buckets t ! x) target)"
    and q: "q \<in> set (closest_iter (rt_buckets t ! y) target)"
  shows "peer_distance target p \<le> peer_distance target q"
    "x \<noteq> y \<Longrightarrow> peer_distance target p < peer_distance target q"
proof -
  let ?D = "key_distance (rt_local_key t) target"
  note dp = bucket_okD [OF ok xy(1) p] and dq = bucket_okD [OF ok xy(2) q]
  note split = peer_distance_split [of target _ t]
  show lt: "peer_distance target p < peer_distance target q" if "x \<noteq> y"
  proof (cases "x < y")
    case True
    then show ?thesis
      unfolding split using bf bucket_order_closer(2) [OF dq ilog2_drop_bit_less [OF dp True]]
      by (simp add: before_def)
  next
    case False
    then have "y < x" using that by simp
    then show ?thesis
      unfolding split using bf bucket_order_closer(1) [OF dp ilog2_drop_bit_less [OF dq \<open>y < x\<close>]]
      by (simp add: before_def)
  qed
  show "peer_distance target p \<le> peer_distance target q"
  proof (cases "x = y")
    case True
    then have "x = 0" "y = 0" using bf by (simp_all add: before_def)
    then show ?thesis
      unfolding split using ilog2_drop_bit [OF dp] ilog2_drop_bit [OF dq] by simp
  qed (use lt in simp)
qed

lemma sorted_closest_all:
  assumes "routing_table_ok K t"
  shows "sorted_wrt (\<lambda>p q. peer_distance target p \<le> peer_distance target q) (closest_all t target)"
  unfolding closest_all_def sorted_wrt_concat
proof
  show "\<forall>xs \<in> set (map (\<lambda>i. closest_iter (rt_buckets t ! i) target) (bucket_visits (key_distance (rt_local_key t) target))).
      sorted_wrt (\<lambda>p q. peer_distance target p \<le> peer_distance target q) xs"
    by (auto simp: sorted_closest_iter)
  show "sorted_wrt (\<lambda>xs ys. \<forall>x \<in> set xs. \<forall>y \<in> set ys. peer_distance target x \<le> peer_distance target y)
      (map (\<lambda>i. closest_iter (rt_buckets t ! i) target) (bucket_visits (key_distance (rt_local_key t) target)))"
    unfolding sorted_wrt_map
    by (rule sorted_wrt_mono_rel [OF _ bucket_visits_sorted])
      (auto simp: set_bucket_visits intro: before_closer(1) [OF assms])
qed

text \<open>No peer is returned twice, unless bucket \<open>0\<close> is visited twice and holds a visible peer.\<close>

definition no_repetition :: "routing_table \<Rightarrow> 'a kad_key \<Rightarrow> bool" where
  "no_repetition t target \<longleftrightarrow>
     (let d = key_distance (rt_local_key t) target in d \<noteq> 0 \<and> \<not> bit d 0) \<or>
     filter visible (rt_buckets t ! 0) = []"

lemma visible_distinct:
  "sorted_wrt (\<lambda>p q. visible q \<longrightarrow> \<not> key_eq (kp_key p) (kp_key q)) xs \<Longrightarrow>
     distinct (map (\<lambda>p. key_bytes (kp_key p)) (filter visible xs))"
  by (induction xs) (auto simp: key_eq_def)

lemma closest_iter_distinct:
  assumes "bucket_ok K local b nodes"
  shows "distinct (map (\<lambda>p. key_bytes (kp_key p)) (closest_iter nodes target))"
proof -
  let ?f = "\<lambda>p. key_bytes (kp_key p)"
  have "distinct (map ?f (filter visible nodes))"
    using assms visible_distinct unfolding bucket_ok_def by blast
  moreover have "mset (closest_iter nodes target) = mset (filter visible nodes)"
    by (simp add: closest_iter_def visible_def [abs_def])
  ultimately show ?thesis
    by (metis mset_map mset_eq_imp_distinct_iff)
qed

lemma distinct_map_concat:
  "\<forall>xs \<in> set xss. distinct (map f xs) \<Longrightarrow>
     sorted_wrt (\<lambda>xs ys. \<forall>x \<in> set xs. \<forall>y \<in> set ys. f x \<noteq> f y) xss \<Longrightarrow> distinct (map f (concat xss))"
  by (induction xss) fastforce+

lemma sorted_wrt_distinct: "sorted_wrt P xs \<Longrightarrow> distinct xs \<Longrightarrow> sorted_wrt (\<lambda>x y. P x y \<and> x \<noteq> y) xs"
  by (induction xs) auto

lemma closest_all_distinct:
  assumes ok: "routing_table_ok K t" and n: "no_repetition t target"
  shows "distinct (map (\<lambda>p. key_bytes (kp_key p)) (closest_all t target))"
  unfolding closest_all_def
proof (rule distinct_map_concat)
  let ?D = "key_distance (rt_local_key t) target"
  show "\<forall>xs \<in> set (map (\<lambda>i. closest_iter (rt_buckets t ! i) target) (bucket_visits ?D)).
      distinct (map (\<lambda>p. key_bytes (kp_key p)) xs)"
    using ok closest_iter_distinct by (fastforce simp: set_bucket_visits routing_table_ok_def)
  have srt: "sorted_wrt (\<lambda>x y. before ?D x y \<and>
      (x = y \<longrightarrow> closest_iter (rt_buckets t ! x) target = [])) (bucket_visits ?D)"
  proof (cases "?D \<noteq> 0 \<and> \<not> bit ?D 0")
    case True
    then show ?thesis
      using sorted_wrt_distinct [OF bucket_visits_sorted distinct_bucket_visits, of ?D]
      by (auto intro: sorted_wrt_mono_rel [rotated])
  next
    case False
    then have "filter visible (rt_buckets t ! 0) = []" using n by (auto simp: no_repetition_def Let_def)
    then have "set (closest_iter (rt_buckets t ! 0) target) = {}"
      by (auto simp: set_closest_iter filter_empty_conv)
    then show ?thesis
      by (intro sorted_wrt_mono_rel [OF _ bucket_visits_sorted]) (auto simp: before_def)
  qed
  show "sorted_wrt (\<lambda>xs ys. \<forall>x \<in> set xs. \<forall>y \<in> set ys. key_bytes (kp_key x) \<noteq> key_bytes (kp_key y))
      (map (\<lambda>i. closest_iter (rt_buckets t ! i) target) (bucket_visits ?D))"
    unfolding sorted_wrt_map
  proof (rule sorted_wrt_mono_rel [OF _ srt], intro ballI)
    fix x y p q
    assume xy: "x \<in> set (bucket_visits ?D)" "y \<in> set (bucket_visits ?D)"
      "before ?D x y \<and> (x = y \<longrightarrow> closest_iter (rt_buckets t ! x) target = [])"
      and p: "p \<in> set (closest_iter (rt_buckets t ! x) target)"
      and q: "q \<in> set (closest_iter (rt_buckets t ! y) target)"
    then have "peer_distance target p < peer_distance target q"
      using before_closer(2) [OF ok _ _ _ p q] by (auto simp: set_bucket_visits)
    then show "key_bytes (kp_key p) \<noteq> key_bytes (kp_key q)" by (auto simp: key_distance_def)
  qed
qed

subsection \<open>The contract of the table\<close>

text \<open>
  What a lookup relies on: the peers it gets are members in order of distance, and a member is left
  out only when the limit is reached by peers that are not farther.
\<close>

locale nearest_peers =
  fixes nearest :: "'t \<Rightarrow> 'k \<Rightarrow> nat \<Rightarrow> 'p list"
    and members :: "'t \<Rightarrow> 'p set"
    and dist :: "'k \<Rightarrow> 'p \<Rightarrow> 'd::linorder"
    and ok :: "'t \<Rightarrow> bool"
  assumes nearest_sorted: "ok t \<Longrightarrow> sorted (map (dist k) (nearest t k n))"
    and nearest_members: "ok t \<Longrightarrow> set (nearest t k n) \<subseteq> members t"
    and nearest_best: "ok t \<Longrightarrow> p \<in> set (nearest t k n) \<Longrightarrow> q \<in> members t \<Longrightarrow>
      q \<notin> set (nearest t k n) \<Longrightarrow> dist k p \<le> dist k q"
    and nearest_full: "ok t \<Longrightarrow> q \<in> members t \<Longrightarrow> q \<notin> set (nearest t k n) \<Longrightarrow> length (nearest t k n) = n"
begin

lemma head_nearest: "ok t \<Longrightarrow> nearest t k n = p # ps \<Longrightarrow> q \<in> members t \<Longrightarrow> dist k p \<le> dist k q"
  using nearest_sorted [of t k n] nearest_best [of t p k n q] by (cases "q \<in> set (nearest t k n)") auto

lemma short_complete: "ok t \<Longrightarrow> length (nearest t k n) < n \<Longrightarrow> set (nearest t k n) = members t"
  using nearest_members nearest_full by fastforce

lemma nearest_nonempty: "ok t \<Longrightarrow> q \<in> members t \<Longrightarrow> 0 < n \<Longrightarrow> nearest t k n \<noteq> []"
  using nearest_full [of t q k n] by fastforce

end

lemma closest_best:
  assumes ok: "routing_table_ok K t" and p: "p \<in> set (closest t target n)"
    and q: "q \<in> visible_peers t" "q \<notin> set (closest t target n)"
  shows "peer_distance target p \<le> peer_distance target q"
proof -
  have "sorted (map (peer_distance target) (closest_all t target))"
    using sorted_closest_all [OF ok] by (simp add: sorted_wrt_map)
  moreover have "q \<in> set (drop n (closest_all t target))"
    using q unfolding closest_eq set_closest_all [symmetric, of t target]
    by (metis Un_iff append_take_drop_id set_append)
  ultimately show ?thesis
    using p take_sorted_le [of "peer_distance target" "closest_all t target" p n q] by (simp add: closest_eq)
qed

interpretation rt: nearest_peers closest visible_peers peer_distance "routing_table_ok K" for K
proof
  fix t and target :: "'a kad_key" and n
  assume ok: "routing_table_ok K t"
  show "sorted (map (peer_distance target) (closest t target n))"
    using sorted_closest_all [OF ok, of target] by (simp add: closest_eq sorted_wrt_map sorted_wrt_take)
  show "set (closest t target n) \<subseteq> visible_peers t"
    by (metis closest_eq set_closest_all set_take_subset)
  show "length (closest t target n) = n" if "q \<in> visible_peers t" "q \<notin> set (closest t target n)" for q
    using that unfolding closest_eq set_closest_all [symmetric, of t target]
    by (metis length_take min.absorb2 nat_le_linear take_all)
qed (rule closest_best)

text \<open>The states a routing table goes through.\<close>

inductive routing_table_reachable :: "kad_env \<Rightarrow> routing_table \<Rightarrow> bool" for K where
  new: "routing_table_reachable K (routing_table_new (key_from_peer K local))"
| add: "routing_table_reachable K t \<Longrightarrow> routing_table_reachable K (add_known_peer K rnd t p as c)"
| dial_failure: "routing_table_reachable K t \<Longrightarrow> routing_table_reachable K (rt_on_dial_failure K rnd t key as)"
| established: "routing_table_reachable K t \<Longrightarrow>
    routing_table_reachable K (rt_on_connection_established K rnd t key e)"

lemma routing_table_reachable_ok:
  "routing_table_reachable K t \<Longrightarrow> address_env_ok (ke_address K) \<Longrightarrow> routing_table_ok K t"
  by (induction rule: routing_table_reachable.induct)
    (simp_all add: routing_table_new_ok routing_table_preserves)

subsection \<open>Distance ranges\<close>

lemma unat_two_power: "b < 256 \<Longrightarrow> unat ((2::u256) ^ b) = 2 ^ b"
  using unsigned_of_nat [where 'a = nat and 'b = 256, of "2 ^ b"] by (simp add: take_bit_nat_eq_self)

lemma ilog2_range:
  assumes "ilog2 d = Some b"
  shows "fst (bucket_index_range b) \<le> d \<and> d \<le> snd (bucket_index_range b)"
proof -
  have b: "b < 256" using assms by (simp add: ilog2_Some)
  have "drop_bit b (unat d) = 1"
    using ilog2_drop_bit [OF assms] by (metis unat_drop_bit_eq unsigned_1)
  then have "unat d = 2 ^ b + unat d mod 2 ^ b"
    using div_mult_mod_eq [of "unat d" "2 ^ b"] by (simp add: drop_bit_eq_div)
  moreover have "unat d mod 2 ^ b < 2 ^ b" by simp
  moreover have "2 ^ (b + 1) = 2 ^ b + (2::nat) ^ b" by simp
  ultimately have n: "2 ^ b \<le> unat d" "unat d < 2 ^ (b + 1)" by linarith+
  have lo: "2 ^ b \<le> d" using n(1) b by (simp add: word_le_nat_alt unat_two_power)
  have hi: "d \<le> 2 ^ (b + 1) - 1" if "b \<noteq> 255"
  proof -
    have b1: "b + 1 < 256" using b that by simp
    have u: "unat ((2::u256) ^ (b + 1)) = 2 ^ (b + 1)" by (rule unat_two_power [OF b1])
    then have "(2::u256) ^ (b + 1) \<noteq> 0" by (metis power_not_zero unsigned_0 zero_neq_numeral)
    then have "unat ((2::u256) ^ (b + 1) - 1) = 2 ^ (b + 1) - 1"
      using u unat_minus_one [of "(2::u256) ^ (b + 1)"] by metis
    then show ?thesis using n(2) unfolding word_le_nat_alt by linarith
  qed
  have "d \<le> - 1" by (rule word_order.extremum)
  with lo hi show ?thesis unfolding bucket_index_range_def Let_def by (simp only: fst_conv snd_conv split: if_split) blast
qed

text \<open>A visible peer of a well-formed table lies in one bucket only and has a key of its own.\<close>

lemma visible_key_unique:
  assumes ok: "routing_table_ok K t" and b: "b < NUM_BUCKETS" "b' < NUM_BUCKETS"
    and i: "i < length (rt_buckets t ! b)" "visible (rt_buckets t ! b ! i)"
    and j: "j < length (rt_buckets t ! b')" "visible (rt_buckets t ! b' ! j)"
    and eq: "key_eq (kp_key (rt_buckets t ! b ! i)) (kp_key (rt_buckets t ! b' ! j))"
  shows "b = b' \<and> i = j"
proof -
  have bk: "bucket_ok K (rt_local_key t) b (rt_buckets t ! b)" "bucket_ok K (rt_local_key t) b' (rt_buckets t ! b')"
    using ok b by (simp_all add: routing_table_ok_def)
  have "ilog2 (key_distance (rt_local_key t) (kp_key (rt_buckets t ! b ! i))) = Some b"
    "ilog2 (key_distance (rt_local_key t) (kp_key (rt_buckets t ! b' ! j))) = Some b'"
    using bk i j by (simp_all add: bucket_ok_def)
  then have "b = b'" using key_distance_eq [OF eq, of "rt_local_key t"] by simp
  moreover have "i = j"
    using bk(1) i j eq \<open>b = b'\<close> unfolding bucket_ok_def sorted_wrt_iff_nth_less
    by (metis key_eq_def linorder_neqE_nat)
  ultimately show ?thesis by simp
qed

subsection \<open>Properties\<close>

text \<open>
  C12: In every routing table built by its operations, \<open>closest(target, limit)\<close> returns at most \<open>limit\<close>
  stored peers with known addresses in order of increasing XOR distance to the target; a stored peer
  it leaves out is not closer than any it returns, and is left out only because the limit was
  reached; and if bucket 0 holds no peer, or is visited once, no peer is returned twice.
\<close>

theorem closest_correct:
  assumes "address_env_ok (ke_address K)" and "routing_table_reachable K t"
  shows "let out = closest t target limit in
    length out \<le> limit \<and> set out \<subseteq> visible_peers t \<and> sorted (map (peer_distance target) out) \<and>
    (\<forall>q \<in> visible_peers t - set out. length out = limit \<and>
       (\<forall>p \<in> set out. peer_distance target p \<le> peer_distance target q)) \<and>
    (no_repetition t target \<longrightarrow> distinct (map (\<lambda>p. key_bytes (kp_key p)) out))"
proof -
  have ok: "routing_table_ok K t" using routing_table_reachable_ok assms by blast
  have "distinct (map (\<lambda>p. key_bytes (kp_key p)) (closest t target limit))" if "no_repetition t target"
    using closest_all_distinct [OF ok that] unfolding closest_eq by (metis distinct_take take_map)
  moreover have "length (closest t target limit) \<le> limit" by (simp add: closest_eq)
  ultimately show ?thesis
    using rt.nearest_sorted [OF ok, of target limit] rt.nearest_members [OF ok, of target limit]
      rt.nearest_best [OF ok, of _ target limit] rt.nearest_full [OF ok, of _ target limit]
    by (auto simp: Let_def)
qed

text \<open>A table with one peer, next to the local key.\<close>

definition example_table :: routing_table where
  "example_table = add_known_peer example_kad_env (example_kad_id 9)
     (routing_table_new (key_from_peer example_kad_env (example_kad_id 2))) (example_kad_id 3) [[Tcp 1]] NotConnected"

definition example_target :: "u8 list kad_key" where
  "example_target = \<lparr>key_preimage = [], key_bytes = 5\<rparr>"

lemma example_table_reachable: "routing_table_reachable example_kad_env example_table"
  unfolding example_table_def by (intro routing_table_reachable.intros)

lemma example_table_bucket: "map kp_peer (filter visible (rt_buckets example_table ! 0)) = [example_kad_id 3]"
proof -
  have i: "ilog2 (1::u256) = Some 0" by code_simp
  have k: "key_bytes (key_from_peer example_kad_env (example_kad_id b)) = ucast b" for b
    by (simp add: key_from_peer_def peer_id_to_bytes_def example_kad_env_def example_kad_id_def)
  have d: "key_distance (key_from_peer example_kad_env (example_kad_id 2))
      (key_from_peer example_kad_env (example_kad_id 3)) = 1"
    unfolding key_distance_def k by simp
  show ?thesis
    by (simp add: example_table_def add_known_peer_def routing_table_new_def NUM_BUCKETS_def ends_with_p2p_def
        routing_table_entry_def bucket_index_new_def d i kbucket_entry_of_def kbucket_entry_insert_def
        kademlia_peer_new_def push_raw_addresses_def address_store_insert_def address_store_new_def
        MAX_ADDRESSES_def visible_def address_store_is_empty_def last_opt_def)
qed

theorem closest_correct_witness:
  "length (closest example_table example_target 1) \<le> 1
   \<and> sorted (map (peer_distance example_target) (closest example_table example_target 1))
   \<and> set (closest example_table example_target 1) \<subseteq> visible_peers example_table"
  using closest_correct [OF _ example_table_reachable, of example_target 1]
  by (simp add: Let_def example_kad_env_def)

text \<open>
  C13: Every routing table built by its operations has 256 buckets of at most 20 entries, every stored
  peer with known addresses lies in the bucket whose distance range contains its distance from the
  local key and is filed under the key of its own identifier, and no two such entries of the table
  have the same key.
\<close>

theorem routing_table_invariant:
  assumes "address_env_ok (ke_address K)" and "routing_table_reachable K t"
  shows "length (rt_buckets t) = NUM_BUCKETS \<and>
    (\<forall>b < NUM_BUCKETS. length (rt_buckets t ! b) \<le> 20 \<and>
       (\<forall>p \<in> set (rt_buckets t ! b). kp_key p = key_from_peer K (kp_peer p) \<and>
          (visible p \<longrightarrow> (let d = key_distance (rt_local_key t) (kp_key p)
             in fst (bucket_index_range b) \<le> d \<and> d \<le> snd (bucket_index_range b))))) \<and>
    (\<forall>b b' i j. b < NUM_BUCKETS \<longrightarrow> b' < NUM_BUCKETS \<longrightarrow>
       i < length (rt_buckets t ! b) \<longrightarrow> j < length (rt_buckets t ! b') \<longrightarrow>
       visible (rt_buckets t ! b ! i) \<longrightarrow> visible (rt_buckets t ! b' ! j) \<longrightarrow>
       key_eq (kp_key (rt_buckets t ! b ! i)) (kp_key (rt_buckets t ! b' ! j)) \<longrightarrow> b = b' \<and> i = j)"
proof -
  have ok: "routing_table_ok K t" using routing_table_reachable_ok assms by blast
  have bk: "bucket_ok K (rt_local_key t) b (rt_buckets t ! b)" if "b < NUM_BUCKETS" for b
    using ok that by (simp add: routing_table_ok_def)
  have "length (rt_buckets t ! b) \<le> 20 \<and>
       (\<forall>p \<in> set (rt_buckets t ! b). kp_key p = key_from_peer K (kp_peer p) \<and>
          (visible p \<longrightarrow> (let d = key_distance (rt_local_key t) (kp_key p)
             in fst (bucket_index_range b) \<le> d \<and> d \<le> snd (bucket_index_range b))))" if "b < NUM_BUCKETS" for b
    using bk [OF that] ilog2_range unfolding bucket_ok_def kademlia_peer_ok_def Let_def by blast
  moreover have "length (rt_buckets t) = NUM_BUCKETS" using ok by (simp add: routing_table_ok_def)
  ultimately show ?thesis using visible_key_unique [OF ok] by blast
qed

theorem routing_table_invariant_witness:
  "length (rt_buckets example_table) = NUM_BUCKETS \<and> length (rt_buckets example_table ! 0) \<le> 20"
  using routing_table_invariant [OF _ example_table_reachable]
  by (simp add: example_kad_env_def NUM_BUCKETS_def)

text \<open>
  If the target is the local key itself or differs from it in the last bit, the buckets are visited
  with bucket 0 twice, and a peer in that bucket is returned twice when the limit allows.
\<close>

lemma closest_repeats_bucket_zero:
  assumes "key_distance (rt_local_key t) target = 0 \<or> bit (key_distance (rt_local_key t) target) 0"
    and "p \<in> set (rt_buckets t ! 0)" and "visible p"
  shows "\<exists>limit. 2 \<le> count (mset (closest t target limit)) p"
proof -
  let ?D = "key_distance (rt_local_key t) target"
  let ?f = "\<lambda>i. closest_iter (rt_buckets t ! i) target"
  obtain xs ys where v: "bucket_visits ?D = xs @ 0 # 0 # ys"
    using bucket_visits_zero_twice [OF assms(1)] by blast
  have all: "closest_all t target = concat (map ?f xs) @ ?f 0 @ ?f 0 @ concat (map ?f ys)"
    by (simp add: closest_all_def v)
  have "p \<in># mset (?f 0)" using assms(2,3) by (simp add: set_closest_iter)
  then have "1 \<le> count (mset (?f 0)) p" by (metis Suc_leI count_greater_zero_iff One_nat_def)
  then have "2 \<le> count (mset (closest_all t target)) p"
    unfolding all by (simp only: mset_append count_union)
  then show ?thesis
    using closest_eq [of t target "length (closest_all t target)"] by (metis order_refl take_all)
qed

end
