(* ===== verification/Kad_Store.thy ===== *)
theory Kad_Store
  imports Kad_Types
begin

section \<open>The record store of Kademlia\<close>

text \<open>
  \<open>src/protocol/libp2p/kademlia/record.rs\<close>, \<open>store.rs\<close> and the \<open>Quorum\<close> of \<open>handle.rs\<close>. Instants and
  durations are natural numbers, counted in nanoseconds; \<open>Instant::now()\<close> is the argument \<open>now\<close>. A pending refresh future is
  the instant it becomes ready and the key it yields; which ready future a poll of the stream returns
  is the argument \<open>i\<close>, its position.
\<close>

type_synonym instant = nat
type_synonym duration = nat
type_synonym record_key = "u8 list"

definition secs :: "nat \<Rightarrow> duration" where
  "secs n = n * 1000000000"

definition as_secs :: "duration \<Rightarrow> nat" where
  "as_secs d = d div 1000000000"

datatype quorum = QuorumAll | QuorumOne | QuorumN usize

subsection \<open>Records\<close>

record kad_record =
  rec_key :: record_key
  rec_value :: "u8 list"
  rec_publisher :: "peer_id option"
  rec_expires :: "instant option"

definition record_new :: "record_key \<Rightarrow> u8 list \<Rightarrow> kad_record" where
  "record_new key value = \<lparr>rec_key = key, rec_value = value, rec_publisher = None, rec_expires = None\<rparr>"

definition record_is_expired :: "kad_record \<Rightarrow> instant \<Rightarrow> bool" where
  "record_is_expired r now = (case rec_expires r of Some t \<Rightarrow> t \<le> now | None \<Rightarrow> False)"

record peer_record =
  prec_peer :: peer_id
  prec_record :: kad_record

record provider_record =
  pr_key :: record_key
  pr_provider :: peer_id
  pr_addresses :: "multiaddr list"
  pr_expires :: instant

definition provider_distance :: "kad_env \<Rightarrow> provider_record \<Rightarrow> distance" where
  "provider_distance K r = key_distance (key_from_peer K (pr_provider r)) (key_new K (pr_key r))"

definition provider_is_expired :: "provider_record \<Rightarrow> instant \<Rightarrow> bool" where
  "provider_is_expired r now \<longleftrightarrow> pr_expires r \<le> now"

record content_provider =
  cp_peer :: peer_id
  cp_addresses :: "multiaddr list"

definition kademlia_peer_from_provider :: "kad_env \<Rightarrow> content_provider \<Rightarrow> kademlia_peer" where
  "kademlia_peer_from_provider K p =
     \<lparr>kp_key = key_from_peer K (cp_peer p), kp_peer = cp_peer p,
      kp_address_store = push_raw_addresses K address_store_new (cp_addresses p),
      kp_connection = NotConnected\<rparr>"

subsection \<open>The memory store\<close>

record memory_store_config =
  max_records :: usize
  max_record_size_bytes :: usize
  max_provider_keys :: usize
  max_provider_addresses :: usize
  max_providers_per_key :: usize
  provider_refresh_interval :: duration
  provider_ttl :: duration

definition memory_store_config_default :: memory_store_config where
  "memory_store_config_default =
     \<lparr>max_records = 1024, max_record_size_bytes = 65 * 1024, max_provider_keys = 1024,
      max_provider_addresses = 30, max_providers_per_key = 20,
      provider_refresh_interval = secs (22 * 60 * 60), provider_ttl = secs (48 * 60 * 60)\<rparr>"

datatype memory_store_action = RefreshProvider record_key content_provider quorum

record memory_store =
  ms_local_peer_id :: peer_id
  ms_config :: memory_store_config
  ms_records :: "(record_key, kad_record) hash_map"
  ms_provider_keys :: "(record_key, provider_record list) hash_map"
  ms_local_providers :: "(record_key, content_provider \<times> quorum) hash_map"
  ms_pending_refresh :: "(instant \<times> record_key) list"

definition store_with_config :: "peer_id \<Rightarrow> memory_store_config \<Rightarrow> memory_store" where
  "store_with_config local_peer_id config =
     \<lparr>ms_local_peer_id = local_peer_id, ms_config = config, ms_records = [], ms_provider_keys = [],
      ms_local_providers = [], ms_pending_refresh = []\<rparr>"

definition store_get :: "memory_store \<Rightarrow> instant \<Rightarrow> record_key \<Rightarrow> kad_record option \<times> memory_store" where
  "store_get s now key =
     (let is_expired = (case hm_get (ms_records s) key of Some r \<Rightarrow> record_is_expired r now | None \<Rightarrow> False)
      in if is_expired then (None, s\<lparr>ms_records := hm_remove key (ms_records s)\<rparr>)
         else (hm_get (ms_records s) key, s))"

definition store_put :: "memory_store \<Rightarrow> kad_record \<Rightarrow> memory_store" where
  "store_put s record =
     (if max_record_size_bytes (ms_config s) \<le> length (rec_value record) then s
      else
        let len = length (ms_records s);
            inserted = s\<lparr>ms_records := hm_insert (rec_key record) record (ms_records s)\<rparr>
        in case hm_get (ms_records s) (rec_key record) of
             Some stored \<Rightarrow>
               (case (rec_expires stored, rec_expires record) of
                  (Some stored_ttl, Some new_ttl) \<Rightarrow> if new_ttl < stored_ttl then s else inserted
                | _ \<Rightarrow> inserted)
           | None \<Rightarrow> if max_records (ms_config s) \<le> len then s else inserted)"

definition drop_expired_providers :: "memory_store \<Rightarrow> instant \<Rightarrow> record_key \<Rightarrow> memory_store" where
  "drop_expired_providers s now key =
     (case hm_get (ms_provider_keys s) key of
        None \<Rightarrow> s
      | Some providers \<Rightarrow>
          let kept = filter (\<lambda>p. \<not> provider_is_expired p now) providers
          in s\<lparr>ms_provider_keys :=
                 (if kept = [] then hm_remove key (ms_provider_keys s)
                  else hm_insert key kept (ms_provider_keys s))\<rparr>)"

definition store_get_providers ::
  "kad_env \<Rightarrow> memory_store \<Rightarrow> instant \<Rightarrow> record_key \<Rightarrow> content_provider list \<times> memory_store" where
  "store_get_providers K s now key =
     (let s' = drop_expired_providers s now key;
          providers = map (\<lambda>p. \<lparr>cp_peer = pr_provider p, cp_addresses = pr_addresses p\<rparr>)
            (case hm_get (ms_provider_keys s') key of Some ps \<Rightarrow> ps | None \<Rightarrow> [])
      in case hm_get (ms_local_providers s') key of
           None \<Rightarrow> (providers, s')
         | Some (local_provider, _) \<Rightarrow>
             let target = key_new K key;
                 local_distance = key_distance (key_from_peer K (ms_local_peer_id s')) target;
                 position = (case binary_search (\<lambda>p. key_distance (key_from_peer K (cp_peer p)) target)
                                  local_distance providers of Inr i \<Rightarrow> i | Inl i \<Rightarrow> i)
             in (insert_at position local_provider providers, s'))"

text \<open>The list of providers of a key after a new one was offered, and whether it was stored.\<close>

definition insert_provider ::
  "kad_env \<Rightarrow> usize \<Rightarrow> provider_record \<Rightarrow> provider_record list \<Rightarrow> bool \<times> provider_record list" where
  "insert_provider K max_per_key r providers =
     (case binary_search (provider_distance K) (provider_distance K r) providers of
        Inr i \<Rightarrow> (True, providers[i := r])
      | Inl i \<Rightarrow>
          if i = max_per_key then (False, providers)
          else (True, insert_at i r (if length providers = max_per_key then butlast providers else providers)))"

definition store_put_provider ::
  "kad_env \<Rightarrow> memory_store \<Rightarrow> instant \<Rightarrow> record_key \<Rightarrow> content_provider \<Rightarrow> bool \<times> memory_store" where
  "store_put_provider K s now key provider =
     (if cp_peer provider = ms_local_peer_id s then (False, s)
      else
        let config = ms_config s;
            r = \<lparr>pr_key = key, pr_provider = cp_peer provider,
                 pr_addresses = take (max_provider_addresses config) (cp_addresses provider),
                 pr_expires = now + provider_ttl config\<rparr>;
            can_insert_new_key = length (ms_provider_keys s) < max_provider_keys config
        in case hm_get (ms_provider_keys s) key of
             None \<Rightarrow>
               if can_insert_new_key
               then (True, s\<lparr>ms_provider_keys := hm_insert key [r] (ms_provider_keys s)\<rparr>)
               else (False, s)
           | Some providers \<Rightarrow>
               let (inserted, providers') = insert_provider K (max_providers_per_key config) r providers
               in (inserted, s\<lparr>ms_provider_keys := hm_insert key providers' (ms_provider_keys s)\<rparr>))"

definition store_put_local_provider ::
  "memory_store \<Rightarrow> instant \<Rightarrow> record_key \<Rightarrow> quorum \<Rightarrow> bool \<times> memory_store" where
  "store_put_local_provider s now key quorum =
     (let can_insert_new_key = length (ms_local_providers s) < max_provider_keys (ms_config s);
          provider = \<lparr>cp_peer = ms_local_peer_id s, cp_addresses = []\<rparr>;
          s' = s\<lparr>ms_local_providers := hm_insert key (provider, quorum) (ms_local_providers s),
                 ms_pending_refresh :=
                   ms_pending_refresh s @ [(now + provider_refresh_interval (ms_config s), key)]\<rparr>
      in case hm_get (ms_local_providers s) key of
           Some _ \<Rightarrow> (True, s')
         | None \<Rightarrow> if can_insert_new_key then (True, s') else (False, s))"

definition store_remove_local_provider :: "memory_store \<Rightarrow> record_key \<Rightarrow> memory_store" where
  "store_remove_local_provider s key = s\<lparr>ms_local_providers := hm_remove key (ms_local_providers s)\<rparr>"

text \<open>
  A poll of \<open>next_action\<close>: \<open>None\<close> is pending, because no future is ready; otherwise the ready future at
  position \<open>i\<close> is consumed and its key gives an action if the key is still provided.
\<close>

definition store_next_action ::
  "memory_store \<Rightarrow> instant \<Rightarrow> nat \<Rightarrow> memory_store_action option option \<times> memory_store" where
  "store_next_action s now i =
     (if i < length (ms_pending_refresh s) \<and> fst (ms_pending_refresh s ! i) \<le> now then
        let key = snd (ms_pending_refresh s ! i);
            s' = s\<lparr>ms_pending_refresh := take i (ms_pending_refresh s) @ drop (Suc i) (ms_pending_refresh s)\<rparr>
        in (Some (case hm_get (ms_local_providers s) key of
                    Some (provider, quorum) \<Rightarrow> Some (RefreshProvider key provider quorum)
                  | None \<Rightarrow> None), s')
      else (None, s))"

subsection \<open>Lists in order of distance\<close>

lemma strict_sorted_key_unique:
  fixes f :: "'a \<Rightarrow> 'k::linorder"
  assumes "sorted_wrt (<) (map f xs)" and "sorted_wrt (<) (map f ys)" and "set xs = set ys"
  shows "xs = ys"
proof -
  have "map (\<lambda>x. (f x, x)) xs = map (\<lambda>x. (f x, x)) ys"
    using assms by (intro bt_ok_unique) (simp_all add: bt_ok_def comp_def)
  from arg_cong [OF this, of "map snd"] show ?thesis by (simp add: comp_def)
qed

lemma strict_sorted_insort_key:
  fixes f :: "'a \<Rightarrow> 'k::linorder"
  assumes "sorted_wrt (<) (map f xs)" and "f x \<notin> f ` set xs"
  shows "sorted_wrt (<) (map f (insort_key f x xs))"
proof -
  have "mset (map f (insort_key f x xs)) = mset (map f (x # xs))" by simp
  then have "distinct (map f (insort_key f x xs)) = distinct (map f (x # xs))"
    by (rule mset_eq_imp_distinct_iff)
  then show ?thesis
    using assms by (simp add: strict_sorted_iff sorted_insort_key)
qed

lemma strict_sorted_filter_key:
  fixes f :: "'a \<Rightarrow> 'k::linorder"
  shows "sorted_wrt (<) (map f xs) \<Longrightarrow> sorted_wrt (<) (map f (filter P xs))"
  by (simp add: sorted_wrt_map sorted_wrt_filter)

lemma strict_sorted_update:
  fixes f :: "'a \<Rightarrow> 'k::linorder"
  assumes "sorted_wrt (<) (map f xs)" and "i < length xs" and "f (xs ! i) = f x"
  shows "sorted_wrt (<) (map f (xs[i := x]))"
    and "set (xs[i := x]) = insert x (set (filter (\<lambda>y. f y \<noteq> f x) xs))"
proof -
  have "map f (xs[i := x]) = map f xs"
    using assms(2,3) by (simp add: map_update list_update_same_conv)
  then show "sorted_wrt (<) (map f (xs[i := x]))" using assms(1) by simp
  have "distinct (map f xs)" using assms(1) by (simp add: strict_sorted_iff)
  moreover have xs: "xs = take i xs @ xs ! i # drop (Suc i) xs"
    using assms(2) by (rule id_take_nth_drop)
  ultimately have "distinct (map f (take i xs @ xs ! i # drop (Suc i) xs))" by simp
  then have ne: "f y \<noteq> f x" if "y \<in> set (take i xs) \<union> set (drop (Suc i) xs)" for y
    using that assms(3) by (auto simp: image_iff)
  have "set (xs[i := x]) = insert x (set (take i xs) \<union> set (drop (Suc i) xs))"
    using assms(2) by (simp add: upd_conv_take_nth_drop)
  moreover have "filter (\<lambda>y. f y \<noteq> f x) xs = take i xs @ drop (Suc i) xs"
    using assms(3) ne by (subst xs) (simp add: filter_id_conv)
  ultimately show "set (xs[i := x]) = insert x (set (filter (\<lambda>y. f y \<noteq> f x) xs))" by simp
qed

lemma insert_at_insort_key:
  fixes f :: "'a \<Rightarrow> 'k::linorder"
  assumes "sorted_wrt (<) (map f xs)" and "binary_search f (f x) xs = Inl i"
  shows "insert_at i x xs = insort_key f x xs" and "filter (\<lambda>y. f y \<noteq> f x) xs = xs"
proof -
  note b = binary_search_Inl_split [OF assms]
  have ne: "f y \<noteq> f x" if "y \<in> set xs" for y
    using b(2,3) that by (metis Un_iff append_take_drop_id less_irrefl set_append)
  then show "filter (\<lambda>y. f y \<noteq> f x) xs = xs" by (simp add: filter_id_conv)
  show "insert_at i x xs = insort_key f x xs"
  proof (rule strict_sorted_key_unique [of f])
    show "sorted_wrt (<) (map f (insert_at i x xs))" using assms by (rule sorted_insert_at)
    show "sorted_wrt (<) (map f (insort_key f x xs))"
      using assms(1) by (rule strict_sorted_insort_key) (use ne in force)
  qed (simp add: set_insort_key)
qed

lemma sorted_insert_at_search:
  fixes f :: "'a \<Rightarrow> 'k::linorder"
  assumes s: "sorted_wrt (<) (map f xs)"
    and i: "i = (case binary_search f (f x) xs of Inr i \<Rightarrow> i | Inl i \<Rightarrow> i)"
  shows "sorted (map f (insert_at i x xs))"
proof (cases "binary_search f (f x) xs")
  case (Inl j)
  with i sorted_insert_at [OF s Inl] show ?thesis by (simp add: strict_sorted_imp_sorted)
next
  case (Inr j)
  with i have j: "i = j" by simp
  have bj: "j < length xs" "f (xs ! j) = f x" using binary_search_Inr [OF Inr] by auto
  have le: "sorted (map f xs)" using s by (simp add: strict_sorted_imp_sorted)
  then have sp: "sorted (map f (take j xs) @ map f (drop j xs))"
    by (metis append_take_drop_id map_append)
  have 1: "f y \<le> f x" if "y \<in> set (take j xs)" for y
    using take_sorted_le [OF le that, of "xs ! j"] bj by (metis Cons_nth_drop_Suc list.set_intros(1))
  have 2: "f x \<le> f y" if "y \<in> set (drop j xs)" for y
    using that bj sp by (auto simp: sorted_append Cons_nth_drop_Suc [symmetric])
  show ?thesis using sp 1 2 unfolding j insert_at_def by (auto simp: sorted_append)
qed

subsection \<open>The providers of a key\<close>

text \<open>The list after an offer is the best \<open>n\<close> of the others and the new record.\<close>

lemma insert_provider_best:
  assumes s: "sorted_wrt (<) (map (provider_distance K) ps)" and n: "0 < n" and len: "length ps \<le> n"
    and others: "others = filter (\<lambda>p. provider_distance K p \<noteq> provider_distance K r) ps"
  shows "insert_provider K n r ps =
    (r \<in> set (take n (insort_key (provider_distance K) r others)),
     take n (insort_key (provider_distance K) r others))"
proof (cases "binary_search (provider_distance K) (provider_distance K r) ps")
  case (Inr i)
  let ?d = "provider_distance K"
  have i: "i < length ps" "?d (ps ! i) = ?d r" using binary_search_Inr [OF Inr] by auto
  have "ps[i := r] = insort_key ?d r others"
  proof (rule strict_sorted_key_unique [of ?d])
    show "sorted_wrt (<) (map ?d (ps[i := r]))" using s i by (rule strict_sorted_update)
    show "sorted_wrt (<) (map ?d (insort_key ?d r others))"
      unfolding others by (rule strict_sorted_insort_key [OF strict_sorted_filter_key [OF s]]) auto
    show "set (ps[i := r]) = set (insort_key ?d r others)"
      using strict_sorted_update(2) [OF s i] by (simp add: others set_insort_key)
  qed
  moreover from this have "take n (insort_key ?d r others) = ps[i := r]"
    using len by (metis length_list_update take_all)
  moreover have "r \<in> set (ps[i := r])" using i(1) by (rule set_update_memI)
  ultimately show ?thesis by (simp add: insert_provider_def Inr)
next
  case (Inl i)
  note b = binary_search_Inl_split [OF s Inl]
  note e = insert_at_insort_key [OF s Inl]
  have o: "others = ps" using e(2) others by simp
  have ne: "r \<notin> set ps"
    using b(2,3) by (metis Un_iff append_take_drop_id less_irrefl set_append)
  show ?thesis
  proof (cases "i = n")
    case True
    then have "length ps = n" using b(1) len by simp
    then have "take n (insert_at i r ps) = ps" using True by (simp add: insert_at_def)
    with ne show ?thesis by (simp add: insert_provider_def Inl True o e(1) [symmetric])
  next
    case False
    then have lt: "i < n" using b(1) len by simp
    have "take n (insert_at i r ps) = insert_at i r (if length ps = n then butlast ps else ps)"
    proof (cases "length ps = n")
      case True
      then show ?thesis
        using lt by (simp add: insert_at_def butlast_conv_take drop_take take_Cons' min_absorb1)
    next
      case False
      then show ?thesis using len by simp
    qed
    then show ?thesis by (simp add: insert_provider_def Inl False o e(1) [symmetric])
  qed
qed

subsection \<open>The invariant of the store\<close>

definition record_ok :: "memory_store_config \<Rightarrow> record_key \<Rightarrow> kad_record \<Rightarrow> bool" where
  "record_ok c k r \<longleftrightarrow> rec_key r = k \<and> length (rec_value r) < max_record_size_bytes c"

definition provider_ok :: "memory_store_config \<Rightarrow> peer_id \<Rightarrow> record_key \<Rightarrow> provider_record \<Rightarrow> bool" where
  "provider_ok c self k r \<longleftrightarrow>
     pr_key r = k \<and> pr_provider r \<noteq> self \<and> length (pr_addresses r) \<le> max_provider_addresses c"

definition providers_ok ::
  "kad_env \<Rightarrow> memory_store_config \<Rightarrow> peer_id \<Rightarrow> record_key \<Rightarrow> provider_record list \<Rightarrow> bool" where
  "providers_ok K c self k ps \<longleftrightarrow>
     ps \<noteq> [] \<and> sorted_wrt (<) (map (provider_distance K) ps) \<and>
     length ps \<le> max_providers_per_key c \<and> list_all (provider_ok c self k) ps"

definition store_ok :: "kad_env \<Rightarrow> memory_store \<Rightarrow> bool" where
  "store_ok K s \<longleftrightarrow>
     hm_ok (ms_records s) \<and> hm_ok (ms_provider_keys s) \<and> hm_ok (ms_local_providers s) \<and>
     length (ms_records s) \<le> max_records (ms_config s) \<and>
     length (ms_provider_keys s) \<le> max_provider_keys (ms_config s) \<and>
     length (ms_local_providers s) \<le> max_provider_keys (ms_config s) \<and>
     (\<forall>k r. hm_get (ms_records s) k = Some r \<longrightarrow> record_ok (ms_config s) k r) \<and>
     (\<forall>k ps. hm_get (ms_provider_keys s) k = Some ps \<longrightarrow>
        providers_ok K (ms_config s) (ms_local_peer_id s) k ps) \<and>
     (\<forall>k p q. hm_get (ms_local_providers s) k = Some (p, q) \<longrightarrow>
        p = \<lparr>cp_peer = ms_local_peer_id s, cp_addresses = []\<rparr>)"

lemma store_okD:
  assumes "store_ok K s"
  shows "hm_ok (ms_records s)" "hm_ok (ms_provider_keys s)" "hm_ok (ms_local_providers s)"
    "length (ms_records s) \<le> max_records (ms_config s)"
    "length (ms_provider_keys s) \<le> max_provider_keys (ms_config s)"
    "length (ms_local_providers s) \<le> max_provider_keys (ms_config s)"
    "hm_get (ms_records s) k = Some r \<Longrightarrow> record_ok (ms_config s) k r"
    "hm_get (ms_provider_keys s) k = Some ps \<Longrightarrow> providers_ok K (ms_config s) (ms_local_peer_id s) k ps"
    "hm_get (ms_local_providers s) k = Some (p, q) \<Longrightarrow> p = \<lparr>cp_peer = ms_local_peer_id s, cp_addresses = []\<rparr>"
  using assms unfolding store_ok_def by blast+

lemma hm_len_insert_le:
  "hm_ok m \<Longrightarrow> length m \<le> n \<Longrightarrow> hm_get m k \<noteq> None \<or> length m < n \<Longrightarrow> length (hm_insert k v m) \<le> n"
  by (auto simp: hm_len_insert)

lemma hm_len_remove_le: "length m \<le> n \<Longrightarrow> length (hm_remove k m) \<le> n"
  using length_delete_le [of k m] by (rule order_trans)

lemma store_with_config_ok: "store_ok K (store_with_config self c)"
  by (simp add: store_ok_def store_with_config_def)

lemma store_get_ok: "store_ok K s \<Longrightarrow> store_ok K (snd (store_get s now k))"
  by (simp add: store_get_def Let_def store_ok_def hm_len_remove_le)

text \<open>When \<open>put\<close> stores the record it is given.\<close>

definition put_accepts :: "memory_store \<Rightarrow> kad_record \<Rightarrow> bool" where
  "put_accepts s r \<longleftrightarrow>
     length (rec_value r) < max_record_size_bytes (ms_config s) \<and>
     (case hm_get (ms_records s) (rec_key r) of
        None \<Rightarrow> length (ms_records s) < max_records (ms_config s)
      | Some old \<Rightarrow> (\<forall>t t'. rec_expires old = Some t \<and> rec_expires r = Some t' \<longrightarrow> t \<le> t'))"

lemma store_put_eq:
  "store_put s r =
     (if put_accepts s r then s\<lparr>ms_records := hm_insert (rec_key r) r (ms_records s)\<rparr> else s)"
  by (auto simp: store_put_def put_accepts_def Let_def not_le not_less split: option.splits)

lemma store_ok_insert_record:
  "store_ok K s \<Longrightarrow> record_ok (ms_config s) k r \<Longrightarrow>
     hm_get (ms_records s) k \<noteq> None \<or> length (ms_records s) < max_records (ms_config s) \<Longrightarrow>
     store_ok K (s\<lparr>ms_records := hm_insert k r (ms_records s)\<rparr>)"
  by (simp add: store_ok_def hm_len_insert_le)

lemma store_ok_insert_providers:
  "store_ok K s \<Longrightarrow> providers_ok K (ms_config s) (ms_local_peer_id s) k ps \<Longrightarrow>
     hm_get (ms_provider_keys s) k \<noteq> None \<or> length (ms_provider_keys s) < max_provider_keys (ms_config s) \<Longrightarrow>
     store_ok K (s\<lparr>ms_provider_keys := hm_insert k ps (ms_provider_keys s)\<rparr>)"
  by (simp add: store_ok_def hm_len_insert_le)

lemma store_put_ok: "store_ok K s \<Longrightarrow> store_ok K (store_put s r)"
  unfolding store_put_eq
  by (cases "hm_get (ms_records s) (rec_key r)")
    (simp_all add: store_ok_insert_record put_accepts_def record_ok_def)

lemma providers_ok_filter:
  "providers_ok K c self k ps \<Longrightarrow> filter P ps \<noteq> [] \<Longrightarrow> providers_ok K c self k (filter P ps)"
  by (auto simp: providers_ok_def strict_sorted_filter_key list_all_iff intro: le_trans [OF length_filter_le])

lemma drop_expired_providers_eq:
  "drop_expired_providers s now k =
     (case hm_get (ms_provider_keys s) k of
        None \<Rightarrow> s
      | Some ps \<Rightarrow>
          if filter (\<lambda>p. \<not> provider_is_expired p now) ps = []
          then s\<lparr>ms_provider_keys := hm_remove k (ms_provider_keys s)\<rparr>
          else s\<lparr>ms_provider_keys :=
            hm_insert k (filter (\<lambda>p. \<not> provider_is_expired p now) ps) (ms_provider_keys s)\<rparr>)"
  by (simp add: drop_expired_providers_def Let_def split: option.splits)

lemma drop_expired_providers_ok:
  assumes "store_ok K s"
  shows "store_ok K (drop_expired_providers s now k)"
proof (cases "hm_get (ms_provider_keys s) k")
  case (Some ps)
  from store_okD(8) [OF assms this] have "providers_ok K (ms_config s) (ms_local_peer_id s) k ps" .
  note kept = providers_ok_filter [OF this, of "\<lambda>p. \<not> provider_is_expired p now"]
  show ?thesis
  proof (cases "filter (\<lambda>p. \<not> provider_is_expired p now) ps = []")
    case True
    then show ?thesis using assms Some
      by (simp add: drop_expired_providers_eq store_ok_def hm_len_remove_le)
  next
    case False
    then show ?thesis using assms Some kept [OF False]
      by (simp add: drop_expired_providers_eq store_ok_insert_providers)
  qed
qed (use assms in \<open>simp add: drop_expired_providers_eq\<close>)

lemma store_get_providers_snd:
  "snd (store_get_providers K s now k) = drop_expired_providers s now k"
  by (simp add: store_get_providers_def Let_def split: option.splits prod.splits)

definition offered_record ::
  "memory_store \<Rightarrow> instant \<Rightarrow> record_key \<Rightarrow> content_provider \<Rightarrow> provider_record" where
  "offered_record s now key provider =
     \<lparr>pr_key = key, pr_provider = cp_peer provider,
      pr_addresses = take (max_provider_addresses (ms_config s)) (cp_addresses provider),
      pr_expires = now + provider_ttl (ms_config s)\<rparr>"

definition best_providers :: "kad_env \<Rightarrow> usize \<Rightarrow> provider_record \<Rightarrow> provider_record list \<Rightarrow> provider_record list" where
  "best_providers K n r ps =
     take n (insort_key (provider_distance K) r
       (filter (\<lambda>p. provider_distance K p \<noteq> provider_distance K r) ps))"

lemma store_put_provider_eq:
  assumes ok: "store_ok K s" and n: "0 < max_providers_per_key (ms_config s)"
    and remote: "cp_peer provider \<noteq> ms_local_peer_id s"
    and r: "r = offered_record s now key provider"
    and room: "hm_get (ms_provider_keys s) key = Some ps \<or>
      (hm_get (ms_provider_keys s) key = None \<and> ps = [] \<and>
       length (ms_provider_keys s) < max_provider_keys (ms_config s))"
  shows "store_put_provider K s now key provider =
    (r \<in> set (best_providers K (max_providers_per_key (ms_config s)) r ps),
     s\<lparr>ms_provider_keys :=
       hm_insert key (best_providers K (max_providers_per_key (ms_config s)) r ps) (ms_provider_keys s)\<rparr>)"
  using room
proof
  assume ps: "hm_get (ms_provider_keys s) key = Some ps"
  have "providers_ok K (ms_config s) (ms_local_peer_id s) key ps" using store_okD(8) [OF ok ps] .
  then have "sorted_wrt (<) (map (provider_distance K) ps)" "length ps \<le> max_providers_per_key (ms_config s)"
    by (simp_all add: providers_ok_def)
  from insert_provider_best [OF this(1) n this(2) refl, of r] ps remote show ?thesis
    by (simp add: store_put_provider_def Let_def best_providers_def r offered_record_def)
next
  assume "hm_get (ms_provider_keys s) key = None \<and> ps = [] \<and>
    length (ms_provider_keys s) < max_provider_keys (ms_config s)"
  with n remote show ?thesis
    by (simp add: store_put_provider_def Let_def best_providers_def r offered_record_def take_Cons')
qed

lemma store_put_provider_refused:
  "cp_peer provider = ms_local_peer_id s \<or>
     hm_get (ms_provider_keys s) key = None \<and> max_provider_keys (ms_config s) \<le> length (ms_provider_keys s) \<Longrightarrow>
   store_put_provider K s now key provider = (False, s)"
  by (auto simp: store_put_provider_def Let_def)

lemma best_providers_ok:
  assumes n: "0 < max_providers_per_key c" and r: "provider_ok c self k r"
    and ps: "ps = [] \<or> providers_ok K c self k ps"
  shows "providers_ok K c self k (best_providers K (max_providers_per_key c) r ps)"
proof -
  let ?d = "provider_distance K"
  let ?o = "filter (\<lambda>p. ?d p \<noteq> ?d r) ps"
  have "sorted_wrt (<) (map ?d ?o)" and o: "list_all (provider_ok c self k) ?o"
    using ps by (auto simp: providers_ok_def strict_sorted_filter_key list_all_iff)
  then have "sorted_wrt (<) (map ?d (insort_key ?d r ?o))"
    by (intro strict_sorted_insort_key) auto
  then have "sorted_wrt (<) (map ?d (best_providers K (max_providers_per_key c) r ps))"
    unfolding best_providers_def take_map [symmetric] by (rule sorted_wrt_take)
  moreover have "best_providers K (max_providers_per_key c) r ps \<noteq> []"
    using n unfolding best_providers_def
    by (metis length_insort list.size(3) nat.distinct(1) neq0_conv take_eq_Nil)
  moreover have "list_all (provider_ok c self k) (best_providers K (max_providers_per_key c) r ps)"
    using o r unfolding best_providers_def list_all_iff
    by (auto simp: set_insort_key dest!: in_set_takeD)
  ultimately show ?thesis by (simp add: providers_ok_def best_providers_def)
qed

lemma store_put_provider_ok:
  assumes ok: "store_ok K s" and n: "0 < max_providers_per_key (ms_config s)"
  shows "store_ok K (snd (store_put_provider K s now key provider))"
proof (cases "cp_peer provider = ms_local_peer_id s \<or>
     hm_get (ms_provider_keys s) key = None \<and> max_provider_keys (ms_config s) \<le> length (ms_provider_keys s)")
  case True
  then show ?thesis using ok by (simp add: store_put_provider_refused)
next
  case False
  define ps where "ps = (case hm_get (ms_provider_keys s) key of None \<Rightarrow> [] | Some ps \<Rightarrow> ps)"
  let ?r = "offered_record s now key provider"
  have room: "hm_get (ms_provider_keys s) key = Some ps \<or>
      (hm_get (ms_provider_keys s) key = None \<and> ps = [] \<and>
       length (ms_provider_keys s) < max_provider_keys (ms_config s))"
    using False by (auto simp: ps_def split: option.splits)
  have ps: "ps = [] \<or> providers_ok K (ms_config s) (ms_local_peer_id s) key ps"
    using room store_okD(8) [OF ok] by blast
  have r: "provider_ok (ms_config s) (ms_local_peer_id s) key ?r"
    using False by (simp add: provider_ok_def offered_record_def)
  note best = best_providers_ok [OF n r ps]
  have "cp_peer provider \<noteq> ms_local_peer_id s" using False by simp
  note eq = store_put_provider_eq [OF ok n this refl room]
  have "hm_get (ms_provider_keys s) key \<noteq> None \<or> length (ms_provider_keys s) < max_provider_keys (ms_config s)"
    using room by auto
  then show ?thesis unfolding eq snd_conv by (rule store_ok_insert_providers [OF ok best])
qed

lemma store_put_local_provider_ok:
  "store_ok K s \<Longrightarrow> store_ok K (snd (store_put_local_provider s now key q))"
  by (simp add: store_put_local_provider_def Let_def store_ok_def hm_len_insert_le split: option.splits)

lemma store_remove_local_provider_ok: "store_ok K s \<Longrightarrow> store_ok K (store_remove_local_provider s key)"
  by (simp add: store_remove_local_provider_def store_ok_def hm_len_remove_le)

lemma store_next_action_ok: "store_ok K s \<Longrightarrow> store_ok K (snd (store_next_action s now i))"
  by (simp add: store_next_action_def Let_def store_ok_def)

inductive store_reachable :: "kad_env \<Rightarrow> memory_store_config \<Rightarrow> memory_store \<Rightarrow> bool" for K c where
  store_init: "store_reachable K c (store_with_config self c)"
| store_get_step: "store_reachable K c s \<Longrightarrow> store_reachable K c (snd (store_get s now key))"
| store_put_step: "store_reachable K c s \<Longrightarrow> store_reachable K c (store_put s r)"
| store_get_providers_step:
    "store_reachable K c s \<Longrightarrow> store_reachable K c (snd (store_get_providers K s now key))"
| store_put_provider_step:
    "store_reachable K c s \<Longrightarrow> store_reachable K c (snd (store_put_provider K s now key provider))"
| store_put_local_step:
    "store_reachable K c s \<Longrightarrow> store_reachable K c (snd (store_put_local_provider s now key q))"
| store_remove_local_step:
    "store_reachable K c s \<Longrightarrow> store_reachable K c (store_remove_local_provider s key)"
| store_next_action_step:
    "store_reachable K c s \<Longrightarrow> store_reachable K c (snd (store_next_action s now i))"

lemma store_config_kept [simp]:
  "ms_config (snd (store_get s now key)) = ms_config s"
  "ms_config (store_put s r) = ms_config s"
  "ms_config (drop_expired_providers s now key) = ms_config s"
  "ms_config (snd (store_put_local_provider s now key q)) = ms_config s"
  "ms_config (store_remove_local_provider s key) = ms_config s"
  "ms_config (snd (store_next_action s now i)) = ms_config s"
  "ms_config (snd (store_put_provider K s now key provider)) = ms_config s"
  by (simp_all add: store_get_def store_put_eq drop_expired_providers_eq store_put_local_provider_def
      store_remove_local_provider_def store_next_action_def store_put_provider_def Let_def
      split: option.splits prod.splits)

lemma store_reachable_ok:
  assumes "store_reachable K c s" and "0 < max_providers_per_key c"
  shows "ms_config s = c \<and> store_ok K s"
  using assms
  by induction
    (simp_all add: store_with_config_ok store_get_ok store_put_ok store_get_providers_snd
      drop_expired_providers_ok store_put_provider_ok store_put_local_provider_ok
      store_remove_local_provider_ok store_next_action_ok, simp add: store_with_config_def)

lemma content_of_providers:
  "map (\<lambda>p. key_distance (key_from_peer K (cp_peer p)) (key_new K key))
     (map (\<lambda>p. \<lparr>cp_peer = pr_provider p, cp_addresses = pr_addresses p\<rparr>) ps)
   = map (provider_distance K) ps" if "list_all (\<lambda>p. pr_key p = key) ps"
  using that by (simp add: provider_distance_def list_all_iff)

definition live_providers :: "memory_store \<Rightarrow> instant \<Rightarrow> record_key \<Rightarrow> provider_record list" where
  "live_providers s now key =
     (case hm_get (ms_provider_keys s) key of
        None \<Rightarrow> [] | Some ps \<Rightarrow> filter (\<lambda>p. \<not> provider_is_expired p now) ps)"

lemma drop_expired_providers_get:
  "hm_get (ms_provider_keys (drop_expired_providers s now key)) k =
     (if k = key then (if live_providers s now key = [] then None else Some (live_providers s now key))
      else hm_get (ms_provider_keys s) k)"
  by (auto simp: drop_expired_providers_eq live_providers_def split: option.splits)

lemma live_providers_ok:
  assumes "store_ok K s"
  shows "sorted_wrt (<) (map (provider_distance K) (live_providers s now key))"
    and "list_all (\<lambda>p. pr_key p = key \<and> \<not> provider_is_expired p now) (live_providers s now key)"
  using store_okD(8) [OF assms, of key]
  by (cases "hm_get (ms_provider_keys s) key";
      simp add: live_providers_def providers_ok_def provider_ok_def list_all_iff strict_sorted_filter_key)+

lemma drop_expired_providers_local [simp]:
  "ms_local_providers (drop_expired_providers s now key) = ms_local_providers s"
  "ms_local_peer_id (drop_expired_providers s now key) = ms_local_peer_id s"
  by (simp_all add: drop_expired_providers_eq split: option.splits)

lemma drop_expired_providers_frame:
  "drop_expired_providers s now key = s\<lparr>ms_provider_keys := ms_provider_keys (drop_expired_providers s now key)\<rparr>"
  by (cases s) (simp add: drop_expired_providers_eq split: option.splits)

definition example_store :: memory_store where
  "example_store =
     snd (store_put_local_provider
       (snd (store_put_provider example_kad_env
         (store_put (store_with_config (example_kad_id 1) memory_store_config_default) (record_new [4] [9]))
         100 [4] \<lparr>cp_peer = example_kad_id 2, cp_addresses = [[Tcp 1]]\<rparr>))
       100 [4] QuorumOne)"

lemma example_store_reachable: "store_reachable example_kad_env memory_store_config_default example_store"
  unfolding example_store_def
  by (intro store_put_local_step store_put_provider_step store_put_step store_init)

lemma example_store_eq:
  "example_store =
     \<lparr>ms_local_peer_id = example_kad_id 1, ms_config = memory_store_config_default,
      ms_records = [([4], record_new [4] [9])],
      ms_provider_keys = [([4], [\<lparr>pr_key = [4], pr_provider = example_kad_id 2, pr_addresses = [[Tcp 1]],
        pr_expires = 172800000000100\<rparr>])],
      ms_local_providers = [([4], \<lparr>cp_peer = example_kad_id 1, cp_addresses = []\<rparr>, QuorumOne)],
      ms_pending_refresh = [(79200000000100, [4])]\<rparr>"
  by (simp add: example_store_def store_put_local_provider_def store_put_provider_def store_put_def Let_def
      store_with_config_def memory_store_config_default_def record_new_def example_kad_id_def secs_def)

text \<open>
  C14: In every store built by its operations, at most \<open>max_records\<close> records are kept, each filed under
  its own key and smaller than the maximal size; remote providers are kept for at most
  \<open>max_provider_keys\<close> keys, for each between one and \<open>max_providers_per_key\<close> of them in order of
  strictly increasing distance from the key, never the local node, with at most
  \<open>max_provider_addresses\<close> addresses each; and the node itself provides at most \<open>max_provider_keys\<close> keys.
\<close>

theorem memory_store_bounded:
  assumes "store_reachable K c s" and "0 < max_providers_per_key c"
  shows "length (ms_records s) \<le> max_records c \<and>
    length (ms_provider_keys s) \<le> max_provider_keys c \<and>
    length (ms_local_providers s) \<le> max_provider_keys c \<and>
    (\<forall>k r. hm_get (ms_records s) k = Some r \<longrightarrow>
       rec_key r = k \<and> length (rec_value r) < max_record_size_bytes c) \<and>
    (\<forall>k ps. hm_get (ms_provider_keys s) k = Some ps \<longrightarrow>
       0 < length ps \<and> length ps \<le> max_providers_per_key c \<and>
       sorted_wrt (<) (map (\<lambda>p. key_distance (key_from_peer K (pr_provider p)) (key_new K k)) ps) \<and>
       (\<forall>p \<in> set ps. pr_provider p \<noteq> ms_local_peer_id s \<and> length (pr_addresses p) \<le> max_provider_addresses c))"
proof -
  have c: "ms_config s = c" and ok: "store_ok K s" using store_reachable_ok [OF assms] by auto
  note d = store_okD [OF ok, unfolded c]
  have "rec_key r = k \<and> length (rec_value r) < max_record_size_bytes c" if "hm_get (ms_records s) k = Some r" for k r
    using d(7) [OF that] by (simp add: record_ok_def)
  moreover have "0 < length ps \<and> length ps \<le> max_providers_per_key c \<and>
      sorted_wrt (<) (map (\<lambda>p. key_distance (key_from_peer K (pr_provider p)) (key_new K k)) ps) \<and>
      (\<forall>p \<in> set ps. pr_provider p \<noteq> ms_local_peer_id s \<and> length (pr_addresses p) \<le> max_provider_addresses c)"
    if "hm_get (ms_provider_keys s) k = Some ps" for k ps
  proof -
    have ps: "providers_ok K c (ms_local_peer_id s) k ps" using d(8) [OF that] .
    then have "map (\<lambda>p. key_distance (key_from_peer K (pr_provider p)) (key_new K k)) ps = map (provider_distance K) ps"
      by (simp add: providers_ok_def provider_ok_def provider_distance_def list_all_iff)
    then show ?thesis using ps by (simp only:) (simp add: providers_ok_def provider_ok_def list_all_iff)
  qed
  ultimately show ?thesis using d(4-6) by blast
qed

theorem memory_store_bounded_witness:
  "store_reachable example_kad_env memory_store_config_default example_store \<and>
   length (ms_records example_store) \<le> 1024 \<and> length (ms_provider_keys example_store) \<le> 1024 \<and>
   hm_get (ms_provider_keys example_store) [4] \<noteq> None \<and>
   length (the (hm_get (ms_provider_keys example_store) [4])) \<le> 20"
  using memory_store_bounded [OF example_store_reachable] example_store_reachable
  by (simp add: memory_store_config_default_def example_store_eq)



text \<open>
  C16: \<open>get_providers\<close> returns exactly the stored providers of the key that have not expired, with the
  addresses they were stored with, and the local node if it provides the key, in order of distance
  from the key; the expired ones are gone from the store afterwards, and nothing else changed.
\<close>

theorem get_providers_complete:
  assumes "store_reachable K c s" and "0 < max_providers_per_key c"
  shows "set (fst (store_get_providers K s now key)) =
      {\<lparr>cp_peer = pr_provider p, cp_addresses = pr_addresses p\<rparr> | p ps.
         hm_get (ms_provider_keys s) key = Some ps \<and> p \<in> set ps \<and> now < pr_expires p} \<union>
      {\<lparr>cp_peer = ms_local_peer_id s, cp_addresses = []\<rparr> | u. hm_get (ms_local_providers s) key = Some u} \<and>
    sorted (map (\<lambda>p. key_distance (key_from_peer K (cp_peer p)) (key_new K key)) (fst (store_get_providers K s now key))) \<and>
    (\<exists>m. snd (store_get_providers K s now key) = s\<lparr>ms_provider_keys := m\<rparr> \<and>
       (\<forall>k. k \<noteq> key \<longrightarrow> hm_get m k = hm_get (ms_provider_keys s) k) \<and>
       (\<forall>ps. hm_get m key = Some ps \<longrightarrow> list_all (\<lambda>p. now < pr_expires p) ps))"
proof -
  have ok: "store_ok K s" using store_reachable_ok [OF assms] by simp
  let ?f = "\<lambda>p. key_distance (key_from_peer K (cp_peer p)) (key_new K key)"
  let ?live = "live_providers s now key"
  let ?ps = "map (\<lambda>p. \<lparr>cp_peer = pr_provider p, cp_addresses = pr_addresses p\<rparr>) ?live"
  let ?local = "\<lparr>cp_peer = ms_local_peer_id s, cp_addresses = []\<rparr>"
  have stored: "(case hm_get (ms_provider_keys (drop_expired_providers s now key)) key of
      Some ps \<Rightarrow> ps | None \<Rightarrow> []) = ?live"
    by (simp add: drop_expired_providers_get)
  have keys: "list_all (\<lambda>p. pr_key p = key) ?live"
    using live_providers_ok(2) [OF ok] by (simp add: list_all_iff)
  have sorted: "sorted_wrt (<) (map ?f ?ps)"
    unfolding content_of_providers [OF keys] by (rule live_providers_ok(1) [OF ok])
  have live: "set ?ps = {\<lparr>cp_peer = pr_provider p, cp_addresses = pr_addresses p\<rparr> | p ps.
         hm_get (ms_provider_keys s) key = Some ps \<and> p \<in> set ps \<and> now < pr_expires p}"
    by (cases "hm_get (ms_provider_keys s) key")
      (auto simp: live_providers_def provider_is_expired_def not_le)
  have result: "set (fst (store_get_providers K s now key)) =
       set ?ps \<union> {?local | u. hm_get (ms_local_providers s) key = Some u} \<and>
     sorted (map ?f (fst (store_get_providers K s now key)))"
  proof (cases "hm_get (ms_local_providers s) key")
    case None
    then have "fst (store_get_providers K s now key) = ?ps"
      by (simp only: store_get_providers_def Let_def stored drop_expired_providers_local option.case fst_conv)
    then show ?thesis using sorted None by (simp add: strict_sorted_imp_sorted del: map_map)
  next
    case (Some pq)
    obtain q where pq: "pq = (?local, q)"
      using store_okD(9) [OF ok, of key "fst pq" "snd pq"] Some by (metis prod.collapse)
    let ?i = "case binary_search ?f (?f ?local) ?ps of Inr i \<Rightarrow> i | Inl i \<Rightarrow> i"
    have "fst (store_get_providers K s now key) = insert_at ?i ?local ?ps"
      using Some unfolding pq
      by (simp only: store_get_providers_def Let_def stored drop_expired_providers_local option.case fst_conv
          prod.case content_provider.select_convs)
    then show ?thesis using sorted_insert_at_search [OF sorted refl, of ?local] Some
      by (simp del: map_map)
  qed
  define m where "m = ms_provider_keys (drop_expired_providers s now key)"
  have m: "drop_expired_providers s now key = s\<lparr>ms_provider_keys := m\<rparr>"
    unfolding m_def by (rule drop_expired_providers_frame)
  have "(\<forall>k. k \<noteq> key \<longrightarrow> hm_get m k = hm_get (ms_provider_keys s) k) \<and>
       (\<forall>ps. hm_get m key = Some ps \<longrightarrow> list_all (\<lambda>p. now < pr_expires p) ps)"
    using live_providers_ok(2) [OF ok, of key now]
    by (auto simp: m_def drop_expired_providers_get list_all_iff provider_is_expired_def not_le)
  with result [unfolded live] m show ?thesis unfolding store_get_providers_snd
    by (elim conjE, intro conjI exI [of _ m]) assumption+
qed

theorem get_providers_complete_witness:
  "set (fst (store_get_providers example_kad_env example_store 300 [4])) =
     {\<lparr>cp_peer = example_kad_id 2, cp_addresses = [[Tcp 1]]\<rparr>, \<lparr>cp_peer = example_kad_id 1, cp_addresses = []\<rparr>}"
proof -
  have "0 < max_providers_per_key memory_store_config_default" by (simp add: memory_store_config_default_def)
  from get_providers_complete [OF example_store_reachable this, of 300 "[4]"] show ?thesis
    by (auto simp: example_store_eq)
qed

text \<open>
  What \<open>get\<close> returns after \<open>put\<close>: the new record, unless it has expired by then, if \<open>put\<close> accepted it,
  that is if it is small enough and either replaces a record that does not expire later or finds
  room; in all other cases, and for all other keys, what it returned before. Neither ever returns an
  expired record.
\<close>

lemma record_put_get:
  "fst (store_get (store_put s r) now k) =
     (if k = rec_key r \<and> length (rec_value r) < max_record_size_bytes (ms_config s) \<and>
         (case hm_get (ms_records s) k of
            None \<Rightarrow> length (ms_records s) < max_records (ms_config s)
          | Some old \<Rightarrow> rec_expires old = None \<or> rec_expires r = None \<or>
              the (rec_expires old) \<le> the (rec_expires r))
      then (if record_is_expired r now then None else Some r)
      else fst (store_get s now k)) \<and>
   (case fst (store_get s now k) of None \<Rightarrow> True | Some r' \<Rightarrow> \<not> record_is_expired r' now)"
proof -
  have acc: "put_accepts s r \<longleftrightarrow> length (rec_value r) < max_record_size_bytes (ms_config s) \<and>
         (case hm_get (ms_records s) (rec_key r) of
            None \<Rightarrow> length (ms_records s) < max_records (ms_config s)
          | Some old \<Rightarrow> rec_expires old = None \<or> rec_expires r = None \<or>
              the (rec_expires old) \<le> the (rec_expires r))"
    by (cases "hm_get (ms_records s) (rec_key r)"; cases "rec_expires r")
      (auto simp: put_accepts_def, metis option.exhaust_sel)
  have "fst (store_get (store_put s r) now k) =
     (if k = rec_key r \<and> put_accepts s r then (if record_is_expired r now then None else Some r)
      else fst (store_get s now k))"
    by (simp add: store_put_eq store_get_def Let_def)
  moreover have "case fst (store_get s now k) of None \<Rightarrow> True | Some r' \<Rightarrow> \<not> record_is_expired r' now"
    by (cases "hm_get (ms_records s) k") (simp_all add: store_get_def Let_def)
  ultimately show ?thesis by (cases "k = rec_key r") (simp_all add: acc)
qed

lemma insert_provider_zero:
  assumes "ps \<noteq> []" and "\<forall>p \<in> set ps. provider_distance K p < provider_distance K r"
  shows "insert_provider K 0 r ps = (True, ps @ [r])"
proof -
  have "takeWhile (\<lambda>p. provider_distance K p < provider_distance K r) ps = ps"
    using assms(2) by (simp add: takeWhile_eq_all_conv)
  with assms(1) show ?thesis
    by (simp add: insert_provider_def binary_search_def insert_at_def Let_def del: takeWhile_eq_all_conv)
qed

text \<open>
  With \<open>max_providers_per_key\<close> set to zero the number of providers of a key is not bounded: remote
  providers offered in order of increasing distance are all stored.
\<close>

lemma zero_providers_per_key_unbounded:
  assumes c: "max_providers_per_key c = 0" "0 < max_provider_keys c"
    and remote: "list_all (\<lambda>p. cp_peer p \<noteq> self) providers"
    and order: "sorted_wrt (<) (map (\<lambda>p. key_distance (key_from_peer K (cp_peer p)) (key_new K key)) providers)"
    and ne: "providers \<noteq> []"
  shows "\<exists>ps. hm_get (ms_provider_keys (foldl (\<lambda>s p. snd (store_put_provider K s now key p))
      (store_with_config self c) providers)) key = Some ps \<and> map pr_provider ps = map cp_peer providers"
proof -
  let ?run = "\<lambda>ps. foldl (\<lambda>s p. snd (store_put_provider K s now key p)) (store_with_config self c) ps"
  have "ms_config (?run ps) = c \<and> ms_local_peer_id (?run ps) = self \<and>
    hm_get (ms_provider_keys (?run ps)) key =
      (if ps = [] then None else Some (map (offered_record (?run []) now key) ps)) \<and>
    (ps = [] \<longrightarrow> ms_provider_keys (?run ps) = [])"
    if "list_all (\<lambda>p. cp_peer p \<noteq> self) ps"
      and "sorted_wrt (<) (map (\<lambda>p. key_distance (key_from_peer K (cp_peer p)) (key_new K key)) ps)" for ps
    using that
  proof (induction ps rule: rev_induct)
    case Nil
    then show ?case by (simp add: store_with_config_def)
  next
    case (snoc p ps)
    let ?o = "offered_record (?run []) now key"
    note IH = snoc.IH [OF _ sorted_wrt_append [THEN iffD1, OF snoc.prems(2) [unfolded map_append], THEN conjunct1]]
    have ih: "ms_config (?run ps) = c" "ms_local_peer_id (?run ps) = self"
      "hm_get (ms_provider_keys (?run ps)) key = (if ps = [] then None else Some (map ?o ps))"
      "ps = [] \<longrightarrow> ms_provider_keys (?run ps) = []"
      using IH snoc.prems(1) by auto
    have o: "offered_record (?run ps) now key p = ?o p"
      using ih by (simp add: offered_record_def store_with_config_def)
    have "\<forall>r \<in> set (map ?o ps). provider_distance K r < provider_distance K (?o p)"
      using snoc.prems(2) by (auto simp: sorted_wrt_append provider_distance_def offered_record_def)
    then have ins: "insert_provider K 0 (?o p) (map ?o ps) = (True, map ?o ps @ [?o p])" if "ps \<noteq> []"
      using that by (intro insert_provider_zero) auto
    have put: "store_put_provider K (?run ps) now key p =
      (True, (?run ps)\<lparr>ms_provider_keys := hm_insert key (map ?o ps @ [?o p]) (ms_provider_keys (?run ps))\<rparr>)"
    proof (cases "ps = []")
      case True
      with ih c o snoc.prems(1) show ?thesis
        by (simp add: store_put_provider_def Let_def offered_record_def)
    next
      case False
      with ih c o snoc.prems(1) ins [OF False] show ?thesis
        by (simp add: store_put_provider_def Let_def offered_record_def)
    qed
    then have "?run (ps @ [p]) =
      (?run ps)\<lparr>ms_provider_keys := hm_insert key (map ?o ps @ [?o p]) (ms_provider_keys (?run ps))\<rparr>"
      by simp
    then show ?case using ih by simp
  qed
  from this [OF remote order] ne have
    "hm_get (ms_provider_keys (?run providers)) key = Some (map (offered_record (?run []) now key) providers)"
    by simp
  then show ?thesis by (simp add: offered_record_def comp_def)
qed

end
