(* ===== verification/Kad_Message.thy ===== *)
theory Kad_Message
  imports Kad_Store
begin

section \<open>The messages of Kademlia\<close>

text \<open>
  \<open>src/protocol/libp2p/kademlia/message.rs\<close> over the messages of
  \<open>src/protocol/libp2p/schema/kademlia.proto\<close>. The wire format of protobuf is that of the \<open>prost\<close>
  crate: \<open>message_codec\<close> is its encoder and decoder, and \<open>message_codec_ok\<close> what is relied on.
\<close>

record schema_record =
  sr_key :: "u8 list"
  sr_value :: "u8 list"
  sr_time_received :: string
  sr_publisher :: "u8 list"
  sr_ttl :: nat

record schema_message =
  sm_type :: i32
  sm_cluster_level_raw :: i32
  sm_key :: "u8 list"
  sm_record :: "schema_record option"
  sm_closer_peers :: "schema_peer list"
  sm_provider_peers :: "schema_peer list"

definition schema_message_default :: schema_message where
  "schema_message_default = \<lparr>sm_type = 0, sm_cluster_level_raw = 0, sm_key = [], sm_record = None,
     sm_closer_peers = [], sm_provider_peers = []\<rparr>"

definition PUT_VALUE :: i32 where "PUT_VALUE = 0"
definition GET_VALUE :: i32 where "GET_VALUE = 1"
definition ADD_PROVIDER :: i32 where "ADD_PROVIDER = 2"
definition GET_PROVIDERS :: i32 where "GET_PROVIDERS = 3"
definition FIND_NODE :: i32 where "FIND_NODE = 4"

lemmas message_types = PUT_VALUE_def GET_VALUE_def ADD_PROVIDER_def GET_PROVIDERS_def FIND_NODE_def

record message_codec =
  mc_encode :: "schema_message \<Rightarrow> u8 list"
  mc_decode :: "u8 list \<Rightarrow> schema_message option"

datatype kad_message =
    MsgFindNode "u8 list" "kademlia_peer list"
  | MsgPutValue kad_record
  | MsgGetRecord "record_key option" "kad_record option" "kademlia_peer list"
  | MsgAddProvider record_key "kademlia_peer list"
  | MsgGetProviders "record_key option" "kademlia_peer list" "kademlia_peer list"

definition u32_max :: nat where
  "u32_max = 2 ^ 32 - 1"

definition record_to_schema :: "kad_env \<Rightarrow> instant \<Rightarrow> kad_record \<Rightarrow> schema_record" where
  "record_to_schema K now r =
     \<lparr>sr_key = rec_key r, sr_value = rec_value r, sr_time_received = [],
      sr_publisher = (case rec_publisher r of Some p \<Rightarrow> peer_id_to_bytes (ke_multihash K) p | None \<Rightarrow> []),
      sr_ttl = (case rec_expires r of
          Some expires \<Rightarrow>
            if now < expires then
              (if as_secs (expires - now) \<le> u32_max then as_secs (expires - now) else u32_max)
            else 1
        | None \<Rightarrow> 0)\<rparr>"

definition record_from_schema :: "kad_env \<Rightarrow> instant \<Rightarrow> schema_record \<Rightarrow> kad_record option" where
  "record_from_schema K now r =
     (let expires = (if 0 < sr_ttl r then Some (now + secs (sr_ttl r)) else None)
      in if sr_publisher r \<noteq> [] then
           (case peer_id_from_bytes (ke_multihash K) (sr_publisher r) of
              Inl _ \<Rightarrow> None
            | Inr p \<Rightarrow> Some \<lparr>rec_key = sr_key r, rec_value = sr_value r, rec_publisher = Some p, rec_expires = expires\<rparr>)
         else Some \<lparr>rec_key = sr_key r, rec_value = sr_value r, rec_publisher = None, rec_expires = expires\<rparr>)"

subsection \<open>Building messages\<close>

definition msg_find_node :: "message_codec \<Rightarrow> u8 list \<Rightarrow> u8 list" where
  "msg_find_node W key =
     mc_encode W (schema_message_default\<lparr>sm_key := key, sm_type := FIND_NODE, sm_cluster_level_raw := 10\<rparr>)"

definition msg_put_value :: "message_codec \<Rightarrow> kad_env \<Rightarrow> instant \<Rightarrow> kad_record \<Rightarrow> u8 list" where
  "msg_put_value W K now r =
     mc_encode W (schema_message_default\<lparr>sm_key := rec_key r, sm_type := PUT_VALUE,
       sm_record := Some (record_to_schema K now r), sm_cluster_level_raw := 10\<rparr>)"

definition msg_get_record :: "message_codec \<Rightarrow> record_key \<Rightarrow> u8 list" where
  "msg_get_record W key =
     mc_encode W (schema_message_default\<lparr>sm_key := key, sm_type := GET_VALUE, sm_cluster_level_raw := 10\<rparr>)"

definition msg_find_node_response :: "message_codec \<Rightarrow> kad_env \<Rightarrow> u8 list \<Rightarrow> kademlia_peer list \<Rightarrow> u8 list" where
  "msg_find_node_response W K key peers =
     mc_encode W (schema_message_default\<lparr>sm_key := key, sm_cluster_level_raw := 10, sm_type := FIND_NODE,
       sm_closer_peers := map (kademlia_peer_into_schema K) peers\<rparr>)"

definition msg_put_value_response :: "message_codec \<Rightarrow> record_key \<Rightarrow> u8 list \<Rightarrow> u8 list" where
  "msg_put_value_response W key value =
     mc_encode W (schema_message_default\<lparr>sm_key := key, sm_cluster_level_raw := 10, sm_type := PUT_VALUE,
       sm_record := Some \<lparr>sr_key = key, sr_value = value, sr_time_received = [], sr_publisher = [], sr_ttl = 0\<rparr>\<rparr>)"

definition msg_get_value_response ::
  "message_codec \<Rightarrow> kad_env \<Rightarrow> instant \<Rightarrow> record_key \<Rightarrow> kademlia_peer list \<Rightarrow> kad_record option \<Rightarrow> u8 list" where
  "msg_get_value_response W K now key peers r =
     mc_encode W (schema_message_default\<lparr>sm_key := key, sm_cluster_level_raw := 10, sm_type := GET_VALUE,
       sm_closer_peers := map (kademlia_peer_into_schema K) peers,
       sm_record := map_option (record_to_schema K now) r\<rparr>)"

definition msg_add_provider :: "message_codec \<Rightarrow> kad_env \<Rightarrow> record_key \<Rightarrow> content_provider \<Rightarrow> u8 list" where
  "msg_add_provider W K provided_key provider =
     (let peer = kademlia_peer_new K (cp_peer provider) (cp_addresses provider) CanConnect
      in mc_encode W (schema_message_default\<lparr>sm_key := provided_key, sm_cluster_level_raw := 10,
           sm_type := ADD_PROVIDER, sm_provider_peers := [kademlia_peer_into_schema K peer]\<rparr>))"

definition msg_get_providers_request :: "message_codec \<Rightarrow> record_key \<Rightarrow> u8 list" where
  "msg_get_providers_request W key =
     mc_encode W (schema_message_default\<lparr>sm_key := key, sm_cluster_level_raw := 10, sm_type := GET_PROVIDERS\<rparr>)"

definition msg_get_providers_response ::
  "message_codec \<Rightarrow> kad_env \<Rightarrow> content_provider list \<Rightarrow> kademlia_peer list \<Rightarrow> u8 list" where
  "msg_get_providers_response W K providers closer_peers =
     (let provider_peers = map (\<lambda>p. kademlia_peer_into_schema K
            (kademlia_peer_new K (cp_peer p) (cp_addresses p) NotConnected)) providers
      in mc_encode W (schema_message_default\<lparr>sm_cluster_level_raw := 10, sm_type := GET_PROVIDERS,
           sm_closer_peers := map (kademlia_peer_into_schema K) closer_peers,
           sm_provider_peers := provider_peers\<rparr>))"

subsection \<open>Reading messages\<close>

definition readable_peers :: "kad_env \<Rightarrow> usize \<Rightarrow> schema_peer list \<Rightarrow> kademlia_peer list" where
  "readable_peers K replication_factor peers =
     take replication_factor
       (List.map_filter (\<lambda>p. case kademlia_peer_try_from K p of Inr q \<Rightarrow> Some q | Inl _ \<Rightarrow> None) peers)"

definition kad_message_from_bytes ::
  "message_codec \<Rightarrow> kad_env \<Rightarrow> instant \<Rightarrow> u8 list \<Rightarrow> usize \<Rightarrow> kad_message option" where
  "kad_message_from_bytes W K now bytes replication_factor =
     (case mc_decode W bytes of
        None \<Rightarrow> None
      | Some m \<Rightarrow>
          if sm_type m = 4 then
            Some (MsgFindNode (sm_key m) (readable_peers K replication_factor (sm_closer_peers m)))
          else if sm_type m = 0 then
            (case sm_record m of
               None \<Rightarrow> None
             | Some r \<Rightarrow> map_option MsgPutValue (record_from_schema K now r))
          else if sm_type m = 1 then
            let key = (if sm_key m = [] then
                         (case sm_record m of
                            None \<Rightarrow> None
                          | Some r \<Rightarrow> if sr_key r \<noteq> [] then Some (sr_key r) else None)
                       else Some (sm_key m));
                peers = readable_peers K replication_factor (sm_closer_peers m)
            in (case sm_record m of
                  None \<Rightarrow> Some (MsgGetRecord key None peers)
                | Some r \<Rightarrow> map_option (\<lambda>r. MsgGetRecord key (Some r) peers) (record_from_schema K now r))
          else if sm_type m = 2 then
            (if sm_key m \<noteq> []
             then Some (MsgAddProvider (sm_key m) (readable_peers K replication_factor (sm_provider_peers m)))
             else None)
          else if sm_type m = 3 then
            Some (MsgGetProviders (if sm_key m \<noteq> [] then Some (sm_key m) else None)
              (readable_peers K replication_factor (sm_closer_peers m))
              (readable_peers K replication_factor (sm_provider_peers m)))
          else None)"

definition retain_closer_peers :: "kad_env \<Rightarrow> kademlia_peer list \<Rightarrow> kademlia_peer list" where
  "retain_closer_peers K peers =
     filter (\<lambda>p. \<not> address_store_is_empty (kp_address_store p)) (map (retain_global_addresses K) peers)"

fun msg_retain_global_addresses :: "kad_env \<Rightarrow> kad_message \<Rightarrow> kad_message" where
  "msg_retain_global_addresses K (MsgFindNode target peers) = MsgFindNode target (retain_closer_peers K peers)"
| "msg_retain_global_addresses K (MsgGetRecord key r peers) = MsgGetRecord key r (retain_closer_peers K peers)"
| "msg_retain_global_addresses K (MsgGetProviders key peers providers) =
     MsgGetProviders key (retain_closer_peers K peers) (map (retain_global_addresses K) providers)"
| "msg_retain_global_addresses K (MsgAddProvider key providers) =
     MsgAddProvider key (map (retain_global_addresses K) providers)"
| "msg_retain_global_addresses K (MsgPutValue r) = MsgPutValue r"

subsection \<open>What the recipient reads\<close>

text \<open>
  What is relied on of other crates: a protobuf message is decoded to what was encoded, and the binary
  form of a multihash is not empty.
\<close>

definition message_codec_ok :: "message_codec \<Rightarrow> kad_env \<Rightarrow> bool" where
  "message_codec_ok W K \<longleftrightarrow> kad_env_ok K \<and> (\<forall>m. mc_decode W (mc_encode W m) = Some m) \<and>
     (\<forall>m. mh_to_bytes (ke_multihash K) m \<noteq> [])"

lemma message_codec_okD:
  assumes "message_codec_ok W K"
  shows "kad_env_ok K" "mc_decode W (mc_encode W m) = Some m"
    "mh_to_bytes (ke_multihash K) h \<noteq> []"
  using assms by (simp_all add: message_codec_ok_def)

lemma readable_peers_reread:
  assumes K: "kad_env_ok K" and ids: "list_all (\<lambda>p. peer_id_ok (kp_peer p)) peers"
  shows "readable_peers K n (map (kademlia_peer_into_schema K) peers) = take n (map (reread_peer K) peers)"
proof -
  have "List.map_filter (\<lambda>p. case kademlia_peer_try_from K p of Inr q \<Rightarrow> Some q | Inl _ \<Rightarrow> None)
      (map (kademlia_peer_into_schema K) peers) = map (reread_peer K) peers"
    using ids by (induction peers) (simp_all add: List.map_filter_def schema_peer_reread [OF K])
  then show ?thesis by (simp add: readable_peers_def)
qed

text \<open>The expiration time the recipient computes at \<open>now'\<close> for a record sent at \<open>now\<close>.\<close>

definition reread_expiry :: "instant \<Rightarrow> instant \<Rightarrow> instant option \<Rightarrow> instant option" where
  "reread_expiry now now' expires =
     (case expires of
        None \<Rightarrow> None
      | Some t \<Rightarrow>
          if t \<le> now then Some (now' + secs 1)
          else if t < now + secs 1 then None
          else Some (now' + secs (min u32_max (as_secs (t - now)))))"

lemma record_reread:
  assumes W: "message_codec_ok W K" and p: "pred_option peer_id_ok (rec_publisher r)"
  shows "record_from_schema K now' (record_to_schema K now r) =
    Some (r\<lparr>rec_expires := reread_expiry now now' (rec_expires r)\<rparr>)"
proof -
  let ?ttl = "sr_ttl (record_to_schema K now r)"
  have ttl: "(if 0 < ?ttl then Some (now' + secs ?ttl) else None) = reread_expiry now now' (rec_expires r)"
    by (auto simp: record_to_schema_def reread_expiry_def as_secs_def secs_def u32_max_def min_def
        split: option.split)
  have fields: "sr_key (record_to_schema K now r) = rec_key r" "sr_value (record_to_schema K now r) = rec_value r"
    by (simp_all add: record_to_schema_def)
  show ?thesis
  proof (cases "rec_publisher r")
    case None
    then have "sr_publisher (record_to_schema K now r) = []" by (simp add: record_to_schema_def)
    with None show ?thesis unfolding record_from_schema_def ttl Let_def by (simp add: fields)
  next
    case (Some q)
    then have "peer_id_from_bytes (ke_multihash K) (peer_id_to_bytes (ke_multihash K) q) = Inr q"
      using p peer_id_bytes_roundtrip [OF kad_env_okD(2) [OF message_codec_okD(1) [OF W]]] by simp
    moreover have "peer_id_to_bytes (ke_multihash K) q \<noteq> []"
      using message_codec_okD(3) [OF W] by (simp add: peer_id_to_bytes_def)
    moreover have "sr_publisher (record_to_schema K now r) = peer_id_to_bytes (ke_multihash K) q"
      using Some by (simp add: record_to_schema_def)
    ultimately show ?thesis
      using Some unfolding record_from_schema_def ttl Let_def by (simp add: fields)
  qed
qed

subsection \<open>A concrete codec\<close>

instance schema_peer_ext :: (countable) countable
proof (rule countable_classI [of "\<lambda>m. to_nat (sp_id m, sp_addrs m, sp_connection m, schema_peer.more m)"])
  fix m m' :: "'a schema_peer_ext"
  assume "to_nat (sp_id m, sp_addrs m, sp_connection m, schema_peer.more m) =
    to_nat (sp_id m', sp_addrs m', sp_connection m', schema_peer.more m')"
  then show "m = m'" by (intro schema_peer.equality) simp_all
qed

instance schema_record_ext :: (countable) countable
proof (rule countable_classI
    [of "\<lambda>m. to_nat (sr_key m, sr_value m, sr_time_received m, sr_publisher m, sr_ttl m, schema_record.more m)"])
  fix m m' :: "'a schema_record_ext"
  assume "to_nat (sr_key m, sr_value m, sr_time_received m, sr_publisher m, sr_ttl m, schema_record.more m) =
    to_nat (sr_key m', sr_value m', sr_time_received m', sr_publisher m', sr_ttl m', schema_record.more m')"
  then show "m = m'" by (intro schema_record.equality) simp_all
qed

instance schema_message_ext :: (countable) countable
proof (rule countable_classI
    [of "\<lambda>m. to_nat (sm_type m, sm_cluster_level_raw m, sm_key m, sm_record m, sm_closer_peers m,
       sm_provider_peers m, schema_message.more m)"])
  fix m m' :: "'a schema_message_ext"
  assume "to_nat (sm_type m, sm_cluster_level_raw m, sm_key m, sm_record m, sm_closer_peers m,
       sm_provider_peers m, schema_message.more m) =
    to_nat (sm_type m', sm_cluster_level_raw m', sm_key m', sm_record m', sm_closer_peers m',
       sm_provider_peers m', schema_message.more m')"
  then show "m = m'" by (intro schema_message.equality) simp_all
qed

definition example_codec :: message_codec where
  "example_codec = \<lparr>mc_encode = (\<lambda>m. replicate (to_nat m) 0), mc_decode = (\<lambda>b. Some (from_nat (length b)))\<rparr>"

lemma example_codec_ok [simp]: "message_codec_ok example_codec example_kad_env"
proof -
  have "mh_to_bytes (ke_multihash example_kad_env) m \<noteq> []" for m
    by (simp add: example_kad_env_def)
  then show ?thesis by (simp add: message_codec_ok_def) (simp add: example_codec_def)
qed

subsection \<open>Properties\<close>

lemmas message_defs = msg_find_node_def msg_put_value_def msg_get_record_def msg_find_node_response_def
  msg_put_value_response_def msg_get_value_response_def msg_add_provider_def msg_get_providers_request_def
  msg_get_providers_response_def



text \<open>
  A record that expires in less than a second is sent with a time to live of zero, which the
  recipient reads as a record that never expires.
\<close>

lemma record_expiry_lost:
  assumes W: "message_codec_ok W K" and r: "pred_option peer_id_ok (rec_publisher r)"
    and t: "rec_expires r = Some t" "now < t" "t < now + secs 1"
  shows "\<exists>r'. kad_message_from_bytes W K now' (msg_put_value W K now r) n = Some (MsgPutValue r') \<and>
    rec_key r' = rec_key r \<and> (\<forall>later. \<not> record_is_expired r' later)"
proof -
  have "reread_expiry now now' (rec_expires r) = None" using t by (simp add: reread_expiry_def)
  with record_reread [OF W r] show ?thesis
    by (simp add: kad_message_from_bytes_def message_defs message_codec_okD(2) [OF W] schema_message_default_def
        message_types record_is_expired_def)
qed

end
