(* ===== verification/Kad_Query.thy ===== *)
theory Kad_Query
  imports Kad_Message
begin

section \<open>Iterative queries\<close>

text \<open>
  What the \<open>FIND_NODE\<close>, \<open>GET_VALUE\<close> and \<open>GET_PROVIDERS\<close> queries of
  \<open>src/protocol/libp2p/kademlia/query\<close> have in common. Each keeps the peers it may contact
  (\<open>candidates\<close>, ordered by distance from the target), those it waits for (\<open>pending\<close>) and those that
  answered or failed (\<open>queried\<close>). The locale \<open>iterative_query\<close> is the contract of one such query over a
  view of its state; the three contexts are shown to meet it. It gives that no peer is asked twice,
  that a query never waits for nobody, and that a query all of whose requests are answered or fail
  comes to an end.
\<close>

type_synonym query_id = usize

datatype query_action =
    SendMessage query_id peer_id "u8 list"
  | FindNodeQuerySucceeded query_id peer_id "kademlia_peer list"
  | PutRecordToFoundNodes query_id kad_record "kademlia_peer list" quorum
  | PutRecordQuerySucceeded query_id record_key
  | AddProviderToFoundNodes query_id record_key content_provider "kademlia_peer list" quorum
  | AddProviderQuerySucceeded query_id record_key
  | GetRecordQueryDone query_id
  | GetRecordPartialResult query_id peer_record
  | GetProvidersQueryDone query_id record_key "content_provider list"
  | QuerySucceeded query_id
  | QueryFailed query_id

text \<open>Peers ordered by their distance from a target, as the constructors of the contexts build them.\<close>

type_synonym peer_map = "(distance, kademlia_peer) btree_map"

definition insert_peers :: "'a kad_key \<Rightarrow> kademlia_peer list \<Rightarrow> peer_map \<Rightarrow> peer_map" where
  "insert_peers target peers candidates =
     foldl (\<lambda>m p. bt_insert (key_distance target (kp_key p)) p m) candidates peers"

text \<open>The new peers of a response that are neither queried, nor pending, nor the local node.\<close>

definition to_query_candidate ::
  "peer_id \<Rightarrow> peer_id set \<Rightarrow> peer_id set \<Rightarrow> kademlia_peer list \<Rightarrow> kademlia_peer list" where
  "to_query_candidate local_peer_id queried pending peers =
     filter (\<lambda>p. kp_peer p \<notin> queried \<and> kp_peer p \<notin> pending \<and> local_peer_id \<noteq> kp_peer p) peers"

subsection \<open>Runs of a query\<close>

text \<open>
  What can happen to a query: the engine polls it, a response arrives from a peer, or a request fails.
  \<open>query_run\<close> gives the peers that were sent the request, in order, the peers whose response was taken,
  the other actions, and the state reached.
\<close>

datatype 'r query_event = Poll instant | Response peer_id 'r | Failure peer_id

fun query_run ::
  "(instant \<Rightarrow> 's \<Rightarrow> query_action option \<times> 's) \<Rightarrow> (peer_id \<Rightarrow> 'r \<Rightarrow> 's \<Rightarrow> kademlia_peer option \<times> 's) \<Rightarrow>
   (peer_id \<Rightarrow> 's \<Rightarrow> 's) \<Rightarrow> 's \<Rightarrow> 'r query_event list \<Rightarrow> peer_id list \<times> kademlia_peer list \<times> query_action list \<times> 's" where
  "query_run poll respond fail s [] = ([], [], [], s)"
| "query_run poll respond fail s (Poll now # es) =
     (let (a, s') = poll now s; (sent, heard, acts, t) = query_run poll respond fail s' es
      in case a of
           Some (SendMessage q p m) \<Rightarrow> (p # sent, heard, acts, t)
         | Some b \<Rightarrow> (sent, heard, b # acts, t)
         | None \<Rightarrow> (sent, heard, acts, t))"
| "query_run poll respond fail s (Response p r # es) =
     (let (a, s') = respond p r s; (sent, heard, acts, t) = query_run poll respond fail s' es
      in (sent, (case a of Some q \<Rightarrow> q # heard | None \<Rightarrow> heard), acts, t))"
| "query_run poll respond fail s (Failure p # es) =
     (let (sent, heard, acts, t) = query_run poll respond fail (fail p s) es in (sent, heard, acts, t))"

lemma query_run_PollD:
  assumes "query_run poll respond fail s (Poll now # es) = (sent, heard, acts, t)" and "poll now s = (a, s')"
  shows "\<exists>sent' acts'. query_run poll respond fail s' es = (sent', heard, acts', t) \<and>
    acts = (case a of Some b \<Rightarrow> (case b of SendMessage _ _ _ \<Rightarrow> acts' | _ \<Rightarrow> b # acts') | None \<Rightarrow> acts')"
proof -
  obtain sent' heard' acts' t' where r: "query_run poll respond fail s' es = (sent', heard', acts', t')"
    by (metis prod_cases4)
  show ?thesis
  proof (cases a)
    case None
    then show ?thesis using assms r by simp
  next
    case (Some b)
    then show ?thesis using assms r by (cases b) simp_all
  qed
qed

text \<open>
  A driver that polls the query until it finishes: when the query waits, the answer \<open>answer s\<close> to an
  outstanding request is delivered. Running out of fuel is \<open>None\<close>.
\<close>

fun query_drive ::
  "(instant \<Rightarrow> 's \<Rightarrow> query_action option \<times> 's) \<Rightarrow> (peer_id \<Rightarrow> 'r \<Rightarrow> 's \<Rightarrow> kademlia_peer option \<times> 's) \<Rightarrow>
   (peer_id \<Rightarrow> 's \<Rightarrow> 's) \<Rightarrow> ('s \<Rightarrow> peer_id \<times> 'r option) \<Rightarrow> (nat \<Rightarrow> instant) \<Rightarrow> nat \<Rightarrow> 's \<Rightarrow> (query_action \<times> 's) option" where
  "query_drive poll respond fail answer clock 0 s = None"
| "query_drive poll respond fail answer clock (Suc n) s =
     (case poll (clock n) s of
        (None, s') \<Rightarrow>
          (case answer s' of
             (p, Some r) \<Rightarrow> query_drive poll respond fail answer clock n (snd (respond p r s'))
           | (p, None) \<Rightarrow> query_drive poll respond fail answer clock n (fail p s'))
      | (Some (SendMessage _ _ _), s') \<Rightarrow> query_drive poll respond fail answer clock n s'
      | (Some (GetRecordPartialResult _ _), s') \<Rightarrow> query_drive poll respond fail answer clock n s'
      | (Some a, s') \<Rightarrow> Some (a, s'))"

subsection \<open>The contract of an iterative query\<close>

record query_view =
  qv_candidates :: "peer_id set"
  qv_pending :: "peer_id set"
  qv_queried :: "peer_id set"
  qv_queue :: nat

fun is_send :: "query_action option \<Rightarrow> bool" where
  "is_send (Some (SendMessage _ _ _)) = True"
| "is_send _ = False"

fun is_partial :: "query_action option \<Rightarrow> bool" where
  "is_partial (Some (GetRecordPartialResult _ _)) = True"
| "is_partial _ = False"

fun event_peers :: "('r \<Rightarrow> peer_id set) \<Rightarrow> 'r query_event \<Rightarrow> peer_id set" where
  "event_peers named (Response _ r) = named r"
| "event_peers named _ = {}"

fun event_ok :: "('r \<Rightarrow> bool) \<Rightarrow> 'r query_event \<Rightarrow> bool" where
  "event_ok ok (Response _ r) = ok r"
| "event_ok ok _ = True"

locale iterative_query =
  fixes poll :: "instant \<Rightarrow> 's \<Rightarrow> query_action option \<times> 's"
    and respond :: "peer_id \<Rightarrow> 'r \<Rightarrow> 's \<Rightarrow> kademlia_peer option \<times> 's"
    and fail :: "peer_id \<Rightarrow> 's \<Rightarrow> 's"
    and view :: "'s \<Rightarrow> query_view"
    and invar :: "'s \<Rightarrow> bool"
    and resp_ok :: "'r \<Rightarrow> bool"
    and named :: "'r \<Rightarrow> peer_id set"
  assumes disjoint: "invar s \<Longrightarrow>
      qv_candidates (view s) \<inter> (qv_pending (view s) \<union> qv_queried (view s)) = {} \<and>
      qv_pending (view s) \<inter> qv_queried (view s) = {} \<and> finite (qv_pending (view s))"
    and poll_send: "invar s \<Longrightarrow> poll now s = (Some (SendMessage q p m), s') \<Longrightarrow>
      invar s' \<and> p \<in> qv_candidates (view s) \<and>
      view s' = (view s)\<lparr>qv_candidates := qv_candidates (view s) - {p}, qv_pending := insert p (qv_pending (view s))\<rparr>"
    and poll_partial: "invar s \<Longrightarrow> poll now s = (Some (GetRecordPartialResult q pr), s') \<Longrightarrow>
      invar s' \<and> 0 < qv_queue (view s) \<and> view s' = (view s)\<lparr>qv_queue := qv_queue (view s) - 1\<rparr>"
    and poll_other: "invar s \<Longrightarrow> poll now s = (act, s') \<Longrightarrow> \<not> is_send act \<Longrightarrow> \<not> is_partial act \<Longrightarrow>
      invar s' \<and> view s' = view s"
    and poll_waits: "invar s \<Longrightarrow> poll now s = (None, s') \<Longrightarrow> qv_pending (view s) \<noteq> {}"
    and respond_known: "invar s \<Longrightarrow> resp_ok r \<Longrightarrow> p \<in> qv_pending (view s) \<Longrightarrow> respond p r s = (a, s') \<Longrightarrow>
      invar s' \<and> (\<exists>k. a = Some k \<and> kp_peer k = p) \<and>
      qv_candidates (view s') \<subseteq> qv_candidates (view s) \<union> named r \<and>
      qv_pending (view s') = qv_pending (view s) - {p} \<and>
      qv_queried (view s') = insert p (qv_queried (view s)) \<and> qv_queue (view s') \<le> Suc (qv_queue (view s))"
    and respond_unknown: "invar s \<Longrightarrow> p \<notin> qv_pending (view s) \<Longrightarrow> respond p r s = (None, s)"
    and fail_known: "invar s \<Longrightarrow> p \<in> qv_pending (view s) \<Longrightarrow>
      invar (fail p s) \<and> view (fail p s) =
        (view s)\<lparr>qv_pending := qv_pending (view s) - {p}, qv_queried := insert p (qv_queried (view s))\<rparr>"
    and fail_unknown: "invar s \<Longrightarrow> p \<notin> qv_pending (view s) \<Longrightarrow> fail p s = s"
begin

abbreviation asked :: "'s \<Rightarrow> peer_id set" where
  "asked s \<equiv> qv_pending (view s) \<union> qv_queried (view s)"

abbreviation run :: "'s \<Rightarrow> 'r query_event list \<Rightarrow> peer_id list \<times> kademlia_peer list \<times> query_action list \<times> 's" where
  "run \<equiv> query_run poll respond fail"

lemma respond_asked:
  assumes "invar s" and "resp_ok r" and "respond p r s = (a, s')"
  shows "invar s'" "asked s' = asked s"
    "qv_candidates (view s') \<subseteq> qv_candidates (view s) \<union> named r"
    "a = Some k \<Longrightarrow> kp_peer k = p \<and> p \<in> qv_pending (view s) \<and> qv_queried (view s') = insert p (qv_queried (view s))"
    "a = None \<Longrightarrow> s' = s" "qv_queried (view s) \<subseteq> qv_queried (view s')"
  using respond_known [OF assms(1,2) _ assms(3)] respond_unknown [OF assms(1), of p r] assms
  by (cases "p \<in> qv_pending (view s)"; auto)+

lemma fail_asked:
  assumes "invar s"
  shows "invar (fail p s)" "asked (fail p s) = asked s" "qv_candidates (view (fail p s)) = qv_candidates (view s)"
    "qv_queried (view s) \<subseteq> qv_queried (view (fail p s))"
  using fail_known [OF assms, of p] fail_unknown [OF assms, of p] assms
  by (cases "p \<in> qv_pending (view s)"; auto)+

lemma poll_asked:
  assumes "invar s" and "poll now s = (a, s')" and "\<not> is_send a"
  shows "invar s'" "asked s' = asked s" "qv_candidates (view s') = qv_candidates (view s)"
    "qv_queried (view s') = qv_queried (view s)"
proof -
  have "invar s' \<and> (\<exists>n. view s' = (view s)\<lparr>qv_queue := n\<rparr>)"
  proof (cases "is_partial a")
    case True
    then obtain q pr where "a = Some (GetRecordPartialResult q pr)" by (cases a rule: is_partial.cases) auto
    then show ?thesis using poll_partial [OF assms(1)] assms(2) by blast
  next
    case False
    then have "invar s' \<and> view s' = view s" using poll_other [OF assms] by simp
    moreover have "view s = (view s)\<lparr>qv_queue := qv_queue (view s)\<rparr>" by simp
    ultimately show ?thesis by metis
  qed
  then show "invar s'" "asked s' = asked s" "qv_candidates (view s') = qv_candidates (view s)"
    "qv_queried (view s') = qv_queried (view s)"
    by auto
qed

text \<open>No peer is sent the request twice, and only peers that were candidates or named in a response.\<close>

lemma run_sound:
  assumes "invar s" and "list_all (event_ok resp_ok) es" and "run s es = (sent, heard, acts, t)"
  shows "invar t \<and> distinct sent \<and> set sent \<inter> asked s = {} \<and> asked t = asked s \<union> set sent \<and>
    set sent \<union> qv_candidates (view t) \<subseteq> qv_candidates (view s) \<union> (\<Union>e \<in> set es. event_peers named e)"
  using assms
proof (induction es arbitrary: s sent heard acts t)
  case Nil
  then show ?case by simp
next
  case (Cons e es)
  show ?case
  proof (cases e)
    case (Poll now)
    obtain a s' where a: "poll now s = (a, s')" by fastforce
    obtain sent' heard' acts' t' where r: "run s' es = (sent', heard', acts', t')" by (metis prod_cases4)
    show ?thesis
    proof (cases "is_send a")
      case True
      then obtain q p m where am: "a = Some (SendMessage q p m)" by (cases a rule: is_send.cases) auto
      note st = poll_send [OF Cons.prems(1) a [unfolded am]]
      have eq: "sent = p # sent'" "t = t'" using Cons.prems(3) Poll a r am by simp_all
      have ih: "invar t' \<and> distinct sent' \<and> set sent' \<inter> asked s' = {} \<and> asked t' = asked s' \<union> set sent' \<and>
          set sent' \<union> qv_candidates (view t') \<subseteq> qv_candidates (view s') \<union> (\<Union>e \<in> set es. event_peers named e)"
        using Cons.IH [OF _ _ r] st Cons.prems(2) by simp
      have "p \<notin> asked s" using disjoint [OF Cons.prems(1)] st by blast
      with ih st eq show ?thesis by auto
    next
      case False
      note st = poll_asked [OF Cons.prems(1) a False]
      have eq: "sent = sent'" "t = t'"
        using Cons.prems(3) Poll a r False by (cases a rule: is_send.cases; simp)+
      show ?thesis using Cons.IH [OF st(1) _ r] st Cons.prems(2) eq Poll by simp
    qed
  next
    case (Response p x)
    obtain a s' where a: "respond p x s = (a, s')" by fastforce
    obtain sent' heard' acts' t' where r: "run s' es = (sent', heard', acts', t')" by (metis prod_cases4)
    have x: "resp_ok x" using Cons.prems(2) Response by simp
    note st = respond_asked [OF Cons.prems(1) x a]
    have "sent = sent'" "t = t'" using Cons.prems(3) Response a r by simp_all
    then show ?thesis using Cons.IH [OF st(1) _ r] st(2,3) Cons.prems(2) Response by auto
  next
    case (Failure p)
    obtain sent' heard' acts' t' where r: "run (fail p s) es = (sent', heard', acts', t')" by (metis prod_cases4)
    note st = fail_asked [OF Cons.prems(1), of p]
    have "sent = sent'" "t = t'" using Cons.prems(3) Failure r by simp_all
    then show ?thesis using Cons.IH [OF st(1) _ r] st Cons.prems(2) Failure by auto
  qed
qed

text \<open>Each response that is taken comes from another peer, which was sent the request.\<close>

lemma run_heard:
  assumes "invar s" and "list_all (event_ok resp_ok) es" and "run s es = (sent, heard, acts, t)"
  shows "distinct (map kp_peer heard) \<and> kp_peer ` set heard \<inter> qv_queried (view s) = {} \<and>
    kp_peer ` set heard \<subseteq> qv_pending (view s) \<union> set sent"
  using assms
proof (induction es arbitrary: s sent heard acts t)
  case Nil
  then show ?case by simp
next
  case (Cons e es)
  show ?case
  proof (cases e)
    case (Poll now)
    obtain a s' where a: "poll now s = (a, s')" by fastforce
    obtain sent' acts' where r: "run s' es = (sent', heard, acts', t)"
      using query_run_PollD [OF Cons.prems(3) [unfolded Poll] a] by blast
    show ?thesis
    proof (cases "is_send a")
      case True
      then obtain q p m where am: "a = Some (SendMessage q p m)" by (cases a rule: is_send.cases) auto
      note st = poll_send [OF Cons.prems(1) a [unfolded am]]
      have "sent = p # sent'" using Cons.prems(3) Poll a r am by simp
      then show ?thesis using Cons.IH [OF _ _ r] st Cons.prems(2) by auto
    next
      case False
      note st = poll_asked [OF Cons.prems(1) a False]
      have "sent = sent'" using Cons.prems(3) Poll a r False by (cases a rule: is_send.cases; simp)+
      moreover have "qv_pending (view s') \<subseteq> qv_pending (view s)"
        using st(2,4) disjoint [OF st(1)] by blast
      ultimately show ?thesis using Cons.IH [OF st(1) _ r] st(4) Cons.prems(2) by auto
    qed
  next
    case (Response p x)
    obtain a s' where a: "respond p x s = (a, s')" by fastforce
    obtain sent' heard' acts' t' where r: "run s' es = (sent', heard', acts', t')" by (metis prod_cases4)
    have x: "resp_ok x" using Cons.prems(2) Response by simp
    have eq: "sent = sent'" "heard = (case a of Some q \<Rightarrow> q # heard' | None \<Rightarrow> heard')"
      using Cons.prems(3) Response a r by simp_all
    note st = respond_asked [OF Cons.prems(1) x a]
    have ih: "distinct (map kp_peer heard') \<and> kp_peer ` set heard' \<inter> qv_queried (view s') = {} \<and>
        kp_peer ` set heard' \<subseteq> qv_pending (view s') \<union> set sent'"
      using Cons.IH [OF st(1) _ r] Cons.prems(2) by simp
    show ?thesis
    proof (cases a)
      case None
      then show ?thesis using ih eq st(5) by simp
    next
      case (Some k)
      have k: "kp_peer k = p" "p \<in> qv_pending (view s)" "qv_queried (view s') = insert p (qv_queried (view s))"
        using st(4) [OF Some] by simp_all
      have "qv_pending (view s') \<subseteq> qv_pending (view s)" "p \<notin> qv_queried (view s)"
        using respond_known [OF Cons.prems(1) x k(2) a] disjoint [OF Cons.prems(1)] k(2) by blast+
      then show ?thesis using ih eq Some k by auto
    qed
  next
    case (Failure p)
    obtain sent' heard' acts' t' where r: "run (fail p s) es = (sent', heard', acts', t')" by (metis prod_cases4)
    have eq: "sent = sent'" "heard = heard'" using Cons.prems(3) Failure r by simp_all
    note st = fail_asked [OF Cons.prems(1), of p]
    have "qv_pending (view (fail p s)) \<subseteq> qv_pending (view s)"
      using fail_known [OF Cons.prems(1), of p] fail_unknown [OF Cons.prems(1), of p]
      by (cases "p \<in> qv_pending (view s)") auto
    then show ?thesis using Cons.IH [OF st(1) _ r] st(4) Cons.prems(2) eq by auto
  qed
qed

text \<open>What is left to do: peers not asked yet, requests outstanding, results to hand out.\<close>

definition work :: "peer_id set \<Rightarrow> 's \<Rightarrow> nat" where
  "work U s = 3 * card (U - asked s) + 2 * card (qv_pending (view s)) + qv_queue (view s)"

lemma work_send:
  assumes "invar s" and "poll now s = (Some (SendMessage q p m), s')" and "finite U" and "qv_candidates (view s) \<subseteq> U"
  shows "work U s' < work U s"
proof -
  note st = poll_send [OF assms(1,2)] and d = disjoint [OF assms(1)]
  have p: "p \<in> U - asked s" using st assms(4) d by blast
  have "U - asked s' = (U - asked s) - {p}" using st by auto
  then have "card (U - asked s) = Suc (card (U - asked s'))"
    using p assms(3) by (simp only: card.remove [of "U - asked s"] finite_Diff)
  moreover have "card (qv_pending (view s')) = Suc (card (qv_pending (view s)))"
    using st p d by simp
  ultimately show ?thesis using st by (simp add: work_def)
qed

lemma work_respond:
  assumes "invar s" and "resp_ok r" and "p \<in> qv_pending (view s)" and "respond p r s = (a, s')"
  shows "work U s' < work U s"
proof -
  note st = respond_known [OF assms] and d = disjoint [OF assms(1)]
  then have eq: "qv_pending (view s') = qv_pending (view s) - {p}" "qv_queried (view s') = insert p (qv_queried (view s))"
    and q: "qv_queue (view s') \<le> Suc (qv_queue (view s))" by blast+
  have "asked s' = asked s" using eq assms(3) by auto
  moreover have "card (qv_pending (view s)) = Suc (card (qv_pending (view s')))"
    unfolding eq using assms(3) d by (intro card.remove) simp_all
  ultimately show ?thesis using q by (simp add: work_def)
qed

lemma work_fail:
  assumes "invar s" and "p \<in> qv_pending (view s)"
  shows "work U (fail p s) < work U s"
proof -
  note st = fail_known [OF assms] and d = disjoint [OF assms(1)]
  have "asked (fail p s) = asked s" using st assms(2) by auto
  moreover have "qv_pending (view (fail p s)) = qv_pending (view s) - {p}" using st by simp
  then have "card (qv_pending (view s)) = Suc (card (qv_pending (view (fail p s))))"
    using assms(2) d by (simp only: card.remove [of "qv_pending (view s)" p])
  ultimately show ?thesis using st by (simp add: work_def)
qed

text \<open>A query whose requests are all answered or fail comes to an end.\<close>

lemma drive_terminates:
  assumes "invar s" and U: "finite U" and "qv_candidates (view s) \<subseteq> U" and "work U s < n"
    and answer: "\<And>s p r. invar s \<Longrightarrow> qv_pending (view s) \<noteq> {} \<Longrightarrow> answer s = (p, r) \<Longrightarrow>
      p \<in> qv_pending (view s) \<and> pred_option (\<lambda>r. resp_ok r \<and> named r \<subseteq> U) r"
  shows "\<exists>a t. query_drive poll respond fail answer clock n s = Some (a, t) \<and> \<not> is_send (Some a) \<and> \<not> is_partial (Some a) \<and>
    (\<exists>i s'. invar s' \<and> poll (clock i) s' = (Some a, t))"
  using assms(1,3,4)
proof (induction n arbitrary: s)
  case 0
  then show ?case by simp
next
  case (Suc n)
  obtain a s' where a: "poll (clock n) s = (a, s')" by fastforce
  consider (send) q p m where "a = Some (SendMessage q p m)" | (wait) "a = None"
    | (partial) q r where "a = Some (GetRecordPartialResult q r)"
    | (end_of_query) b where "a = Some b" "\<not> is_send a" "\<not> is_partial a"
    by (cases a rule: is_send.cases) auto
  then show ?case
  proof cases
    case send
    note am = a [unfolded send]
    have "work U s' < n" using work_send [OF Suc.prems(1) am U Suc.prems(2)] Suc.prems(3) by simp
    moreover have "invar s'" "qv_candidates (view s') \<subseteq> U" using poll_send [OF Suc.prems(1) am] Suc.prems(2) by auto
    ultimately show ?thesis using Suc.IH [of s'] am by simp
  next
    case wait
    note am = a [unfolded wait]
    have s': "invar s'" "view s' = view s" using poll_other [OF Suc.prems(1) am] by simp_all
    then have ne: "qv_pending (view s') \<noteq> {}" using poll_waits [OF Suc.prems(1) am] by simp
    obtain p r where ans: "answer s' = (p, r)" by fastforce
    have p: "p \<in> qv_pending (view s')" and r: "pred_option (\<lambda>r. resp_ok r \<and> named r \<subseteq> U) r"
      using answer [OF s'(1) ne ans] by auto
    have w: "work U s' < Suc n" using s' Suc.prems(3) by (simp add: work_def)
    show ?thesis
    proof (cases r)
      case None
      have "invar (fail p s')" "qv_candidates (view (fail p s')) \<subseteq> U"
        using fail_asked [OF s'(1), of p] Suc.prems(2) s'(2) by auto
      moreover have "work U (fail p s') < n" using work_fail [OF s'(1) p, of U] w by simp
      ultimately show ?thesis using Suc.IH [of "fail p s'"] am ans None by simp
    next
      case (Some x)
      obtain b s'' where b: "respond p x s' = (b, s'')" by fastforce
      have x: "resp_ok x" "named x \<subseteq> U" using r Some by simp_all
      have "invar s''" "qv_candidates (view s'') \<subseteq> U"
        using respond_known [OF s'(1) x(1) p b] Suc.prems(2) s'(2) x(2) by auto
      moreover have "work U s'' < n" using work_respond [OF s'(1) x(1) p b, of U] w by simp
      ultimately show ?thesis using Suc.IH [of "s''"] am ans Some b by simp
    qed
  next
    case partial
    note am = a [unfolded partial]
    note st = poll_partial [OF Suc.prems(1) am]
    then have "work U s' = work U s - 1" "0 < work U s" by (simp_all add: work_def)
    then have "work U s' < n" using Suc.prems(3) by linarith
    then show ?thesis using Suc.IH [of s'] st Suc.prems(2) am by simp
  next
    case end_of_query
    then show ?thesis using a Suc.prems(1) by (cases b) auto
  qed
qed

end

subsection \<open>Candidates in order of distance\<close>

definition peer_key_ok :: "kad_env \<Rightarrow> kademlia_peer \<Rightarrow> bool" where
  "peer_key_ok K p \<longleftrightarrow> kp_key p = key_from_peer K (kp_peer p)"

definition map_peers :: "peer_map \<Rightarrow> peer_id set" where
  "map_peers m = (kp_peer \<circ> snd) ` set m"

text \<open>Every entry is filed under its distance, and its peer is not one of the given peers.\<close>

definition peer_map_ok :: "kad_env \<Rightarrow> 'a kad_key \<Rightarrow> peer_id set \<Rightarrow> peer_map \<Rightarrow> bool" where
  "peer_map_ok K target A m \<longleftrightarrow> bt_ok m \<and>
     (\<forall>(d, p) \<in> set m. peer_key_ok K p \<and> d = key_distance target (kp_key p) \<and> kp_peer p \<notin> A)"

lemma map_peers_simps [simp]: "map_peers [] = {}" "map_peers (e # m) = insert (kp_peer (snd e)) (map_peers m)"
  by (simp_all add: map_peers_def)

lemma finite_map_peers [simp]: "finite (map_peers m)"
  by (simp add: map_peers_def)

lemma peer_map_ok_Nil [simp]: "peer_map_ok K target A []"
  by (simp add: peer_map_ok_def)

lemma peer_map_ok_disjoint: "peer_map_ok K target A m \<Longrightarrow> map_peers m \<inter> A = {}"
  by (auto simp: peer_map_ok_def map_peers_def)

lemma peer_map_ok_subset: "peer_map_ok K target A m \<Longrightarrow> A' \<subseteq> A \<Longrightarrow> peer_map_ok K target A' m"
  by (force simp: peer_map_ok_def)

lemma peer_map_ok_insert:
  assumes "peer_map_ok K target A m" and "peer_key_ok K p" and "kp_peer p \<notin> A"
  shows "peer_map_ok K target A (bt_insert (key_distance target (kp_key p)) p m)"
    and "map_peers (bt_insert (key_distance target (kp_key p)) p m) \<subseteq> insert (kp_peer p) (map_peers m)"
  using assms bt_set_insert_subset [of "key_distance target (kp_key p)" p m]
  by (auto simp: peer_map_ok_def map_peers_def)

lemma insert_peers_ok:
  assumes "peer_map_ok K target A m" and "list_all (\<lambda>p. peer_key_ok K p \<and> kp_peer p \<notin> A) ps"
  shows "peer_map_ok K target A (insert_peers target ps m) \<and>
    map_peers (insert_peers target ps m) \<subseteq> map_peers m \<union> kp_peer ` set ps"
  using assms
proof (induction ps arbitrary: m)
  case Nil
  then show ?case by (simp add: insert_peers_def)
next
  case (Cons p ps)
  let ?m = "bt_insert (key_distance target (kp_key p)) p m"
  have "peer_map_ok K target A ?m" "map_peers ?m \<subseteq> insert (kp_peer p) (map_peers m)"
    using peer_map_ok_insert [OF Cons.prems(1), of p] Cons.prems(2) by simp_all
  then show ?case using Cons.IH [of ?m] Cons.prems(2) by (auto simp: insert_peers_def)
qed

lemma insert_peers_keys:
  "bt_keys (insert_peers target ps m) = bt_keys m \<union> (\<lambda>p. key_distance target (kp_key p)) ` set ps"
  by (induction ps arbitrary: m) (simp_all add: insert_peers_def)

lemma insert_peers_Nil_iff: "insert_peers target ps [] = [] \<longleftrightarrow> ps = []"
  using insert_peers_keys [of target ps "[]"] by (auto simp: bt_keys_def insert_peers_def)

lemma peer_map_ok_pop:
  assumes "peer_map_ok K target A ((d, p) # m)"
  shows "kp_peer p \<notin> A" "peer_key_ok K p" "d = key_distance target (kp_key p)"
    "peer_map_ok K target (insert (kp_peer p) A) m" "map_peers ((d, p) # m) - {kp_peer p} = map_peers m"
proof -
  show 1: "kp_peer p \<notin> A" "peer_key_ok K p" "d = key_distance target (kp_key p)"
    using assms by (simp_all add: peer_map_ok_def)
  have "kp_peer q \<noteq> kp_peer p" if "(d', q) \<in> set m" for d' q
  proof
    assume "kp_peer q = kp_peer p"
    then have "d' = d" using that assms 1 by (auto simp: peer_map_ok_def peer_key_ok_def)
    moreover have "d < d'" using that assms by (force simp: peer_map_ok_def bt_ok_Cons)
    ultimately show False by simp
  qed
  then show "peer_map_ok K target (insert (kp_peer p) A) m" "map_peers ((d, p) # m) - {kp_peer p} = map_peers m"
    using assms by (auto simp: peer_map_ok_def bt_ok_Cons map_peers_def)
qed

text \<open>A map of outstanding requests: each peer is filed under its identifier.\<close>

definition pending_ok :: "kad_env \<Rightarrow> ('v \<Rightarrow> kademlia_peer) \<Rightarrow> (peer_id, 'v) hash_map \<Rightarrow> bool" where
  "pending_ok K f m \<longleftrightarrow> hm_ok m \<and> (\<forall>k v. hm_get m k = Some v \<longrightarrow> kp_peer (f v) = k \<and> peer_key_ok K (f v))"

lemma pending_ok_simps [simp, intro]:
  "pending_ok K f []"
  "pending_ok K f m \<Longrightarrow> peer_key_ok K (f v) \<Longrightarrow> kp_peer (f v) = k \<Longrightarrow> pending_ok K f (hm_insert k v m)"
  "pending_ok K f m \<Longrightarrow> pending_ok K f (hm_remove k m)"
  by (auto simp: pending_ok_def)

lemma pending_okD:
  "pending_ok K f m \<Longrightarrow> hm_ok m"
  "pending_ok K f m \<Longrightarrow> hm_get m k = Some v \<Longrightarrow> kp_peer (f v) = k \<and> peer_key_ok K (f v)"
  by (simp_all add: pending_ok_def)

lemma to_query_candidate_ok:
  "list_all (peer_key_ok K) ps \<Longrightarrow>
     list_all (\<lambda>p. peer_key_ok K p \<and> kp_peer p \<notin> {self} \<union> queried \<union> pending)
       (to_query_candidate self queried pending ps) \<and>
     kp_peer ` set (to_query_candidate self queried pending ps) \<subseteq> kp_peer ` set ps"
  by (auto simp: to_query_candidate_def list_all_iff)

subsection \<open>The frontier of a query\<close>

text \<open>
  The outstanding requests, the queried peers and the candidates of a query: the three are disjoint
  and none of them contains the local node.
\<close>

definition frontier_ok :: "kad_env \<Rightarrow> ('v \<Rightarrow> kademlia_peer) \<Rightarrow> 'a kad_key \<Rightarrow> peer_id \<Rightarrow>
    (peer_id, 'v) hash_map \<Rightarrow> peer_id set \<Rightarrow> peer_map \<Rightarrow> bool" where
  "frontier_ok K f target self pending queried candidates \<longleftrightarrow>
     pending_ok K f pending \<and> hm_keys pending \<inter> insert self queried = {} \<and>
     peer_map_ok K target (insert self (hm_keys pending \<union> queried)) candidates"

definition frontier_view ::
  "peer_id \<Rightarrow> (peer_id, 'v) hash_map \<Rightarrow> peer_id set \<Rightarrow> peer_map \<Rightarrow> nat \<Rightarrow> query_view" where
  "frontier_view self pending queried candidates queue =
     \<lparr>qv_candidates = map_peers candidates, qv_pending = hm_keys pending,
      qv_queried = insert self queried, qv_queue = queue\<rparr>"

lemma frontier_okD:
  assumes "frontier_ok K f target self pending queried candidates"
  shows "pending_ok K f pending" "hm_ok pending" "hm_keys pending \<inter> insert self queried = {}"
    "peer_map_ok K target (insert self (hm_keys pending \<union> queried)) candidates"
  using assms by (simp_all add: frontier_ok_def pending_ok_def)

lemma frontier_init:
  assumes "list_all (\<lambda>p. peer_key_ok K p \<and> kp_peer p \<noteq> self) peers"
  shows "frontier_ok K f target self [] {} (insert_peers target peers [])"
    "map_peers (insert_peers target peers []) \<subseteq> kp_peer ` set peers"
  using insert_peers_ok [of K target "{self}" "[]" peers] assms by (simp_all add: frontier_ok_def hm_keys_def)

lemma frontier_disjoint:
  assumes "frontier_ok K f target self pending queried candidates"
  shows "map_peers candidates \<inter> (hm_keys pending \<union> insert self queried) = {} \<and>
    hm_keys pending \<inter> insert self queried = {} \<and> finite (hm_keys pending)"
  using frontier_okD(3) [OF assms] peer_map_ok_disjoint [OF frontier_okD(4) [OF assms]] by auto

lemma frontier_answered:
  assumes ok: "frontier_ok K f target self pending queried candidates" and v: "hm_get pending peer = Some v"
  shows "kp_peer (f v) = peer" "peer_key_ok K (f v)" "peer \<in> hm_keys pending"
    "hm_keys (hm_remove peer pending) \<union> insert peer queried = hm_keys pending \<union> queried"
    "length (hm_remove peer pending) = length pending - 1"
    "frontier_ok K f target self (hm_remove peer pending) (insert peer queried) candidates"
proof -
  note d = frontier_okD [OF ok]
  show "kp_peer (f v) = peer" "peer_key_ok K (f v)" using pending_okD(2) [OF d(1) v] by simp_all
  show k: "peer \<in> hm_keys pending" using v by (simp add: hm_keys_iff)
  show u: "hm_keys (hm_remove peer pending) \<union> insert peer queried = hm_keys pending \<union> queried"
    using k by auto
  show "length (hm_remove peer pending) = length pending - 1" using v d(2) by (simp add: hm_len_remove)
  have "hm_keys (hm_remove peer pending) \<inter> insert self (insert peer queried) = {}" using d(3) by auto
  then show "frontier_ok K f target self (hm_remove peer pending) (insert peer queried) candidates"
    using d(1,4) unfolding frontier_ok_def u by auto
qed

lemma frontier_response:
  assumes ok: "frontier_ok K f target self pending queried candidates"
    and peers: "list_all (peer_key_ok K) peers"
    and new: "new = to_query_candidate self queried (hm_keys pending) peers"
  shows "frontier_ok K f target self pending queried (insert_peers target new candidates)"
    "map_peers (insert_peers target new candidates) \<subseteq> map_peers candidates \<union> kp_peer ` set peers"
proof -
  note d = frontier_okD [OF ok]
  have A: "insert self (hm_keys pending \<union> queried) = {self} \<union> queried \<union> hm_keys pending" by auto
  have n: "list_all (\<lambda>p. peer_key_ok K p \<and> kp_peer p \<notin> insert self (hm_keys pending \<union> queried)) new"
    "kp_peer ` set new \<subseteq> kp_peer ` set peers"
    using to_query_candidate_ok [OF peers, of self queried "hm_keys pending"] unfolding A new by blast+
  note i = insert_peers_ok [OF d(4) n(1)]
  show "frontier_ok K f target self pending queried (insert_peers target new candidates)"
    using i d(1,3) by (simp add: frontier_ok_def)
  show "map_peers (insert_peers target new candidates) \<subseteq> map_peers candidates \<union> kp_peer ` set peers"
    using i n(2) by blast
qed

lemma frontier_schedule:
  assumes ok: "frontier_ok K f target self pending queried ((d, p) # rest)" and v: "f v = p"
  shows "hm_get pending (kp_peer p) = None" "d = key_distance target (kp_key p)"
    "map_peers rest = map_peers ((d, p) # rest) - {kp_peer p}"
    "length (hm_insert (kp_peer p) v pending) = Suc (length pending)"
    "frontier_ok K f target self (hm_insert (kp_peer p) v pending) queried rest"
proof -
  note fd = frontier_okD [OF ok]
  note pop = peer_map_ok_pop [OF fd(4)]
  have new: "kp_peer p \<notin> hm_keys pending" using pop(1) by simp
  then show none: "hm_get pending (kp_peer p) = None" by (simp add: hm_keys_iff)
  show "d = key_distance target (kp_key p)" "map_peers rest = map_peers ((d, p) # rest) - {kp_peer p}"
    using pop(3,5) by simp_all
  show "length (hm_insert (kp_peer p) v pending) = Suc (length pending)" using none fd(2) by (simp add: hm_len_insert)
  have A: "insert (kp_peer p) (insert self (hm_keys pending \<union> queried)) =
      insert self (hm_keys (hm_insert (kp_peer p) v pending) \<union> queried)" by auto
  have "hm_keys (hm_insert (kp_peer p) v pending) \<inter> insert self queried = {}" using fd(3) pop(1) by auto
  moreover have "pending_ok K f (hm_insert (kp_peer p) v pending)" using fd(1) pop(2) v by auto
  ultimately show "frontier_ok K f target self (hm_insert (kp_peer p) v pending) queried rest"
    using pop(4) unfolding frontier_ok_def A by blast
qed

end
