(* ===== verification/Kad_Find_Node.thy ===== *)
theory Kad_Find_Node
  imports Kad_Query
begin

section \<open>FIND_NODE queries\<close>

text \<open>
  \<open>src/protocol/libp2p/kademlia/query/find_node.rs\<close>. The query asks the closest candidates it knows,
  a bounded number of them at a time, and keeps the closest peers that answered. The type parameter
  is that of the target's preimage; \<open>into_bytes\<close> is its conversion to bytes.
\<close>

record 'a find_node_config =
  fnc_local_peer_id :: peer_id
  fnc_replication_factor :: usize
  fnc_parallelism_factor :: usize
  fnc_query :: query_id
  fnc_target :: "'a kad_key"

record 'a find_node_context =
  fn_config :: "'a find_node_config"
  fn_kad_message :: "u8 list"
  fn_pending :: "(peer_id, kademlia_peer \<times> instant) hash_map"
  fn_queried :: "peer_id set"
  fn_candidates :: peer_map
  fn_responses :: peer_map
  fn_peer_timeout :: duration
  fn_pending_responses :: usize

definition DEFAULT_PEER_TIMEOUT :: duration where
  "DEFAULT_PEER_TIMEOUT = secs 10"

definition find_node_new ::
  "message_codec \<Rightarrow> ('a \<Rightarrow> u8 list) \<Rightarrow> 'a find_node_config \<Rightarrow> kademlia_peer list \<Rightarrow> 'a find_node_context" where
  "find_node_new W into_bytes config in_peers =
     \<lparr>fn_config = config, fn_kad_message = msg_find_node W (into_bytes (key_preimage (fnc_target config))),
      fn_pending = [], fn_queried = {}, fn_candidates = insert_peers (fnc_target config) in_peers [],
      fn_responses = [], fn_peer_timeout = DEFAULT_PEER_TIMEOUT, fn_pending_responses = 0\<rparr>"

definition fn_register_response_failure :: "peer_id \<Rightarrow> 'a find_node_context \<Rightarrow> 'a find_node_context" where
  "fn_register_response_failure peer c =
     (case hm_get (fn_pending c) peer of
        None \<Rightarrow> c
      | Some (p, _) \<Rightarrow>
          c\<lparr>fn_pending := hm_remove peer (fn_pending c), fn_pending_responses := fn_pending_responses c - 1,
            fn_queried := insert (kp_peer p) (fn_queried c)\<rparr>)"

text \<open>The response map after \<open>peer\<close> at \<open>distance\<close> answered.\<close>

definition fn_insert_response :: "usize \<Rightarrow> distance \<Rightarrow> kademlia_peer \<Rightarrow> peer_map \<Rightarrow> peer_map" where
  "fn_insert_response replication_factor distance peer responses =
     (if length responses < replication_factor then bt_insert distance peer responses
      else
        let furthest_distance = (case bt_last responses of Some (d, _) \<Rightarrow> d | None \<Rightarrow> distance)
        in if distance < furthest_distance then
             let responses' = bt_insert distance peer responses
             in if replication_factor < length responses' then bt_pop_last responses' else responses'
           else responses)"

definition fn_register_response ::
  "peer_id \<Rightarrow> kademlia_peer list \<Rightarrow> 'a find_node_context \<Rightarrow> kademlia_peer option \<times> 'a find_node_context" where
  "fn_register_response peer peers c =
     (case hm_get (fn_pending c) peer of
        None \<Rightarrow> (None, c)
      | Some (p, _) \<Rightarrow>
          let config = fn_config c;
              pending = hm_remove peer (fn_pending c);
              queried = insert (kp_peer p) (fn_queried c);
              responses = fn_insert_response (fnc_replication_factor config)
                (key_distance (fnc_target config) (kp_key p)) p (fn_responses c);
              new = to_query_candidate (fnc_local_peer_id config) queried (hm_keys pending) peers
          in (Some p,
              c\<lparr>fn_pending := pending, fn_pending_responses := fn_pending_responses c - 1,
                fn_queried := queried, fn_responses := responses,
                fn_candidates := insert_peers (fnc_target config) new (fn_candidates c)\<rparr>))"

definition fn_next_peer_action :: "'a find_node_context \<Rightarrow> peer_id \<Rightarrow> query_action option" where
  "fn_next_peer_action c peer =
     (if hm_get (fn_pending c) peer \<noteq> None
      then Some (SendMessage (fnc_query (fn_config c)) peer (fn_kad_message c)) else None)"

definition fn_schedule_next_peer ::
  "instant \<Rightarrow> 'a find_node_context \<Rightarrow> query_action option \<times> 'a find_node_context" where
  "fn_schedule_next_peer now c =
     (case bt_pop_first (fn_candidates c) of
        None \<Rightarrow> (None, c)
      | Some ((_, candidate), rest) \<Rightarrow>
          (Some (SendMessage (fnc_query (fn_config c)) (kp_peer candidate) (fn_kad_message c)),
           c\<lparr>fn_candidates := rest, fn_pending := hm_insert (kp_peer candidate) (candidate, now) (fn_pending c),
             fn_pending_responses := min usize_max (fn_pending_responses c + 1)\<rparr>))"

definition fn_is_done :: "'a find_node_context \<Rightarrow> bool" where
  "fn_is_done c \<longleftrightarrow> fn_pending c = [] \<and> fn_candidates c = []"

text \<open>The loop over the outstanding requests: each that is too old stops counting.\<close>

definition fn_discount_slow :: "instant \<Rightarrow> 'a find_node_context \<Rightarrow> 'a find_node_context" where
  "fn_discount_slow now c =
     c\<lparr>fn_pending_responses :=
         foldl (\<lambda>n (_, _, t). if fn_peer_timeout c < now - t then n - 1 else n) (fn_pending_responses c) (fn_pending c)\<rparr>"

definition fn_next_action ::
  "instant \<Rightarrow> 'a find_node_context \<Rightarrow> query_action option \<times> 'a find_node_context" where
  "fn_next_action now c0 =
     (let query = fnc_query (fn_config c0)
      in if fn_is_done c0 then
           (Some (if fn_responses c0 = [] then QueryFailed query else QuerySucceeded query), c0)
         else
           let c = fn_discount_slow now c0
           in if fn_pending_responses c = fnc_parallelism_factor (fn_config c) then (None, c)
              else if length (fn_responses c) < fnc_replication_factor (fn_config c) then fn_schedule_next_peer now c
              else
                case (bt_first (fn_candidates c), bt_last (fn_responses c)) of
                  (Some (_, candidate), Some (worst, _)) \<Rightarrow>
                    if key_distance (fnc_target (fn_config c)) (kp_key candidate) < worst
                    then fn_schedule_next_peer now c else (Some (QuerySucceeded query), c)
                | _ \<Rightarrow> (Some (QuerySucceeded query), c))"

subsection \<open>The invariant\<close>

definition fn_ok :: "kad_env \<Rightarrow> 'a find_node_context \<Rightarrow> bool" where
  "fn_ok K c \<longleftrightarrow>
     frontier_ok K fst (fnc_target (fn_config c)) (fnc_local_peer_id (fn_config c))
       (fn_pending c) (fn_queried c) (fn_candidates c) \<and>
     fn_pending_responses c \<le> length (fn_pending c) \<and>
     fn_pending_responses c \<le> fnc_parallelism_factor (fn_config c) \<and> 0 < fnc_parallelism_factor (fn_config c)"

definition fn_view :: "'a find_node_context \<Rightarrow> query_view" where
  "fn_view c = frontier_view (fnc_local_peer_id (fn_config c)) (fn_pending c) (fn_queried c) (fn_candidates c) 0"

lemmas fn_view_simps = fn_view_def frontier_view_def

lemma fn_okD:
  assumes "fn_ok K c"
  shows "frontier_ok K fst (fnc_target (fn_config c)) (fnc_local_peer_id (fn_config c))
      (fn_pending c) (fn_queried c) (fn_candidates c)"
    "fn_pending_responses c \<le> length (fn_pending c)"
    "fn_pending_responses c \<le> fnc_parallelism_factor (fn_config c)" "0 < fnc_parallelism_factor (fn_config c)"
  using assms by (simp_all add: fn_ok_def)

lemma find_node_new_ok:
  assumes "list_all (\<lambda>p. peer_key_ok K p \<and> kp_peer p \<noteq> fnc_local_peer_id config) in_peers"
    and "0 < fnc_parallelism_factor config"
  shows "fn_ok K (find_node_new W into_bytes config in_peers)"
  using frontier_init(1) [OF assms(1)] assms(2) by (simp add: fn_ok_def find_node_new_def)

lemma fn_register_response_failure_known:
  assumes ok: "fn_ok K c" and v: "hm_get (fn_pending c) peer \<noteq> None"
  shows "fn_ok K (fn_register_response_failure peer c) \<and> fn_view (fn_register_response_failure peer c) =
    (fn_view c)\<lparr>qv_pending := qv_pending (fn_view c) - {peer}, qv_queried := insert peer (qv_queried (fn_view c))\<rparr>"
proof -
  obtain p t where v': "hm_get (fn_pending c) peer = Some (p, t)" using v by auto
  note d = fn_okD [OF ok]
  note a = frontier_answered [OF d(1) v']
  have "fn_register_response_failure peer c = c\<lparr>fn_pending := hm_remove peer (fn_pending c),
      fn_pending_responses := fn_pending_responses c - 1, fn_queried := insert peer (fn_queried c)\<rparr>"
    using v' a(1) by (simp add: fn_register_response_failure_def)
  then show ?thesis
    using a(5,6) d(4) diff_le_mono [OF d(2), of 1] le_trans [OF diff_le_self d(3), of 1]
    by (simp add: fn_ok_def fn_view_simps insert_commute)
qed

lemma fn_register_response_known:
  assumes ok: "fn_ok K c" and v: "hm_get (fn_pending c) peer \<noteq> None" and peers: "list_all (peer_key_ok K) peers"
    and r: "fn_register_response peer peers c = (a, c')"
  shows "fn_ok K c' \<and> (\<exists>k. a = Some k \<and> kp_peer k = peer) \<and>
    qv_candidates (fn_view c') \<subseteq> qv_candidates (fn_view c) \<union> kp_peer ` set peers \<and>
    qv_pending (fn_view c') = qv_pending (fn_view c) - {peer} \<and>
    qv_queried (fn_view c') = insert peer (qv_queried (fn_view c)) \<and> qv_queue (fn_view c') \<le> Suc (qv_queue (fn_view c))"
proof -
  obtain p t where v': "hm_get (fn_pending c) peer = Some (p, t)" using v by auto
  note d = fn_okD [OF ok]
  note an = frontier_answered [OF d(1) v']
  let ?conf = "fn_config c" and ?pend = "hm_remove peer (fn_pending c)" and ?q = "insert peer (fn_queried c)"
  define new where "new = to_query_candidate (fnc_local_peer_id ?conf) ?q (hm_keys ?pend) peers"
  note cand = frontier_response [OF an(6) peers new_def]
  have eq: "a = Some p" "c' = c\<lparr>fn_pending := ?pend, fn_pending_responses := fn_pending_responses c - 1,
      fn_queried := ?q, fn_responses := fn_insert_response (fnc_replication_factor ?conf)
        (key_distance (fnc_target ?conf) (kp_key p)) p (fn_responses c),
      fn_candidates := insert_peers (fnc_target ?conf) new (fn_candidates c)\<rparr>"
    using r v' an(1) by (simp_all add: fn_register_response_def Let_def new_def)
  have "fn_ok K c'"
    using cand(1) an(5) d(4) diff_le_mono [OF d(2), of 1] le_trans [OF diff_le_self d(3), of 1]
    by (simp add: fn_ok_def eq(2))
  then show ?thesis using an(1) eq(1) cand(2) by (simp add: eq(2) fn_view_simps insert_commute)
qed

lemma fn_register_unknown:
  "hm_get (fn_pending c) peer = None \<Longrightarrow>
     fn_register_response peer peers c = (None, c) \<and> fn_register_response_failure peer c = c"
  by (simp add: fn_register_response_def fn_register_response_failure_def)

lemma foldl_discount_le: "foldl (\<lambda>n (_, _, t). if P t then n - 1 else n) n xs \<le> (n::nat)"
proof (induction xs arbitrary: n)
  case (Cons x xs)
  show ?case using Cons [of n] Cons [of "n - 1"] by (cases x) (auto intro: le_trans)
qed simp

lemma fn_discount_slow_ok:
  assumes "fn_ok K c"
  shows "fn_ok K (fn_discount_slow now c)" "fn_view (fn_discount_slow now c) = fn_view c"
proof -
  have "fn_pending_responses (fn_discount_slow now c) \<le> fn_pending_responses c"
    by (simp add: fn_discount_slow_def foldl_discount_le)
  then show "fn_ok K (fn_discount_slow now c)"
    using assms by (simp add: fn_ok_def fn_discount_slow_def)
  show "fn_view (fn_discount_slow now c) = fn_view c" by (simp add: fn_view_simps fn_discount_slow_def)
qed

lemma fn_schedule_next_peer_ok:
  assumes ok: "fn_ok K c" and lt: "fn_pending_responses c < fnc_parallelism_factor (fn_config c)"
    and r: "fn_schedule_next_peer now c = (Some a, c')"
  shows "\<exists>p m. a = SendMessage (fnc_query (fn_config c)) p m \<and> fn_ok K c' \<and> p \<in> qv_candidates (fn_view c) \<and>
    fn_view c' = (fn_view c)\<lparr>qv_candidates := qv_candidates (fn_view c) - {p}, qv_pending := insert p (qv_pending (fn_view c))\<rparr>"
proof -
  note d = fn_okD [OF ok]
  obtain dist p rest where cand: "fn_candidates c = (dist, p) # rest"
    using r by (cases "fn_candidates c") (auto simp: fn_schedule_next_peer_def)
  note s = frontier_schedule [OF d(1) [unfolded cand], of "(p, now)", simplified]
  have eq: "a = SendMessage (fnc_query (fn_config c)) (kp_peer p) (fn_kad_message c)"
    "c' = c\<lparr>fn_candidates := rest, fn_pending := hm_insert (kp_peer p) (p, now) (fn_pending c),
      fn_pending_responses := min usize_max (fn_pending_responses c + 1)\<rparr>"
    using r by (simp_all add: fn_schedule_next_peer_def cand)
  have "fn_ok K c'" using d s(4,5) lt by (auto simp: fn_ok_def eq min_def)
  then show ?thesis using s(3) by (simp add: eq fn_view_simps cand)
qed

text \<open>What a poll of an unfinished query does.\<close>

lemma fn_next_action_cases:
  assumes "fn_next_action now c0 = (a, c')"
  obtains (finished) "fn_is_done c0" "c' = c0"
      "a = Some (if fn_responses c0 = [] then QueryFailed (fnc_query (fn_config c0)) else QuerySucceeded (fnc_query (fn_config c0)))"
  | (full) "\<not> fn_is_done c0" "c' = fn_discount_slow now c0" "a = None"
      "fn_pending_responses c' = fnc_parallelism_factor (fn_config c')"
  | (schedule) "\<not> fn_is_done c0"
      "fn_pending_responses (fn_discount_slow now c0) \<noteq> fnc_parallelism_factor (fn_config c0)"
      "fn_schedule_next_peer now (fn_discount_slow now c0) = (a, c')"
  | (enough) "\<not> fn_is_done c0" "c' = fn_discount_slow now c0" "a = Some (QuerySucceeded (fnc_query (fn_config c0)))"
      "fnc_replication_factor (fn_config c0) \<le> length (fn_responses c0)"
      "\<And>d p rest w q rs. fn_candidates c0 = (d, p) # rest \<Longrightarrow> fn_responses c0 = rs @ [(w, q)] \<Longrightarrow>
        w \<le> key_distance (fnc_target (fn_config c0)) (kp_key p)"
proof -
  have frame: "fn_config (fn_discount_slow now c0) = fn_config c0" "fn_responses (fn_discount_slow now c0) = fn_responses c0"
    "fn_candidates (fn_discount_slow now c0) = fn_candidates c0"
    by (simp_all add: fn_discount_slow_def)
  consider "fn_is_done c0" | "\<not> fn_is_done c0" "fn_pending_responses (fn_discount_slow now c0) = fnc_parallelism_factor (fn_config c0)"
    | "\<not> fn_is_done c0" "fn_pending_responses (fn_discount_slow now c0) \<noteq> fnc_parallelism_factor (fn_config c0)"
    by blast
  then show thesis
  proof cases
    case 1
    then show ?thesis using assms by (intro finished) (auto simp: fn_next_action_def Let_def)
  next
    case 2
    then show ?thesis using assms by (intro full) (auto simp: fn_next_action_def Let_def frame)
  next
    case 3
    show ?thesis
    proof (cases "fn_schedule_next_peer now (fn_discount_slow now c0) = (a, c')")
      case True
      then show ?thesis using 3 by (rule schedule [rotated 2])
    next
      case False
      then show ?thesis using assms 3
        by (intro enough)
          (auto simp: fn_next_action_def Let_def frame bt_first_def bt_last_def split: if_splits option.splits list.splits)
    qed
  qed
qed

lemma fn_discount_slow_config [simp]: "fn_config (fn_discount_slow now c) = fn_config c"
  by (simp add: fn_discount_slow_def)

lemma fn_discount_slow_less:
  assumes "fn_ok K c" and "fn_pending_responses (fn_discount_slow now c) \<noteq> fnc_parallelism_factor (fn_config c)"
  shows "fn_pending_responses (fn_discount_slow now c) < fnc_parallelism_factor (fn_config (fn_discount_slow now c))"
  using fn_okD(3) [OF fn_discount_slow_ok(1) [OF assms(1)]] assms(2) by (metis fn_discount_slow_config le_neq_implies_less)

lemma fn_poll_send:
  assumes ok: "fn_ok K s" and a: "fn_next_action now s = (Some (SendMessage q p m), s')"
  shows "fn_ok K s' \<and> p \<in> qv_candidates (fn_view s) \<and> fn_view s' =
      (fn_view s)\<lparr>qv_candidates := qv_candidates (fn_view s) - {p}, qv_pending := insert p (qv_pending (fn_view s))\<rparr>"
  using a
proof (cases rule: fn_next_action_cases)
  case schedule
  note slow = fn_discount_slow_ok [OF ok, of now]
  show ?thesis
    using fn_schedule_next_peer_ok [OF slow(1) fn_discount_slow_less [OF ok schedule(2)] schedule(3)]
    unfolding slow(2) by auto
qed (auto split: if_splits)

lemma fn_poll_other:
  assumes ok: "fn_ok K s" and a: "fn_next_action now s = (a, s')" and n: "\<not> is_send a"
  shows "fn_ok K s' \<and> fn_view s' = fn_view s \<and> \<not> is_partial a"
  using a
proof (cases rule: fn_next_action_cases)
  case schedule
  note slow = fn_discount_slow_ok [OF ok, of now]
  show ?thesis
  proof (cases a)
    case None
    then show ?thesis using schedule(3) slow by (auto simp: fn_schedule_next_peer_def split: option.splits)
  next
    case (Some b)
    then show ?thesis
      using fn_schedule_next_peer_ok [OF slow(1) fn_discount_slow_less [OF ok schedule(2)]] schedule(3) n by fastforce
  qed
qed (use ok fn_discount_slow_ok [OF ok, of now] in auto)

lemma fn_poll_waits:
  assumes ok: "fn_ok K s" and a: "fn_next_action now s = (None, s')"
  shows "qv_pending (fn_view s) \<noteq> {}"
  using a
proof (cases rule: fn_next_action_cases)
  case full
  have "fn_pending s' = fn_pending s" using full(2) by (simp add: fn_discount_slow_def)
  moreover have "0 < length (fn_pending s')"
    using fn_okD(2,4) [OF fn_discount_slow_ok(1) [OF ok, of now], folded full(2)] full(4) by linarith
  ultimately show ?thesis by (auto simp: fn_view_simps hm_keys_def)
next
  case schedule
  then have "fn_candidates s = []"
    by (cases "fn_candidates s") (auto simp: fn_schedule_next_peer_def fn_discount_slow_def)
  then show ?thesis using schedule(1) by (auto simp: fn_is_done_def fn_view_simps hm_keys_def)
qed auto

lemma fn_view_disjoint:
  assumes ok: "fn_ok K s"
  shows "qv_candidates (fn_view s) \<inter> (qv_pending (fn_view s) \<union> qv_queried (fn_view s)) = {} \<and>
      qv_pending (fn_view s) \<inter> qv_queried (fn_view s) = {} \<and> finite (qv_pending (fn_view s))"
  using frontier_disjoint [OF fn_okD(1) [OF ok]] by (simp add: fn_view_simps)

lemma fn_pending_iff: "p \<in> qv_pending (fn_view s) \<longleftrightarrow> hm_get (fn_pending s) p \<noteq> None"
  by (simp add: fn_view_simps hm_keys_iff)

interpretation fnq: iterative_query fn_next_action fn_register_response fn_register_response_failure fn_view
  "fn_ok K" "list_all (peer_key_ok K)" "\<lambda>ps. kp_peer ` set ps" for K
proof (unfold_locales, goal_cases)
  case 1
  then show ?case by (rule fn_view_disjoint)
next
  case 2
  then show ?case by (rule fn_poll_send)
next
  case 3
  then show ?case using fn_poll_other by force
next
  case 4
  then show ?case using fn_poll_other by blast
next
  case 5
  then show ?case by (rule fn_poll_waits)
next
  case 6
  then show ?case unfolding fn_pending_iff using fn_register_response_known by blast
next
  case 7
  then show ?case unfolding fn_pending_iff not_not using fn_register_unknown by blast
next
  case 8
  then show ?case unfolding fn_pending_iff by (rule fn_register_response_failure_known)
next
  case 9
  then show ?case unfolding fn_pending_iff not_not using fn_register_unknown by blast
qed

subsection \<open>The closest responses\<close>

text \<open>The map holds the \<open>k\<close> smallest of the distances \<open>S\<close>.\<close>

definition best_responses :: "usize \<Rightarrow> distance set \<Rightarrow> peer_map \<Rightarrow> bool" where
  "best_responses k S m \<longleftrightarrow> bt_ok m \<and> bt_keys m \<subseteq> S \<and> length m = min k (card S) \<and>
     (\<forall>x \<in> bt_keys m. \<forall>y \<in> S - bt_keys m. x < y)"

lemma bt_keys_butlast:
  assumes ok: "bt_ok m" and f: "f \<in> bt_keys m" and max: "\<And>x. x \<in> bt_keys m \<Longrightarrow> x \<le> f"
  shows "bt_keys (butlast m) = bt_keys m - {f}"
proof -
  obtain e where e: "m = butlast m @ [e]" using f by (cases m rule: rev_cases) (auto simp: bt_keys_def)
  have keys: "bt_keys m = insert (fst e) (bt_keys (butlast m))" by (subst e) (simp add: bt_keys_def)
  have lt: "x < fst e" if "x \<in> bt_keys (butlast m)" for x
    using ok that by (subst (asm) e) (auto simp: bt_ok_append bt_keys_def)
  have "fst e = f" using max [of "fst e"] f lt [of f] unfolding keys by auto
  then show ?thesis using keys lt by auto
qed

lemma best_responses_take:
  assumes "finite S" and "best_responses k S m"
  shows "map fst m = take k (sorted_list_of_set S)"
proof -
  let ?ks = "map fst m" and ?rest = "sorted_list_of_set (S - bt_keys m)"
  have m: "sorted_wrt (<) ?ks" "set ?ks \<subseteq> S" "length ?ks = min k (card S)"
    "\<forall>x \<in> set ?ks. \<forall>y \<in> S - set ?ks. x < y"
    using assms(2) by (simp_all add: best_responses_def bt_ok_def bt_keys_def)
  have "sorted_wrt (<) (?ks @ ?rest)"
    using m(1,4) assms(1) by (auto simp: sorted_wrt_append bt_keys_def)
  moreover have "set (?ks @ ?rest) = S" using m(2) assms(1) by (auto simp: bt_keys_def)
  ultimately have eq: "sorted_list_of_set S = ?ks @ ?rest"
    by (metis sorted_list_of_set.idem_if_sorted_distinct strict_sorted_iff)
  show ?thesis
  proof (cases "k \<le> card S")
    case True
    then show ?thesis using m(3) eq by simp
  next
    case False
    then have "length ?ks = length (sorted_list_of_set S)" using m(3) by simp
    then have "?rest = []" by (simp add: eq)
    then show ?thesis using eq False m(3) by simp
  qed
qed

lemma best_responses_insert:
  assumes S: "finite S" and b: "best_responses k S m"
  shows "best_responses k (insert d S) (fn_insert_response k d p m)"
proof -
  have bt: "bt_ok m" and sub: "bt_keys m \<subseteq> S" and len: "length m = min k (card S)"
    and low: "\<And>x y. x \<in> bt_keys m \<Longrightarrow> y \<in> S - bt_keys m \<Longrightarrow> x < y"
    using b by (auto simp: best_responses_def)
  note card = bt_len_keys [OF bt]
  show ?thesis
  proof (cases "length m < k")
    case True
    then have "card (bt_keys m) = card S" using len card by simp
    then have eq: "bt_keys m = S" using card_subset_eq [OF S sub] by simp
    have "card (insert d S) \<le> k" using True card eq by (simp add: card_insert_if S)
    then show ?thesis
      using True bt eq bt_len_keys [OF bt_ok_insert [OF bt]]
      by (simp add: best_responses_def fn_insert_response_def min_absorb2)
  next
    case False
    then have k: "length m = k" "k \<le> card S" using len by auto
    then have k': "k \<le> card (insert d S)" using S by (metis card_insert_le le_trans)
    show ?thesis
    proof (cases "bt_last m")
      case None
      then have "m = []" by (simp add: bt_last_def last_opt_def split: if_splits)
      then show ?thesis using k bt by (simp add: best_responses_def fn_insert_response_def bt_last_def bt_keys_def)
    next
      case (Some fq)
      obtain f q where fq: "fq = (f, q)" by fastforce
      then obtain ms where ms: "m = ms @ [(f, q)]" using Some by (auto simp: bt_last_def dest!: last_opt_SomeD)
      have f: "f \<in> bt_keys m" by (simp add: ms bt_keys_def)
      have le: "x \<le> f" if "x \<in> bt_keys m" for x
        using that bt_last_max [OF bt Some [unfolded fq]] by (auto simp: bt_keys_def)
      show ?thesis
      proof (cases "d < f")
        case False
        have "fn_insert_response k d p m = m"
          using False Some fq k by (simp add: fn_insert_response_def)
        moreover have "x < y" if "x \<in> bt_keys m" "y \<in> insert d S - bt_keys m" for x y
        proof (cases "y = d")
          case True
          have "x \<le> d" using le [OF that(1)] False by (meson not_less order_trans)
          moreover have "x \<noteq> d" using that True by blast
          ultimately show ?thesis using True by simp
        next
          case False
          then show ?thesis using that low by blast
        qed
        ultimately show ?thesis using bt sub k k' by (auto simp: best_responses_def)
      next
        case True
        show ?thesis
        proof (cases "d \<in> bt_keys m")
          case in_m: True
          have "fn_insert_response k d p m = bt_insert d p m"
            using True Some fq k in_m bt by (simp add: fn_insert_response_def Let_def bt_len_insert)
          moreover have "insert d S = S" "insert d (bt_keys m) = bt_keys m" using in_m sub by auto
          ultimately show ?thesis
            using b in_m bt by (simp add: best_responses_def bt_len_insert)
        next
          case out: False
          let ?m = "bt_insert d p m"
          have len': "length ?m = Suc k" using out bt k by (simp add: bt_len_insert)
          have eq: "fn_insert_response k d p m = butlast ?m"
            using True Some fq k len' by (simp add: fn_insert_response_def Let_def bt_pop_last_def)
          have ok: "bt_ok ?m" using bt by (rule bt_ok_insert)
          have "x \<le> f" if "x \<in> bt_keys ?m" for x using that le True by auto
          then have keys: "bt_keys (butlast ?m) = insert d (bt_keys m) - {f}"
            using bt_keys_butlast [OF ok, of f] f by simp
          have low': "x < y" if "x \<in> bt_keys (butlast ?m)" "y \<in> insert d S - bt_keys (butlast ?m)" for x y
          proof -
            have "x = d \<or> x \<in> bt_keys m \<and> x \<noteq> f" using that(1) unfolding keys by blast
            then have x: "x < f" using True le [of x] by auto
            have "y = f \<or> y \<in> S - bt_keys m" using that(2) unfolding keys by blast
            then show ?thesis using x low [OF f, of y] by auto
          qed
          have "length (butlast ?m) = k" using len' by simp
          then show ?thesis
            unfolding eq best_responses_def using ok sub k' low' keys
            by (intro conjI ballI) (auto simp: min_absorb1)
        qed
      qed
    qed
  qed
qed

lemma fn_insert_response_subset: "set (fn_insert_response k d p m) \<subseteq> insert (d, p) (set m)"
  using bt_set_insert_subset [of d p m] in_set_butlastD [of _ "bt_insert d p m"]
  by (auto simp: fn_insert_response_def Let_def bt_pop_last_def)

lemma fn_next_action_frame:
  assumes "fn_next_action now c = (a, c')"
  shows "fn_responses c' = fn_responses c" "fn_config c' = fn_config c"
  using assms
  by (cases rule: fn_next_action_cases;
      auto simp: fn_discount_slow_def fn_schedule_next_peer_def split: option.splits)+

lemma fn_register_response_frame:
  assumes "fn_register_response peer peers c = (a, c')"
  shows "fn_config c' = fn_config c"
    "fn_responses c' = (case a of None \<Rightarrow> fn_responses c
       | Some p \<Rightarrow> fn_insert_response (fnc_replication_factor (fn_config c))
           (key_distance (fnc_target (fn_config c)) (kp_key p)) p (fn_responses c))"
  using assms by (auto simp: fn_register_response_def Let_def split: option.splits)

lemma fn_register_failure_frame:
  "fn_config (fn_register_response_failure peer c) = fn_config c"
  "fn_responses (fn_register_response_failure peer c) = fn_responses c"
  by (simp_all add: fn_register_response_failure_def split: option.splits)

text \<open>The responses of a query are the closest of the peers it heard from.\<close>

definition fn_heard :: "'a find_node_context \<Rightarrow> kademlia_peer set \<Rightarrow> bool" where
  "fn_heard c H \<longleftrightarrow> finite H \<and>
     best_responses (fnc_replication_factor (fn_config c))
       ((\<lambda>p. key_distance (fnc_target (fn_config c)) (kp_key p)) ` H) (fn_responses c) \<and>
     (\<forall>(d, p) \<in> set (fn_responses c). p \<in> H \<and> d = key_distance (fnc_target (fn_config c)) (kp_key p))"

lemma fn_heard_insert:
  assumes "fn_heard c H" and "fn_config c' = fn_config c"
    and "fn_responses c' = fn_insert_response (fnc_replication_factor (fn_config c))
           (key_distance (fnc_target (fn_config c)) (kp_key p)) p (fn_responses c)"
  shows "fn_heard c' (insert p H)"
  using assms best_responses_insert [of "(\<lambda>p. key_distance (fnc_target (fn_config c)) (kp_key p)) ` H"]
    fn_insert_response_subset [of "fnc_replication_factor (fn_config c)" "key_distance (fnc_target (fn_config c)) (kp_key p)" p "fn_responses c"]
  by (auto simp: fn_heard_def)

lemma fn_run_heard:
  assumes "fn_heard c H"
    and "query_run fn_next_action fn_register_response fn_register_response_failure c es = (sent, heard, acts, t)"
  shows "fn_heard t (H \<union> set heard) \<and> fn_config t = fn_config c"
  using assms
proof (induction es arbitrary: c H sent heard acts t)
  case Nil
  then show ?case by simp
next
  case (Cons e es)
  let ?run = "query_run fn_next_action fn_register_response fn_register_response_failure"
  show ?case
  proof (cases e)
    case (Poll now)
    obtain a c' where a: "fn_next_action now c = (a, c')" by fastforce
    obtain sent' acts' where r: "?run c' es = (sent', heard, acts', t)"
      using query_run_PollD [OF Cons.prems(2) [unfolded Poll] a] by blast
    have "fn_heard c' H" using Cons.prems(1) fn_next_action_frame [OF a] by (simp add: fn_heard_def)
    then show ?thesis using Cons.IH [of c' H sent' heard acts'] r fn_next_action_frame [OF a] by simp
  next
    case (Response p x)
    obtain a c' where a: "fn_register_response p x c = (a, c')" by fastforce
    obtain sent' heard' acts' t' where r: "?run c' es = (sent', heard', acts', t')" by (metis prod_cases4)
    have t: "t = t'" "heard = (case a of None \<Rightarrow> heard' | Some q \<Rightarrow> q # heard')"
      using Cons.prems(2) Response a r by simp_all
    note f = fn_register_response_frame [OF a]
    show ?thesis
    proof (cases a)
      case None
      then have "fn_heard c' H" using Cons.prems(1) f by (simp add: fn_heard_def)
      then show ?thesis using Cons.IH [of c' H sent' heard' acts'] r f(1) t None by simp
    next
      case (Some q)
      then have "fn_heard c' (insert q H)" using fn_heard_insert [OF Cons.prems(1) f(1)] f(2) by simp
      then show ?thesis using Cons.IH [of c' "insert q H" sent' heard' acts'] r f(1) t Some by simp
    qed
  next
    case (Failure p)
    obtain sent' heard' acts' t' where r: "?run (fn_register_response_failure p c) es = (sent', heard', acts', t')"
      by (metis prod_cases4)
    have t: "heard = heard'" "t = t'" using Cons.prems(2) Failure r by simp_all
    have "fn_heard (fn_register_response_failure p c) H"
      using Cons.prems(1) by (simp add: fn_heard_def fn_register_failure_frame)
    from Cons.IH [OF this r] show ?thesis unfolding t by (simp only: fn_register_failure_frame)
  qed
qed

lemma find_node_new_heard: "fn_heard (find_node_new W into_bytes config in_peers) {}"
  by (simp add: fn_heard_def best_responses_def find_node_new_def bt_keys_def)

subsection \<open>Properties\<close>

lemma find_node_new_view:
  assumes "list_all (\<lambda>p. peer_key_ok K p \<and> kp_peer p \<noteq> fnc_local_peer_id config) in_peers"
  shows "qv_candidates (fn_view (find_node_new W into_bytes config in_peers)) \<subseteq> kp_peer ` set in_peers"
    "qv_pending (fn_view (find_node_new W into_bytes config in_peers)) = {}"
    "qv_queried (fn_view (find_node_new W into_bytes config in_peers)) = {fnc_local_peer_id config}"
    "qv_queue (fn_view (find_node_new W into_bytes config in_peers)) = 0"
  using frontier_init(2) [OF assms] by (simp_all add: fn_view_simps find_node_new_def hm_keys_def)


text \<open>
  C19: When a \<open>FIND_NODE\<close> query succeeds, its result is the \<open>replication_factor\<close> closest of the peers that
  answered, in order of distance, and either nobody is left to ask or wait for, or the result is
  complete and no candidate that was not asked is closer than any peer in it.
\<close>

theorem find_node_result:
  assumes peers: "list_all (\<lambda>p. peer_key_ok K p \<and> kp_peer p \<noteq> fnc_local_peer_id config) in_peers"
    and par: "0 < fnc_parallelism_factor config" and es: "list_all (event_ok (list_all (peer_key_ok K))) es"
    and run: "query_run fn_next_action fn_register_response fn_register_response_failure
      (find_node_new W into_bytes config in_peers) es = (sent, heard, acts, t)"
    and success: "fn_next_action now t = (Some (QuerySucceeded q), t')"
    and dist: "dist = (\<lambda>p. key_distance (fnc_target config) (kp_key p))"
  shows "map fst (fn_responses t') = take (fnc_replication_factor config) (sorted_list_of_set (dist ` set heard)) \<and>
    (\<forall>(d, p) \<in> set (fn_responses t'). p \<in> set heard \<and> d = dist p) \<and>
    (fn_pending t = [] \<and> fn_candidates t = [] \<or>
     length (fn_responses t') = fnc_replication_factor config \<and>
     (\<forall>(d, p) \<in> set (fn_candidates t). \<forall>(w, q) \<in> set (fn_responses t'). w \<le> d))"
proof -
  have conf: "fn_config (find_node_new W into_bytes config in_peers) = config" by (simp add: find_node_new_def)
  note h = fn_run_heard [OF find_node_new_heard run, unfolded conf]
  have ok: "fn_ok K t" using fnq.run_sound [OF find_node_new_ok [OF peers par] es run] by blast
  have c: "fn_config t = config" and hd: "fn_heard t (set heard)" using h by auto
  then have best: "best_responses (fnc_replication_factor config) (dist ` set heard) (fn_responses t)"
    and mem: "\<forall>(d, p) \<in> set (fn_responses t). p \<in> set heard \<and> d = dist p"
    by (simp_all add: fn_heard_def dist)
  have r: "fn_responses t' = fn_responses t" using fn_next_action_frame(1) [OF success] .
  have keys: "map fst (fn_responses t) = take (fnc_replication_factor config) (sorted_list_of_set (dist ` set heard))"
    by (rule best_responses_take [OF _ best]) simp
  have last: "fn_pending t = [] \<and> fn_candidates t = [] \<or>
     length (fn_responses t) = fnc_replication_factor config \<and>
     (\<forall>(d, p) \<in> set (fn_candidates t). \<forall>(w, q) \<in> set (fn_responses t). w \<le> d)"
    using success
  proof (cases rule: fn_next_action_cases)
    case finished
    then show ?thesis by (simp add: fn_is_done_def)
  next
    case enough
    have len: "length (fn_responses t) = fnc_replication_factor config"
      using enough(4) best c by (simp add: best_responses_def)
    have bt: "bt_ok (fn_responses t)" using best by (simp add: best_responses_def)
    have "w \<le> d" if dp: "(d, p) \<in> set (fn_candidates t)" and wq: "(w, q) \<in> set (fn_responses t)" for d p w q
    proof -
      obtain d0 p0 rest where cand: "fn_candidates t = (d0, p0) # rest" using dp by (cases "fn_candidates t") auto
      note pm = frontier_okD(4) [OF fn_okD(1) [OF ok], unfolded cand]
      have d0: "d0 = key_distance (fnc_target (fn_config t)) (kp_key p0)" using peer_map_ok_pop(3) [OF pm] .
      have "d0 \<le> d" using pm dp unfolding cand by (force simp: peer_map_ok_def bt_ok_Cons intro: less_imp_le)
      obtain rs w' q' where rs: "fn_responses t = rs @ [(w', q')]" using wq by (cases "fn_responses t" rule: rev_cases) auto
      have "w \<le> w'" using bt_last_max [OF bt, of w' q' "(w, q)"] wq by (simp add: bt_last_def rs)
      also have "w' \<le> d0" using enough(5) [OF cand rs] d0 by simp
      finally show ?thesis using \<open>d0 \<le> d\<close> by (rule order_trans)
    qed
    then show ?thesis using len by fast
  next
    case schedule
    then show ?thesis by (auto simp: fn_schedule_next_peer_def split: option.splits)
  qed auto
  show ?thesis using keys mem last unfolding r by blast
qed

lemma fn_next_action_final:
  assumes "fn_next_action now c = (Some a, c')" and "\<not> is_send (Some a)"
  shows "a \<in> {QuerySucceeded (fnc_query (fn_config c')), QueryFailed (fnc_query (fn_config c'))}"
  using assms(1)
proof (cases rule: fn_next_action_cases)
  case schedule
  then show ?thesis using assms(2) by (auto simp: fn_schedule_next_peer_def split: option.splits)
qed (auto simp: fn_next_action_frame [OF assms(1)])

text \<open>
  C20: A \<open>FIND_NODE\<close> query comes to an end. If every outstanding request is eventually answered or fails,
  and all peers ever named belong to a finite set, the query succeeds or fails after at most three
  steps per peer, however slow the clock.
\<close>

theorem find_node_terminates:
  assumes peers: "list_all (\<lambda>p. peer_key_ok K p \<and> kp_peer p \<noteq> fnc_local_peer_id config) in_peers"
    and par: "0 < fnc_parallelism_factor config" and U: "finite U" "kp_peer ` set in_peers \<subseteq> U"
    and answer: "\<And>c p r. fn_pending c \<noteq> [] \<Longrightarrow> answer c = (p, r) \<Longrightarrow> p \<in> hm_keys (fn_pending c) \<and>
      pred_option (\<lambda>ps. list_all (peer_key_ok K) ps \<and> kp_peer ` set ps \<subseteq> U) r"
  shows "\<exists>a t. query_drive fn_next_action fn_register_response fn_register_response_failure answer clock
      (Suc (3 * card U)) (find_node_new W into_bytes config in_peers) = Some (a, t) \<and>
    (\<exists>q. a = QuerySucceeded q \<or> a = QueryFailed q)"
proof -
  let ?c = "find_node_new W into_bytes config in_peers"
  note v = find_node_new_view [OF peers, of W into_bytes]
  have "fnq.work U ?c \<le> 3 * card U"
    using card_mono [OF U(1), of "U - {fnc_local_peer_id config}"] by (simp add: fnq.work_def v)
  then have work: "fnq.work U ?c < Suc (3 * card U)" by simp
  have cand: "qv_candidates (fn_view ?c) \<subseteq> U" using v(1) U(2) by blast
  have ans: "p \<in> qv_pending (fn_view c) \<and> pred_option (\<lambda>ps. list_all (peer_key_ok K) ps \<and> kp_peer ` set ps \<subseteq> U) r"
    if "fn_ok K c" "qv_pending (fn_view c) \<noteq> {}" "answer c = (p, r)" for c p r
    using answer [OF _ that(3)] that(2) by (auto simp: fn_view_simps hm_keys_def)
  have drive: "\<exists>a t. query_drive fn_next_action fn_register_response fn_register_response_failure answer clock
      (Suc (3 * card U)) ?c = Some (a, t) \<and> \<not> is_send (Some a) \<and> \<not> is_partial (Some a) \<and>
      (\<exists>i s'. fn_ok K s' \<and> fn_next_action (clock i) s' = (Some a, t))"
    by (rule fnq.drive_terminates [OF find_node_new_ok [OF peers par] U(1) cand work]) (rule ans)
  then show ?thesis using fn_next_action_final by blast
qed

subsection \<open>Slow peers and the parallelism factor\<close>

lemma foldl_discount_some:
  "\<exists>(k, p, t) \<in> set xs. P t \<Longrightarrow> foldl (\<lambda>n (_, _, t). if P t then n - 1 else n) n xs \<le> n - (1::nat)"
proof (induction xs arbitrary: n)
  case (Cons x xs)
  obtain k p t where x: "x = (k, p, t)" by (metis prod_cases3)
  show ?case
  proof (cases "P t")
    case True
    then show ?thesis using foldl_discount_le [of P "n - 1" xs] x by simp
  next
    case False
    then show ?thesis using Cons.IH [of n] Cons.prems x by auto
  qed
qed simp

text \<open>One poll while a request is overdue: another candidate is asked, whatever the parallelism factor.\<close>

lemma fn_overdue_poll:
  assumes pr: "fn_pending_responses c \<le> fnc_parallelism_factor (fn_config c)" "0 < fnc_parallelism_factor (fn_config c)"
    and late: "\<exists>(k, p, t) \<in> set (fn_pending c). fn_peer_timeout c < now - t"
    and few: "length (fn_responses c) < fnc_replication_factor (fn_config c)"
    and cand: "fn_candidates c = (d, p) # rest" and new: "kp_peer p \<notin> hm_keys (fn_pending c)" and ok: "hm_ok (fn_pending c)"
  shows "\<exists>q m c'. fn_next_action now c = (Some (SendMessage q (kp_peer p) m), c') \<and>
    fn_pending c' = hm_insert (kp_peer p) (p, now) (fn_pending c) \<and> fn_candidates c' = rest \<and>
    fn_responses c' = fn_responses c \<and> fn_config c' = fn_config c \<and> fn_peer_timeout c' = fn_peer_timeout c \<and>
    fn_pending_responses c' \<le> fnc_parallelism_factor (fn_config c)"
proof -
  let ?c = "fn_discount_slow now c"
  have "fn_pending_responses ?c \<le> fn_pending_responses c - 1"
    using foldl_discount_some [of "fn_pending c" "\<lambda>t. fn_peer_timeout c < now - t" "fn_pending_responses c"] late
    by (simp add: fn_discount_slow_def)
  then have lt: "fn_pending_responses ?c < fnc_parallelism_factor (fn_config c)" using pr by linarith
  have frame: "fn_config ?c = fn_config c" "fn_responses ?c = fn_responses c" "fn_candidates ?c = fn_candidates c"
    "fn_pending ?c = fn_pending c" "fn_peer_timeout ?c = fn_peer_timeout c"
    by (simp_all add: fn_discount_slow_def)
  have "fn_next_action now c = fn_schedule_next_peer now ?c"
    using lt few cand frame by (simp add: fn_next_action_def Let_def fn_is_done_def)
  then show ?thesis using lt by (simp add: fn_schedule_next_peer_def frame cand)
qed

text \<open>
  Once a single outstanding request is older than the peer timeout, the parallelism factor no longer
  limits a \<open>FIND_NODE\<close> query: every poll discounts the overdue request once more, so each of the next
  \<open>n\<close> polls sends a request to another candidate, for every number \<open>n\<close> of candidates.
\<close>

lemma find_node_parallelism_exceeded:
  assumes ok: "fn_ok K c" and late: "hm_get (fn_pending c) k = Some (p, t)" "fn_peer_timeout c < now - t"
    and few: "length (fn_responses c) < fnc_replication_factor (fn_config c)"
    and n: "n \<le> length (fn_candidates c)"
  shows "\<exists>sent heard acts c'. query_run fn_next_action fn_register_response fn_register_response_failure c
      (replicate n (Poll now)) = (sent, heard, acts, c') \<and>
    length sent = n \<and> length (fn_pending c') = length (fn_pending c) + n"
  using ok late few n
proof (induction n arbitrary: c)
  case 0
  then show ?case by simp
next
  case (Suc n)
  note d = fn_okD [OF Suc.prems(1)]
  obtain dd q rest where cand: "fn_candidates c = (dd, q) # rest" using Suc.prems(5) by (cases "fn_candidates c") auto
  note sch = frontier_schedule [OF d(1) [unfolded cand], of "(q, now)", simplified]
  have hm: "hm_ok (fn_pending c)" using frontier_okD(2) [OF d(1)] .
  have ex: "\<exists>(k, p, t) \<in> set (fn_pending c). fn_peer_timeout c < now - t"
    using map_of_SomeD [OF Suc.prems(2)] Suc.prems(3) by blast
  have new: "kp_peer q \<notin> hm_keys (fn_pending c)"
    using sch(1) by (simp add: hm_keys_iff)
  obtain qq m c' where step: "fn_next_action now c = (Some (SendMessage qq (kp_peer q) m), c')"
    and f: "fn_pending c' = hm_insert (kp_peer q) (q, now) (fn_pending c)" "fn_candidates c' = rest"
      "fn_responses c' = fn_responses c" "fn_config c' = fn_config c" "fn_peer_timeout c' = fn_peer_timeout c"
    using fn_overdue_poll [OF d(3,4) ex Suc.prems(4) cand new hm] by blast
  have ok': "fn_ok K c'" using fn_poll_send [OF Suc.prems(1) step] by blast
  have len: "length (fn_pending c') = Suc (length (fn_pending c))"
    using sch(4) f(1) by simp
  have "kp_peer q \<noteq> k" using new Suc.prems(2) by (auto simp: hm_keys_iff)
  then have "hm_get (fn_pending c') k = Some (p, t)" using f(1) Suc.prems(2) by simp
  then obtain sent heard acts c'' where r: "query_run fn_next_action fn_register_response fn_register_response_failure c'
      (replicate n (Poll now)) = (sent, heard, acts, c'')" "length sent = n"
      "length (fn_pending c'') = length (fn_pending c') + n"
    using Suc.IH [OF ok'] Suc.prems(3-5) f cand by fastforce
  then show ?case using step len by simp
qed

subsection \<open>Examples\<close>

definition example_wire :: message_codec where
  "example_wire = \<lparr>mc_encode = (\<lambda>m. sm_key m), mc_decode = (\<lambda>b. None)\<rparr>"

definition example_fn_config :: "usize \<Rightarrow> u8 list find_node_config" where
  "example_fn_config n = \<lparr>fnc_local_peer_id = example_kad_id 1, fnc_replication_factor = n,
     fnc_parallelism_factor = 1, fnc_query = 0, fnc_target = key_new example_kad_env [0]\<rparr>"

definition example_fn :: "usize \<Rightarrow> u8 list find_node_context" where
  "example_fn n = find_node_new example_wire (\<lambda>k. k) (example_fn_config n) [example_kad_peer 4, example_kad_peer 2]"

lemma example_kad_peer_ok [simp]: "peer_key_ok example_kad_env (example_kad_peer b)" "kp_peer (example_kad_peer b) = example_kad_id b"
  by (simp_all add: peer_key_ok_def example_kad_peer_def kademlia_peer_new_def)

lemma example_kad_id_eq [simp]: "example_kad_id a = example_kad_id b \<longleftrightarrow> a = b"
  by (simp add: example_kad_id_def)

definition example_events :: "kademlia_peer list query_event list" where
  "example_events = [Poll 0, Response (example_kad_id 2) [example_kad_peer 3], Poll 0, Response (example_kad_id 3) []]"

lemma key_preimage_new [simp]: "key_preimage (key_new K b) = b"
  by (simp add: key_new_def)

lemma example_distance: "key_distance (key_new example_kad_env [0]) (kp_key (example_kad_peer b)) = ucast b"
  by (simp add: key_distance_def key_new_def example_kad_peer_def kademlia_peer_new_def key_from_peer_def
      example_kad_env_def peer_id_to_bytes_def example_kad_id_def)

lemma example_run:
  "query_run fn_next_action fn_register_response fn_register_response_failure (example_fn 2) example_events =
     ([example_kad_id 2, example_kad_id 3], [example_kad_peer 2, example_kad_peer 3], [],
      (example_fn 2)\<lparr>fn_candidates := [(4, example_kad_peer 4)], fn_queried := {example_kad_id 2, example_kad_id 3},
        fn_responses := [(2, example_kad_peer 2), (3, example_kad_peer 3)]\<rparr>)"
  by (simp add: example_events_def example_fn_def example_fn_config_def find_node_new_def insert_peers_def fn_next_action_def
      fn_is_done_def fn_discount_slow_def fn_schedule_next_peer_def fn_register_response_def fn_insert_response_def
      to_query_candidate_def hm_keys_def example_distance Let_def insert_commute usize_max_def)

lemma example_events_ok: "list_all (event_ok (list_all (peer_key_ok example_kad_env))) example_events"
  by (simp add: example_events_def)

lemma example_in_peers: "list_all (\<lambda>p. peer_key_ok example_kad_env p \<and> kp_peer p \<noteq> fnc_local_peer_id (example_fn_config n))
    [example_kad_peer 4, example_kad_peer 2]" "0 < fnc_parallelism_factor (example_fn_config n)"
  by (simp_all add: example_fn_config_def)


theorem find_node_result_witness:
  "\<exists>t'. fn_next_action 0 ((example_fn 2)\<lparr>fn_candidates := [(4, example_kad_peer 4)],
      fn_queried := {example_kad_id 2, example_kad_id 3},
      fn_responses := [(2, example_kad_peer 2), (3, example_kad_peer 3)]\<rparr>) = (Some (QuerySucceeded 0), t') \<and>
    map fst (fn_responses t') = [2, 3]"
proof -
  let ?t = "(example_fn 2)\<lparr>fn_candidates := [(4, example_kad_peer 4)],
      fn_queried := {example_kad_id 2, example_kad_id 3},
      fn_responses := [(2, example_kad_peer 2), (3, example_kad_peer 3)]\<rparr>"
  have s: "fn_next_action 0 ?t = (Some (QuerySucceeded 0), ?t)"
    by (simp add: example_fn_def example_fn_config_def find_node_new_def fn_next_action_def fn_is_done_def
        fn_discount_slow_def bt_first_def bt_last_def last_opt_def Let_def example_distance)
  from find_node_result [OF example_in_peers example_events_ok example_run [unfolded example_fn_def] s [unfolded example_fn_def] refl]
  have "map fst (fn_responses ?t) = take 2 (sorted_list_of_set {2, 3})"
    by (simp add: example_fn_config_def example_distance example_fn_def)
  with s show ?thesis by simp
qed

theorem find_node_terminates_witness:
  "\<exists>a t. query_drive fn_next_action fn_register_response fn_register_response_failure
      (\<lambda>c. (fst (hd (fn_pending c)), None)) (\<lambda>i. i) 7 (example_fn 2) = Some (a, t) \<and>
    (\<exists>q. a = QuerySucceeded q \<or> a = QueryFailed q)"
proof -
  let ?U = "{example_kad_id 4, example_kad_id 2}" and ?answer = "\<lambda>c :: u8 list find_node_context. (fst (hd (fn_pending c)), None)"
  have "p \<in> hm_keys (fn_pending c) \<and>
      pred_option (\<lambda>ps. list_all (peer_key_ok example_kad_env) ps \<and> kp_peer ` set ps \<subseteq> ?U) r"
    if "fn_pending c \<noteq> []" "?answer c = (p, r)" for c p r
    using that by (auto simp: hm_keys_def)
  note t = find_node_terminates [where answer = ?answer and clock = "\<lambda>i. i" and W = example_wire and into_bytes = "\<lambda>k. k",
      OF example_in_peers [of 2] _ _ this]
  have "Suc (3 * card ?U) = 7" by simp
  from t [unfolded this] show ?thesis by (simp add: example_fn_def)
qed

end
