(* ===== verification/Kad_Get_Record.thy ===== *)
theory Kad_Get_Record
  imports Kad_Query "HOL-Library.Sublist"
begin

section \<open>GET_VALUE queries\<close>

text \<open>
  \<open>src/protocol/libp2p/kademlia/query/get_record.rs\<close>. The query asks candidates until enough records
  were found for the quorum; the records are handed out one by one as they arrive.
\<close>

record get_record_config =
  grc_local_peer_id :: peer_id
  grc_known_records :: usize
  grc_quorum :: quorum
  grc_replication_factor :: usize
  grc_parallelism_factor :: usize
  grc_query :: query_id
  grc_target :: "record_key kad_key"

record get_record_context =
  gr_config :: get_record_config
  gr_kad_message :: "u8 list"
  gr_pending :: "(peer_id, kademlia_peer) hash_map"
  gr_queried :: "peer_id set"
  gr_candidates :: peer_map
  gr_found_records :: usize
  gr_records :: "peer_record list"

definition sufficient_records :: "get_record_config \<Rightarrow> usize \<Rightarrow> bool" where
  "sufficient_records config records =
     (let total_known = grc_known_records config + records
      in case grc_quorum config of
           QuorumAll \<Rightarrow> grc_replication_factor config \<le> total_known
         | QuorumOne \<Rightarrow> 1 \<le> total_known
         | QuorumN needed_responses \<Rightarrow> needed_responses \<le> total_known)"

definition get_record_new ::
  "message_codec \<Rightarrow> get_record_config \<Rightarrow> kademlia_peer list \<Rightarrow> bool \<Rightarrow> get_record_context" where
  "get_record_new W config in_peers local_record =
     \<lparr>gr_config = config, gr_kad_message = msg_get_record W (key_preimage (grc_target config)),
      gr_pending = [], gr_queried = {}, gr_candidates = insert_peers (grc_target config) in_peers [],
      gr_found_records = (if local_record then 1 else 0), gr_records = []\<rparr>"

definition gr_register_response_failure :: "peer_id \<Rightarrow> get_record_context \<Rightarrow> get_record_context" where
  "gr_register_response_failure peer c =
     (case hm_get (gr_pending c) peer of
        None \<Rightarrow> c
      | Some p \<Rightarrow> c\<lparr>gr_pending := hm_remove peer (gr_pending c), gr_queried := insert (kp_peer p) (gr_queried c)\<rparr>)"

text \<open>A response is the record, if any, the peers closer to the key, and the time it arrived.\<close>

type_synonym get_record_response = "kad_record option \<times> kademlia_peer list \<times> instant"

fun gr_register_response ::
  "peer_id \<Rightarrow> get_record_response \<Rightarrow> get_record_context \<Rightarrow> kademlia_peer option \<times> get_record_context" where
  "gr_register_response peer (record, peers, now) c =
     (case hm_get (gr_pending c) peer of
        None \<Rightarrow> (None, c)
      | Some p \<Rightarrow>
          let config = gr_config c;
              pending = hm_remove peer (gr_pending c);
              queried = insert (kp_peer p) (gr_queried c);
              c1 = (case record of
                      Some r \<Rightarrow>
                        if \<not> record_is_expired r now
                        then c\<lparr>gr_records := gr_records c @ [\<lparr>prec_peer = kp_peer p, prec_record = r\<rparr>],
                               gr_found_records := gr_found_records c + 1\<rparr>
                        else c
                    | None \<Rightarrow> c);
              new = to_query_candidate (grc_local_peer_id config) queried (hm_keys pending) peers
          in (Some p, c1\<lparr>gr_pending := pending, gr_queried := queried,
                gr_candidates := insert_peers (grc_target config) new (gr_candidates c)\<rparr>))"

definition gr_next_peer_action :: "get_record_context \<Rightarrow> peer_id \<Rightarrow> query_action option" where
  "gr_next_peer_action c peer =
     (if hm_get (gr_pending c) peer \<noteq> None
      then Some (SendMessage (grc_query (gr_config c)) peer (gr_kad_message c)) else None)"

definition gr_schedule_next_peer :: "get_record_context \<Rightarrow> query_action option \<times> get_record_context" where
  "gr_schedule_next_peer c =
     (case bt_pop_first (gr_candidates c) of
        None \<Rightarrow> (None, c)
      | Some ((_, candidate), rest) \<Rightarrow>
          (Some (SendMessage (grc_query (gr_config c)) (kp_peer candidate) (gr_kad_message c)),
           c\<lparr>gr_candidates := rest, gr_pending := hm_insert (kp_peer candidate) candidate (gr_pending c)\<rparr>))"

definition gr_is_done :: "get_record_context \<Rightarrow> bool" where
  "gr_is_done c \<longleftrightarrow> gr_pending c = [] \<and> gr_candidates c = []"

definition gr_next_action :: "instant \<Rightarrow> get_record_context \<Rightarrow> query_action option \<times> get_record_context" where
  "gr_next_action now c =
     (let query = grc_query (gr_config c)
      in case gr_records c of
           record # rest \<Rightarrow> (Some (GetRecordPartialResult query record), c\<lparr>gr_records := rest\<rparr>)
         | [] \<Rightarrow>
             let known_records = grc_known_records (gr_config c) + gr_found_records c
             in if gr_is_done c then
                  (Some (if known_records = 0 then QueryFailed query else QuerySucceeded query), c)
                else if sufficient_records (gr_config c) (gr_found_records c) then (Some (QuerySucceeded query), c)
                else if length (gr_pending c) = grc_parallelism_factor (gr_config c) then (None, c)
                else gr_schedule_next_peer c)"

subsection \<open>The invariant\<close>

definition gr_ok :: "kad_env \<Rightarrow> get_record_context \<Rightarrow> bool" where
  "gr_ok K c \<longleftrightarrow>
     frontier_ok K (\<lambda>p. p) (grc_target (gr_config c)) (grc_local_peer_id (gr_config c))
       (gr_pending c) (gr_queried c) (gr_candidates c) \<and>
     length (gr_pending c) \<le> grc_parallelism_factor (gr_config c) \<and> 0 < grc_parallelism_factor (gr_config c)"

definition gr_view :: "get_record_context \<Rightarrow> query_view" where
  "gr_view c = frontier_view (grc_local_peer_id (gr_config c)) (gr_pending c) (gr_queried c) (gr_candidates c)
     (length (gr_records c))"

lemmas gr_view_simps = gr_view_def frontier_view_def

lemma gr_okD:
  assumes "gr_ok K c"
  shows "frontier_ok K (\<lambda>p. p) (grc_target (gr_config c)) (grc_local_peer_id (gr_config c))
      (gr_pending c) (gr_queried c) (gr_candidates c)"
    "length (gr_pending c) \<le> grc_parallelism_factor (gr_config c)" "0 < grc_parallelism_factor (gr_config c)"
  using assms by (simp_all add: gr_ok_def)

lemma gr_pending_iff: "p \<in> qv_pending (gr_view s) \<longleftrightarrow> hm_get (gr_pending s) p \<noteq> None"
  by (simp add: gr_view_simps hm_keys_iff)

lemma get_record_new_ok:
  assumes "list_all (\<lambda>p. peer_key_ok K p \<and> kp_peer p \<noteq> grc_local_peer_id config) in_peers"
    and "0 < grc_parallelism_factor config"
  shows "gr_ok K (get_record_new W config in_peers local_record)"
  using frontier_init(1) [OF assms(1)] assms(2) by (simp add: gr_ok_def get_record_new_def)

lemma gr_register_response_failure_known:
  assumes ok: "gr_ok K c" and v: "hm_get (gr_pending c) peer \<noteq> None"
  shows "gr_ok K (gr_register_response_failure peer c) \<and> gr_view (gr_register_response_failure peer c) =
    (gr_view c)\<lparr>qv_pending := qv_pending (gr_view c) - {peer}, qv_queried := insert peer (qv_queried (gr_view c))\<rparr>"
proof -
  obtain p where v': "hm_get (gr_pending c) peer = Some p" using v by auto
  note d = gr_okD [OF ok]
  note a = frontier_answered [OF d(1) v']
  have "gr_register_response_failure peer c =
      c\<lparr>gr_pending := hm_remove peer (gr_pending c), gr_queried := insert peer (gr_queried c)\<rparr>"
    using v' a(1) by (simp add: gr_register_response_failure_def)
  then show ?thesis
    using a(5,6) d(3) le_trans [OF diff_le_self d(2), of 1] by (simp add: gr_ok_def gr_view_simps insert_commute)
qed

text \<open>What a response adds to the records that are to be handed out.\<close>

definition gr_record_of :: "peer_id \<Rightarrow> get_record_response \<Rightarrow> peer_record list" where
  "gr_record_of peer x =
     (case x of (Some r, _, now) \<Rightarrow> if record_is_expired r now then [] else [\<lparr>prec_peer = peer, prec_record = r\<rparr>]
      | (None, _, _) \<Rightarrow> [])"

lemma gr_record_of_le: "length (gr_record_of peer x) \<le> 1"
  by (simp add: gr_record_of_def split: prod.splits option.splits)

lemma gr_register_response_eq:
  assumes ok: "gr_ok K c" and v: "hm_get (gr_pending c) peer = Some p"
  shows "gr_register_response peer x c =
    (Some p, c\<lparr>gr_records := gr_records c @ gr_record_of peer x,
       gr_found_records := gr_found_records c + length (gr_record_of peer x),
       gr_pending := hm_remove peer (gr_pending c), gr_queried := insert peer (gr_queried c),
       gr_candidates := insert_peers (grc_target (gr_config c))
         (to_query_candidate (grc_local_peer_id (gr_config c)) (insert peer (gr_queried c))
           (hm_keys (hm_remove peer (gr_pending c))) (fst (snd x))) (gr_candidates c)\<rparr>)"
  using v frontier_answered(1) [OF gr_okD(1) [OF ok] v]
  by (cases x rule: prod_cases3) (auto simp: gr_record_of_def Let_def split: option.splits)

lemma gr_register_response_known:
  assumes ok: "gr_ok K c" and v: "hm_get (gr_pending c) peer \<noteq> None" and peers: "list_all (peer_key_ok K) (fst (snd x))"
    and r: "gr_register_response peer x c = (a, c')"
  shows "gr_ok K c' \<and> (\<exists>k. a = Some k \<and> kp_peer k = peer) \<and>
    qv_candidates (gr_view c') \<subseteq> qv_candidates (gr_view c) \<union> kp_peer ` set (fst (snd x)) \<and>
    qv_pending (gr_view c') = qv_pending (gr_view c) - {peer} \<and>
    qv_queried (gr_view c') = insert peer (qv_queried (gr_view c)) \<and> qv_queue (gr_view c') \<le> Suc (qv_queue (gr_view c))"
proof -
  obtain p where v': "hm_get (gr_pending c) peer = Some p" using v by auto
  note d = gr_okD [OF ok]
  note an = frontier_answered [OF d(1) v']
  note cand = frontier_response [OF an(6) peers refl]
  note eq = r [unfolded gr_register_response_eq [OF ok v'], symmetric]
  have "gr_ok K c'" using cand(1) an(5) d(3) le_trans [OF diff_le_self d(2), of 1] eq by (simp add: gr_ok_def)
  then show ?thesis using an(1) cand(2) eq gr_record_of_le [of peer x] by (simp add: gr_view_simps insert_commute)
qed

lemma gr_register_unknown:
  "hm_get (gr_pending c) peer = None \<Longrightarrow>
     gr_register_response peer x c = (None, c) \<and> gr_register_response_failure peer c = c"
  by (cases x rule: prod_cases3) (simp add: gr_register_response_failure_def)

lemma gr_next_action_cases:
  assumes "gr_next_action now c = (a, c')"
  obtains (partial) r rest where "gr_records c = r # rest" "a = Some (GetRecordPartialResult (grc_query (gr_config c)) r)"
      "c' = c\<lparr>gr_records := rest\<rparr>"
  | (finished) "gr_records c = []" "gr_is_done c" "c' = c"
      "a = Some (if grc_known_records (gr_config c) + gr_found_records c = 0 then QueryFailed (grc_query (gr_config c))
         else QuerySucceeded (grc_query (gr_config c)))"
  | (enough) "gr_records c = []" "\<not> gr_is_done c" "sufficient_records (gr_config c) (gr_found_records c)" "c' = c"
      "a = Some (QuerySucceeded (grc_query (gr_config c)))"
  | (full) "gr_records c = []" "\<not> gr_is_done c" "c' = c" "a = None"
      "length (gr_pending c) = grc_parallelism_factor (gr_config c)"
  | (schedule) d p rest where "gr_records c = []" "length (gr_pending c) \<noteq> grc_parallelism_factor (gr_config c)"
      "gr_candidates c = (d, p) # rest" "a = Some (SendMessage (grc_query (gr_config c)) (kp_peer p) (gr_kad_message c))"
      "c' = c\<lparr>gr_candidates := rest, gr_pending := hm_insert (kp_peer p) p (gr_pending c)\<rparr>"
  | (waiting) "gr_records c = []" "\<not> gr_is_done c" "gr_candidates c = []" "c' = c" "a = None"
proof (cases "gr_records c")
  case (Cons r rest)
  then show thesis using assms partial by (simp add: gr_next_action_def Let_def)
next
  case Nil
  show thesis
  proof (cases "gr_is_done c")
    case True
    then show thesis using assms Nil by (intro finished) (auto simp: gr_next_action_def Let_def)
  next
    case False
    show thesis
    proof (cases "sufficient_records (gr_config c) (gr_found_records c) \<or> length (gr_pending c) = grc_parallelism_factor (gr_config c)")
      case True
      then show thesis using assms Nil False enough full by (auto simp: gr_next_action_def Let_def split: if_splits)
    next
      case go: False
      show thesis
      proof (cases "gr_candidates c")
        case empty: Nil
        then show thesis using assms Nil False go
          by (intro waiting) (auto simp: gr_next_action_def gr_schedule_next_peer_def Let_def)
      next
        case (Cons e rest)
        obtain d p where "e = (d, p)" by fastforce
        then show thesis using assms Nil False go Cons
          by (intro schedule [of d p rest]) (auto simp: gr_next_action_def gr_schedule_next_peer_def Let_def)
      qed
    qed
  qed
qed

interpretation grq: iterative_query gr_next_action gr_register_response gr_register_response_failure gr_view
  "gr_ok K" "\<lambda>x. list_all (peer_key_ok K) (fst (snd x))" "\<lambda>x. kp_peer ` set (fst (snd x))" for K
proof (unfold_locales, goal_cases)
  case (1 s)
  then show ?case using frontier_disjoint [OF gr_okD(1) [OF 1]] by (simp add: gr_view_simps)
next
  case (2 s now q p m s')
  from 2(2) show ?case
  proof (cases rule: gr_next_action_cases)
    case (schedule d k rest)
    note sc = frontier_schedule [OF gr_okD(1) [OF 2(1), unfolded schedule(3)], of k, simplified]
    show ?thesis using sc(3-5) schedule gr_okD [OF 2(1)] by (simp add: gr_ok_def gr_view_simps)
  qed (auto split: if_splits)
next
  case (3 s now q pr s')
  from 3(2) show ?case
  proof (cases rule: gr_next_action_cases)
    case (partial r rest)
    then show ?thesis using 3(1) by (simp add: gr_ok_def gr_view_simps)
  qed (auto split: if_splits)
next
  case (4 s now act s')
  from 4(2) show ?case by (cases rule: gr_next_action_cases) (use 4 in auto)
next
  case (5 s now s')
  from 5(2) show ?case
    by (cases rule: gr_next_action_cases) (use gr_okD(3) [OF 5(1)] in \<open>auto simp: gr_view_simps hm_keys_def gr_is_done_def\<close>)
next
  case 6
  then show ?case unfolding gr_pending_iff using gr_register_response_known by blast
next
  case 7
  then show ?case unfolding gr_pending_iff not_not using gr_register_unknown by blast
next
  case 8
  then show ?case unfolding gr_pending_iff by (rule gr_register_response_failure_known)
next
  case 9
  then show ?case unfolding gr_pending_iff not_not using gr_register_unknown by blast
qed

subsection \<open>The records found\<close>

fun partial_results :: "query_action list \<Rightarrow> peer_record list" where
  "partial_results [] = []"
| "partial_results (GetRecordPartialResult _ r # as) = r # partial_results as"
| "partial_results (_ # as) = partial_results as"

text \<open>Where a record that is handed out comes from.\<close>

definition record_origin :: "get_record_response query_event list \<Rightarrow> peer_record \<Rightarrow> bool" where
  "record_origin es r \<longleftrightarrow>
     (\<exists>peers now. Response (prec_peer r) (Some (prec_record r), peers, now) \<in> set es \<and> \<not> record_is_expired (prec_record r) now)"

lemma gr_record_of_origin: "r \<in> set (gr_record_of p x) \<Longrightarrow> prec_peer r = p \<and> record_origin [Response p x] r"
  by (cases x rule: prod_cases3) (auto simp: gr_record_of_def record_origin_def split: option.splits if_splits)

lemma record_origin_mono: "record_origin es r \<Longrightarrow> set es \<subseteq> set es' \<Longrightarrow> record_origin es' r"
  by (auto simp: record_origin_def)

lemma gr_next_action_results:
  assumes "gr_next_action now c = (a, c')"
  shows "gr_config c' = gr_config c" "gr_found_records c' = gr_found_records c"
    "gr_records c = (case a of Some b \<Rightarrow> partial_results [b] | None \<Rightarrow> []) @ gr_records c'"
  using assms by (cases rule: gr_next_action_cases; auto split: if_splits)+

lemma partial_results_Cons: "partial_results (a # as) = partial_results [a] @ partial_results as"
  by (cases a) simp_all

lemma gr_run_records:
  assumes "gr_ok K c" and "list_all (event_ok (\<lambda>x. list_all (peer_key_ok K) (fst (snd x)))) es"
    and "query_run gr_next_action gr_register_response gr_register_response_failure c es = (sent, heard, acts, t)"
  shows "gr_config t = gr_config c \<and> (\<exists>new. gr_records c @ new = partial_results acts @ gr_records t \<and>
    gr_found_records t = gr_found_records c + length new \<and>
    subseq (map prec_peer new) (map kp_peer heard) \<and> list_all (record_origin es) new)"
  using assms
proof (induction es arbitrary: c sent heard acts t)
  case Nil
  then show ?case by simp
next
  case (Cons e es)
  let ?run = "query_run gr_next_action gr_register_response gr_register_response_failure"
  have es: "list_all (event_ok (\<lambda>x. list_all (peer_key_ok K) (fst (snd x)))) es" using Cons.prems(2) by simp
  have mono: "record_origin es r \<Longrightarrow> record_origin (e # es) r" for r by (rule record_origin_mono) auto
  show ?case
  proof (cases e)
    case (Poll now)
    obtain a c' where a: "gr_next_action now c = (a, c')" by fastforce
    obtain sent' acts' where r: "?run c' es = (sent', heard, acts', t)"
      and acts: "acts = (case a of Some b \<Rightarrow> (case b of SendMessage _ _ _ \<Rightarrow> acts' | _ \<Rightarrow> b # acts') | None \<Rightarrow> acts')"
      using query_run_PollD [OF Cons.prems(3) [unfolded Poll] a] by blast
    note f = gr_next_action_results [OF a]
    have "gr_ok K c'"
      using grq.poll_asked(1) [OF Cons.prems(1) a] grq.poll_send [OF Cons.prems(1)] a
      by (cases "is_send a") (cases a rule: is_send.cases; auto)+
    from Cons.IH [OF this es r] obtain new where new: "gr_config t = gr_config c'"
      "gr_records c' @ new = partial_results acts' @ gr_records t" "gr_found_records t = gr_found_records c' + length new"
      "subseq (map prec_peer new) (map kp_peer heard)" "list_all (record_origin es) new" by blast
    have "partial_results acts = (case a of Some b \<Rightarrow> partial_results [b] | None \<Rightarrow> []) @ partial_results acts'"
      unfolding acts by (cases a) (auto simp: partial_results_Cons [of _ acts'] split: query_action.split)
    then have "gr_records c @ new = partial_results acts @ gr_records t" using new(2) f(3) by simp
    moreover have "list_all (record_origin (e # es)) new" using new(5) mono by (simp add: list_all_iff)
    ultimately show ?thesis using new(1,3,4) f(1,2) by metis
  next
    case (Response p x)
    obtain a c' where a: "gr_register_response p x c = (a, c')" by fastforce
    obtain sent' heard' acts' t' where r: "?run c' es = (sent', heard', acts', t')" by (metis prod_cases4)
    have eq: "acts = acts'" "t = t'" "heard = (case a of Some q \<Rightarrow> q # heard' | None \<Rightarrow> heard')"
      using Cons.prems(3) Response a r by simp_all
    have x: "list_all (peer_key_ok K) (fst (snd x))" using Cons.prems(2) Response by simp
    from Cons.IH [OF grq.respond_asked(1) [OF Cons.prems(1) x a] es r] obtain new where new: "gr_config t' = gr_config c'"
      "gr_records c' @ new = partial_results acts' @ gr_records t'" "gr_found_records t' = gr_found_records c' + length new"
      "subseq (map prec_peer new) (map kp_peer heard')" "list_all (record_origin es) new" by blast
    show ?thesis
    proof (cases "hm_get (gr_pending c) p")
      case None
      then have "a = None" "c' = c" using gr_register_unknown [OF None, of x] a by simp_all
      then show ?thesis using new eq mono by (auto simp: list_all_iff)
    next
      case (Some k)
      note v = gr_register_response_eq [OF Cons.prems(1) Some, of x, unfolded a]
      have k: "kp_peer k = p" using frontier_answered(1) [OF gr_okD(1) [OF Cons.prems(1)] Some] .
      have o: "prec_peer q = p \<and> record_origin (e # es) q" if "q \<in> set (gr_record_of p x)" for q
        using gr_record_of_origin [OF that] record_origin_mono [of "[Response p x]" q "e # es"] Response by auto
      have "map prec_peer (gr_record_of p x) = [] \<or> map prec_peer (gr_record_of p x) = [p]"
        by (cases x rule: prod_cases3) (auto simp: gr_record_of_def split: option.splits)
      then have "subseq (map prec_peer (gr_record_of p x @ new)) (map kp_peer heard)"
        using new(4) eq(3) v k by auto
      moreover have "gr_records c @ (gr_record_of p x @ new) = partial_results acts @ gr_records t"
        "gr_found_records t = gr_found_records c + length (gr_record_of p x @ new)" "gr_config t = gr_config c"
        using new(1-3) v eq by simp_all
      moreover have "list_all (record_origin (e # es)) (gr_record_of p x @ new)"
        using o new(5) mono by (auto simp: list_all_iff)
      ultimately show ?thesis by blast
    qed
  next
    case (Failure p)
    let ?c = "gr_register_response_failure p c"
    obtain sent' heard' acts' t' where r: "?run ?c es = (sent', heard', acts', t')" by (metis prod_cases4)
    have eq: "acts = acts'" "t = t'" "heard = heard'" using Cons.prems(3) Failure r by simp_all
    have f: "gr_config ?c = gr_config c" "gr_records ?c = gr_records c" "gr_found_records ?c = gr_found_records c"
      by (simp_all add: gr_register_response_failure_def split: option.splits)
    from Cons.IH [OF grq.fail_asked(1) [OF Cons.prems(1)] es r] show ?thesis
      unfolding eq f using mono by (auto simp: list_all_iff)
  qed
qed

subsection \<open>Properties\<close>

definition local_count :: "bool \<Rightarrow> nat" where
  "local_count local_record = (if local_record then 1 else 0)"


text \<open>
  The local record is counted twice: a query for two records that starts with the local one, as the
  engine starts it, succeeds at once, without asking any of its candidates.
\<close>

lemma get_record_counts_local_twice:
  assumes "grc_quorum config = QuorumN 2" and "grc_known_records config = 1" and "in_peers \<noteq> []"
  shows "\<exists>t. query_run gr_next_action gr_register_response gr_register_response_failure
      (get_record_new W config in_peers True) [Poll now] = ([], [], [QuerySucceeded (grc_query config)], t) \<and>
    gr_candidates t \<noteq> []"
  using assms
  by (simp add: get_record_new_def gr_next_action_def Let_def gr_is_done_def sufficient_records_def insert_peers_Nil_iff)

subsection \<open>Examples\<close>

definition example_gr_config :: "quorum \<Rightarrow> usize \<Rightarrow> get_record_config" where
  "example_gr_config q known = \<lparr>grc_local_peer_id = example_kad_id 1, grc_known_records = known, grc_quorum = q,
     grc_replication_factor = 20, grc_parallelism_factor = 3, grc_query = 7, grc_target = key_new example_kad_env [0]\<rparr>"

definition example_gr_wire :: message_codec where
  "example_gr_wire = \<lparr>mc_encode = (\<lambda>m. sm_key m), mc_decode = (\<lambda>b. None)\<rparr>"

definition example_gr_events :: "get_record_response query_event list" where
  "example_gr_events = [Poll 0, Response (example_kad_id 2) (Some (record_new [0] [9]), [], 0), Poll 0]"


end
