(* ===== verification/Kad_Get_Providers.thy ===== *)
theory Kad_Get_Providers
  imports Kad_Query
begin

section \<open>GET_PROVIDERS queries\<close>

text \<open>
  \<open>src/protocol/libp2p/kademlia/query/get_providers.rs\<close>. The query asks every candidate it learns of and
  collects the providers they name. Merging the provider records of the same peer goes through hash
  maps and hash sets, whose iteration orders are the arguments \<open>order_m\<close> and \<open>order_a\<close>; an unstable
  sort is a stable sort of some permutation, which \<open>order_m\<close> covers.
\<close>

record get_providers_config =
  gpc_local_peer_id :: peer_id
  gpc_parallelism_factor :: usize
  gpc_query :: query_id
  gpc_target :: "record_key kad_key"
  gpc_known_providers :: "kademlia_peer list"

record get_providers_context =
  gp_config :: get_providers_config
  gp_kad_message :: "u8 list"
  gp_pending :: "(peer_id, kademlia_peer) hash_map"
  gp_queried :: "peer_id set"
  gp_candidates :: peer_map
  gp_found_providers :: "kademlia_peer list"

definition get_providers_new ::
  "message_codec \<Rightarrow> get_providers_config \<Rightarrow> kademlia_peer list \<Rightarrow> get_providers_context" where
  "get_providers_new W config candidate_peers =
     \<lparr>gp_config = config, gp_kad_message = msg_get_providers_request W (key_preimage (gpc_target config)),
      gp_pending = [], gp_queried = {}, gp_candidates = insert_peers (gpc_target config) candidate_peers [],
      gp_found_providers = []\<rparr>"

text \<open>\<open>providers.entry(peer).or_default().extend(addresses)\<close> for one provider record.\<close>

definition merge_provider ::
  "kad_env \<Rightarrow> (peer_id, multiaddr list) hash_map \<Rightarrow> kademlia_peer \<Rightarrow> (peer_id, multiaddr list) hash_map" where
  "merge_provider K m p =
     hm_insert (kp_peer p)
       (foldl (\<lambda>as a. List.insert a as) (case hm_get m (kp_peer p) of Some as \<Rightarrow> as | None \<Rightarrow> []) (kademlia_peer_addresses K p)) m"

definition merge_and_sort_providers ::
  "kad_env \<Rightarrow> ((peer_id \<times> multiaddr list) list \<Rightarrow> (peer_id \<times> multiaddr list) list) \<Rightarrow> (multiaddr list \<Rightarrow> multiaddr list) \<Rightarrow>
   kademlia_peer list \<Rightarrow> record_key kad_key \<Rightarrow> content_provider list" where
  "merge_and_sort_providers K order_m order_a found_providers target =
     (let providers = map (\<lambda>(peer, addresses). \<lparr>cp_peer = peer, cp_addresses = order_a addresses\<rparr>)
            (order_m (foldl (merge_provider K) [] found_providers))
      in sort_key (\<lambda>p. key_distance (key_from_peer K (cp_peer p)) target) providers)"

definition gp_found ::
  "kad_env \<Rightarrow> ((peer_id \<times> multiaddr list) list \<Rightarrow> (peer_id \<times> multiaddr list) list) \<Rightarrow> (multiaddr list \<Rightarrow> multiaddr list) \<Rightarrow>
   get_providers_context \<Rightarrow> content_provider list" where
  "gp_found K order_m order_a c =
     merge_and_sort_providers K order_m order_a
       (gpc_known_providers (gp_config c) @ gp_found_providers c) (gpc_target (gp_config c))"

definition gp_register_response_failure :: "peer_id \<Rightarrow> get_providers_context \<Rightarrow> get_providers_context" where
  "gp_register_response_failure peer c =
     (case hm_get (gp_pending c) peer of
        None \<Rightarrow> c
      | Some p \<Rightarrow> c\<lparr>gp_pending := hm_remove peer (gp_pending c), gp_queried := insert (kp_peer p) (gp_queried c)\<rparr>)"

text \<open>A response is the providers and the peers closer to the key.\<close>

type_synonym get_providers_response = "kademlia_peer list \<times> kademlia_peer list"

definition gp_register_response ::
  "peer_id \<Rightarrow> get_providers_response \<Rightarrow> get_providers_context \<Rightarrow> kademlia_peer option \<times> get_providers_context" where
  "gp_register_response peer x c =
     (case hm_get (gp_pending c) peer of
        None \<Rightarrow> (None, c)
      | Some p \<Rightarrow>
          let (providers, closer_peers) = x;
              config = gp_config c;
              pending = hm_remove peer (gp_pending c);
              queried = insert (kp_peer p) (gp_queried c);
              new = to_query_candidate (gpc_local_peer_id config) queried (hm_keys pending) closer_peers
          in (Some p, c\<lparr>gp_pending := pending, gp_found_providers := gp_found_providers c @ providers,
                gp_queried := queried, gp_candidates := insert_peers (gpc_target config) new (gp_candidates c)\<rparr>))"

definition gp_next_peer_action :: "get_providers_context \<Rightarrow> peer_id \<Rightarrow> query_action option" where
  "gp_next_peer_action c peer =
     (if hm_get (gp_pending c) peer \<noteq> None
      then Some (SendMessage (gpc_query (gp_config c)) peer (gp_kad_message c)) else None)"

definition gp_schedule_next_peer :: "get_providers_context \<Rightarrow> query_action option \<times> get_providers_context" where
  "gp_schedule_next_peer c =
     (case bt_pop_first (gp_candidates c) of
        None \<Rightarrow> (None, c)
      | Some ((_, candidate), rest) \<Rightarrow>
          (Some (SendMessage (gpc_query (gp_config c)) (kp_peer candidate) (gp_kad_message c)),
           c\<lparr>gp_candidates := rest, gp_pending := hm_insert (kp_peer candidate) candidate (gp_pending c)\<rparr>))"

definition gp_is_done :: "get_providers_context \<Rightarrow> bool" where
  "gp_is_done c \<longleftrightarrow> gp_pending c = [] \<and> gp_candidates c = []"

definition gp_next_action :: "instant \<Rightarrow> get_providers_context \<Rightarrow> query_action option \<times> get_providers_context" where
  "gp_next_action now c =
     (let query = gpc_query (gp_config c)
      in if gp_is_done c then
           (Some (if gp_found_providers c = [] then QueryFailed query else QuerySucceeded query), c)
         else if length (gp_pending c) = gpc_parallelism_factor (gp_config c) then (None, c)
         else gp_schedule_next_peer c)"

subsection \<open>The invariant\<close>

definition gp_ok :: "kad_env \<Rightarrow> get_providers_context \<Rightarrow> bool" where
  "gp_ok K c \<longleftrightarrow>
     frontier_ok K (\<lambda>p. p) (gpc_target (gp_config c)) (gpc_local_peer_id (gp_config c))
       (gp_pending c) (gp_queried c) (gp_candidates c) \<and>
     length (gp_pending c) \<le> gpc_parallelism_factor (gp_config c) \<and> 0 < gpc_parallelism_factor (gp_config c)"

definition gp_view :: "get_providers_context \<Rightarrow> query_view" where
  "gp_view c = frontier_view (gpc_local_peer_id (gp_config c)) (gp_pending c) (gp_queried c) (gp_candidates c) 0"

lemmas gp_view_simps = gp_view_def frontier_view_def

lemma gp_okD:
  assumes "gp_ok K c"
  shows "frontier_ok K (\<lambda>p. p) (gpc_target (gp_config c)) (gpc_local_peer_id (gp_config c))
      (gp_pending c) (gp_queried c) (gp_candidates c)"
    "length (gp_pending c) \<le> gpc_parallelism_factor (gp_config c)" "0 < gpc_parallelism_factor (gp_config c)"
  using assms by (simp_all add: gp_ok_def)

lemma gp_pending_iff: "p \<in> qv_pending (gp_view s) \<longleftrightarrow> hm_get (gp_pending s) p \<noteq> None"
  by (simp add: gp_view_simps hm_keys_iff)

lemma get_providers_new_ok:
  assumes "list_all (\<lambda>p. peer_key_ok K p \<and> kp_peer p \<noteq> gpc_local_peer_id config) in_peers"
    and "0 < gpc_parallelism_factor config"
  shows "gp_ok K (get_providers_new W config in_peers)"
  using frontier_init(1) [OF assms(1)] assms(2) by (simp add: gp_ok_def get_providers_new_def)

lemma gp_register_response_failure_known:
  assumes ok: "gp_ok K c" and v: "hm_get (gp_pending c) peer \<noteq> None"
  shows "gp_ok K (gp_register_response_failure peer c) \<and> gp_view (gp_register_response_failure peer c) =
    (gp_view c)\<lparr>qv_pending := qv_pending (gp_view c) - {peer}, qv_queried := insert peer (qv_queried (gp_view c))\<rparr>"
proof -
  obtain p where v': "hm_get (gp_pending c) peer = Some p" using v by auto
  note d = gp_okD [OF ok]
  note a = frontier_answered [OF d(1) v']
  have "gp_register_response_failure peer c =
      c\<lparr>gp_pending := hm_remove peer (gp_pending c), gp_queried := insert peer (gp_queried c)\<rparr>"
    using v' a(1) by (simp add: gp_register_response_failure_def)
  then show ?thesis
    using a(5,6) d(3) le_trans [OF diff_le_self d(2), of 1] by (simp add: gp_ok_def gp_view_simps insert_commute)
qed

lemma gp_register_response_known:
  assumes ok: "gp_ok K c" and v: "hm_get (gp_pending c) peer \<noteq> None" and peers: "list_all (peer_key_ok K) (snd x)"
    and r: "gp_register_response peer x c = (a, c')"
  shows "gp_ok K c' \<and> (\<exists>k. a = Some k \<and> kp_peer k = peer) \<and>
    qv_candidates (gp_view c') \<subseteq> qv_candidates (gp_view c) \<union> kp_peer ` set (snd x) \<and>
    qv_pending (gp_view c') = qv_pending (gp_view c) - {peer} \<and>
    qv_queried (gp_view c') = insert peer (qv_queried (gp_view c)) \<and> qv_queue (gp_view c') \<le> Suc (qv_queue (gp_view c))"
proof -
  obtain p where v': "hm_get (gp_pending c) peer = Some p" using v by auto
  note d = gp_okD [OF ok]
  note an = frontier_answered [OF d(1) v']
  note cand = frontier_response [OF an(6) peers refl]
  have eq: "a = Some p" "c' = c\<lparr>gp_pending := hm_remove peer (gp_pending c), gp_found_providers := gp_found_providers c @ fst x,
      gp_queried := insert peer (gp_queried c), gp_candidates := insert_peers (gpc_target (gp_config c))
        (to_query_candidate (gpc_local_peer_id (gp_config c)) (insert peer (gp_queried c))
          (hm_keys (hm_remove peer (gp_pending c))) (snd x)) (gp_candidates c)\<rparr>"
    using r v' an(1) by (simp_all add: gp_register_response_def Let_def split: prod.splits)
  have "gp_ok K c'" using cand(1) an(5) d(3) le_trans [OF diff_le_self d(2), of 1] by (simp add: gp_ok_def eq(2))
  then show ?thesis using an(1) cand(2) eq(1) by (simp add: eq(2) gp_view_simps insert_commute)
qed

lemma gp_register_unknown:
  "hm_get (gp_pending c) peer = None \<Longrightarrow>
     gp_register_response peer x c = (None, c) \<and> gp_register_response_failure peer c = c"
  by (simp add: gp_register_response_def gp_register_response_failure_def)

lemma gp_next_action_cases:
  assumes "gp_next_action now c = (a, c')"
  obtains (finished) "gp_is_done c" "c' = c"
      "a = Some (if gp_found_providers c = [] then QueryFailed (gpc_query (gp_config c))
         else QuerySucceeded (gpc_query (gp_config c)))"
  | (full) "\<not> gp_is_done c" "c' = c" "a = None" "length (gp_pending c) = gpc_parallelism_factor (gp_config c)"
  | (schedule) d p rest where "length (gp_pending c) \<noteq> gpc_parallelism_factor (gp_config c)"
      "gp_candidates c = (d, p) # rest" "a = Some (SendMessage (gpc_query (gp_config c)) (kp_peer p) (gp_kad_message c))"
      "c' = c\<lparr>gp_candidates := rest, gp_pending := hm_insert (kp_peer p) p (gp_pending c)\<rparr>"
  | (waiting) "\<not> gp_is_done c" "gp_candidates c = []" "c' = c" "a = None"
proof (cases "gp_is_done c \<or> length (gp_pending c) = gpc_parallelism_factor (gp_config c)")
  case True
  then show thesis using assms finished full by (auto simp: gp_next_action_def Let_def split: if_splits)
next
  case go: False
  show thesis
  proof (cases "gp_candidates c")
    case Nil
    then show thesis using assms go
      by (intro waiting) (auto simp: gp_next_action_def gp_schedule_next_peer_def Let_def)
  next
    case (Cons e rest)
    obtain d p where "e = (d, p)" by fastforce
    then show thesis using assms go Cons
      by (intro schedule [of d p rest]) (auto simp: gp_next_action_def gp_schedule_next_peer_def Let_def)
  qed
qed

interpretation gpq: iterative_query gp_next_action gp_register_response gp_register_response_failure gp_view
  "gp_ok K" "\<lambda>x. list_all (peer_key_ok K) (snd x)" "\<lambda>x. kp_peer ` set (snd x)" for K
proof (unfold_locales, goal_cases)
  case (1 s)
  then show ?case using frontier_disjoint [OF gp_okD(1) [OF 1]] by (simp add: gp_view_simps)
next
  case (2 s now q p m s')
  from 2(2) show ?case
  proof (cases rule: gp_next_action_cases)
    case (schedule d k rest)
    note sc = frontier_schedule [OF gp_okD(1) [OF 2(1), unfolded schedule(2)], of k, simplified]
    show ?thesis using sc(3-5) schedule gp_okD [OF 2(1)] by (simp add: gp_ok_def gp_view_simps)
  qed (auto split: if_splits)
next
  case (3 s now q pr s')
  from 3(2) show ?case by (cases rule: gp_next_action_cases) (auto split: if_splits)
next
  case (4 s now act s')
  from 4(2) show ?case by (cases rule: gp_next_action_cases) (use 4 in auto)
next
  case (5 s now s')
  from 5(2) show ?case
    by (cases rule: gp_next_action_cases) (use gp_okD(3) [OF 5(1)] in \<open>auto simp: gp_view_simps hm_keys_def gp_is_done_def\<close>)
next
  case 6
  then show ?case unfolding gp_pending_iff using gp_register_response_known by blast
next
  case 7
  then show ?case unfolding gp_pending_iff not_not using gp_register_unknown by blast
next
  case 8
  then show ?case unfolding gp_pending_iff by (rule gp_register_response_failure_known)
next
  case 9
  then show ?case unfolding gp_pending_iff not_not using gp_register_unknown by blast
qed

subsection \<open>Merging provider records\<close>

lemma foldl_insert_set: "set (foldl (\<lambda>as a. List.insert a as) xs ys) = set xs \<union> set ys"
  by (induction ys arbitrary: xs) auto

lemma foldl_insert_distinct: "distinct xs \<Longrightarrow> distinct (foldl (\<lambda>as a. List.insert a as) xs ys)"
  by (induction ys arbitrary: xs) auto

text \<open>The addresses known for a peer from a list of provider records.\<close>

definition provider_addresses :: "kad_env \<Rightarrow> kademlia_peer list \<Rightarrow> peer_id \<Rightarrow> multiaddr set" where
  "provider_addresses K ps peer = (\<Union>p \<in> {p \<in> set ps. kp_peer p = peer}. set (kademlia_peer_addresses K p))"

definition merged_ok :: "kad_env \<Rightarrow> kademlia_peer list \<Rightarrow> (peer_id, multiaddr list) hash_map \<Rightarrow> bool" where
  "merged_ok K ps m \<longleftrightarrow> hm_ok m \<and> hm_keys m = kp_peer ` set ps \<and>
     (\<forall>peer as. hm_get m peer = Some as \<longrightarrow> distinct as \<and> set as = provider_addresses K ps peer)"

lemma merge_provider_ok:
  assumes "merged_ok K ps m"
  shows "merged_ok K (ps @ [p]) (merge_provider K m p)"
proof -
  define old where "old = (case hm_get m (kp_peer p) of Some as \<Rightarrow> as | None \<Rightarrow> [])"
  have none: "provider_addresses K ps (kp_peer p) = {}" if "hm_get m (kp_peer p) = None"
  proof -
    have "kp_peer p \<notin> kp_peer ` set ps" using assms that hm_keys_iff [of "kp_peer p" m] by (simp add: merged_ok_def)
    then have "{q \<in> set ps. kp_peer q = kp_peer p} = {}" by (force simp: image_iff)
    then show ?thesis unfolding provider_addresses_def by (simp only: UN_empty)
  qed
  have old: "distinct old \<and> set old = provider_addresses K ps (kp_peer p)"
    using assms none by (cases "hm_get m (kp_peer p)") (auto simp: old_def merged_ok_def)
  have new: "provider_addresses K (ps @ [p]) peer =
      (if peer = kp_peer p then provider_addresses K ps peer \<union> set (kademlia_peer_addresses K p)
       else provider_addresses K ps peer)" for peer
    by (auto simp: provider_addresses_def)
  have m: "merge_provider K m p = hm_insert (kp_peer p) (foldl (\<lambda>as a. List.insert a as) old (kademlia_peer_addresses K p)) m"
    by (simp add: merge_provider_def old_def)
  show ?thesis
    using assms old unfolding m merged_ok_def new
    by (auto simp: foldl_insert_set foldl_insert_distinct)
qed

lemma merged_ok_foldl: "merged_ok K ps (foldl (merge_provider K) [] ps)"
proof (induction ps rule: rev_induct)
  case Nil
  then show ?case by (simp add: merged_ok_def hm_keys_def)
next
  case (snoc p ps)
  then show ?case using merge_provider_ok by simp
qed

text \<open>
  C22: The providers a \<open>GET_PROVIDERS\<close> query reports are those of the local store and those it found, each
  peer once, with the addresses of all its provider records together and no address twice, in order of
  distance from the key, whatever the iteration order of the hash maps. The query succeeds only when
  nobody is left to ask or wait for.
\<close>

theorem get_providers_result:
  assumes "iteration_order order_m" and "iteration_order order_a"
    and "gp_next_action now c = (Some (QuerySucceeded q), c')"
    and "all = gpc_known_providers (gp_config c) @ gp_found_providers c" and "result = gp_found K order_m order_a c'"
  shows "distinct (map cp_peer result) \<and> set (map cp_peer result) = kp_peer ` set all \<and>
    (\<forall>p \<in> set result. distinct (cp_addresses p) \<and> set (cp_addresses p) =
       (\<Union>k \<in> {k \<in> set all. kp_peer k = cp_peer p}. set (kademlia_peer_addresses K k))) \<and>
    sorted (map (\<lambda>p. key_distance (key_from_peer K (cp_peer p)) (gpc_target (gp_config c))) result) \<and>
    gp_pending c = [] \<and> gp_candidates c = [] \<and> result \<noteq> []"
proof -
  let ?m = "foldl (merge_provider K) [] all"
  let ?f = "\<lambda>(peer, addresses). \<lparr>cp_peer = peer, cp_addresses = order_a addresses\<rparr>"
  have fin: "gp_is_done c" "c' = c" "gp_found_providers c \<noteq> []"
    using assms(3) by (cases rule: gp_next_action_cases; auto split: if_splits)+
  have m: "hm_ok ?m" "hm_keys ?m = kp_peer ` set all"
    "\<And>peer as. hm_get ?m peer = Some as \<Longrightarrow> distinct as \<and> set as = provider_addresses K all peer"
    using merged_ok_foldl [of K all] by (simp_all add: merged_ok_def)
  have result: "result = sort_key (\<lambda>p. key_distance (key_from_peer K (cp_peer p)) (gpc_target (gp_config c))) (map ?f (order_m ?m))"
    using assms(4,5) fin(2) by (simp add: gp_found_def merge_and_sort_providers_def Let_def)
  have eq: "mset (map cp_peer result) = mset (map fst ?m)"
    using iteration_orderD(1) [OF assms(1), of ?m] unfolding result mset_map mset_sort
    by (simp add: image_mset.compositionality comp_def case_prod_beta)
  have 1: "distinct (map cp_peer result)" "set (map cp_peer result) = hm_keys ?m"
    using mset_eq_imp_distinct_iff [OF eq] mset_eq_setD [OF eq] m(1) by (simp_all add: hm_ok_def hm_keys_def)
  have 2: "distinct (cp_addresses p) \<and> set (cp_addresses p) =
       (\<Union>k \<in> {k \<in> set all. kp_peer k = cp_peer p}. set (kademlia_peer_addresses K k))" if p: "p \<in> set result" for p
  proof -
    obtain peer as where as: "(peer, as) \<in> set ?m" "p = \<lparr>cp_peer = peer, cp_addresses = order_a as\<rparr>"
      using p iteration_orderD(2) [OF assms(1), of ?m] by (auto simp: result)
    then have "hm_get ?m peer = Some as" using m(1) by (simp add: hm_get_in_set)
    then have "distinct as" "set as = provider_addresses K all peer" using m(3) by auto
    then show ?thesis
      using as(2) iteration_orderD(1,2) [OF assms(2), of as]
      by (auto simp: provider_addresses_def dest: mset_eq_imp_distinct_iff)
  qed
  have "kp_peer ` set all \<noteq> {}" using fin(3) assms(4) by simp
  then have "result \<noteq> []" using 1(2) m(2) by auto
  moreover have "sorted (map (\<lambda>p. key_distance (key_from_peer K (cp_peer p)) (gpc_target (gp_config c))) result)"
    unfolding result by (rule sorted_sort_key)
  ultimately show ?thesis using 1 2 m(2) fin(1) by (simp add: gp_is_done_def)
qed

text \<open>Providers of the local store are not enough: if nobody else names a provider, the query fails.\<close>

lemma get_providers_ignores_known:
  "gp_is_done c \<Longrightarrow> gp_found_providers c = [] \<Longrightarrow>
     gp_next_action now c = (Some (QueryFailed (gpc_query (gp_config c))), c)"
  by (simp add: gp_next_action_def Let_def)

definition example_gp_wire :: message_codec where
  "example_gp_wire = \<lparr>mc_encode = (\<lambda>m. sm_key m), mc_decode = (\<lambda>b. None)\<rparr>"

definition example_gp :: get_providers_context where
  "example_gp = (get_providers_new example_gp_wire
     \<lparr>gpc_local_peer_id = example_kad_id 1, gpc_parallelism_factor = 3, gpc_query = 7,
      gpc_target = key_new example_kad_env [0], gpc_known_providers = [example_kad_peer 5]\<rparr> [])
     \<lparr>gp_found_providers := [example_kad_peer 2, example_kad_peer 2]\<rparr>"

theorem get_providers_result_witness:
  "distinct (map cp_peer (gp_found example_kad_env rev rev example_gp)) \<and>
   set (map cp_peer (gp_found example_kad_env rev rev example_gp)) = {example_kad_id 5, example_kad_id 2}"
proof -
  have id: "kp_peer (example_kad_peer b) = example_kad_id b" for b
    by (simp add: example_kad_peer_def kademlia_peer_new_def)
  have s: "gp_next_action 0 example_gp = (Some (QuerySucceeded 7), example_gp)"
    by (simp add: example_gp_def get_providers_new_def insert_peers_def gp_next_action_def gp_is_done_def Let_def)
  have a: "gpc_known_providers (gp_config example_gp) @ gp_found_providers example_gp =
      [example_kad_peer 5, example_kad_peer 2, example_kad_peer 2]"
    by (simp add: example_gp_def get_providers_new_def)
  show ?thesis
    using get_providers_result [OF iteration_order_rev iteration_order_rev s a [symmetric] refl, of example_kad_env]
    by (simp add: id)
qed

end
