(* ===== verification/Kad_Engine.thy ===== *)
theory Kad_Engine
  imports Kad_Find_Node Kad_Get_Record Kad_Get_Providers
begin

section \<open>The query engine\<close>

text \<open>
  \<open>src/protocol/libp2p/kademlia/query/mod.rs\<close>, \<open>target_peers.rs\<close> and \<open>find_many_nodes.rs\<close>. The engine
  keeps the active queries by identifier, passes responses and failures on to them and polls them in
  the iteration order of its hash map, the argument \<open>order\<close>. The \<open>expect\<close> calls of the engine are the
  value \<open>None\<close> of \<open>on_query_succeeded\<close> and \<open>on_query_failed\<close>, and \<open>Inl ()\<close> of \<open>engine_next_action\<close>.
\<close>

subsection \<open>Sending a message to given peers\<close>

record put_to_target_peers_context =
  tp_query :: query_id
  tp_key :: record_key
  tp_peers_to_succeed :: usize
  tp_peers :: "(peer_id, kademlia_peer) hash_map"
  tp_pending_peers :: "peer_id set"
  tp_n_succeeded :: usize

definition put_to_target_peers_new ::
  "query_id \<Rightarrow> record_key \<Rightarrow> kademlia_peer list \<Rightarrow> quorum \<Rightarrow> put_to_target_peers_context" where
  "put_to_target_peers_new query key peers quorum =
     \<lparr>tp_query = query, tp_key = key,
      tp_peers_to_succeed = (case quorum of
          QuorumOne \<Rightarrow> 1
        | QuorumN n \<Rightarrow> min n (max (length peers) 1)
        | QuorumAll \<Rightarrow> max (length peers) 1),
      tp_peers = foldl (\<lambda>m p. hm_insert (kp_peer p) p m) [] peers,
      tp_pending_peers = set (map kp_peer peers), tp_n_succeeded = 0\<rparr>"

definition tp_register_send_success :: "peer_id \<Rightarrow> put_to_target_peers_context \<Rightarrow> put_to_target_peers_context" where
  "tp_register_send_success peer c =
     (if peer \<in> tp_pending_peers c
      then c\<lparr>tp_pending_peers := tp_pending_peers c - {peer}, tp_n_succeeded := tp_n_succeeded c + 1\<rparr> else c)"

definition tp_register_send_failure :: "peer_id \<Rightarrow> put_to_target_peers_context \<Rightarrow> put_to_target_peers_context" where
  "tp_register_send_failure peer c = c\<lparr>tp_pending_peers := tp_pending_peers c - {peer}\<rparr>"

definition tp_register_response :: "peer_id \<Rightarrow> put_to_target_peers_context \<Rightarrow> kademlia_peer option" where
  "tp_register_response peer c = hm_get (tp_peers c) peer"

definition tp_is_finished :: "put_to_target_peers_context \<Rightarrow> bool" where
  "tp_is_finished c \<longleftrightarrow> tp_pending_peers c = {}"

definition tp_is_succeded :: "put_to_target_peers_context \<Rightarrow> bool" where
  "tp_is_succeded c \<longleftrightarrow> tp_peers_to_succeed c \<le> tp_n_succeeded c"

definition tp_next_action :: "put_to_target_peers_context \<Rightarrow> query_action option" where
  "tp_next_action c =
     (if tp_is_finished c then
        Some (if tp_is_succeded c then QuerySucceeded (tp_query c) else QueryFailed (tp_query c))
      else None)"

subsection \<open>Finding many nodes\<close>

record find_many_nodes_context =
  fm_query :: query_id
  fm_peers_to_report :: "kademlia_peer list"

definition fm_next_action :: "find_many_nodes_context \<Rightarrow> query_action option" where
  "fm_next_action c = Some (QuerySucceeded (fm_query c))"

subsection \<open>Queries\<close>

datatype query_type =
    FindNode "peer_id find_node_context"
  | PutRecord kad_record quorum "record_key find_node_context"
  | PutRecordToPeers kad_record quorum find_many_nodes_context
  | PutRecordToFoundNodesQuery put_to_target_peers_context
  | GetRecord get_record_context
  | AddProvider record_key content_provider quorum "record_key find_node_context"
  | AddProviderToFoundNodesQuery put_to_target_peers_context
  | GetProviders get_providers_context

record query_engine =
  qe_local_peer_id :: peer_id
  qe_replication_factor :: usize
  qe_parallelism_factor :: usize
  qe_queries :: "(query_id, query_type) hash_map"

definition query_engine_new :: "peer_id \<Rightarrow> usize \<Rightarrow> usize \<Rightarrow> query_engine" where
  "query_engine_new local_peer_id replication_factor parallelism_factor =
     \<lparr>qe_local_peer_id = local_peer_id, qe_replication_factor = replication_factor,
      qe_parallelism_factor = parallelism_factor, qe_queries = []\<rparr>"

abbreviation insert_query :: "query_id \<Rightarrow> query_type \<Rightarrow> query_engine \<Rightarrow> query_engine" where
  "insert_query query_id q e \<equiv> e\<lparr>qe_queries := hm_insert query_id q (qe_queries e)\<rparr>"

definition engine_find_node_config :: "query_engine \<Rightarrow> query_id \<Rightarrow> 'a kad_key \<Rightarrow> 'a find_node_config" where
  "engine_find_node_config e query_id target =
     \<lparr>fnc_local_peer_id = qe_local_peer_id e, fnc_replication_factor = qe_replication_factor e,
      fnc_parallelism_factor = qe_parallelism_factor e, fnc_query = query_id, fnc_target = target\<rparr>"

definition start_find_node ::
  "message_codec \<Rightarrow> kad_env \<Rightarrow> query_engine \<Rightarrow> query_id \<Rightarrow> peer_id \<Rightarrow> kademlia_peer list \<Rightarrow> query_engine" where
  "start_find_node W K e query_id target candidates =
     insert_query query_id (FindNode (find_node_new W (peer_id_to_bytes (ke_multihash K))
       (engine_find_node_config e query_id (key_from_peer K target)) candidates)) e"

definition start_put_record ::
  "message_codec \<Rightarrow> kad_env \<Rightarrow> query_engine \<Rightarrow> query_id \<Rightarrow> kad_record \<Rightarrow> kademlia_peer list \<Rightarrow> quorum \<Rightarrow> query_engine" where
  "start_put_record W K e query_id r candidates quorum =
     insert_query query_id (PutRecord r quorum (find_node_new W (\<lambda>k. k)
       (engine_find_node_config e query_id (key_new K (rec_key r))) candidates)) e"

definition start_put_record_to_peers ::
  "query_engine \<Rightarrow> query_id \<Rightarrow> kad_record \<Rightarrow> kademlia_peer list \<Rightarrow> quorum \<Rightarrow> query_engine" where
  "start_put_record_to_peers e query_id r peers_to_report quorum =
     insert_query query_id (PutRecordToPeers r quorum
       \<lparr>fm_query = query_id, fm_peers_to_report = peers_to_report\<rparr>) e"

definition start_get_record ::
  "message_codec \<Rightarrow> kad_env \<Rightarrow> query_engine \<Rightarrow> query_id \<Rightarrow> record_key \<Rightarrow> kademlia_peer list \<Rightarrow> quorum \<Rightarrow> bool \<Rightarrow> query_engine" where
  "start_get_record W K e query_id target candidates quorum local_record =
     insert_query query_id (GetRecord (get_record_new W
       \<lparr>grc_local_peer_id = qe_local_peer_id e, grc_known_records = (if local_record then 1 else 0),
        grc_quorum = quorum, grc_replication_factor = qe_replication_factor e,
        grc_parallelism_factor = qe_parallelism_factor e, grc_query = query_id, grc_target = key_new K target\<rparr>
       candidates local_record)) e"

definition start_add_provider ::
  "message_codec \<Rightarrow> kad_env \<Rightarrow> query_engine \<Rightarrow> query_id \<Rightarrow> record_key \<Rightarrow> content_provider \<Rightarrow> kademlia_peer list \<Rightarrow> quorum \<Rightarrow> query_engine" where
  "start_add_provider W K e query_id provided_key provider candidates quorum =
     insert_query query_id (AddProvider provided_key provider quorum (find_node_new W (\<lambda>k. k)
       (engine_find_node_config e query_id (key_new K provided_key)) candidates)) e"

definition start_get_providers ::
  "message_codec \<Rightarrow> kad_env \<Rightarrow> query_engine \<Rightarrow> query_id \<Rightarrow> record_key \<Rightarrow> kademlia_peer list \<Rightarrow> content_provider list \<Rightarrow> query_engine" where
  "start_get_providers W K e query_id key candidates known_providers =
     insert_query query_id (GetProviders (get_providers_new W
       \<lparr>gpc_local_peer_id = qe_local_peer_id e, gpc_parallelism_factor = qe_parallelism_factor e,
        gpc_query = query_id, gpc_target = key_new K key,
        gpc_known_providers = map (kademlia_peer_from_provider K) known_providers\<rparr> candidates)) e"

definition start_put_record_to_found_nodes_requests_tracking ::
  "query_engine \<Rightarrow> query_id \<Rightarrow> record_key \<Rightarrow> kademlia_peer list \<Rightarrow> quorum \<Rightarrow> query_engine" where
  "start_put_record_to_found_nodes_requests_tracking e query_id key peers quorum =
     insert_query query_id (PutRecordToFoundNodesQuery (put_to_target_peers_new query_id key peers quorum)) e"

definition start_add_provider_to_found_nodes_requests_tracking ::
  "query_engine \<Rightarrow> query_id \<Rightarrow> record_key \<Rightarrow> kademlia_peer list \<Rightarrow> quorum \<Rightarrow> query_engine" where
  "start_add_provider_to_found_nodes_requests_tracking e query_id provided_key peers quorum =
     insert_query query_id (AddProviderToFoundNodesQuery (put_to_target_peers_new query_id provided_key peers quorum)) e"

subsection \<open>Responses and failures\<close>

fun query_response_failure :: "peer_id \<Rightarrow> query_type \<Rightarrow> query_type" where
  "query_response_failure peer (FindNode c) = FindNode (fn_register_response_failure peer c)"
| "query_response_failure peer (PutRecord r q c) = PutRecord r q (fn_register_response_failure peer c)"
| "query_response_failure peer (GetRecord c) = GetRecord (gr_register_response_failure peer c)"
| "query_response_failure peer (AddProvider k p q c) = AddProvider k p q (fn_register_response_failure peer c)"
| "query_response_failure peer (GetProviders c) = GetProviders (gp_register_response_failure peer c)"
| "query_response_failure peer q = q"

definition engine_register_response_failure :: "query_engine \<Rightarrow> query_id \<Rightarrow> peer_id \<Rightarrow> query_engine" where
  "engine_register_response_failure e query peer =
     (case hm_get (qe_queries e) query of None \<Rightarrow> e | Some q \<Rightarrow> insert_query query (query_response_failure peer q) e)"

text \<open>What the query makes of a message: the peer that proved to be a server, and the new state.\<close>

fun query_response :: "instant \<Rightarrow> peer_id \<Rightarrow> kad_message \<Rightarrow> query_type \<Rightarrow> kademlia_peer option \<times> query_type" where
  "query_response now peer (MsgFindNode t peers) (FindNode c) = map_prod id FindNode (fn_register_response peer peers c)"
| "query_response now peer (MsgFindNode t peers) (PutRecord r q c) =
     map_prod id (PutRecord r q) (fn_register_response peer peers c)"
| "query_response now peer (MsgPutValue r) (PutRecordToFoundNodesQuery c) =
     (tp_register_response peer c, PutRecordToFoundNodesQuery c)"
| "query_response now peer (MsgGetRecord k r peers) (GetRecord c) =
     map_prod id GetRecord (gr_register_response peer (r, peers, now) c)"
| "query_response now peer (MsgFindNode t peers) (AddProvider k p q c) =
     map_prod id (AddProvider k p q) (fn_register_response peer peers c)"
| "query_response now peer (MsgGetProviders k peers providers) (GetProviders c) =
     map_prod id GetProviders (gp_register_response peer (providers, peers) c)"
| "query_response now peer m q = (None, query_response_failure peer q)"

definition engine_register_response ::
  "query_engine \<Rightarrow> instant \<Rightarrow> query_id \<Rightarrow> peer_id \<Rightarrow> kad_message \<Rightarrow> kademlia_peer option \<times> query_engine" where
  "engine_register_response e now query peer message =
     (case hm_get (qe_queries e) query of
        None \<Rightarrow> (None, e)
      | Some q \<Rightarrow> let (r, q') = query_response now peer message q in (r, insert_query query q' e))"

fun query_send_failure :: "peer_id \<Rightarrow> query_type \<Rightarrow> query_type" where
  "query_send_failure peer (PutRecordToFoundNodesQuery c) = PutRecordToFoundNodesQuery (tp_register_send_failure peer c)"
| "query_send_failure peer (AddProviderToFoundNodesQuery c) = AddProviderToFoundNodesQuery (tp_register_send_failure peer c)"
| "query_send_failure peer q = q"

definition engine_register_send_failure :: "query_engine \<Rightarrow> query_id \<Rightarrow> peer_id \<Rightarrow> query_engine" where
  "engine_register_send_failure e query peer =
     (case hm_get (qe_queries e) query of None \<Rightarrow> e | Some q \<Rightarrow> insert_query query (query_send_failure peer q) e)"

fun query_send_success :: "peer_id \<Rightarrow> query_type \<Rightarrow> query_type" where
  "query_send_success peer (PutRecordToFoundNodesQuery c) = PutRecordToFoundNodesQuery (tp_register_send_success peer c)"
| "query_send_success peer (AddProviderToFoundNodesQuery c) = AddProviderToFoundNodesQuery (tp_register_send_success peer c)"
| "query_send_success peer q = q"

definition engine_register_send_success :: "query_engine \<Rightarrow> query_id \<Rightarrow> peer_id \<Rightarrow> query_engine" where
  "engine_register_send_success e query peer =
     (case hm_get (qe_queries e) query of None \<Rightarrow> e | Some q \<Rightarrow> insert_query query (query_send_success peer q) e)"

definition engine_register_peer_failure :: "query_engine \<Rightarrow> query_id \<Rightarrow> peer_id \<Rightarrow> query_engine" where
  "engine_register_peer_failure e query peer =
     engine_register_response_failure (engine_register_send_failure e query peer) query peer"

fun query_next_peer_action :: "peer_id \<Rightarrow> query_type \<Rightarrow> query_action option" where
  "query_next_peer_action peer (FindNode c) = fn_next_peer_action c peer"
| "query_next_peer_action peer (PutRecord r q c) = fn_next_peer_action c peer"
| "query_next_peer_action peer (PutRecordToPeers r q c) = None"
| "query_next_peer_action peer (GetRecord c) = gr_next_peer_action c peer"
| "query_next_peer_action peer (AddProvider k p q c) = fn_next_peer_action c peer"
| "query_next_peer_action peer (GetProviders c) = gp_next_peer_action c peer"
| "query_next_peer_action peer (PutRecordToFoundNodesQuery c) = None"
| "query_next_peer_action peer (AddProviderToFoundNodesQuery c) = None"

definition engine_next_peer_action :: "query_engine \<Rightarrow> query_id \<Rightarrow> peer_id \<Rightarrow> query_action option" where
  "engine_next_peer_action e query peer =
     (case hm_get (qe_queries e) query of None \<Rightarrow> None | Some q \<Rightarrow> query_next_peer_action peer q)"

subsection \<open>Polling\<close>

type_synonym provider_orders =
  "((peer_id \<times> multiaddr list) list \<Rightarrow> (peer_id \<times> multiaddr list) list) \<times> (multiaddr list \<Rightarrow> multiaddr list)"

fun success_action :: "kad_env \<Rightarrow> provider_orders \<Rightarrow> query_id \<Rightarrow> query_type \<Rightarrow> query_action" where
  "success_action K orders query (FindNode c) =
     FindNodeQuerySucceeded query (key_preimage (fnc_target (fn_config c))) (map snd (fn_responses c))"
| "success_action K orders query (PutRecord r quorum c) =
     PutRecordToFoundNodes (fnc_query (fn_config c)) r (map snd (fn_responses c)) quorum"
| "success_action K orders query (PutRecordToPeers r quorum c) =
     PutRecordToFoundNodes (fm_query c) r (fm_peers_to_report c) quorum"
| "success_action K orders query (PutRecordToFoundNodesQuery c) = PutRecordQuerySucceeded (tp_query c) (tp_key c)"
| "success_action K orders query (GetRecord c) = GetRecordQueryDone (grc_query (gr_config c))"
| "success_action K orders query (AddProvider k p quorum c) =
     AddProviderToFoundNodes (fnc_query (fn_config c)) k p (map snd (fn_responses c)) quorum"
| "success_action K orders query (AddProviderToFoundNodesQuery c) = AddProviderQuerySucceeded (tp_query c) (tp_key c)"
| "success_action K orders query (GetProviders c) =
     GetProvidersQueryDone (gpc_query (gp_config c)) (key_preimage (gpc_target (gp_config c)))
       (gp_found K (fst orders) (snd orders) c)"

definition on_query_succeeded ::
  "kad_env \<Rightarrow> provider_orders \<Rightarrow> query_engine \<Rightarrow> query_id \<Rightarrow> (query_action \<times> query_engine) option" where
  "on_query_succeeded K orders e query =
     (case hm_get (qe_queries e) query of
        None \<Rightarrow> None
      | Some q \<Rightarrow> Some (success_action K orders query q, e\<lparr>qe_queries := hm_remove query (qe_queries e)\<rparr>))"

definition on_query_failed :: "query_engine \<Rightarrow> query_id \<Rightarrow> (query_action \<times> query_engine) option" where
  "on_query_failed e query =
     (case hm_get (qe_queries e) query of
        None \<Rightarrow> None
      | Some _ \<Rightarrow> Some (QueryFailed query, e\<lparr>qe_queries := hm_remove query (qe_queries e)\<rparr>))"

fun query_next_action :: "instant \<Rightarrow> query_type \<Rightarrow> query_action option \<times> query_type" where
  "query_next_action now (FindNode c) = map_prod id FindNode (fn_next_action now c)"
| "query_next_action now (PutRecord r q c) = map_prod id (PutRecord r q) (fn_next_action now c)"
| "query_next_action now (PutRecordToPeers r q c) = (fm_next_action c, PutRecordToPeers r q c)"
| "query_next_action now (GetRecord c) = map_prod id GetRecord (gr_next_action now c)"
| "query_next_action now (AddProvider k p q c) = map_prod id (AddProvider k p q) (fn_next_action now c)"
| "query_next_action now (GetProviders c) = map_prod id GetProviders (gp_next_action now c)"
| "query_next_action now (PutRecordToFoundNodesQuery c) = (tp_next_action c, PutRecordToFoundNodesQuery c)"
| "query_next_action now (AddProviderToFoundNodesQuery c) = (tp_next_action c, AddProviderToFoundNodesQuery c)"

text \<open>How the loop ends on the action of a query.\<close>

fun settle_action ::
  "kad_env \<Rightarrow> provider_orders \<Rightarrow> query_engine \<Rightarrow> query_action \<Rightarrow> unit + query_action option \<times> query_engine" where
  "settle_action K orders e (QuerySucceeded query) =
     (case on_query_succeeded K orders e query of None \<Rightarrow> Inl () | Some (a, e') \<Rightarrow> Inr (Some a, e'))"
| "settle_action K orders e (QueryFailed query) =
     (case on_query_failed e query of None \<Rightarrow> Inl () | Some (a, e') \<Rightarrow> Inr (Some a, e'))"
| "settle_action K orders e action = Inr (Some action, e)"

text \<open>The loop over the active queries, given the identifiers in the order of iteration.\<close>

fun poll_queries ::
  "kad_env \<Rightarrow> provider_orders \<Rightarrow> instant \<Rightarrow> query_id list \<Rightarrow> query_engine \<Rightarrow> unit + query_action option \<times> query_engine" where
  "poll_queries K orders now [] e = Inr (None, e)"
| "poll_queries K orders now (i # ids) e =
     (case hm_get (qe_queries e) i of
        None \<Rightarrow> poll_queries K orders now ids e
      | Some q \<Rightarrow>
          let (action, q') = query_next_action now q; e' = insert_query i q' e
          in case action of
               Some a \<Rightarrow> settle_action K orders e' a
             | None \<Rightarrow> poll_queries K orders now ids e')"

definition engine_next_action ::
  "kad_env \<Rightarrow> provider_orders \<Rightarrow> (query_id list \<Rightarrow> query_id list) \<Rightarrow> instant \<Rightarrow> query_engine \<Rightarrow>
   unit + query_action option \<times> query_engine" where
  "engine_next_action K orders order now e = poll_queries K orders now (order (map fst (qe_queries e))) e"


subsection \<open>The quorum of a put\<close>

datatype send_event = Sent peer_id | Unsent peer_id

fun send_peer :: "send_event \<Rightarrow> peer_id" where
  "send_peer (Sent p) = p"
| "send_peer (Unsent p) = p"

fun tp_event :: "send_event \<Rightarrow> put_to_target_peers_context \<Rightarrow> put_to_target_peers_context" where
  "tp_event (Sent p) c = tp_register_send_success p c"
| "tp_event (Unsent p) c = tp_register_send_failure p c"

text \<open>The peers of \<open>ps\<close> whose first outcome in the history is that the message was sent.\<close>

fun first_sent :: "peer_id set \<Rightarrow> send_event list \<Rightarrow> peer_id set" where
  "first_sent ps [] = {}"
| "first_sent ps (ev # evs) =
     (case ev of Sent p \<Rightarrow> if p \<in> ps then {p} else {} | Unsent p \<Rightarrow> {}) \<union> first_sent (ps - {send_peer ev}) evs"

lemma first_sent_subset: "first_sent ps evs \<subseteq> ps"
  by (induction evs arbitrary: ps) (auto split: send_event.splits)

lemma first_sent_finite: "finite ps \<Longrightarrow> finite (first_sent ps evs)"
  using first_sent_subset finite_subset by metis

lemma tp_run:
  assumes "finite (tp_pending_peers c)"
  shows "foldl (\<lambda>c ev. tp_event ev c) c evs =
    c\<lparr>tp_pending_peers := tp_pending_peers c - send_peer ` set evs,
      tp_n_succeeded := tp_n_succeeded c + card (first_sent (tp_pending_peers c) evs)\<rparr>"
  using assms
proof (induction evs arbitrary: c)
  case (Cons ev evs)
  let ?p = "send_peer ev" and ?P = "tp_pending_peers c"
  have pend: "tp_pending_peers (tp_event ev c) = ?P - {?p}"
    by (cases ev) (auto simp: tp_register_send_success_def tp_register_send_failure_def)
  have fresh: "?p \<notin> first_sent (?P - {?p}) evs" using first_sent_subset [of "?P - {?p}" evs] by blast
  have "finite (first_sent (?P - {?p}) evs)" using Cons.prems by (intro first_sent_finite) simp
  then have cnt: "tp_n_succeeded (tp_event ev c) + card (first_sent (?P - {?p}) evs) =
      tp_n_succeeded c + card (first_sent ?P (ev # evs))"
    using fresh by (cases ev) (auto simp: tp_register_send_success_def tp_register_send_failure_def)
  have rest: "tp_event ev c = c\<lparr>tp_pending_peers := ?P - {?p}, tp_n_succeeded := tp_n_succeeded (tp_event ev c)\<rparr>"
    by (cases ev; cases c) (simp_all add: tp_register_send_success_def tp_register_send_failure_def)
  have "finite (tp_pending_peers (tp_event ev c))" using Cons.prems pend by simp
  from Cons.IH [OF this]
  have "foldl (\<lambda>c ev. tp_event ev c) c (ev # evs) =
     (tp_event ev c)\<lparr>tp_pending_peers := ?P - {?p} - send_peer ` set evs,
        tp_n_succeeded := tp_n_succeeded c + card (first_sent ?P (ev # evs))\<rparr>"
    by (simp only: foldl_Cons pend cnt)
  also have "\<dots> = c\<lparr>tp_pending_peers := ?P - send_peer ` set (ev # evs),
        tp_n_succeeded := tp_n_succeeded c + card (first_sent ?P (ev # evs))\<rparr>"
    by (subst rest) (simp add: Diff_insert [symmetric] insert_commute flip: Diff_insert2)
  finally show ?case .
qed simp

text \<open>What the documentation of \<open>Quorum\<close> asks for.\<close>

fun quorum_peers :: "quorum \<Rightarrow> nat \<Rightarrow> nat" where
  "quorum_peers QuorumOne n = 1"
| "quorum_peers (QuorumN k) n = min k (max n 1)"
| "quorum_peers QuorumAll n = max n 1"


text \<open>
  A list of peers that names one of them twice makes \<open>Quorum::All\<close> unreachable: the put fails
  although the message was sent to every peer.
\<close>

lemma put_all_duplicate_peer:
  assumes "\<not> distinct (map kp_peer peers)" and "kp_peer ` set peers \<subseteq> send_peer ` set evs"
  shows "tp_next_action (foldl (\<lambda>c ev. tp_event ev c) (put_to_target_peers_new query key peers QuorumAll) evs) =
     Some (QueryFailed query)"
proof -
  let ?P = "kp_peer ` set peers"
  let ?c = "put_to_target_peers_new query key peers QuorumAll"
  have "card ?P < length peers"
    using assms(1) card_distinct [of "map kp_peer peers"] card_length [of "map kp_peer peers"]
    by (fastforce simp: order.order_iff_strict)
  moreover have "card (first_sent ?P evs) \<le> card ?P" by (intro card_mono first_sent_subset) simp
  moreover have "tp_pending_peers ?c = ?P" "tp_n_succeeded ?c = 0" "tp_query ?c = query"
    "tp_peers_to_succeed ?c = max (length peers) 1" by (simp_all add: put_to_target_peers_new_def)
  ultimately show ?thesis using assms(2)
    by (subst tp_run) (simp_all add: tp_next_action_def tp_is_finished_def tp_is_succeded_def)
qed


subsection \<open>Every query is known under its own identifier\<close>

fun query_id_of :: "query_type \<Rightarrow> query_id" where
  "query_id_of (FindNode c) = fnc_query (fn_config c)"
| "query_id_of (PutRecord r q c) = fnc_query (fn_config c)"
| "query_id_of (PutRecordToPeers r q c) = fm_query c"
| "query_id_of (PutRecordToFoundNodesQuery c) = tp_query c"
| "query_id_of (GetRecord c) = grc_query (gr_config c)"
| "query_id_of (AddProvider k p q c) = fnc_query (fn_config c)"
| "query_id_of (AddProviderToFoundNodesQuery c) = tp_query c"
| "query_id_of (GetProviders c) = gpc_query (gp_config c)"

fun action_query :: "query_action \<Rightarrow> query_id" where
  "action_query (SendMessage i _ _) = i"
| "action_query (FindNodeQuerySucceeded i _ _) = i"
| "action_query (PutRecordToFoundNodes i _ _ _) = i"
| "action_query (PutRecordQuerySucceeded i _) = i"
| "action_query (AddProviderToFoundNodes i _ _ _ _) = i"
| "action_query (AddProviderQuerySucceeded i _) = i"
| "action_query (GetRecordQueryDone i) = i"
| "action_query (GetRecordPartialResult i _) = i"
| "action_query (GetProvidersQueryDone i _ _) = i"
| "action_query (QuerySucceeded i) = i"
| "action_query (QueryFailed i) = i"

text \<open>All actions but the sending of a message and a partial result end the query.\<close>

fun final_action :: "query_action \<Rightarrow> bool" where
  "final_action (SendMessage _ _ _) = False"
| "final_action (GetRecordPartialResult _ _) = False"
| "final_action _ = True"

definition engine_ok :: "query_engine \<Rightarrow> bool" where
  "engine_ok e \<longleftrightarrow> (\<forall>i q. hm_get (qe_queries e) i = Some q \<longrightarrow> query_id_of q = i)"

named_theorems context_defs \<open>the operations of the query contexts\<close>

lemmas fn_defs [context_defs] = fn_register_response_failure_def fn_register_response_def fn_schedule_next_peer_def
  fn_discount_slow_def

lemmas gr_defs [context_defs] = gr_register_response_failure_def gr_register_response.simps gr_schedule_next_peer_def

lemmas gp_defs [context_defs] = gp_register_response_failure_def gp_register_response_def gp_schedule_next_peer_def

lemmas tp_defs [context_defs] = tp_register_send_failure_def tp_register_send_success_def

lemma config_failure [simp]:
  "fn_config (fn_register_response_failure p c) = fn_config c"
  "gr_config (gr_register_response_failure p d) = gr_config d"
  "gp_config (gp_register_response_failure p f) = gp_config f"
  by (simp_all add: context_defs split: option.split prod.split)

lemma config_response [simp]:
  "fn_config (snd (fn_register_response p x c)) = fn_config c"
  "gr_config (snd (gr_register_response p y d)) = gr_config d"
  "gp_config (snd (gp_register_response p z f)) = gp_config f"
  by (cases y; simp add: context_defs Let_def split: option.split prod.split)+

lemma query_id_response_failure [simp]: "query_id_of (query_response_failure p q) = query_id_of q"
  by (cases q) simp_all

lemma query_id_response [simp]: "query_id_of (snd (query_response now p m q)) = query_id_of q"
  by (cases q; cases m) (simp_all del: gr_register_response.simps)

lemma query_id_send [simp]:
  "query_id_of (query_send_failure p q) = query_id_of q" "query_id_of (query_send_success p q) = query_id_of q"
  by (cases q; simp add: tp_defs)+

text \<open>What a query may answer when it is polled: never an action of another query.\<close>

fun polled_action :: "query_id \<Rightarrow> query_action option \<Rightarrow> bool" where
  "polled_action i None \<longleftrightarrow> True"
| "polled_action i (Some (SendMessage j _ _)) \<longleftrightarrow> i = j"
| "polled_action i (Some (GetRecordPartialResult j _)) \<longleftrightarrow> i = j"
| "polled_action i (Some (QuerySucceeded j)) \<longleftrightarrow> i = j"
| "polled_action i (Some (QueryFailed j)) \<longleftrightarrow> i = j"
| "polled_action i (Some _) \<longleftrightarrow> False"

lemma fn_polled:
  "fn_config (snd (fn_next_action now c)) = fn_config c \<and> polled_action (fnc_query (fn_config c)) (fst (fn_next_action now c))"
  by (simp add: fn_next_action_def Let_def fn_schedule_next_peer_def fn_discount_slow_def
      split: option.split prod.split)

lemma gr_polled:
  "gr_config (snd (gr_next_action now c)) = gr_config c \<and> polled_action (grc_query (gr_config c)) (fst (gr_next_action now c))"
  by (simp add: gr_next_action_def Let_def gr_schedule_next_peer_def split: option.split prod.split list.split)

lemma gp_polled:
  "gp_config (snd (gp_next_action now c)) = gp_config c \<and> polled_action (gpc_query (gp_config c)) (fst (gp_next_action now c))"
  by (simp add: gp_next_action_def Let_def gp_schedule_next_peer_def split: option.split prod.split)

lemma query_polled:
  "query_id_of (snd (query_next_action now q)) = query_id_of q \<and> polled_action (query_id_of q) (fst (query_next_action now q))"
  by (cases q) (simp_all add: fn_polled gr_polled gp_polled tp_next_action_def fm_next_action_def)

lemma success_action_query: "query_id_of q = i \<Longrightarrow> action_query (success_action K orders i q) = i"
  by (cases q) simp_all

lemma success_action_final [simp]: "final_action (success_action K orders i q)"
  by (cases q) simp_all


lemma engine_ok_insert: "engine_ok e \<Longrightarrow> query_id_of q = i \<Longrightarrow> engine_ok (insert_query i q e)"
  by (simp add: engine_ok_def)

lemma engine_ok_remove: "engine_ok e \<Longrightarrow> engine_ok (e\<lparr>qe_queries := hm_remove i (qe_queries e)\<rparr>)"
  by (simp add: engine_ok_def)

lemma engine_okD: "engine_ok e \<Longrightarrow> hm_get (qe_queries e) i = Some q \<Longrightarrow> query_id_of q = i"
  by (simp add: engine_ok_def)

abbreviation active :: "query_engine \<Rightarrow> query_id set" where
  "active e \<equiv> hm_keys (qe_queries e)"

text \<open>What a poll of the engine gives: no panic, and an action only of an active query.\<close>

definition poll_post :: "query_engine \<Rightarrow> unit + query_action option \<times> query_engine \<Rightarrow> bool" where
  "poll_post e r \<longleftrightarrow>
     (case r of
        Inl _ \<Rightarrow> False
      | Inr (None, e') \<Rightarrow> engine_ok e' \<and> active e' = active e
      | Inr (Some a, e') \<Rightarrow>
          engine_ok e' \<and> action_query a \<in> active e \<and>
          active e' = (if final_action a then active e - {action_query a} else active e))"

lemma poll_post_active: "active e = active e' \<Longrightarrow> poll_post e r = poll_post e' r"
  by (simp only: poll_post_def)

lemma settle_action_post:
  assumes "engine_ok e" and "i \<in> active e" and "polled_action i (Some a)"
  shows "poll_post e (settle_action K orders e a)"
proof -
  obtain q where q: "hm_get (qe_queries e) i = Some q" using assms(2) by (auto simp: hm_keys_iff)
  have "query_id_of q = i" using engine_okD [OF assms(1) q] .
  then show ?thesis using assms q engine_ok_remove [OF assms(1), of i]
    by (cases a) (simp_all add: poll_post_def on_query_succeeded_def on_query_failed_def success_action_query)
qed

lemma poll_queries_post: "engine_ok e \<Longrightarrow> poll_post e (poll_queries K orders now ids e)"
proof (induction ids arbitrary: e)
  case (Cons i ids)
  show ?case
  proof (cases "hm_get (qe_queries e) i")
    case (Some q)
    obtain a q' where n: "query_next_action now q = (a, q')" by fastforce
    have "query_id_of q = i" using engine_okD [OF Cons.prems Some] .
    then have q': "query_id_of q' = i" and pa: "polled_action i a"
      using query_polled [of now q] n by simp_all
    have ok: "engine_ok (insert_query i q' e)" using engine_ok_insert [OF Cons.prems q'] .
    have act: "active (insert_query i q' e) = active e" using Some by (auto simp: hm_keys_iff)
    have "i \<in> active (insert_query i q' e)" by simp
    then show ?thesis
      using Cons.IH [OF ok] settle_action_post [OF ok, of i] Some n pa poll_post_active [OF act] by (cases a) simp_all
  qed (use Cons in simp)
qed (simp add: poll_post_def)

lemma engine_next_action_post: "engine_ok e \<Longrightarrow> poll_post e (engine_next_action K orders order now e)"
  unfolding engine_next_action_def by (rule poll_queries_post)

subsection \<open>Runs of the engine\<close>

text \<open>
  The calls that the Kademlia event loop makes. A label records that a query was started, or an
  action that a poll returned.
\<close>

datatype engine_label = Started query_id | Acted query_action | Quiet

inductive engine_step :: "kad_env \<Rightarrow> message_codec \<Rightarrow> query_engine \<Rightarrow> engine_label \<Rightarrow> query_engine \<Rightarrow> bool"
  for K W e where
  find_node: "engine_step K W e (Started i) (start_find_node W K e i target candidates)"
| put_record: "engine_step K W e (Started i) (start_put_record W K e i r candidates quorum)"
| put_record_to_peers: "engine_step K W e (Started i) (start_put_record_to_peers e i r peers quorum)"
| get_record: "engine_step K W e (Started i) (start_get_record W K e i key candidates quorum local_record)"
| add_provider: "engine_step K W e (Started i) (start_add_provider W K e i key provider candidates quorum)"
| get_providers: "engine_step K W e (Started i) (start_get_providers W K e i key candidates known)"
| track_put: "engine_step K W e (Started i)
     (start_put_record_to_found_nodes_requests_tracking e i key peers quorum)"
| track_add: "engine_step K W e (Started i)
     (start_add_provider_to_found_nodes_requests_tracking e i key peers quorum)"
| response_failure: "engine_step K W e Quiet (engine_register_response_failure e i p)"
| response: "engine_step K W e Quiet (snd (engine_register_response e now i p m))"
| send_failure: "engine_step K W e Quiet (engine_register_send_failure e i p)"
| send_success: "engine_step K W e Quiet (engine_register_send_success e i p)"
| peer_failure: "engine_step K W e Quiet (engine_register_peer_failure e i p)"
| idle: "engine_next_action K orders order now e = Inr (None, e') \<Longrightarrow> engine_step K W e Quiet e'"
| acted: "engine_next_action K orders order now e = Inr (Some a, e') \<Longrightarrow> engine_step K W e (Acted a) e'"

lemmas start_defs = start_find_node_def start_put_record_def start_put_record_to_peers_def start_get_record_def
  start_add_provider_def start_get_providers_def start_put_record_to_found_nodes_requests_tracking_def
  start_add_provider_to_found_nodes_requests_tracking_def

lemmas new_defs = find_node_new_def engine_find_node_config_def get_record_new_def get_providers_new_def
  put_to_target_peers_new_def

lemmas register_defs = engine_register_response_failure_def engine_register_response_def
  engine_register_send_failure_def engine_register_send_success_def engine_register_peer_failure_def

lemma engine_update_post:
  assumes "engine_ok e" and "\<And>q. query_id_of (f q) = query_id_of q"
  shows "engine_ok (case hm_get (qe_queries e) i of None \<Rightarrow> e | Some q \<Rightarrow> insert_query i (f q) e) \<and>
    active (case hm_get (qe_queries e) i of None \<Rightarrow> e | Some q \<Rightarrow> insert_query i (f q) e) = active e"
  using assms by (auto simp: hm_keys_iff engine_okD intro!: engine_ok_insert split: option.split)

lemma engine_start_post:
  "engine_ok e \<Longrightarrow> query_id_of q = i \<Longrightarrow> e' = insert_query i q e \<Longrightarrow> engine_ok e' \<and> active e' = insert i (active e)"
  by (simp add: engine_ok_insert)

text \<open>The effect of a label on the set of active queries.\<close>

fun label_active :: "engine_label \<Rightarrow> query_id set \<Rightarrow> query_id set" where
  "label_active (Started i) A = insert i A"
| "label_active (Acted a) A = (if final_action a then A - {action_query a} else A)"
| "label_active Quiet A = A"

lemma engine_step_post:
  assumes "engine_step K W e l e'" and "engine_ok e"
  shows "engine_ok e' \<and> active e' = label_active l (active e) \<and> (\<forall>a. l = Acted a \<longrightarrow> action_query a \<in> active e)"
  using assms
proof cases
  case (response_failure i p)
  then show ?thesis using engine_update_post [OF assms(2), of "query_response_failure p" i]
    by (simp add: register_defs)
next
  case (response now i p m)
  then show ?thesis using engine_update_post [OF assms(2), of "\<lambda>q. snd (query_response now p m q)" i]
    by (auto simp: register_defs split: option.split prod.split)
next
  case (send_failure i p)
  then show ?thesis using engine_update_post [OF assms(2), of "query_send_failure p" i] by (simp add: register_defs)
next
  case (send_success i p)
  then show ?thesis using engine_update_post [OF assms(2), of "query_send_success p" i] by (simp add: register_defs)
next
  case (peer_failure i p)
  have "engine_ok (engine_register_send_failure e i p) \<and> active (engine_register_send_failure e i p) = active e"
    using engine_update_post [OF assms(2), of "query_send_failure p" i] by (simp add: register_defs)
  then show ?thesis
    using peer_failure engine_update_post [of "engine_register_send_failure e i p" "query_response_failure p" i]
    by (simp add: engine_register_peer_failure_def engine_register_response_failure_def)
next
  case (idle orders order now)
  then show ?thesis using engine_next_action_post [OF assms(2), of K orders order now] by (simp add: poll_post_def)
next
  case (acted orders order now a)
  then show ?thesis using engine_next_action_post [OF assms(2), of K orders order now] by (simp add: poll_post_def)
qed (use assms(2) in \<open>simp_all add: start_defs new_defs engine_ok_insert\<close>)

inductive engine_run :: "kad_env \<Rightarrow> message_codec \<Rightarrow> query_engine \<Rightarrow> engine_label list \<Rightarrow> query_engine \<Rightarrow> bool"
  for K W e where
  start: "engine_run K W e [] e"
| step: "engine_run K W e ls e' \<Longrightarrow> engine_step K W e' l e'' \<Longrightarrow> engine_run K W e (ls @ [l]) e''"

text \<open>The last start of the query is not followed by a final action of it.\<close>

definition open_query :: "query_id \<Rightarrow> engine_label list \<Rightarrow> bool" where
  "open_query i ls \<longleftrightarrow>
     (\<exists>us vs. ls = us @ Started i # vs \<and> (\<forall>a. Acted a \<in> set vs \<and> action_query a = i \<longrightarrow> \<not> final_action a))"

lemma open_query_Nil [simp]: "\<not> open_query i []"
  by (simp add: open_query_def)

lemma open_query_snoc:
  "open_query i (ls @ [l]) \<longleftrightarrow>
     l = Started i \<or> open_query i ls \<and> \<not> (\<exists>a. l = Acted a \<and> action_query a = i \<and> final_action a)"
proof
  assume "open_query i (ls @ [l])"
  then obtain us vs where eq: "ls @ [l] = us @ Started i # vs"
    and vs: "\<forall>a. Acted a \<in> set vs \<and> action_query a = i \<longrightarrow> \<not> final_action a" unfolding open_query_def by blast
  then show "l = Started i \<or> open_query i ls \<and> \<not> (\<exists>a. l = Acted a \<and> action_query a = i \<and> final_action a)"
    by (cases vs rule: rev_cases) (auto simp: open_query_def)
next
  assume "l = Started i \<or> open_query i ls \<and> \<not> (\<exists>a. l = Acted a \<and> action_query a = i \<and> final_action a)"
  then show "open_query i (ls @ [l])"
  proof
    assume "l = Started i"
    then have "ls @ [l] = ls @ Started i # []" by simp
    then show ?thesis unfolding open_query_def by fastforce
  next
    assume r: "open_query i ls \<and> \<not> (\<exists>a. l = Acted a \<and> action_query a = i \<and> final_action a)"
    then obtain us vs where "ls = us @ Started i # vs"
      and "\<forall>a. Acted a \<in> set vs \<and> action_query a = i \<longrightarrow> \<not> final_action a" unfolding open_query_def by blast
    with r show ?thesis unfolding open_query_def by (intro exI [of _ us] exI [of _ "vs @ [l]"]) auto
  qed
qed

lemma label_active_iff:
  "i \<in> label_active l A \<longleftrightarrow> l = Started i \<or> i \<in> A \<and> \<not> (\<exists>a. l = Acted a \<and> action_query a = i \<and> final_action a)"
  by (cases l) auto

lemma engine_run_open:
  assumes "engine_run K W e ls e'" and "engine_ok e" and "active e = {}"
  shows "engine_ok e' \<and> (\<forall>i. i \<in> active e' \<longleftrightarrow> open_query i ls) \<and>
    (\<forall>us a vs. ls = us @ Acted a # vs \<longrightarrow> open_query (action_query a) us)"
  using assms
proof (induction rule: engine_run.induct)
  case (step ls e' l e'')
  note IH = step.IH [OF step.prems]
  note post = engine_step_post [OF step.hyps(2) conjunct1 [OF IH]]
  have "open_query (action_query a) us" if "ls @ [l] = us @ Acted a # vs" for us a vs
    using that IH post by (cases vs rule: rev_cases) auto
  then show ?case using IH post by (simp add: open_query_snoc label_active_iff)
qed simp

text \<open>
  C24: In every run of a new engine, whatever the order in which queries are started, answered and
  polled: polling never reaches the panics of \<open>on_query_succeeded\<close> and \<open>on_query_failed\<close>; every action
  is one of a query that was started and has not been reported as finished since, so that a query is
  reported as finished at most once; and the engine holds exactly the queries that were started and
  not yet reported as finished.
\<close>

theorem engine_finishes_once:
  assumes "engine_run K W (query_engine_new local_peer replication parallelism) ls e"
  shows "engine_next_action K orders order now e \<noteq> Inl () \<and>
    (\<forall>us a vs. ls = us @ Acted a # vs \<longrightarrow> open_query (action_query a) us) \<and>
    (\<forall>i. i \<in> active e \<longleftrightarrow> open_query i ls)"
proof -
  have "engine_ok (query_engine_new local_peer replication parallelism)"
    "active (query_engine_new local_peer replication parallelism) = {}"
    by (simp_all add: query_engine_new_def engine_ok_def hm_keys_def)
  from engine_run_open [OF assms this] show ?thesis
    using engine_next_action_post [of e K orders order now] by (auto simp: poll_post_def)
qed


text \<open>An engine that tracks a put to no peers at all: the put fails at the first poll.\<close>

definition example_engine :: query_engine where
  "example_engine = query_engine_new (example_kad_id 1) 20 3"

definition example_tracking :: query_engine where
  "example_tracking = start_put_record_to_found_nodes_requests_tracking example_engine 7 [0] [] QuorumOne"

lemma example_tracking_poll:
  "engine_next_action example_kad_env ((\<lambda>m. m), (\<lambda>m. m)) (\<lambda>m. m) 0 example_tracking =
     Inr (Some (QueryFailed 7), example_engine)"
  by (simp add: engine_next_action_def example_tracking_def example_engine_def query_engine_new_def
      start_put_record_to_found_nodes_requests_tracking_def put_to_target_peers_new_def tp_next_action_def
      tp_is_finished_def tp_is_succeded_def on_query_failed_def)

lemma example_engine_run:
  "engine_run example_kad_env example_wire example_engine ([] @ [Started 7] @ [Acted (QueryFailed 7)]) example_engine"
  using engine_run.step [OF engine_run.step [OF engine_run.start engine_step.track_put]
      engine_step.acted [OF example_tracking_poll [unfolded example_tracking_def]]]
  by simp

theorem engine_finishes_once_witness:
  "open_query 7 [Started 7] \<and> \<not> open_query 7 [Started 7, Acted (QueryFailed 7)]"
proof -
  note t = engine_finishes_once [OF example_engine_run [unfolded example_engine_def]]
  have "open_query (action_query (QueryFailed 7)) [Started 7]"
    by (rule t [THEN conjunct2, THEN conjunct1, rule_format, of _ _ "[]"]) simp
  moreover have "\<not> open_query 7 [Started 7, Acted (QueryFailed 7)]"
    using t [THEN conjunct2, THEN conjunct2] by (simp add: query_engine_new_def hm_keys_def)
  ultimately show ?thesis by simp
qed

subsection \<open>No query is starved by a poll\<close>

lemma poll_queries_idle:
  assumes "distinct ids"
  shows "(\<exists>e'. poll_queries K orders now ids e = Inr (None, e')) \<longleftrightarrow>
    (\<forall>i q. i \<in> set ids \<longrightarrow> hm_get (qe_queries e) i = Some q \<longrightarrow> fst (query_next_action now q) = None)"
  using assms
proof (induction ids arbitrary: e)
  case (Cons i ids)
  show ?case
  proof (cases "hm_get (qe_queries e) i")
    case None
    then show ?thesis using Cons by (auto simp: None)
  next
    case (Some q)
    obtain a q' where n: "query_next_action now q = (a, q')" by fastforce
    show ?thesis
    proof (cases a)
      case None
      have "(\<exists>e'. poll_queries K orders now ids (insert_query i q' e) = Inr (None, e')) \<longleftrightarrow>
          (\<forall>j r. j \<in> set ids \<longrightarrow> hm_get (qe_queries e) j = Some r \<longrightarrow> fst (query_next_action now r) = None)"
        using Cons.IH [of "insert_query i q' e"] Cons.prems by auto
      then show ?thesis using Some n None by auto
    next
      case (Some b)
      have "settle_action K orders e' b \<noteq> Inr (None, e'')" for e' e''
        by (cases b) (simp_all split: option.split)
      then show ?thesis using \<open>hm_get (qe_queries e) i = Some q\<close> n Some
        by (auto intro!: exI [of _ i] exI [of _ q])
    qed
  qed
qed simp

text \<open>
  A poll of the engine reports no action only if no active query has one: whatever the iteration
  order of the map, as long as some query wants to send a message, to hand out a record or to finish,
  the poll returns an action.
\<close>

lemma engine_poll_idle:
  assumes "hm_ok (qe_queries e)" and "iteration_order order"
  shows "(\<exists>e'. engine_next_action K orders order now e = Inr (None, e')) \<longleftrightarrow>
    (\<forall>(i, q) \<in> set (qe_queries e). fst (query_next_action now q) = None)"
proof -
  have "set (order (map fst (qe_queries e))) = fst ` set (qe_queries e)"
    using iteration_orderD(2) [OF assms(2)] by simp
  moreover have "distinct (order (map fst (qe_queries e)))"
    using assms by (metis hm_ok_def iteration_orderD(1) mset_eq_imp_distinct_iff)
  ultimately show ?thesis unfolding engine_next_action_def
    by (subst poll_queries_idle) (auto simp: hm_get_in_set [OF assms(1)] rev_image_eqI)
qed

end
