(* ===== verification/Multistream.thy ===== *)
theory Multistream
  imports Prelude
begin

section \<open>Multistream-select messages and frames\<close>

text \<open>
  \<open>src/multistream_select/protocol.rs\<close> and \<open>length_delimited.rs\<close>. The crate \<open>unsigned_varint\<close> is the record
  \<open>varint_lib\<close>; \<open>varint_ok\<close> says what is relied on: decoding inverts encoding, a \<open>usize\<close> takes
  at most ten bytes, and exactly the last byte of an encoding has its most significant bit clear. The inner I/O resource of a frame reader is
  the list of the answers its \<open>poll_read\<close> gives, that of a writer the numbers of bytes it accepts.
\<close>

record varint_lib =
  uvi_encode_usize :: "usize \<Rightarrow> u8 list"
  uvi_encode_u16 :: "nat \<Rightarrow> u8 list"
  uvi_decode_usize :: "u8 list \<Rightarrow> (usize \<times> u8 list) option"
  uvi_decode_u16 :: "u8 list \<Rightarrow> (nat \<times> u8 list) option"

definition msb :: "u8 \<Rightarrow> bool" where
  "msb b \<longleftrightarrow> bit b 7"

definition varint_ok :: "varint_lib \<Rightarrow> bool" where
  "varint_ok V \<longleftrightarrow>
     (\<forall>n tail. n \<le> usize_max \<longrightarrow> uvi_decode_usize V (uvi_encode_usize V n @ tail) = Some (n, tail)) \<and>
     (\<forall>n tail. n < 2 ^ 16 \<longrightarrow> uvi_decode_u16 V (uvi_encode_u16 V n @ tail) = Some (n, tail)) \<and>
     (\<forall>n. n \<le> usize_max \<longrightarrow> length (uvi_encode_usize V n) \<le> 10) \<and>
     (\<forall>n. n < 2 ^ 7 \<longrightarrow> (\<exists>b. uvi_encode_u16 V n = [b] \<and> \<not> msb b)) \<and>
     (\<forall>n. 2 ^ 7 \<le> n \<and> n < 2 ^ 14 \<longrightarrow> (\<exists>b c. uvi_encode_u16 V n = [b, c] \<and> msb b \<and> \<not> msb c))"

subsection \<open>Messages\<close>

definition ascii :: "string \<Rightarrow> u8 list" where
  "ascii s = map of_char s"

abbreviation newline :: u8 where
  "newline \<equiv> 10"

abbreviation slash :: u8 where
  "slash \<equiv> 47"

definition MAX_PROTOCOLS :: usize where
  "MAX_PROTOCOLS = 1000"

definition MSG_MULTISTREAM_1_0 :: "u8 list" where
  "MSG_MULTISTREAM_1_0 = ascii ''/multistream/1.0.0'' @ [newline]"

definition MSG_PROTOCOL_NA :: "u8 list" where
  "MSG_PROTOCOL_NA = ascii ''na'' @ [newline]"

definition MSG_LS :: "u8 list" where
  "MSG_LS = ascii ''ls'' @ [newline]"

definition PROTO_MULTISTREAM_1_0 :: "u8 list" where
  "PROTO_MULTISTREAM_1_0 = ascii ''/multistream/1.0.0''"

datatype version = V1 | V1Lazy

datatype header_line = HeaderV1

fun header_line_from :: "version \<Rightarrow> header_line" where
  "header_line_from V1 = HeaderV1"
| "header_line_from V1Lazy = HeaderV1"

text \<open>A \<open>Protocol\<close> is its bytes.\<close>

type_synonym ms_protocol = "u8 list"

datatype ms_message =
    Header header_line
  | Protocol ms_protocol
  | ListProtocols
  | Protocols "ms_protocol list"
  | NotAvailable

datatype io_error_kind = InvalidData | UnexpectedEof | WriteZero | OtherIo

datatype protocol_error =
    IoError io_error_kind
  | InvalidMessage
  | InvalidProtocol
  | TooManyProtocols
  | ProtocolNotSupported

definition protocol_try_from :: "u8 list \<Rightarrow> (protocol_error, ms_protocol) result" where
  "protocol_try_from value =
     (case value of b # _ \<Rightarrow> if b = slash then Inr value else Inl InvalidProtocol | [] \<Rightarrow> Inl InvalidProtocol)"

fun ms_encoded_len :: "varint_lib \<Rightarrow> ms_message \<Rightarrow> usize" where
  "ms_encoded_len V (Header HeaderV1) = length MSG_MULTISTREAM_1_0"
| "ms_encoded_len V (Protocol p) = length p + 1"
| "ms_encoded_len V ListProtocols = length MSG_LS"
| "ms_encoded_len V NotAvailable = length MSG_PROTOCOL_NA"
| "ms_encoded_len V (Protocols ps) =
     foldl (\<lambda>len p. let proto_len = length p + 1 in len + (length (uvi_encode_usize V proto_len) + proto_len)) 1 ps"

fun ms_encode :: "varint_lib \<Rightarrow> ms_message \<Rightarrow> u8 list" where
  "ms_encode V (Header HeaderV1) = MSG_MULTISTREAM_1_0"
| "ms_encode V (Protocol p) = p @ [newline]"
| "ms_encode V ListProtocols = MSG_LS"
| "ms_encode V (Protocols ps) =
     foldl (\<lambda>encoded p. encoded @ uvi_encode_usize V (length p + 1) @ p @ [newline]) [] ps @ [newline]"
| "ms_encode V NotAvailable = MSG_PROTOCOL_NA"

text \<open>
  The loop over the protocols of an \<open>ls\<close> response; the first argument is the number of protocols that
  may still follow.
\<close>

fun decode_protocols :: "varint_lib \<Rightarrow> nat \<Rightarrow> u8 list \<Rightarrow> (protocol_error, ms_protocol list) result" where
  "decode_protocols V budget remaining =
     (if remaining = [newline] then Inr []
      else case budget of
        0 \<Rightarrow> Inl TooManyProtocols
      | Suc budget' \<Rightarrow>
          (case uvi_decode_usize V remaining of
             None \<Rightarrow> Inl (IoError InvalidData)
           | Some (len, tail) \<Rightarrow>
               if len = 0 \<or> length tail < len \<or> tail ! (len - 1) \<noteq> newline then Inl InvalidMessage
               else case protocol_try_from (take (len - 1) tail) of
                 Inl e \<Rightarrow> Inl e
               | Inr p \<Rightarrow> map_sum id ((#) p) (decode_protocols V budget' (drop len tail))))"

declare decode_protocols.simps [simp del]

definition ms_decode :: "varint_lib \<Rightarrow> u8 list \<Rightarrow> (protocol_error, ms_message) result" where
  "ms_decode V msg =
     (if msg = MSG_MULTISTREAM_1_0 then Inr (Header HeaderV1)
      else if msg = MSG_PROTOCOL_NA then Inr NotAvailable
      else if msg = MSG_LS then Inr ListProtocols
      else if msg \<noteq> [] \<and> hd msg = slash \<and> last msg = newline \<and> newline \<notin> set (butlast msg)
        then map_sum id Protocol (protocol_try_from (butlast msg))
      else map_sum id Protocols (decode_protocols V MAX_PROTOCOLS msg))"

definition MAX_FRAME_SIZE :: nat where
  "MAX_FRAME_SIZE = 2 ^ (2 * 8 - 2) - 1"

text \<open>The error is \<open>InvalidData\<close>.\<close>

definition webrtc_encode_multistream_message ::
  "varint_lib \<Rightarrow> ms_message \<Rightarrow> bool \<Rightarrow> u8 list option" where
  "webrtc_encode_multistream_message V message prepend_header =
     (let msg_len = ms_encoded_len V message;
          header_len = length MSG_MULTISTREAM_1_0;
          msg_varint_len = length (uvi_encode_usize V msg_len);
          capacity =
            (if prepend_header
             then length (uvi_encode_usize V header_len) + header_len + msg_varint_len + msg_len
             else msg_varint_len + msg_len)
      in if MAX_FRAME_SIZE < capacity then None
         else Some ((if prepend_header then uvi_encode_usize V header_len @ ms_encode V (Header HeaderV1) else []) @
           uvi_encode_usize V msg_len @ ms_encode V message))"

subsection \<open>Frames\<close>

definition MAX_LEN_BYTES :: nat where
  "MAX_LEN_BYTES = 2"

text \<open>The length bytes read so far, or the length of the frame and the number of bytes read of it.\<close>

datatype read_state = ReadLength "u8 list" nat | ReadData nat nat

definition read_state_default :: read_state where
  "read_state_default = ReadLength (replicate MAX_LEN_BYTES 0) 0"

record length_delimited =
  ld_read_buffer :: "u8 list"
  ld_write_buffer :: "u8 list"
  ld_read_state :: read_state

definition length_delimited_new :: length_delimited where
  "length_delimited_new = \<lparr>ld_read_buffer = [], ld_write_buffer = [], ld_read_state = read_state_default\<rparr>"

text \<open>What the inner resource delivers, in order: bytes, none of them when it was closed, an error, or nothing yet.\<close>

datatype io_event = IoData "u8 list" | IoFail io_error_kind | IoPending

datatype io_read = ReadOk "u8 list" | ReadErr io_error_kind | ReadPending

text \<open>\<open>poll_read\<close> with a buffer of \<open>n\<close> bytes; bytes that do not fit stay in the resource.\<close>

fun poll_read :: "nat \<Rightarrow> io_event list \<Rightarrow> io_read \<times> io_event list" where
  "poll_read n [] = (ReadPending, [])"
| "poll_read n (IoPending # evs) = (ReadPending, evs)"
| "poll_read n (IoFail e # evs) = (ReadErr e, evs)"
| "poll_read n (IoData bs # evs) =
     (if length bs \<le> n then (ReadOk bs, evs) else (ReadOk (take n bs), IoData (drop n bs) # evs))"

datatype 'a stream_poll = StreamPending | StreamEnd | StreamItem 'a | StreamError io_error_kind

text \<open>One iteration of the loop of \<open>poll_next\<close>: \<open>None\<close> continues the loop.\<close>

definition ld_on_length ::
  "varint_lib \<Rightarrow> length_delimited \<Rightarrow> u8 list \<Rightarrow> nat \<Rightarrow> u8 list \<Rightarrow> u8 list stream_poll option \<times> length_delimited" where
  "ld_on_length V d buf0 pos0 bs =
     (if bs = [] then (Some (if pos0 = 0 then StreamEnd else StreamError UnexpectedEof), d)
      else
        let buf = buf0[pos0 := hd bs]; pos = pos0 + 1; d' = d\<lparr>ld_read_state := ReadLength buf pos\<rparr>
        in if \<not> msb (buf ! (pos - 1)) then
             (case uvi_decode_u16 V buf of
                None \<Rightarrow> (Some (StreamError InvalidData), d')
              | Some (len, _) \<Rightarrow>
                  if 1 \<le> len then
                    (None, d'\<lparr>ld_read_state := ReadData len 0,
                       ld_read_buffer := take len (ld_read_buffer d) @ replicate (len - length (ld_read_buffer d)) 0\<rparr>)
                  else (Some (StreamItem []), d'\<lparr>ld_read_state := read_state_default\<rparr>))
           else if pos = MAX_LEN_BYTES then (Some (StreamError InvalidData), d')
           else (None, d'))"

definition ld_on_data ::
  "length_delimited \<Rightarrow> nat \<Rightarrow> nat \<Rightarrow> u8 list \<Rightarrow> u8 list stream_poll option \<times> length_delimited" where
  "ld_on_data d len pos0 bs =
     (if bs = [] then (Some (StreamError UnexpectedEof), d)
      else
        let pos = pos0 + length bs;
            buffer = take pos0 (ld_read_buffer d) @ bs @ drop pos (ld_read_buffer d)
        in if pos = len then
             (Some (StreamItem buffer), d\<lparr>ld_read_buffer := [], ld_read_state := read_state_default\<rparr>)
           else (None, d\<lparr>ld_read_buffer := buffer, ld_read_state := ReadData len pos\<rparr>))"

definition ld_wanted :: "length_delimited \<Rightarrow> nat" where
  "ld_wanted d = (case ld_read_state d of ReadLength _ _ \<Rightarrow> 1 | ReadData _ pos \<Rightarrow> length (ld_read_buffer d) - pos)"

definition ld_on_read ::
  "varint_lib \<Rightarrow> length_delimited \<Rightarrow> io_read \<Rightarrow> u8 list stream_poll option \<times> length_delimited" where
  "ld_on_read V d answer =
     (case answer of
        ReadPending \<Rightarrow> (Some StreamPending, d)
      | ReadErr e \<Rightarrow> (Some (StreamError e), d)
      | ReadOk bs \<Rightarrow>
          (case ld_read_state d of
             ReadLength buf pos \<Rightarrow> ld_on_length V d buf pos bs
           | ReadData len pos \<Rightarrow> ld_on_data d len pos bs))"

fun io_size :: "io_event \<Rightarrow> nat" where
  "io_size (IoData bs) = Suc (length bs)"
| "io_size _ = 1"

lemma poll_read_decreases:
  "poll_read n evs = (ReadOk bs, evs') \<Longrightarrow> bs \<noteq> [] \<Longrightarrow> sum_list (map io_size evs') < sum_list (map io_size evs)"
  by (cases "(n, evs)" rule: poll_read.cases) (auto split: if_splits)

lemma ld_on_read_continues:
  "ld_on_read V d answer = (None, d') \<Longrightarrow> \<exists>bs. answer = ReadOk bs \<and> bs \<noteq> []"
  by (auto simp: ld_on_read_def ld_on_length_def ld_on_data_def split: io_read.splits read_state.splits if_splits)

function ld_poll_next ::
  "varint_lib \<Rightarrow> length_delimited \<Rightarrow> io_event list \<Rightarrow> u8 list stream_poll \<times> length_delimited \<times> io_event list" where
  "ld_poll_next V d evs =
     (let (answer, evs') = poll_read (ld_wanted d) evs
      in case ld_on_read V d answer of
           (Some result, d') \<Rightarrow> (result, d', evs')
         | (None, d') \<Rightarrow> ld_poll_next V d' evs')"
  by pat_completeness auto
termination
  by (relation "measure (\<lambda>(V, d, evs). sum_list (map io_size evs))")
    (auto dest!: ld_on_read_continues [OF sym] intro: poll_read_decreases [OF sym])

declare ld_poll_next.simps [simp del]


text \<open>The numbers of bytes that the inner resource can take, as \<open>poll_write\<close> reports them.\<close>

datatype io_write = WriteOk nat | WriteErr io_error_kind | WritePending

datatype io_poll = IoReady | IoBroken io_error_kind | IoBlocked

text \<open>The third component of the result is what was written.\<close>

fun ld_poll_write_buffer ::
  "length_delimited \<Rightarrow> io_write list \<Rightarrow> io_poll \<times> length_delimited \<times> u8 list \<times> io_write list" where
  "ld_poll_write_buffer d writes =
     (if ld_write_buffer d = [] then (IoReady, d, [], writes)
      else case writes of
        [] \<Rightarrow> (IoBlocked, d, [], [])
      | WritePending # ws \<Rightarrow> (IoBlocked, d, [], ws)
      | WriteErr e # ws \<Rightarrow> (IoBroken e, d, [], ws)
      | WriteOk 0 # ws \<Rightarrow> (IoBroken WriteZero, d, [], ws)
      | WriteOk n # ws \<Rightarrow>
          let (r, d', written, ws') =
                ld_poll_write_buffer (d\<lparr>ld_write_buffer := drop n (ld_write_buffer d)\<rparr>) ws
          in (r, d', take n (ld_write_buffer d) @ written, ws'))"

declare ld_poll_write_buffer.simps [simp del]

definition ld_poll_ready ::
  "length_delimited \<Rightarrow> io_write list \<Rightarrow> io_poll \<times> length_delimited \<times> u8 list \<times> io_write list" where
  "ld_poll_ready d writes =
     (if MAX_FRAME_SIZE \<le> length (ld_write_buffer d) then ld_poll_write_buffer d writes else (IoReady, d, [], writes))"

definition ld_start_send :: "varint_lib \<Rightarrow> length_delimited \<Rightarrow> u8 list \<Rightarrow> (io_error_kind, length_delimited) result" where
  "ld_start_send V d item =
     (if length item < 2 ^ 16 \<and> length item \<le> MAX_FRAME_SIZE
      then Inr (d\<lparr>ld_write_buffer := ld_write_buffer d @ uvi_encode_u16 V (length item) @ item\<rparr>)
      else Inl InvalidData)"

text \<open>Flushing and closing: the answer of the inner resource is the last argument.\<close>

definition ld_poll_flush ::
  "length_delimited \<Rightarrow> io_write list \<Rightarrow> io_poll \<Rightarrow> io_poll \<times> length_delimited \<times> u8 list \<times> io_write list" where
  "ld_poll_flush d writes inner =
     (case ld_poll_write_buffer d writes of
        (IoReady, rest) \<Rightarrow> (inner, rest)
      | blocked \<Rightarrow> blocked)"

definition ld_poll_close ::
  "length_delimited \<Rightarrow> io_write list \<Rightarrow> io_poll \<Rightarrow> io_poll \<times> length_delimited \<times> u8 list \<times> io_write list" where
  "ld_poll_close d writes inner =
     (case ld_poll_write_buffer d writes of
        (IoReady, rest) \<Rightarrow> (inner, rest)
      | blocked \<Rightarrow> blocked)"

text \<open>\<open>into_inner\<close> panics, the value \<open>False\<close>, while a buffer holds data.\<close>

definition ld_into_inner :: "length_delimited \<Rightarrow> bool" where
  "ld_into_inner d \<longleftrightarrow> ld_read_buffer d = [] \<and> ld_write_buffer d = []"

subsection \<open>Messages over frames\<close>

definition mio_start_send ::
  "varint_lib \<Rightarrow> length_delimited \<Rightarrow> ms_message \<Rightarrow> (protocol_error, length_delimited) result" where
  "mio_start_send V d item = map_sum IoError id (ld_start_send V d (ms_encode V item))"

datatype mio_poll = MioPending | MioEnd | MioItem "(protocol_error, ms_message) result"

definition mio_poll_next ::
  "varint_lib \<Rightarrow> length_delimited \<Rightarrow> io_event list \<Rightarrow> mio_poll \<times> length_delimited \<times> io_event list" where
  "mio_poll_next V d evs =
     (let (r, d', evs') = ld_poll_next V d evs
      in (case r of
            StreamPending \<Rightarrow> MioPending
          | StreamEnd \<Rightarrow> MioEnd
          | StreamError e \<Rightarrow> MioItem (Inl (IoError e))
          | StreamItem frame \<Rightarrow> MioItem (ms_decode V frame), d', evs'))"

subsection \<open>Messages survive the round trip\<close>

text \<open>A protocol name that can be told from the other messages.\<close>

definition protocol_ok :: "ms_protocol \<Rightarrow> bool" where
  "protocol_ok p \<longleftrightarrow> p \<noteq> [] \<and> hd p = slash \<and> newline \<notin> set p \<and> p \<noteq> PROTO_MULTISTREAM_1_0"

fun ms_message_ok :: "ms_message \<Rightarrow> bool" where
  "ms_message_ok (Protocol p) \<longleftrightarrow> protocol_ok p"
| "ms_message_ok (Protocols ps) \<longleftrightarrow>
     length ps \<le> MAX_PROTOCOLS \<and> list_all (\<lambda>p. p \<noteq> [] \<and> hd p = slash \<and> length p < usize_max) ps"
| "ms_message_ok _ \<longleftrightarrow> True"

lemma varint_okD:
  assumes "varint_ok V"
  shows "n \<le> usize_max \<Longrightarrow> uvi_decode_usize V (uvi_encode_usize V n @ tail) = Some (n, tail)"
    "n < 2 ^ 16 \<Longrightarrow> uvi_decode_u16 V (uvi_encode_u16 V n @ tail) = Some (n, tail)"
    "n < 2 ^ 7 \<Longrightarrow> \<exists>b. uvi_encode_u16 V n = [b] \<and> \<not> msb b"
    "2 ^ 7 \<le> n \<Longrightarrow> n < 2 ^ 14 \<Longrightarrow> \<exists>b c. uvi_encode_u16 V n = [b, c] \<and> msb b \<and> \<not> msb c"
    "n \<le> usize_max \<Longrightarrow> length (uvi_encode_usize V n) \<le> 10"
  using assms unfolding varint_ok_def by blast+

lemma protocol_try_from_ok: "p \<noteq> [] \<Longrightarrow> hd p = slash \<Longrightarrow> protocol_try_from p = Inr p"
  by (cases p) (simp_all add: protocol_try_from_def)

text \<open>The encoding of a list of protocols, without the accumulator.\<close>

definition protocol_entry :: "varint_lib \<Rightarrow> ms_protocol \<Rightarrow> u8 list" where
  "protocol_entry V p = uvi_encode_usize V (length p + 1) @ p @ [newline]"

lemma encode_protocols: "ms_encode V (Protocols ps) = concat (map (protocol_entry V) ps) @ [newline]"
proof -
  have "foldl (\<lambda>encoded p. encoded @ uvi_encode_usize V (length p + 1) @ p @ [newline]) acc ps =
      acc @ concat (map (protocol_entry V) ps)" for acc
    by (induction ps arbitrary: acc) (simp_all add: protocol_entry_def)
  then show ?thesis by simp
qed

lemma encoded_len: "ms_encoded_len V m = length (ms_encode V m)"
proof (cases "(V, m)" rule: ms_encoded_len.cases)
  case (5 V' ps)
  have "foldl (\<lambda>len p. let proto_len = length p + 1 in len + (length (uvi_encode_usize V proto_len) + proto_len)) n ps =
      n + length (concat (map (protocol_entry V) ps))" for n
    by (induction ps arbitrary: n) (simp_all add: protocol_entry_def Let_def)
  with 5 show ?thesis by (simp add: encode_protocols del: ms_encode.simps)
qed simp_all

lemma decode_protocols_encoded:
  assumes "varint_ok V" and "length ps \<le> n"
    and "list_all (\<lambda>p. p \<noteq> [] \<and> hd p = slash \<and> length p < usize_max) ps"
  shows "decode_protocols V n (concat (map (protocol_entry V) ps) @ [newline]) = Inr ps"
  using assms(2,3)
proof (induction ps arbitrary: n)
  case (Cons p ps)
  let ?rest = "concat (map (protocol_entry V) ps) @ [newline]"
  obtain m where n: "n = Suc m" using Cons.prems(1) by (cases n) auto
  have p: "p \<noteq> []" "hd p = slash" "length p + 1 \<le> usize_max" using Cons.prems(2) by auto
  have dec: "uvi_decode_usize V (protocol_entry V p @ ?rest) = Some (length p + 1, p @ [newline] @ ?rest)"
    using varint_okD(1) [OF assms(1) p(3), of "p @ [newline] @ ?rest"] by (simp add: protocol_entry_def)
  have ne: "protocol_entry V p \<noteq> []" by (simp add: protocol_entry_def)
  have "decode_protocols V n (protocol_entry V p @ ?rest) = map_sum id ((#) p) (decode_protocols V m ?rest)"
    using ne dec p(1,2) by (subst decode_protocols.simps) (simp add: n nth_append protocol_try_from_ok)
  also have "decode_protocols V m ?rest = Inr ps" using Cons n by simp
  finally show ?case by simp
qed (simp add: decode_protocols.simps)


lemma header_bytes: "MSG_MULTISTREAM_1_0 = PROTO_MULTISTREAM_1_0 @ [newline]"
  by (simp add: MSG_MULTISTREAM_1_0_def PROTO_MULTISTREAM_1_0_def)

lemma fixed_messages:
  "last (butlast MSG_MULTISTREAM_1_0) \<noteq> newline" "last (butlast MSG_PROTOCOL_NA) \<noteq> newline"
  "last (butlast MSG_LS) \<noteq> newline" "hd MSG_PROTOCOL_NA \<noteq> slash" "hd MSG_LS \<noteq> slash"
  "MSG_PROTOCOL_NA \<noteq> MSG_MULTISTREAM_1_0" "MSG_LS \<noteq> MSG_MULTISTREAM_1_0" "MSG_LS \<noteq> MSG_PROTOCOL_NA"
  "2 \<le> length MSG_MULTISTREAM_1_0" "2 \<le> length MSG_PROTOCOL_NA" "2 \<le> length MSG_LS"
  by (simp_all add: MSG_MULTISTREAM_1_0_def MSG_PROTOCOL_NA_def MSG_LS_def ascii_def of_char_def)

text \<open>A list of protocols ends with two line feeds, unlike every other message.\<close>

lemma encode_protocols_shape:
  assumes "ps \<noteq> []"
  shows "\<exists>bs. ms_encode V (Protocols ps) = bs @ [newline, newline]"
proof -
  obtain qs q where "ps = qs @ [q]" using assms by (cases ps rule: rev_cases) auto
  then show ?thesis by (simp add: encode_protocols protocol_entry_def del: ms_encode.simps)
qed

lemma ms_decode_encode:
  assumes "varint_ok V" and "ms_message_ok m"
  shows "ms_decode V (ms_encode V m) = Inr m"
proof (cases "(V, m)" rule: ms_encode.cases)
  case (2 V' p)
  then have p: "p \<noteq> []" "hd p = slash" "newline \<notin> set p" "p \<noteq> PROTO_MULTISTREAM_1_0"
    using assms(2) by (simp_all add: protocol_ok_def)
  then have "p @ [newline] \<noteq> MSG_MULTISTREAM_1_0" "p @ [newline] \<noteq> MSG_PROTOCOL_NA" "p @ [newline] \<noteq> MSG_LS"
    using fixed_messages(4,5) by (auto simp: header_bytes dest: arg_cong [of _ _ hd])
  then show ?thesis using 2 p by (simp add: ms_decode_def protocol_try_from_ok)
next
  case (4 V' ps)
  have dec: "decode_protocols V MAX_PROTOCOLS (ms_encode V (Protocols ps)) = Inr ps"
    unfolding encode_protocols using assms 4 by (intro decode_protocols_encoded) auto
  show ?thesis
  proof (cases "ps = []")
    case True
    have "[newline] \<noteq> MSG_MULTISTREAM_1_0 \<and> [newline] \<noteq> MSG_PROTOCOL_NA \<and> [newline] \<noteq> MSG_LS"
      using fixed_messages(9-11) by (metis One_nat_def Suc_eq_plus1 length_Cons list.size(3) not_less_eq_eq numeral_2_eq_2 order_refl)
    then show ?thesis using 4 True dec by (simp add: ms_decode_def)
  next
    case False
    then obtain bs where bs: "ms_encode V (Protocols ps) = bs @ [newline, newline]"
      using encode_protocols_shape by blast
    then have "last (butlast (ms_encode V (Protocols ps))) = newline"
      "newline \<in> set (butlast (ms_encode V (Protocols ps)))" by (simp_all add: butlast_append)
    then show ?thesis using 4 dec fixed_messages(1-3) by (auto simp: ms_decode_def simp del: ms_encode.simps)
  qed
qed (use fixed_messages in \<open>simp_all add: ms_decode_def\<close>)

text \<open>
  C25: Every message that is written with \<open>encode\<close> is read back by \<open>decode\<close>, and \<open>encoded_len\<close> is the
  length of the encoding. A protocol name must start with a slash, contain no line feed and differ
  from the header line; a list may hold up to \<open>MAX_PROTOCOLS\<close> names that start with a slash.
\<close>

theorem multistream_message_roundtrip:
  assumes "varint_ok V" and "ms_message_ok m"
  shows "ms_decode V (ms_encode V m) = Inr m \<and> ms_encoded_len V m = length (ms_encode V m)"
  using assms by (simp add: ms_decode_encode encoded_len)


subsection \<open>Frames survive any fragmentation\<close>

definition frame :: "varint_lib \<Rightarrow> u8 list \<Rightarrow> u8 list" where
  "frame V item = uvi_encode_u16 V (length item) @ item"

text \<open>Deliveries without errors and without the end of the stream.\<close>

fun io_event_ok :: "io_event \<Rightarrow> bool" where
  "io_event_ok (IoData bs) \<longleftrightarrow> bs \<noteq> []"
| "io_event_ok (IoFail e) \<longleftrightarrow> False"
| "io_event_ok IoPending \<longleftrightarrow> True"

fun io_event_bytes :: "io_event \<Rightarrow> u8 list" where
  "io_event_bytes (IoData bs) = bs"
| "io_event_bytes _ = []"

abbreviation io_bytes :: "io_event list \<Rightarrow> u8 list" where
  "io_bytes evs \<equiv> concat (map io_event_bytes evs)"

lemma poll_read_ok:
  assumes "list_all io_event_ok evs" and "0 < n" and "poll_read n evs = (a, evs')"
  shows "list_all io_event_ok evs'"
    "a = ReadPending \<and> io_bytes evs' = io_bytes evs \<or>
     (\<exists>bs. a = ReadOk bs \<and> bs \<noteq> [] \<and> length bs \<le> n \<and> io_bytes evs = bs @ io_bytes evs')"
  using assms by (cases "(n, evs)" rule: poll_read.cases; auto split: if_splits)+

text \<open>In state \<open>d\<close> the bytes \<open>rest\<close> complete exactly the frames \<open>fs\<close>.\<close>

definition ld_expects :: "varint_lib \<Rightarrow> length_delimited \<Rightarrow> u8 list \<Rightarrow> u8 list list \<Rightarrow> bool" where
  "ld_expects V d rest fs \<longleftrightarrow>
     (case ld_read_state d of
        ReadLength buf pos \<Rightarrow>
          ld_read_buffer d = [] \<and> length buf = 2 \<and>
          (pos = 0 \<and> buf = [0, 0] \<and> rest = concat (map (frame V) fs) \<or>
           pos = 1 \<and> (\<exists>c f fs'. fs = f # fs' \<and> uvi_encode_u16 V (length f) = [buf ! 0, c] \<and> \<not> msb c \<and>
             rest = c # f @ concat (map (frame V) fs')))
      | ReadData len pos \<Rightarrow>
          (\<exists>f fs'. fs = f # fs' \<and> len = length f \<and> pos < len \<and> length (ld_read_buffer d) = len \<and>
             take pos (ld_read_buffer d) = take pos f \<and> rest = drop pos f @ concat (map (frame V) fs')))"

lemma ld_expects_new: "ld_expects V length_delimited_new (concat (map (frame V) fs)) fs"
  by (simp add: ld_expects_def length_delimited_new_def read_state_default_def MAX_LEN_BYTES_def numeral_2_eq_2)

lemma ld_expects_wanted: "ld_expects V d rest fs \<Longrightarrow> 0 < ld_wanted d"
  by (auto simp: ld_expects_def ld_wanted_def split: read_state.splits)

text \<open>What one answer of the inner resource leads to.\<close>

definition ld_advances ::
  "varint_lib \<Rightarrow> u8 list stream_poll option \<times> length_delimited \<Rightarrow> u8 list \<Rightarrow> u8 list list \<Rightarrow> bool" where
  "ld_advances V r rest fs \<longleftrightarrow>
     (case r of
        (None, d) \<Rightarrow> ld_expects V d rest fs
      | (Some p, d) \<Rightarrow> (\<exists>f fs'. p = StreamItem f \<and> fs = f # fs' \<and> ld_expects V d rest fs'))"

lemma ld_default_expects:
  "ld_read_state d = read_state_default \<Longrightarrow> ld_read_buffer d = [] \<Longrightarrow> ld_expects V d (concat (map (frame V) fs)) fs"
  by (simp add: ld_expects_def read_state_default_def MAX_LEN_BYTES_def numeral_2_eq_2)

text \<open>The state after the length of the frame \<open>f\<close> has been read completely.\<close>

lemma ld_length_done:
  assumes "\<not> msb (buf0[pos0 := b] ! pos0)" and "uvi_decode_u16 V (buf0[pos0 := b]) = Some (length f, t)"
    and "ld_read_buffer d = []"
  shows "ld_advances V (ld_on_length V d buf0 pos0 [b]) (f @ concat (map (frame V) fs)) (f # fs)"
proof (cases "f = []")
  case True
  then show ?thesis using assms
    by (simp add: ld_on_length_def ld_advances_def Let_def ld_default_expects)
next
  case False
  then have "Suc 0 \<le> length f" by (cases f) auto
  then show ?thesis using assms False by (simp add: ld_on_length_def ld_advances_def Let_def ld_expects_def)
qed

lemma ld_on_length_advances:
  assumes V: "varint_ok V" and d: "ld_read_state d = ReadLength buf pos" "ld_expects V d ([b] @ rest) fs"
    and fs: "list_all (\<lambda>f. length f \<le> MAX_FRAME_SIZE) fs"
  shows "ld_advances V (ld_on_length V d buf pos [b]) rest fs"
proof -
  have rb: "ld_read_buffer d = []" and len: "length buf = 2" using d by (simp_all add: ld_expects_def)
  consider (first) "pos = 0" "buf = [0, 0]" "b # rest = concat (map (frame V) fs)"
    | (second) c f fs' where "pos = 1" "fs = f # fs'" "uvi_encode_u16 V (length f) = [buf ! 0, c]" "\<not> msb c"
        "b # rest = c # f @ concat (map (frame V) fs')"
    using d by (auto simp: ld_expects_def)
  then show ?thesis
  proof cases
    case first
    then obtain f fs' where f: "fs = f # fs'" by (cases fs) auto
    then have le: "length f < 2 ^ 14" using fs by (simp add: MAX_FRAME_SIZE_def)
    note eq = first(3) [unfolded f, simplified frame_def list.map concat.simps]
    show ?thesis
    proof (cases "length f < 2 ^ 7")
      case True
      obtain e where e: "uvi_encode_u16 V (length f) = [e]" "\<not> msb e" using varint_okD(3) [OF V True] by blast
      have "b = e" "rest = f @ concat (map (frame V) fs')" using eq e by simp_all
      moreover have "uvi_decode_u16 V [e, 0] = Some (length f, [0])"
        using varint_okD(2) [OF V, of "length f" "[0]"] e le by simp
      ultimately show ?thesis unfolding f using ld_length_done [of buf pos b V f "[0]" d fs'] first e rb by simp
    next
      case False
      then obtain e c where e: "uvi_encode_u16 V (length f) = [e, c]" "msb e" "\<not> msb c"
        using varint_okD(4) [OF V _ le] by auto
      then have "b = e" "rest = c # f @ concat (map (frame V) fs')" using eq by simp_all
      then show ?thesis using first e f rb
        by (simp add: ld_on_length_def ld_advances_def Let_def ld_expects_def MAX_LEN_BYTES_def)
    qed
  next
    case second
    have le: "length f < 2 ^ 16" using fs second by (simp add: MAX_FRAME_SIZE_def)
    have "buf[1 := b] = [buf ! 0, b]" using len by (cases buf; cases "tl buf") auto
    moreover have "uvi_decode_u16 V [buf ! 0, c] = Some (length f, [])"
      using varint_okD(2) [OF V le, of "[]"] second by simp
    ultimately show ?thesis using second ld_length_done [of buf 1 b V f "[]" d fs'] rb by simp
  qed
qed

lemma ld_on_data_advances:
  assumes d: "ld_read_state d = ReadData len pos" "ld_expects V d (bs @ rest) fs"
    and bs: "bs \<noteq> []" "length bs \<le> length (ld_read_buffer d) - pos"
  shows "ld_advances V (ld_on_data d len pos bs) rest fs"
proof -
  obtain f fs' where f: "fs = f # fs'" "len = length f" "pos < len" "length (ld_read_buffer d) = len"
    "take pos (ld_read_buffer d) = take pos f" "bs @ rest = drop pos f @ concat (map (frame V) fs')"
    using d by (auto simp: ld_expects_def)
  have le: "length bs \<le> length (drop pos f)" using bs f by simp
  have bs_eq: "bs = take (length bs) (drop pos f)"
    using arg_cong [OF f(6), of "take (length bs)"] le by simp
  have rest_eq: "rest = drop (pos + length bs) f @ concat (map (frame V) fs')"
    using arg_cong [OF f(6), of "drop (length bs)"] le by (simp add: add.commute)
  have "take pos f @ bs = take (pos + length bs) f" by (subst bs_eq) (simp add: take_add le)
  then have buf: "take pos (ld_read_buffer d) @ bs @ x = take (pos + length bs) f @ x" for x
    using f(5) by (metis append_assoc)
  show ?thesis
  proof (cases "pos + length bs = len")
    case True
    then show ?thesis using bs f rest_eq buf
      by (simp add: ld_on_data_def ld_advances_def Let_def ld_default_expects)
  next
    case False
    then have lt: "pos + length bs < length f" using bs f by simp
    then show ?thesis using False bs f rest_eq buf
      by (simp add: ld_on_data_def ld_advances_def Let_def ld_expects_def min_def)
  qed
qed


lemma ld_on_read_advances:
  assumes "varint_ok V" and "ld_expects V d (bs @ rest) fs" and "list_all (\<lambda>f. length f \<le> MAX_FRAME_SIZE) fs"
    and "bs \<noteq> []" and "length bs \<le> ld_wanted d"
  shows "ld_advances V (ld_on_read V d (ReadOk bs)) rest fs"
proof (cases "ld_read_state d")
  case (ReadLength buf pos)
  then obtain b where "bs = [b]" using assms(4,5) by (cases bs; cases "tl bs") (auto simp: ld_wanted_def)
  then show ?thesis using ld_on_length_advances [OF assms(1) ReadLength, of b rest fs] assms(2,3) ReadLength
    by (simp add: ld_on_read_def)
next
  case (ReadData len pos)
  then show ?thesis using ld_on_data_advances [OF ReadData assms(2,4)] assms(5)
    by (simp add: ld_on_read_def ld_wanted_def)
qed

lemma ld_poll_next_ok:
  assumes "varint_ok V" and "list_all io_event_ok evs" and "ld_expects V d (io_bytes evs) fs"
    and "list_all (\<lambda>f. length f \<le> MAX_FRAME_SIZE) fs" and "ld_poll_next V d evs = (r, d', evs')"
  shows "list_all io_event_ok evs' \<and>
    (r = StreamPending \<and> ld_expects V d' (io_bytes evs') fs \<or>
     (\<exists>f fs'. r = StreamItem f \<and> fs = f # fs' \<and> ld_expects V d' (io_bytes evs') fs'))"
  using assms
proof (induction V d evs rule: ld_poll_next.induct)
  case (1 V d evs)
  obtain a evs1 where a: "poll_read (ld_wanted d) evs = (a, evs1)" by fastforce
  note rd = poll_read_ok [OF "1.prems"(2) ld_expects_wanted [OF "1.prems"(3)] a]
  from rd(2) show ?case
  proof (elim disjE conjE exE)
    assume "a = ReadPending" "io_bytes evs1 = io_bytes evs"
    then show ?thesis using "1.prems" a rd(1) by (simp add: ld_poll_next.simps [of V d] ld_on_read_def)
  next
    fix bs assume bs: "a = ReadOk bs" "bs \<noteq> []" "length bs \<le> ld_wanted d" "io_bytes evs = bs @ io_bytes evs1"
    have adv: "ld_advances V (ld_on_read V d a) (io_bytes evs1) fs"
      using ld_on_read_advances [OF "1.prems"(1) _ "1.prems"(4) bs(2,3)] "1.prems"(3) bs(1,4) by simp
    obtain x d1 where x: "ld_on_read V d a = (x, d1)" by fastforce
    show ?thesis
    proof (cases x)
      case None
      then have "ld_expects V d1 (io_bytes evs1) fs" using adv x by (simp add: ld_advances_def)
      moreover have "ld_poll_next V d1 evs1 = (r, d', evs')"
        using "1.prems"(5) a x None by (simp add: ld_poll_next.simps [of V d])
      ultimately show ?thesis using "1.IH" [OF a [symmetric] refl x [symmetric] None] "1.prems"(1,4) rd(1) a x None by blast
    next
      case (Some y)
      then show ?thesis using "1.prems"(5) a x adv rd(1) by (auto simp: ld_poll_next.simps [of V d] ld_advances_def)
    qed
  qed
qed


subsection \<open>End to end\<close>

abbreviation io_sizes :: "io_event list \<Rightarrow> nat" where
  "io_sizes evs \<equiv> sum_list (map io_size evs)"

lemma poll_read_le: "poll_read n evs = (a, evs') \<Longrightarrow> io_sizes evs' \<le> io_sizes evs"
  by (cases "(n, evs)" rule: poll_read.cases) (auto split: if_splits)

lemma poll_read_pending_less: "poll_read n evs = (ReadPending, evs') \<Longrightarrow> evs \<noteq> [] \<Longrightarrow> io_sizes evs' < io_sizes evs"
  by (cases "(n, evs)" rule: poll_read.cases) (auto split: if_splits)

lemma ld_poll_next_le: "ld_poll_next V d evs = (r, d', evs') \<Longrightarrow> io_sizes evs' \<le> io_sizes evs"
proof (induction V d evs rule: ld_poll_next.induct)
  case (1 V d evs)
  obtain a evs1 where a: "poll_read (ld_wanted d) evs = (a, evs1)" by fastforce
  obtain x d1 where x: "ld_on_read V d a = (x, d1)" by fastforce
  show ?case
  proof (cases x)
    case None
    then have "ld_poll_next V d1 evs1 = (r, d', evs')"
      using "1.prems" a x by (simp add: ld_poll_next.simps [of V d])
    then have "io_sizes evs' \<le> io_sizes evs1" using "1.IH" [OF a [symmetric] refl x [symmetric] None] a x None by simp
    then show ?thesis using poll_read_le [OF a] by simp
  next
    case (Some y)
    then show ?thesis using "1.prems" a x poll_read_le [OF a] by (simp add: ld_poll_next.simps [of V d])
  qed
qed

lemma ld_poll_next_less:
  assumes "ld_poll_next V d evs = (r, d', evs')" and "evs \<noteq> []" and "r = StreamPending \<or> (\<exists>f. r = StreamItem f)"
  shows "io_sizes evs' < io_sizes evs"
proof -
  obtain a evs1 where a: "poll_read (ld_wanted d) evs = (a, evs1)" by fastforce
  obtain x d1 where x: "ld_on_read V d a = (x, d1)" by fastforce
  have "evs' = evs1 \<and> x = Some r \<or> ld_poll_next V d1 evs1 = (r, d', evs') \<and> x = None"
    using assms(1) a x by (cases x) (simp_all add: ld_poll_next.simps [of V d])
  then have le: "io_sizes evs' \<le> io_sizes evs1" using ld_poll_next_le by blast
  have "io_sizes evs1 < io_sizes evs"
  proof (cases a)
    case (ReadOk bs)
    have "bs \<noteq> []"
    proof
      assume "bs = []"
      then have "\<exists>e. x = Some e \<and> e \<noteq> StreamPending \<and> (\<forall>f. e \<noteq> StreamItem f)" using x ReadOk
        by (auto simp: ld_on_read_def ld_on_length_def ld_on_data_def split: read_state.splits if_splits)
      then show False using assms(1,3) a x by (auto simp: ld_poll_next.simps [of V d])
    qed
    then show ?thesis using poll_read_decreases a ReadOk by blast
  next
    case (ReadErr e)
    then show ?thesis using assms(1,3) a by (auto simp: ld_poll_next.simps [of V d] ld_on_read_def)
  next
    case ReadPending
    then show ?thesis using poll_read_pending_less a assms(2) by blast
  qed
  with le show ?thesis by simp
qed

text \<open>A reader that takes messages until everything that was delivered is consumed, or an error occurs.\<close>

function mio_receive :: "varint_lib \<Rightarrow> length_delimited \<Rightarrow> io_event list \<Rightarrow> ms_message list \<times> length_delimited" where
  "mio_receive V d evs =
     (if evs = [] then ([], d)
      else case mio_poll_next V d evs of
        (MioPending, d', evs') \<Rightarrow> mio_receive V d' evs'
      | (MioItem (Inr m), d', evs') \<Rightarrow> (let (ms, d'') = mio_receive V d' evs' in (m # ms, d''))
      | (_, d', evs') \<Rightarrow> ([], d'))"
  by pat_completeness auto
termination
  by (relation "measure (\<lambda>(V, d, evs). io_sizes evs)")
    (auto simp: mio_poll_next_def dest!: sym [of "(_, _, _)"] split: prod.splits stream_poll.splits
      intro: ld_poll_next_less)

declare mio_receive.simps [simp del]

text \<open>A writer: messages are handed over, and the inner resource takes bytes whenever it can.\<close>

datatype mio_call = SendCall ms_message | WriteCall "io_write list"

fun mio_send :: "varint_lib \<Rightarrow> mio_call list \<Rightarrow> length_delimited \<Rightarrow> (length_delimited \<times> u8 list) option" where
  "mio_send V [] d = Some (d, [])"
| "mio_send V (SendCall m # calls) d =
     (case mio_start_send V d m of Inl e \<Rightarrow> None | Inr d' \<Rightarrow> mio_send V calls d')"
| "mio_send V (WriteCall writes # calls) d =
     (let (r, d', written, ws) = ld_poll_write_buffer d writes
      in map_option (map_prod id ((@) written)) (mio_send V calls d'))"

fun sent_messages :: "mio_call list \<Rightarrow> ms_message list" where
  "sent_messages [] = []"
| "sent_messages (SendCall m # calls) = m # sent_messages calls"
| "sent_messages (WriteCall writes # calls) = sent_messages calls"

lemma ld_poll_write_buffer_conserves:
  "ld_poll_write_buffer d writes = (r, d', written, ws) \<Longrightarrow>
     written @ ld_write_buffer d' = ld_write_buffer d \<and> (r = IoReady \<longrightarrow> ld_write_buffer d' = [])"
proof (induction writes arbitrary: d r d' written ws)
  case Nil
  then show ?case by (simp add: ld_poll_write_buffer.simps [of d] split: if_splits)
next
  case (Cons w rest)
  show ?case
  proof (cases "ld_write_buffer d = [] \<or> (\<forall>n. w \<noteq> WriteOk (Suc n))")
    case True
    then show ?thesis using Cons.prems
      by (auto simp: ld_poll_write_buffer.simps [of d] split: if_splits io_write.splits nat.splits)
  next
    case False
    then obtain n where w: "w = WriteOk (Suc n)" "ld_write_buffer d \<noteq> []" by blast
    let ?e = "d\<lparr>ld_write_buffer := drop (Suc n) (ld_write_buffer d)\<rparr>"
    obtain r1 d1 wr1 ws1 where e: "ld_poll_write_buffer ?e rest = (r1, d1, wr1, ws1)"
      by (cases "ld_poll_write_buffer ?e rest") auto
    have "r = r1" "d' = d1" "written = take (Suc n) (ld_write_buffer d) @ wr1"
      using Cons.prems w e by (simp_all add: ld_poll_write_buffer.simps [of d])
    then show ?thesis using Cons.IH [OF e] by simp
  qed
qed


lemma mio_send_wire:
  "mio_send V calls d = Some (d', wire) \<Longrightarrow>
     wire @ ld_write_buffer d' = ld_write_buffer d @ concat (map (frame V \<circ> ms_encode V) (sent_messages calls)) \<and>
     list_all (\<lambda>m. length (ms_encode V m) \<le> MAX_FRAME_SIZE) (sent_messages calls)"
proof (induction V calls d arbitrary: wire rule: mio_send.induct)
  case (2 V m calls d)
  then show ?case
    by (auto simp: mio_start_send_def ld_start_send_def frame_def split: if_splits)
next
  case (3 V writes calls d)
  obtain r d1 written ws where w: "ld_poll_write_buffer d writes = (r, d1, written, ws)"
    by (cases "ld_poll_write_buffer d writes") auto
  then obtain wire1 where m: "mio_send V calls d1 = Some (d', wire1)" "wire = written @ wire1"
    using "3.prems" by auto
  show ?case using "3.IH" [OF w [symmetric] refl refl refl m(1)] ld_poll_write_buffer_conserves [OF w] m(2)
    by (metis append_assoc sent_messages.simps(3))
qed simp

lemma frame_nonempty: "varint_ok V \<Longrightarrow> length f \<le> MAX_FRAME_SIZE \<Longrightarrow> frame V f \<noteq> []"
  using varint_okD(3,4) [of V "length f"] by (cases "length f < 2 ^ 7") (force simp: frame_def MAX_FRAME_SIZE_def)+

lemma ld_expects_Nil:
  assumes "varint_ok V" and "list_all (\<lambda>f. length f \<le> MAX_FRAME_SIZE) fs" and "ld_expects V d [] fs"
  shows "fs = [] \<and> ld_read_buffer d = []"
  using assms frame_nonempty [OF assms(1)]
  by (cases fs) (auto simp: ld_expects_def split: read_state.splits)

lemma mio_receive_expects:
  assumes "varint_ok V" and "list_all io_event_ok evs" and "ld_expects V d (io_bytes evs) (map (ms_encode V) ms)"
    and "list_all (\<lambda>m. length (ms_encode V m) \<le> MAX_FRAME_SIZE \<and> ms_decode V (ms_encode V m) = Inr m) ms"
  shows "\<exists>d'. mio_receive V d evs = (ms, d') \<and> ld_read_buffer d' = []"
  using assms
proof (induction V d evs arbitrary: ms rule: mio_receive.induct)
  case (1 V d evs)
  have fs: "list_all (\<lambda>f. length f \<le> MAX_FRAME_SIZE) (map (ms_encode V) ms)"
    using "1.prems"(4) by (simp add: list.pred_map list_all_iff)
  show ?case
  proof (cases "evs = []")
    case True
    then show ?thesis using ld_expects_Nil [OF "1.prems"(1) fs, of d] "1.prems"(3) by (auto simp: mio_receive.simps)
  next
    case False
    obtain r d1 evs1 where p: "ld_poll_next V d evs = (r, d1, evs1)" by (cases "ld_poll_next V d evs") auto
    note ok = ld_poll_next_ok [OF "1.prems"(1,2,3) fs p]
    from ok [THEN conjunct2] show ?thesis
    proof (elim disjE conjE exE)
      assume r: "r = StreamPending" "ld_expects V d1 (io_bytes evs1) (map (ms_encode V) ms)"
      have m: "mio_poll_next V d evs = (MioPending, d1, evs1)" using p r by (simp add: mio_poll_next_def)
      show ?thesis using "1.IH"(1) [OF False m [symmetric] refl refl "1.prems"(1) conjunct1 [OF ok] r(2) "1.prems"(4)] False m
        by (simp add: mio_receive.simps [of V d evs])
    next
      fix f fs' assume r: "r = StreamItem f" "map (ms_encode V) ms = f # fs'" "ld_expects V d1 (io_bytes evs1) fs'"
      then obtain n ns where ms: "ms = n # ns" "f = ms_encode V n" "fs' = map (ms_encode V) ns" by (cases ms) auto
      then have m: "mio_poll_next V d evs = (MioItem (Inr n), d1, evs1)"
        using p r "1.prems"(4) by (simp add: mio_poll_next_def)
      have "\<exists>d'. mio_receive V d1 evs1 = (ns, d') \<and> ld_read_buffer d' = []"
        using "1.IH"(2) [OF False m [symmetric] refl refl refl "1.prems"(1) conjunct1 [OF ok]] r(3) "1.prems"(4) ms by simp
      then show ?thesis using False m ms by (auto simp: mio_receive.simps [of V d evs])
    qed
  qed
qed

text \<open>
  C26: What one side hands to \<open>MessageIO\<close>, in any interleaving with the writing of its buffer, the other
  side receives: once the write buffer is empty, a reader that gets the written bytes in arbitrary
  fragments and with arbitrary delays returns exactly the messages, in order, and its read buffer is
  empty afterwards, so that \<open>into_inner\<close> loses nothing.
\<close>

theorem message_io_roundtrip:
  assumes "varint_ok V" and "mio_send V calls length_delimited_new = Some (d, wire)" and "ld_write_buffer d = []"
    and "list_all ms_message_ok (sent_messages calls)"
    and "list_all io_event_ok evs" and "io_bytes evs = wire"
  shows "\<exists>d'. mio_receive V length_delimited_new evs = (sent_messages calls, d') \<and> ld_read_buffer d' = []"
proof (rule mio_receive_expects [OF assms(1,5)])
  note w = mio_send_wire [OF assms(2)]
  have "wire = concat (map (frame V) (map (ms_encode V) (sent_messages calls)))"
    using w assms(3) by (simp add: length_delimited_new_def)
  then show "ld_expects V length_delimited_new (io_bytes evs) (map (ms_encode V) (sent_messages calls))"
    using ld_expects_new [of V "map (ms_encode V) (sent_messages calls)"] assms(6) by simp
  show "list_all (\<lambda>m. length (ms_encode V m) \<le> MAX_FRAME_SIZE \<and> ms_decode V (ms_encode V m) = Inr m) (sent_messages calls)"
    using w assms(4) ms_decode_encode [OF assms(1)] by (simp add: list_all_iff)
qed


text \<open>The format of \<open>unsigned_varint\<close>: seven bits per byte, the least significant ones first.\<close>

fun leb128_encode :: "nat \<Rightarrow> u8 list" where
  "leb128_encode n = (if n < 128 then [of_nat n] else of_nat (n mod 128 + 128) # leb128_encode (n div 128))"

declare leb128_encode.simps [simp del]

fun leb128_decode :: "u8 list \<Rightarrow> (nat \<times> u8 list) option" where
  "leb128_decode [] = None"
| "leb128_decode (b # bs) =
     (if unat b < 128 then Some (unat b, bs)
      else map_option (\<lambda>(n, tail). (unat b - 128 + 128 * n, tail)) (leb128_decode bs))"

definition leb128 :: varint_lib where
  "leb128 = \<lparr>uvi_encode_usize = leb128_encode, uvi_encode_u16 = leb128_encode,
     uvi_decode_usize = leb128_decode, uvi_decode_u16 = leb128_decode\<rparr>"

lemma unat_of_nat_byte: "n < 256 \<Longrightarrow> unat (of_nat n :: u8) = n"
  by (simp add: unat_of_nat)

lemma msb_unat: "msb b \<longleftrightarrow> 128 \<le> unat b"
proof -
  have "unat b < 2 ^ LENGTH(8)" by (rule unsigned_less)
  then have "unat b < 256" by simp
  moreover have "bit b 7 \<longleftrightarrow> bit (unat b) 7" by (simp add: bit_unsigned_iff)
  ultimately show ?thesis unfolding msb_def by (simp add: bit_iff_odd odd_iff_mod_2_eq_one) linarith
qed

lemma leb128_roundtrip: "leb128_decode (leb128_encode n @ tail) = Some (n, tail)"
proof (induction n rule: leb128_encode.induct)
  case (1 n)
  have "n mod 128 + 128 < 256" by simp
  then show ?case using 1
    by (subst leb128_encode.simps) (simp add: unat_of_nat_byte del: of_nat_add)
qed

lemma leb128_length: "n < 128 ^ Suc k \<Longrightarrow> length (leb128_encode n) \<le> Suc k"
proof (induction k arbitrary: n)
  case (Suc k)
  have "n div 128 < 128 ^ Suc k" using Suc.prems by (simp add: less_mult_imp_div_less mult.commute)
  then show ?case using Suc.IH [of "n div 128"] by (subst leb128_encode.simps) simp
qed (simp add: leb128_encode.simps)

lemma leb128_ok: "varint_ok leb128"
proof -
  have len: "length (leb128_encode n) \<le> 10" if "n \<le> usize_max" for n
    using that leb128_length [of n 9] by (simp add: usize_max_def)
  moreover have "\<exists>b. leb128_encode n = [b] \<and> \<not> msb b" if "n < 2 ^ 7" for n
    using that by (simp add: leb128_encode.simps msb_unat unat_of_nat_byte)
  moreover have "\<exists>b c. leb128_encode n = [b, c] \<and> msb b \<and> \<not> msb c" if "2 ^ 7 \<le> n \<and> n < 2 ^ 14" for n
  proof -
    have "n div 128 < 128" "n mod 128 + 128 < 256" using that by auto
    then show ?thesis using that
      by (simp add: leb128_encode.simps [of n] leb128_encode.simps [of "n div 128"] msb_unat unat_of_nat_byte
          del: of_nat_add)
  qed
  ultimately show ?thesis by (simp add: varint_ok_def leb128_def leb128_roundtrip)
qed


lemma ascii_simps: "ascii ''/a'' = [47, 97]" "ascii ''/b'' = [47, 98]" "MSG_PROTOCOL_NA = [110, 97, 10]"
  by (simp_all add: ascii_def MSG_PROTOCOL_NA_def of_char_def)

theorem multistream_message_roundtrip_witness:
  "ms_decode leb128 (ms_encode leb128 (Protocols [ascii ''/a'', ascii ''/b''])) = Inr (Protocols [ascii ''/a'', ascii ''/b'']) \<and>
   ms_encoded_len leb128 (Protocols [ascii ''/a'', ascii ''/b'']) = 9"
proof -
  have "ms_message_ok (Protocols [ascii ''/a'', ascii ''/b''])"
    by (simp add: ascii_simps MAX_PROTOCOLS_def usize_max_def)
  from multistream_message_roundtrip [OF leb128_ok this] show ?thesis
    by (simp add: ascii_simps leb128_def leb128_encode.simps)
qed

theorem message_io_roundtrip_witness:
  "\<exists>d'. mio_receive leb128 length_delimited_new [IoData [3, 110], IoPending, IoData [97, 10]] = ([NotAvailable], d') \<and>
    ld_read_buffer d' = []"
proof -
  have "mio_send leb128 [SendCall NotAvailable, WriteCall [WriteOk (Suc 1), WriteOk (Suc 1)]] length_delimited_new =
      Some (length_delimited_new, [3, 110, 97, 10])"
    by (simp add: mio_start_send_def ld_start_send_def ascii_simps length_delimited_new_def leb128_def
        leb128_encode.simps MAX_FRAME_SIZE_def ld_poll_write_buffer.simps)
  from message_io_roundtrip [OF leb128_ok this] show ?thesis by (simp add: length_delimited_new_def)
qed

end
