(* ===== verification/Negotiation.thy ===== *)
theory Negotiation
  imports Multistream
begin

section \<open>Protocol negotiation\<close>

text \<open>
  \<open>src/multistream_select/dialer_select.rs\<close>, \<open>listener_select.rs\<close> and \<open>negotiated.rs\<close>. The futures are state
  machines over a \<open>MessageIO\<close>. One iteration of their loops makes one call on it, which the state
  determines; the answer to the call is the input of the step, and the messages handed to
  \<open>start_send\<close> are part of its result. A network of two FIFO channels connects the two machines.
\<close>

datatype negotiation_error = ProtocolError protocol_error | Failed

text \<open>\<open>start_send\<close> refuses messages that do not fit in a frame.\<close>

definition message_fits :: "varint_lib \<Rightarrow> ms_message \<Rightarrow> bool" where
  "message_fits V m \<longleftrightarrow> length (ms_encode V m) < 2 ^ 16 \<and> length (ms_encode V m) \<le> MAX_FRAME_SIZE"

lemma message_fits_start_send: "message_fits V m \<longleftrightarrow> (\<exists>d'. mio_start_send V d m = Inr d')"
  by (simp add: message_fits_def mio_start_send_def ld_start_send_def)

datatype 'r step_outcome = Loop | Blocked | Finished "(negotiation_error, 'r) result"

text \<open>A stream that settled on a protocol: negotiated, or still expecting the confirmation.\<close>

datatype negotiated = Completed | Expecting ms_protocol "header_line option" | Invalid

datatype io_answer = Readiness io_poll | Incoming mio_poll

subsection \<open>The dialer\<close>

datatype dialer_state =
    DialSendHeader
  | DialSendProtocol ms_protocol bool
  | DialFlushProtocol ms_protocol bool
  | DialAwaitProtocol ms_protocol bool
  | DialDone

record dialer =
  dl_protocols :: "ms_protocol list"
  dl_state :: dialer_state
  dl_version :: version

definition dialer_select_proto :: "ms_protocol list \<Rightarrow> version \<Rightarrow> dialer" where
  "dialer_select_proto protocols version =
     \<lparr>dl_protocols = protocols, dl_state = DialSendHeader, dl_version = version\<rparr>"

type_synonym dialer_outcome = "(ms_protocol \<times> negotiated) step_outcome"

text \<open>The dialer goes on to its next protocol, if there is one.\<close>

definition dialer_propose_next :: "dialer \<Rightarrow> bool \<Rightarrow> dialer_outcome \<times> dialer" where
  "dialer_propose_next d header_received =
     (case dl_protocols d of
        [] \<Rightarrow> (Finished (Inl Failed), d\<lparr>dl_state := DialDone\<rparr>)
      | protocol # rest \<Rightarrow>
          (Loop, d\<lparr>dl_protocols := rest, dl_state := DialSendProtocol protocol header_received\<rparr>))"

definition dialer_send_header :: "varint_lib \<Rightarrow> dialer \<Rightarrow> dialer_outcome \<times> ms_message list \<times> dialer" where
  "dialer_send_header V d =
     (let h = Header (header_line_from (dl_version d))
      in if message_fits V h then (let (r, d') = dialer_propose_next d False in (r, [h], d'))
         else (Finished (Inl (ProtocolError (IoError InvalidData))), [], d\<lparr>dl_state := DialDone\<rparr>))"

definition dialer_send_protocol ::
  "varint_lib \<Rightarrow> dialer \<Rightarrow> ms_protocol \<Rightarrow> bool \<Rightarrow> dialer_outcome \<times> ms_message list \<times> dialer" where
  "dialer_send_protocol V d protocol header_received =
     (case protocol_try_from protocol of
        Inl e \<Rightarrow> (Finished (Inl (ProtocolError e)), [], d\<lparr>dl_state := DialDone\<rparr>)
      | Inr p \<Rightarrow>
          if \<not> message_fits V (Protocol p)
          then (Finished (Inl (ProtocolError (IoError InvalidData))), [], d\<lparr>dl_state := DialDone\<rparr>)
          else if dl_protocols d = [] \<and> dl_version d = V1Lazy
          then (Finished (Inr (protocol, Expecting p (Some (header_line_from V1Lazy)))), [Protocol p],
                d\<lparr>dl_state := DialDone\<rparr>)
          else (Loop, [Protocol p], d\<lparr>dl_state := DialFlushProtocol protocol header_received\<rparr>))"

definition dialer_received ::
  "dialer \<Rightarrow> ms_protocol \<Rightarrow> bool \<Rightarrow> ms_message \<Rightarrow> dialer_outcome \<times> dialer" where
  "dialer_received d protocol header_received msg =
     (case msg of
        Header v \<Rightarrow>
          if v = header_line_from (dl_version d) \<and> \<not> header_received
          then (Loop, d\<lparr>dl_state := DialAwaitProtocol protocol True\<rparr>)
          else (Finished (Inl (ProtocolError InvalidMessage)), d\<lparr>dl_state := DialDone\<rparr>)
      | Protocol p \<Rightarrow>
          if p = protocol then (Finished (Inr (protocol, Completed)), d\<lparr>dl_state := DialDone\<rparr>)
          else (Finished (Inl (ProtocolError InvalidMessage)), d\<lparr>dl_state := DialDone\<rparr>)
      | NotAvailable \<Rightarrow> dialer_propose_next d header_received
      | _ \<Rightarrow> (Finished (Inl (ProtocolError InvalidMessage)), d\<lparr>dl_state := DialDone\<rparr>))"

text \<open>An iteration of the loop; an answer of the wrong kind does not occur, and blocks.\<close>

fun dialer_step :: "varint_lib \<Rightarrow> dialer \<Rightarrow> io_answer \<Rightarrow> dialer_outcome \<times> ms_message list \<times> dialer" where
  "dialer_step V d (Readiness (IoBroken e)) =
     (Finished (Inl (ProtocolError (IoError e))), [], d\<lparr>dl_state := DialDone\<rparr>)"
| "dialer_step V d (Readiness IoReady) =
     (case dl_state d of
        DialSendHeader \<Rightarrow> dialer_send_header V d
      | DialSendProtocol protocol header_received \<Rightarrow> dialer_send_protocol V d protocol header_received
      | DialFlushProtocol protocol header_received \<Rightarrow>
          (Loop, [], d\<lparr>dl_state := DialAwaitProtocol protocol header_received\<rparr>)
      | _ \<Rightarrow> (Blocked, [], d))"
| "dialer_step V d (Incoming (MioItem (Inr msg))) =
     (case dl_state d of
        DialAwaitProtocol protocol header_received \<Rightarrow>
          (let (r, d') = dialer_received d protocol header_received msg in (r, [], d'))
      | _ \<Rightarrow> (Blocked, [], d))"
| "dialer_step V d (Incoming (MioItem (Inl e))) =
     (Finished (Inl (ProtocolError e)), [], d\<lparr>dl_state := DialDone\<rparr>)"
| "dialer_step V d (Incoming MioEnd) = (Finished (Inl Failed), [], d\<lparr>dl_state := DialDone\<rparr>)"
| "dialer_step V d _ = (Blocked, [], d)"

subsection \<open>The listener\<close>

datatype listener_state =
    ListenRecvHeader
  | ListenSendHeader
  | ListenRecvMessage
  | ListenSendMessage ms_message "ms_protocol option"
  | ListenFlush "ms_protocol option"
  | ListenDone

record listener =
  ls_protocols :: "(ms_protocol \<times> ms_protocol) list"
  ls_state :: listener_state
  ls_last_sent_na :: bool

definition listener_select_proto :: "ms_protocol list \<Rightarrow> listener" where
  "listener_select_proto protocols =
     \<lparr>ls_protocols = List.map_filter
        (\<lambda>n. case protocol_try_from n of Inr p \<Rightarrow> Some (n, p) | Inl e \<Rightarrow> None) protocols,
      ls_state = ListenRecvHeader, ls_last_sent_na = False\<rparr>"

type_synonym listener_outcome = "ms_protocol step_outcome"

definition listener_fail :: "listener \<Rightarrow> negotiation_error \<Rightarrow> listener_outcome \<times> ms_message list \<times> listener" where
  "listener_fail l e = (Finished (Inl e), [], l\<lparr>ls_state := ListenDone\<rparr>)"

definition listener_send ::
  "varint_lib \<Rightarrow> listener \<Rightarrow> ms_message \<Rightarrow> ms_protocol option \<Rightarrow> listener_outcome \<times> ms_message list \<times> listener" where
  "listener_send V l message protocol =
     (if message_fits V message then (Loop, [message], l\<lparr>ls_state := ListenFlush protocol\<rparr>)
      else listener_fail l (ProtocolError (IoError InvalidData)))"

definition listener_received :: "listener \<Rightarrow> ms_message \<Rightarrow> listener_outcome \<times> ms_message list \<times> listener" where
  "listener_received l msg =
     (case msg of
        ListProtocols \<Rightarrow> (Loop, [], l\<lparr>ls_state := ListenSendMessage (Protocols (map snd (ls_protocols l))) None\<rparr>)
      | Protocol p \<Rightarrow>
          let protocol = map_option fst (find (\<lambda>(name, proto). p = proto) (ls_protocols l));
              message = (if protocol \<noteq> None then Protocol p else NotAvailable)
          in (Loop, [], l\<lparr>ls_state := ListenSendMessage message protocol\<rparr>)
      | _ \<Rightarrow> listener_fail l (ProtocolError InvalidMessage))"

text \<open>Errors while a message is expected: after a rejection they mean that the dialer went away.\<close>

definition listener_receive_error ::
  "listener \<Rightarrow> protocol_error \<Rightarrow> listener_outcome \<times> ms_message list \<times> listener" where
  "listener_receive_error l e =
     (if ls_last_sent_na l \<and> (e = InvalidMessage \<or> e = IoError UnexpectedEof)
      then listener_fail l Failed else listener_fail l (ProtocolError e))"

fun listener_step :: "varint_lib \<Rightarrow> listener \<Rightarrow> io_answer \<Rightarrow> listener_outcome \<times> ms_message list \<times> listener" where
  "listener_step V l (Readiness (IoBroken e)) = listener_fail l (ProtocolError (IoError e))"
| "listener_step V l (Readiness IoReady) =
     (case ls_state l of
        ListenSendHeader \<Rightarrow> listener_send V l (Header HeaderV1) None
      | ListenSendMessage message protocol \<Rightarrow>
          listener_send V (l\<lparr>ls_last_sent_na := (message = NotAvailable)\<rparr>) message protocol
      | ListenFlush (Some protocol) \<Rightarrow> (Finished (Inr protocol), [], l\<lparr>ls_state := ListenDone\<rparr>)
      | ListenFlush None \<Rightarrow> (Loop, [], l\<lparr>ls_state := ListenRecvMessage\<rparr>)
      | _ \<Rightarrow> (Blocked, [], l))"
| "listener_step V l (Incoming (MioItem (Inr msg))) =
     (case ls_state l of
        ListenRecvHeader \<Rightarrow>
          (case msg of
             Header HeaderV1 \<Rightarrow> (Loop, [], l\<lparr>ls_state := ListenSendHeader\<rparr>)
           | _ \<Rightarrow> listener_fail l (ProtocolError InvalidMessage))
      | ListenRecvMessage \<Rightarrow> listener_received l msg
      | _ \<Rightarrow> (Blocked, [], l))"
| "listener_step V l (Incoming (MioItem (Inl e))) =
     (case ls_state l of
        ListenRecvMessage \<Rightarrow> listener_receive_error l e
      | _ \<Rightarrow> listener_fail l (ProtocolError e))"
| "listener_step V l (Incoming MioEnd) = listener_fail l Failed"
| "listener_step V l _ = (Blocked, [], l)"

subsection \<open>Waiting for the confirmation\<close>

text \<open>
  \<open>Negotiated::poll\<close> after its flush: an iteration of the loop on a message. The initial flush of
  \<open>poll\<close> ignores \<open>WriteZero\<close>, the second argument of \<open>negotiated_flush\<close>.
\<close>

fun negotiated_flush :: "negotiated \<Rightarrow> io_poll \<Rightarrow> unit step_outcome" where
  "negotiated_flush n IoBlocked = Blocked"
| "negotiated_flush n (IoBroken e) = (if e \<noteq> WriteZero then Finished (Inl (ProtocolError (IoError e))) else
     if n = Completed then Finished (Inr ()) else Loop)"
| "negotiated_flush n IoReady = (if n = Completed then Finished (Inr ()) else Loop)"

fun negotiated_step :: "negotiated \<Rightarrow> mio_poll \<Rightarrow> unit step_outcome \<times> negotiated" where
  "negotiated_step (Expecting protocol header) MioPending = (Blocked, Expecting protocol header)"
| "negotiated_step (Expecting protocol header) MioEnd =
     (Finished (Inl (ProtocolError (IoError UnexpectedEof))), Invalid)"
| "negotiated_step (Expecting protocol header) (MioItem (Inl e)) = (Finished (Inl (ProtocolError e)), Invalid)"
| "negotiated_step (Expecting protocol header) (MioItem (Inr msg)) =
     (case msg of
        Header h \<Rightarrow>
          if Some h = header then (Loop, Expecting protocol None)
          else (Finished (Inl (ProtocolError InvalidMessage)), Invalid)
      | Protocol p \<Rightarrow> if p = protocol then (Finished (Inr ()), Completed) else (Finished (Inl Failed), Invalid)
      | _ \<Rightarrow> (Finished (Inl Failed), Invalid))"
| "negotiated_step n m = (Blocked, n)"


subsection \<open>A network of a dialer and a listener\<close>

text \<open>
  All messages a side handed to its \<open>start_send\<close>, how many of them were written, and how many of
  those the other side has read.
\<close>

record network =
  nw_dialer :: dialer
  nw_dialer_result :: "(negotiation_error, ms_protocol \<times> negotiated) result option"
  nw_dialed :: "ms_message list"
  nw_dialed_written :: nat
  nw_dialed_read :: nat
  nw_listener :: listener
  nw_listener_result :: "(negotiation_error, ms_protocol) result option"
  nw_replied :: "ms_message list"
  nw_replied_written :: nat
  nw_replied_read :: nat

definition network_init :: "ms_protocol list \<Rightarrow> ms_protocol list \<Rightarrow> network" where
  "network_init proposed supported =
     \<lparr>nw_dialer = dialer_select_proto proposed V1, nw_dialer_result = None,
      nw_dialed = [], nw_dialed_written = 0, nw_dialed_read = 0,
      nw_listener = listener_select_proto supported, nw_listener_result = None,
      nw_replied = [], nw_replied_written = 0, nw_replied_read = 0\<rparr>"

abbreviation gave_up :: "('e, 'a) result option \<Rightarrow> bool" where
  "gave_up r \<equiv> (case r of Some (Inl _) \<Rightarrow> True | _ \<Rightarrow> False)"

text \<open>
  The answer to \<open>poll_next\<close>: the next message that was written, the end of the stream when the other
  side has given up and dropped it, or none yet.
\<close>

definition next_message :: "ms_message list \<Rightarrow> nat \<Rightarrow> nat \<Rightarrow> bool \<Rightarrow> io_answer option" where
  "next_message sent written read closed =
     (if read < written then Some (Incoming (MioItem (Inr (sent ! read))))
      else if closed then Some (Incoming MioEnd) else None)"

definition flushed :: "ms_message list \<Rightarrow> nat \<Rightarrow> io_answer option" where
  "flushed sent written = (if written = length sent then Some (Readiness IoReady) else None)"

definition dialer_answer :: "network \<Rightarrow> io_answer option" where
  "dialer_answer n =
     (case dl_state (nw_dialer n) of
        DialSendHeader \<Rightarrow> Some (Readiness IoReady)
      | DialSendProtocol _ _ \<Rightarrow> Some (Readiness IoReady)
      | DialFlushProtocol _ _ \<Rightarrow> flushed (nw_dialed n) (nw_dialed_written n)
      | DialAwaitProtocol _ _ \<Rightarrow>
          next_message (nw_replied n) (nw_replied_written n) (nw_replied_read n) (gave_up (nw_listener_result n))
      | DialDone \<Rightarrow> None)"

definition listener_answer :: "network \<Rightarrow> io_answer option" where
  "listener_answer n =
     (case ls_state (nw_listener n) of
        ListenRecvHeader \<Rightarrow>
          next_message (nw_dialed n) (nw_dialed_written n) (nw_dialed_read n) (gave_up (nw_dialer_result n))
      | ListenSendHeader \<Rightarrow> Some (Readiness IoReady)
      | ListenRecvMessage \<Rightarrow>
          next_message (nw_dialed n) (nw_dialed_written n) (nw_dialed_read n) (gave_up (nw_dialer_result n))
      | ListenSendMessage _ _ \<Rightarrow> Some (Readiness IoReady)
      | ListenFlush _ \<Rightarrow> flushed (nw_replied n) (nw_replied_written n)
      | ListenDone \<Rightarrow> None)"

fun outcome_result :: "'r step_outcome \<Rightarrow> (negotiation_error, 'r) result option" where
  "outcome_result (Finished r) = Some r"
| "outcome_result _ = None"

fun consumed :: "io_answer \<Rightarrow> nat" where
  "consumed (Incoming (MioItem _)) = 1"
| "consumed _ = 0"

inductive network_step :: "varint_lib \<Rightarrow> network \<Rightarrow> network \<Rightarrow> bool" for V n where
  dialer: "dialer_answer n = Some a \<Longrightarrow> dialer_step V (nw_dialer n) a = (r, sent, d) \<Longrightarrow>
    network_step V n (n\<lparr>nw_dialer := d, nw_dialer_result := outcome_result r, nw_dialed := nw_dialed n @ sent,
      nw_replied_read := nw_replied_read n + consumed a\<rparr>)"
| listener: "listener_answer n = Some a \<Longrightarrow> listener_step V (nw_listener n) a = (r, sent, l) \<Longrightarrow>
    network_step V n (n\<lparr>nw_listener := l, nw_listener_result := outcome_result r, nw_replied := nw_replied n @ sent,
      nw_dialed_read := nw_dialed_read n + consumed a\<rparr>)"
| dialer_writes: "\<not> gave_up (nw_dialer_result n) \<Longrightarrow> nw_dialed_written n < length (nw_dialed n) \<Longrightarrow>
    network_step V n (n\<lparr>nw_dialed_written := nw_dialed_written n + 1\<rparr>)"
| listener_writes: "\<not> gave_up (nw_listener_result n) \<Longrightarrow> nw_replied_written n < length (nw_replied n) \<Longrightarrow>
    network_step V n (n\<lparr>nw_replied_written := nw_replied_written n + 1\<rparr>)"

subsection \<open>The dialogue\<close>

text \<open>The protocol both sides must settle on: the first proposed one that the listener supports.\<close>

definition agreed :: "ms_protocol list \<Rightarrow> ms_protocol set \<Rightarrow> ms_protocol option" where
  "agreed ps S = find (\<lambda>p. p \<in> S) ps"

definition dialogue_out :: "ms_protocol list \<Rightarrow> ms_message list" where
  "dialogue_out ps = Header HeaderV1 # map Protocol ps"

definition dialogue_back :: "ms_protocol list \<Rightarrow> ms_protocol set \<Rightarrow> ms_message list" where
  "dialogue_back ps S = Header HeaderV1 # map (\<lambda>p. if p \<in> S then Protocol p else NotAvailable) ps"

text \<open>The proposals before the \<open>j\<close>-th were rejected.\<close>

definition rejected :: "ms_protocol list \<Rightarrow> ms_protocol set \<Rightarrow> nat \<Rightarrow> bool" where
  "rejected ps S j \<longleftrightarrow> (\<forall>x < j. ps ! x \<notin> S)"

definition proposing :: "ms_protocol list \<Rightarrow> ms_protocol set \<Rightarrow> dialer \<Rightarrow> ms_protocol \<Rightarrow> bool \<Rightarrow> nat \<Rightarrow> nat \<Rightarrow> bool" where
  "proposing ps S d p h r j \<longleftrightarrow>
     j < length ps \<and> p = ps ! j \<and> dl_protocols d = drop (Suc j) ps \<and> rejected ps S j \<and>
     (if h then r = Suc j else r = 0 \<and> j = 0)"

text \<open>The dialer after it sent \<open>s\<close> messages and read \<open>r\<close>, the listener after it sent \<open>t\<close> and read \<open>g\<close>.\<close>

definition dialer_at ::
  "ms_protocol list \<Rightarrow> ms_protocol set \<Rightarrow> dialer \<Rightarrow> (negotiation_error, ms_protocol \<times> negotiated) result option \<Rightarrow> nat \<Rightarrow> nat \<Rightarrow> bool" where
  "dialer_at ps S d res s r \<longleftrightarrow> dl_version d = V1 \<and>
     (case dl_state d of
        DialSendHeader \<Rightarrow> res = None \<and> dl_protocols d = ps \<and> s = 0 \<and> r = 0
      | DialSendProtocol p h \<Rightarrow> res = None \<and> (\<exists>j. proposing ps S d p h r j \<and> s = Suc j)
      | DialFlushProtocol p h \<Rightarrow> res = None \<and> (\<exists>j. proposing ps S d p h r j \<and> s = Suc (Suc j))
      | DialAwaitProtocol p h \<Rightarrow> res = None \<and> (\<exists>j. proposing ps S d p h r j \<and> s = Suc (Suc j))
      | DialDone \<Rightarrow>
          s \<le> Suc (length ps) \<and> r \<le> Suc (length ps) \<and>
          (res = Some (Inl Failed) \<and> rejected ps S (length ps) \<or>
           (\<exists>j < length ps. res = Some (Inr (ps ! j, Completed)) \<and> rejected ps S j \<and> ps ! j \<in> S \<and>
              s = Suc (Suc j) \<and> r = Suc (Suc j))))"

definition listener_at ::
  "ms_protocol list \<Rightarrow> ms_protocol set \<Rightarrow> listener \<Rightarrow> (negotiation_error, ms_protocol) result option \<Rightarrow> nat \<Rightarrow> nat \<Rightarrow> bool" where
  "listener_at ps S l res t g \<longleftrightarrow> (\<forall>p. map_option fst (find (\<lambda>(name, proto). p = proto) (ls_protocols l)) = (if p \<in> S then Some p else None)) \<and>
     (case ls_state l of
        ListenRecvHeader \<Rightarrow> res = None \<and> t = 0 \<and> g = 0
      | ListenSendHeader \<Rightarrow> res = None \<and> t = 0 \<and> g = 1
      | ListenRecvMessage \<Rightarrow> res = None \<and> (\<exists>i \<le> length ps. t = Suc i \<and> g = Suc i \<and> rejected ps S i)
      | ListenSendMessage m q \<Rightarrow> res = None \<and>
          (\<exists>i < length ps. t = Suc i \<and> g = Suc (Suc i) \<and> rejected ps S i \<and>
             m = dialogue_back ps S ! Suc i \<and> q = (if ps ! i \<in> S then Some (ps ! i) else None))
      | ListenFlush None \<Rightarrow> res = None \<and> (\<exists>i \<le> length ps. t = Suc i \<and> g = Suc i \<and> rejected ps S i)
      | ListenFlush (Some p) \<Rightarrow> res = None \<and>
          (\<exists>i < length ps. t = Suc (Suc i) \<and> g = Suc (Suc i) \<and> rejected ps S i \<and> p = ps ! i \<and> p \<in> S)
      | ListenDone \<Rightarrow>
          t \<le> Suc (length ps) \<and> g \<le> Suc (length ps) \<and>
          (res = Some (Inl Failed) \<and> rejected ps S (length ps) \<or>
           (\<exists>i < length ps. res = Some (Inr (ps ! i)) \<and> rejected ps S i \<and> ps ! i \<in> S \<and>
              t = Suc (Suc i) \<and> g = Suc (Suc i))))"

definition network_ok :: "ms_protocol list \<Rightarrow> ms_protocol set \<Rightarrow> network \<Rightarrow> bool" where
  "network_ok ps S n \<longleftrightarrow>
     dialer_at ps S (nw_dialer n) (nw_dialer_result n) (length (nw_dialed n)) (nw_replied_read n) \<and>
     listener_at ps S (nw_listener n) (nw_listener_result n) (length (nw_replied n)) (nw_dialed_read n) \<and>
     nw_dialed n = take (length (nw_dialed n)) (dialogue_out ps) \<and>
     nw_replied n = take (length (nw_replied n)) (dialogue_back ps S) \<and>
     nw_dialed_read n \<le> nw_dialed_written n \<and> nw_dialed_written n \<le> length (nw_dialed n) \<and>
     nw_replied_read n \<le> nw_replied_written n \<and> nw_replied_written n \<le> length (nw_replied n)"


subsection \<open>The dialogue is followed\<close>

definition names_ok :: "varint_lib \<Rightarrow> ms_protocol list \<Rightarrow> bool" where
  "names_ok V ps \<longleftrightarrow> list_all (\<lambda>p. p \<noteq> [] \<and> hd p = slash \<and> message_fits V (Protocol p)) ps"

lemma names_okD:
  assumes "names_ok V ps" and "j < length ps"
  shows "protocol_try_from (ps ! j) = Inr (ps ! j)" "message_fits V (Protocol (ps ! j))"
  using assms by (auto simp: names_ok_def list_all_length protocol_try_from_ok)

lemma fixed_fits [simp]: "message_fits V (Header HeaderV1)" "message_fits V NotAvailable"
  by (simp_all add: message_fits_def MSG_MULTISTREAM_1_0_def MSG_PROTOCOL_NA_def ascii_def MAX_FRAME_SIZE_def)

lemma length_dialogue [simp]:
  "length (dialogue_out ps) = Suc (length ps)" "length (dialogue_back ps S) = Suc (length ps)"
  by (simp_all add: dialogue_out_def dialogue_back_def)

lemma dialogue_nth [simp]:
  "dialogue_out ps ! 0 = Header HeaderV1" "dialogue_back ps S ! 0 = Header HeaderV1"
  "j < length ps \<Longrightarrow> dialogue_out ps ! Suc j = Protocol (ps ! j)"
  "j < length ps \<Longrightarrow> dialogue_back ps S ! Suc j = (if ps ! j \<in> S then Protocol (ps ! j) else NotAvailable)"
  by (simp_all add: dialogue_out_def dialogue_back_def)

lemma rejected_0 [simp]: "rejected ps S 0"
  by (simp add: rejected_def)

lemma rejected_Suc [simp]: "rejected ps S (Suc j) \<longleftrightarrow> rejected ps S j \<and> ps ! j \<notin> S"
  by (auto simp: rejected_def less_Suc_eq)

text \<open>How far a machine is within one exchange.\<close>

definition dialer_phase :: "dialer \<Rightarrow> nat" where
  "dialer_phase d = (case dl_state d of DialAwaitProtocol _ _ \<Rightarrow> 1 | DialDone \<Rightarrow> 2 | _ \<Rightarrow> 0)"

definition listener_phase :: "listener \<Rightarrow> nat" where
  "listener_phase l = (case ls_state l of ListenRecvMessage \<Rightarrow> 1 | ListenDone \<Rightarrow> 2 | _ \<Rightarrow> 0)"

definition dialer_follows ::
  "ms_protocol list \<Rightarrow> ms_protocol set \<Rightarrow> nat \<Rightarrow> nat \<Rightarrow> nat \<Rightarrow> nat \<Rightarrow> dialer_outcome \<times> ms_message list \<times> dialer \<Rightarrow> bool" where
  "dialer_follows ps S s r phase c x \<longleftrightarrow>
     (case x of (res, sent, d) \<Rightarrow>
        dialer_at ps S d (outcome_result res) (s + length sent) (r + c) \<and>
        (sent = [] \<or> s < Suc (length ps) \<and> sent = [dialogue_out ps ! s]) \<and>
        s + 2 * r + phase < (s + length sent) + 2 * (r + c) + dialer_phase d)"

lemma proposing_next:
  assumes "proposing ps S d p True r j" and "ps ! j \<notin> S" and "dl_version d = V1" and "s = Suc (Suc j)"
  shows "dialer_follows ps S s r 1 1 (case dialer_propose_next d True of (x, d') \<Rightarrow> (x, [], d'))"
proof (cases "drop (Suc j) ps")
  case Nil
  then have "length ps = Suc j" using assms(1) by (simp add: proposing_def)
  then show ?thesis using assms Nil
    by (simp add: dialer_propose_next_def proposing_def dialer_follows_def dialer_at_def dialer_phase_def)
next
  case (Cons q rest)
  then have "Suc j < length ps" by (metis drop_all list.distinct(1) not_less)
  then have "q = ps ! Suc j" "rest = drop (Suc (Suc j)) ps" "Suc j < length ps"
    using Cons Cons_nth_drop_Suc [of "Suc j" ps] by auto
  then show ?thesis using assms Cons
    by (simp add: dialer_propose_next_def proposing_def dialer_follows_def dialer_at_def dialer_phase_def)
qed

lemma dialer_receives:
  assumes "proposing ps S d p h r j" and "dl_version d = V1" and "s = Suc (Suc j)" and "r < Suc (length ps)"
  shows "dialer_follows ps S s r 1 1 (case dialer_received d p h (dialogue_back ps S ! r) of (x, d') \<Rightarrow> (x, [], d'))"
proof (cases h)
  case True
  then have r: "r = Suc j" "j < length ps" "p = ps ! j" "rejected ps S j" using assms(1) by (auto simp: proposing_def)
  show ?thesis
  proof (cases "ps ! j \<in> S")
    case True
    then show ?thesis using r assms
      by (simp add: dialer_received_def dialer_follows_def dialer_at_def dialer_phase_def)
  next
    case False
    then show ?thesis using proposing_next [of ps S d p r j s] r assms True by (simp add: dialer_received_def)
  qed
next
  case False
  then show ?thesis using assms
    by (auto simp: proposing_def dialer_received_def dialer_follows_def dialer_at_def dialer_phase_def)
qed

lemma dialer_sends:
  assumes "dialer_at ps S d res s r" and "names_ok V ps" and "dl_state d \<noteq> DialDone"
    and "\<forall>p h. dl_state d \<noteq> DialAwaitProtocol p h"
  shows "dialer_follows ps S s r 0 0 (dialer_step V d (Readiness IoReady))"
proof (cases "dl_state d")
  case DialSendHeader
  then show ?thesis using assms(1)
    by (cases ps) (auto simp: dialer_at_def dialer_send_header_def dialer_propose_next_def dialer_follows_def
        dialer_phase_def proposing_def Let_def)
next
  case (DialSendProtocol p h)
  then obtain j where j: "proposing ps S d p h r j" "s = Suc j" using assms(1) by (auto simp: dialer_at_def)
  then have p: "p = ps ! j" "j < length ps" by (auto simp: proposing_def)
  have "dialer_step V d (Readiness IoReady) = (Loop, [Protocol p], d\<lparr>dl_state := DialFlushProtocol p h\<rparr>)"
    using DialSendProtocol names_okD [OF assms(2) p(2)] assms(1) p(1) by (simp add: dialer_send_protocol_def dialer_at_def)
  moreover have "proposing ps S (d\<lparr>dl_state := DialFlushProtocol p h\<rparr>) p h r j" using j by (simp add: proposing_def)
  ultimately show ?thesis using assms(1) j p by (auto simp: dialer_follows_def dialer_at_def dialer_phase_def)
next
  case (DialFlushProtocol p h)
  then obtain j where j: "proposing ps S d p h r j" "s = Suc (Suc j)" using assms(1) by (auto simp: dialer_at_def)
  have "proposing ps S (d\<lparr>dl_state := DialAwaitProtocol p h\<rparr>) p h r j" using j by (simp add: proposing_def)
  then show ?thesis using assms(1) j DialFlushProtocol by (auto simp: dialer_follows_def dialer_at_def dialer_phase_def)
qed (use assms in auto)


definition listener_follows ::
  "ms_protocol list \<Rightarrow> ms_protocol set \<Rightarrow> nat \<Rightarrow> nat \<Rightarrow> nat \<Rightarrow> nat \<Rightarrow> listener_outcome \<times> ms_message list \<times> listener \<Rightarrow> bool" where
  "listener_follows ps S t g phase c x \<longleftrightarrow>
     (case x of (res, sent, l) \<Rightarrow>
        listener_at ps S l (outcome_result res) (t + length sent) (g + c) \<and>
        (sent = [] \<or> t < Suc (length ps) \<and> sent = [dialogue_back ps S ! t]) \<and>
        t + 2 * g + phase < (t + length sent) + 2 * (g + c) + listener_phase l)"

lemmas follows_defs = listener_follows_def listener_at_def listener_phase_def listener_fail_def

lemma listener_receives:
  assumes "listener_at ps S l res t g" and "g < Suc (length ps)"
    and "ls_state l = ListenRecvHeader \<or> ls_state l = ListenRecvMessage"
  shows "listener_follows ps S t g (listener_phase l) 1 (listener_step V l (Incoming (MioItem (Inr (dialogue_out ps ! g)))))"
  using assms(3)
proof
  assume "ls_state l = ListenRecvHeader"
  then show ?thesis using assms by (simp add: follows_defs)
next
  assume st: "ls_state l = ListenRecvMessage"
  then obtain i where i: "t = Suc i" "g = Suc i" "rejected ps S i" "i < length ps"
    using assms(1,2) by (auto simp: listener_at_def)
  have "map_option fst (find (\<lambda>(name, proto). ps ! i = proto) (ls_protocols l)) = (if ps ! i \<in> S then Some (ps ! i) else None)"
    using assms(1) by (simp add: listener_at_def)
  then show ?thesis using assms(1) st i by (auto simp: follows_defs listener_received_def Let_def)
qed

lemma listener_sends:
  assumes "listener_at ps S l res t g" and "names_ok V ps"
    and "ls_state l = ListenSendHeader \<or> (\<exists>m q. ls_state l = ListenSendMessage m q) \<or> (\<exists>q. ls_state l = ListenFlush q)"
  shows "listener_follows ps S t g 0 0 (listener_step V l (Readiness IoReady))"
  using assms(3)
proof (elim disjE exE)
  assume "ls_state l = ListenSendHeader"
  then show ?thesis using assms(1) by (simp add: follows_defs listener_send_def)
next
  fix m q assume st: "ls_state l = ListenSendMessage m q"
  then obtain i where i: "i < length ps" "t = Suc i" "g = Suc (Suc i)" "rejected ps S i"
    "m = dialogue_back ps S ! Suc i" "q = (if ps ! i \<in> S then Some (ps ! i) else None)"
    using assms(1) by (auto simp: listener_at_def)
  have "message_fits V m" using names_okD [OF assms(2) i(1)] i by simp
  then show ?thesis using assms(1) st i by (auto simp: follows_defs listener_send_def)
next
  fix q assume st: "ls_state l = ListenFlush q"
  then show ?thesis using assms(1) by (cases q) (auto simp: follows_defs)
qed

lemma listener_ends:
  assumes "listener_at ps S l res t g" and "rejected ps S (length ps)"
    and "ls_state l = ListenRecvHeader \<or> ls_state l = ListenRecvMessage"
  shows "listener_follows ps S t g (listener_phase l) 0 (listener_step V l (Incoming MioEnd))"
  using assms by (auto simp: follows_defs)

lemma dialer_ends:
  assumes "dialer_at ps S d res s r" and "rejected ps S (length ps)" and "dl_state d = DialAwaitProtocol p h"
  shows "dialer_follows ps S s r 1 0 (dialer_step V d (Incoming MioEnd))"
proof -
  obtain j where "proposing ps S d p h r j" "s = Suc (Suc j)" using assms(1,3) by (auto simp: dialer_at_def)
  then show ?thesis using assms by (auto simp: dialer_follows_def dialer_at_def dialer_phase_def proposing_def split: if_splits)
qed

subsection \<open>Invariant, progress and termination\<close>

definition network_progress :: "network \<Rightarrow> nat" where
  "network_progress n =
     length (nw_dialed n) + 2 * nw_replied_read n + dialer_phase (nw_dialer n) +
     (length (nw_replied n) + 2 * nw_dialed_read n + listener_phase (nw_listener n)) +
     nw_dialed_written n + nw_replied_written n"

lemma network_okD:
  assumes "network_ok ps S n"
  shows "dialer_at ps S (nw_dialer n) (nw_dialer_result n) (length (nw_dialed n)) (nw_replied_read n)"
    "listener_at ps S (nw_listener n) (nw_listener_result n) (length (nw_replied n)) (nw_dialed_read n)"
    "nw_dialed n = take (length (nw_dialed n)) (dialogue_out ps)"
    "nw_replied n = take (length (nw_replied n)) (dialogue_back ps S)"
    "nw_dialed_read n \<le> nw_dialed_written n" "nw_dialed_written n \<le> length (nw_dialed n)"
    "nw_replied_read n \<le> nw_replied_written n" "nw_replied_written n \<le> length (nw_replied n)"
  using assms by (simp_all add: network_ok_def)

lemma sent_length: "xs = take (length xs) ys \<Longrightarrow> length xs \<le> length ys"
  by (metis length_take min.bounded_iff order_refl)

lemma sent_extends:
  assumes "xs = take (length xs) ys" and "sent = [] \<or> length xs < length ys \<and> sent = [ys ! length xs]"
  shows "xs @ sent = take (length (xs @ sent)) ys"
  using assms by (auto simp: take_Suc_conv_app_nth)

lemma sent_nth: "xs = take (length xs) ys \<Longrightarrow> k < length xs \<Longrightarrow> xs ! k = ys ! k"
  by (metis nth_take)

lemma gave_up_rejected:
  "dialer_at ps S d res s r \<Longrightarrow> gave_up res \<Longrightarrow> rejected ps S (length ps)"
  "listener_at ps S l res' t g \<Longrightarrow> gave_up res' \<Longrightarrow> rejected ps S (length ps)"
  by (auto simp: dialer_at_def split: dialer_state.splits)
    (auto simp: listener_at_def split: listener_state.splits option.splits)

lemma dialer_answer_follows:
  assumes ok: "network_ok ps S n" and "names_ok V ps" and a: "dialer_answer n = Some a"
  shows "dialer_follows ps S (length (nw_dialed n)) (nw_replied_read n) (dialer_phase (nw_dialer n)) (consumed a)
      (dialer_step V (nw_dialer n) a) \<and> nw_replied_read n + consumed a \<le> nw_replied_written n"
proof (cases "dl_state (nw_dialer n)")
  case (DialAwaitProtocol p h)
  note at = network_okD(1) [OF ok] and rep = network_okD(4) [OF ok]
  have ph: "dialer_phase (nw_dialer n) = 1" using DialAwaitProtocol by (simp add: dialer_phase_def)
  obtain j where j: "proposing ps S (nw_dialer n) p h (nw_replied_read n) j" "length (nw_dialed n) = Suc (Suc j)"
    using at DialAwaitProtocol by (auto simp: dialer_at_def)
  show ?thesis
  proof (cases "nw_replied_read n < nw_replied_written n")
    case True
    then have lt: "nw_replied_read n < length (nw_replied n)" using network_okD(8) [OF ok] by simp
    then have "a = Incoming (MioItem (Inr (dialogue_back ps S ! nw_replied_read n)))"
      using a DialAwaitProtocol True sent_nth [OF rep] by (simp add: dialer_answer_def next_message_def)
    moreover have "nw_replied_read n < Suc (length ps)" using lt sent_length [OF rep] by simp
    ultimately show ?thesis using dialer_receives [OF j(1) _ j(2)] at DialAwaitProtocol True ph
      by (simp add: dialer_at_def)
  next
    case False
    then have "gave_up (nw_listener_result n)" "a = Incoming MioEnd"
      using a DialAwaitProtocol by (auto simp: dialer_answer_def next_message_def split: if_splits)
    then show ?thesis using dialer_ends [OF at gave_up_rejected(2) [OF network_okD(2) [OF ok]] DialAwaitProtocol] ph
        network_okD(7) [OF ok] by simp
  qed
next
  case DialDone
  then show ?thesis using a by (simp add: dialer_answer_def)
qed (use a dialer_sends [OF network_okD(1) [OF ok] assms(2)] network_okD(7) [OF ok] in
    \<open>auto simp: dialer_answer_def flushed_def dialer_phase_def split: if_splits\<close>)

lemma listener_answer_follows:
  assumes ok: "network_ok ps S n" and "names_ok V ps" and a: "listener_answer n = Some a"
  shows "listener_follows ps S (length (nw_replied n)) (nw_dialed_read n) (listener_phase (nw_listener n)) (consumed a)
      (listener_step V (nw_listener n) a) \<and> nw_dialed_read n + consumed a \<le> nw_dialed_written n"
proof (cases "ls_state (nw_listener n) = ListenRecvHeader \<or> ls_state (nw_listener n) = ListenRecvMessage")
  case st: True
  note at = network_okD(2) [OF ok] and dld = network_okD(3) [OF ok]
  have a: "next_message (nw_dialed n) (nw_dialed_written n) (nw_dialed_read n) (gave_up (nw_dialer_result n)) = Some a"
    using a st by (auto simp: listener_answer_def)
  show ?thesis
  proof (cases "nw_dialed_read n < nw_dialed_written n")
    case True
    then have lt: "nw_dialed_read n < length (nw_dialed n)" using network_okD(6) [OF ok] by simp
    then have "a = Incoming (MioItem (Inr (dialogue_out ps ! nw_dialed_read n)))"
      using a True sent_nth [OF dld] by (simp add: next_message_def)
    moreover have "nw_dialed_read n < Suc (length ps)" using lt sent_length [OF dld] by simp
    ultimately show ?thesis using listener_receives [OF at _ st] True by simp
  next
    case False
    then have "gave_up (nw_dialer_result n)" "a = Incoming MioEnd"
      using a by (auto simp: next_message_def split: if_splits)
    then show ?thesis using listener_ends [OF at gave_up_rejected(1) [OF network_okD(1) [OF ok]] st]
        network_okD(5) [OF ok] by simp
  qed
next
  case False
  then show ?thesis
    using a listener_sends [OF network_okD(2) [OF ok] assms(2)] network_okD(5) [OF ok]
    by (auto simp: listener_answer_def flushed_def listener_phase_def split: if_splits listener_state.splits)
qed


lemma network_step_ok:
  assumes "network_step V n n'" and ok: "network_ok ps S n" and names: "names_ok V ps"
  shows "network_ok ps S n' \<and> network_progress n < network_progress n'"
  using assms(1)
proof cases
  case (dialer a r sent d)
  note f = dialer_answer_follows [OF ok names dialer(2), unfolded dialer(3) dialer_follows_def prod.case]
  have "nw_dialed n @ sent = take (length (nw_dialed n @ sent)) (dialogue_out ps)"
    using f network_okD(3) [OF ok] by (intro sent_extends) auto
  from this [symmetric] show ?thesis using f network_okD(1,2,5-8) [OF ok] network_okD(4) [OF ok, symmetric]
    unfolding dialer(1) by (simp add: network_ok_def network_progress_def)
next
  case (listener a r sent l)
  note f = listener_answer_follows [OF ok names listener(2), unfolded listener(3) listener_follows_def prod.case]
  have "nw_replied n @ sent = take (length (nw_replied n @ sent)) (dialogue_back ps S)"
    using f network_okD(4) [OF ok] by (intro sent_extends) auto
  from this [symmetric] show ?thesis using f network_okD(1,2,5-8) [OF ok] network_okD(3) [OF ok, symmetric]
    unfolding listener(1) by (simp add: network_ok_def network_progress_def)
qed (use ok in \<open>simp_all add: network_ok_def network_progress_def\<close>)

lemma network_progress_bound:
  assumes "network_ok ps S n"
  shows "network_progress n \<le> 8 * length ps + 12"
proof -
  note ok = network_okD [OF assms]
  have "dialer_phase (nw_dialer n) \<le> 2" "listener_phase (nw_listener n) \<le> 2"
    by (simp_all add: dialer_phase_def listener_phase_def split: dialer_state.split listener_state.split)
  moreover have "length (nw_dialed n) \<le> Suc (length ps)" "length (nw_replied n) \<le> Suc (length ps)"
    using sent_length [OF ok(3)] sent_length [OF ok(4)] by simp_all
  ultimately show ?thesis using ok(5-8) unfolding network_progress_def by linarith
qed

lemma find_supported:
  "map_option fst (find (\<lambda>(name, proto). p = proto) (ls_protocols (listener_select_proto supported))) =
     (if p \<in> {q \<in> set supported. q \<noteq> [] \<and> hd q = slash} then Some p else None)"
proof (induction supported)
  case (Cons q qs)
  have "protocol_try_from q = (if q \<noteq> [] \<and> hd q = slash then Inr q else Inl InvalidProtocol)"
    by (cases q) (simp_all add: protocol_try_from_def)
  then show ?case using Cons by (auto simp: listener_select_proto_def List.map_filter_simps)
qed (simp add: listener_select_proto_def List.map_filter_simps)

lemma network_init_ok:
  "network_ok ps {q \<in> set supported. q \<noteq> [] \<and> hd q = slash} (network_init ps supported)"
  using find_supported
  by (simp add: network_ok_def network_init_def dialer_at_def listener_at_def dialer_select_proto_def)
    (simp add: listener_select_proto_def)

lemma network_run_ok:
  "(network_step V ^^ k) n n' \<Longrightarrow> network_ok ps S n \<Longrightarrow> names_ok V ps \<Longrightarrow>
     network_ok ps S n' \<and> network_progress n + k \<le> network_progress n'"
proof (induction k arbitrary: n')
  case (Suc k)
  then obtain n1 where "(network_step V ^^ k) n n1" "network_step V n1 n'" by auto
  then show ?case using Suc.IH Suc.prems network_step_ok by fastforce
qed simp

text \<open>The first supported proposal.\<close>

lemma rejected_agreed:
  "rejected ps S (length ps) \<Longrightarrow> agreed ps S = None"
  "rejected ps S j \<Longrightarrow> j < length ps \<Longrightarrow> ps ! j \<in> S \<Longrightarrow> agreed ps S = Some (ps ! j)"
proof -
  show "rejected ps S (length ps) \<Longrightarrow> agreed ps S = None"
    by (auto simp: rejected_def agreed_def find_None_iff in_set_conv_nth)
  assume "rejected ps S j" "j < length ps" "ps ! j \<in> S"
  then show "agreed ps S = Some (ps ! j)"
    unfolding rejected_def agreed_def find_Some_iff by blast
qed

lemma network_results:
  assumes "network_ok ps S n"
  shows "nw_dialer_result n \<in> {None, Some (case agreed ps S of Some p \<Rightarrow> Inr (p, Completed) | None \<Rightarrow> Inl Failed)}"
    "nw_listener_result n \<in> {None, Some (case agreed ps S of Some p \<Rightarrow> Inr p | None \<Rightarrow> Inl Failed)}"
proof -
  show "nw_dialer_result n \<in> {None, Some (case agreed ps S of Some p \<Rightarrow> Inr (p, Completed) | None \<Rightarrow> Inl Failed)}"
    using network_okD(1) [OF assms] by (auto simp: dialer_at_def rejected_agreed split: dialer_state.splits)
  show "nw_listener_result n \<in> {None, Some (case agreed ps S of Some p \<Rightarrow> Inr p | None \<Rightarrow> Inl Failed)}"
    using network_okD(2) [OF assms]
    by (auto simp: listener_at_def rejected_agreed split: listener_state.splits option.splits)
qed

lemma stuck_network:
  assumes "\<nexists>n'. network_step V n n'"
  shows "dialer_answer n = None" "listener_answer n = None"
    "\<not> gave_up (nw_dialer_result n) \<Longrightarrow> length (nw_dialed n) \<le> nw_dialed_written n"
    "\<not> gave_up (nw_listener_result n) \<Longrightarrow> length (nw_replied n) \<le> nw_replied_written n"
proof -
  show "dialer_answer n = None"
  proof (rule ccontr)
    assume "dialer_answer n \<noteq> None"
    then obtain a where a: "dialer_answer n = Some a" by blast
    obtain r sent d where "dialer_step V (nw_dialer n) a = (r, sent, d)" by (rule prod_cases3)
    from network_step.dialer [OF a this] assms show False by blast
  qed
  show "listener_answer n = None"
  proof (rule ccontr)
    assume "listener_answer n \<noteq> None"
    then obtain a where a: "listener_answer n = Some a" by blast
    obtain r sent l where "listener_step V (nw_listener n) a = (r, sent, l)" by (rule prod_cases3)
    from network_step.listener [OF a this] assms show False by blast
  qed
qed (use assms network_step.dialer_writes network_step.listener_writes in \<open>meson not_le\<close>)+

lemma rejected_mono: "rejected ps S i \<Longrightarrow> Suc j \<le> i \<Longrightarrow> ps ! j \<notin> S"
  by (simp add: rejected_def)

lemma network_stuck_finished:
  assumes ok: "network_ok ps S n" and stuck: "\<nexists>n'. network_step V n n'"
  shows "nw_dialer_result n \<noteq> None \<and> nw_listener_result n \<noteq> None"
proof -
  note ok = network_okD [OF ok] and stuck = stuck_network [OF stuck]
  have "ls_state (nw_listener n) = ListenDone"
  proof (cases "dl_state (nw_dialer n)")
    case (DialAwaitProtocol p h)
    then obtain j where j: "proposing ps S (nw_dialer n) p h (nw_replied_read n) j"
      "length (nw_dialed n) = Suc (Suc j)" "nw_dialer_result n = None" using ok(1) by (auto simp: dialer_at_def)
    have read: "nw_replied_read n = nw_replied_written n" "\<not> gave_up (nw_listener_result n)"
      using stuck(1) DialAwaitProtocol ok(7) by (auto simp: dialer_answer_def next_message_def split: if_splits)
    show ?thesis using ok(2,5,6,8) stuck(2-4) j read
      by (auto simp: listener_answer_def listener_at_def next_message_def flushed_def proposing_def
          split: listener_state.splits option.splits if_splits)
  next
    case DialDone
    show ?thesis
    proof (cases "gave_up (nw_dialer_result n)")
      case True
      then show ?thesis using ok(2,8) stuck(2,4)
        by (auto simp: listener_answer_def listener_at_def next_message_def flushed_def
            split: listener_state.splits option.splits if_splits)
    next
      case False
      then obtain j where j: "j < length ps" "ps ! j \<in> S" "nw_replied_read n = Suc (Suc j)" "length (nw_dialed n) = Suc (Suc j)"
        using ok(1) DialDone by (auto simp: dialer_at_def)
      then have "Suc (Suc j) \<le> length (nw_replied n)" using ok(7,8) by simp
      then show ?thesis using ok(2,8) stuck(2,4) j rejected_mono [of ps S _ j]
        by (auto simp: listener_answer_def listener_at_def next_message_def flushed_def
            split: listener_state.splits option.splits if_splits)
    qed
  qed (use stuck ok(1,6) in \<open>auto simp: dialer_answer_def flushed_def dialer_at_def split: if_splits\<close>)
  then have l: "nw_listener_result n \<noteq> None" using ok(2) by (auto simp: listener_at_def)
  have "dl_state (nw_dialer n) = DialDone"
  proof (cases "dl_state (nw_dialer n)")
    case (DialAwaitProtocol p h)
    then obtain j where j: "proposing ps S (nw_dialer n) p h (nw_replied_read n) j"
      "length (nw_dialed n) = Suc (Suc j)" using ok(1) by (auto simp: dialer_at_def)
    have read: "nw_replied_read n = nw_replied_written n" "\<not> gave_up (nw_listener_result n)"
      using stuck(1) DialAwaitProtocol ok(7) by (auto simp: dialer_answer_def next_message_def split: if_splits)
    then obtain i where "i < length ps" "ps ! i \<in> S" "length (nw_replied n) = Suc (Suc i)"
      using ok(2) l by (auto simp: listener_at_def split: listener_state.splits option.splits)
    then show ?thesis using j read stuck(4) ok(8) rejected_mono [of ps S j i]
      by (auto simp: proposing_def split: if_splits)
  qed (use stuck ok(1,6) in \<open>auto simp: dialer_answer_def flushed_def dialer_at_def split: if_splits\<close>)
  then show ?thesis using l ok(1) by (auto simp: dialer_at_def)
qed



lemma network_completes:
  assumes "names_ok V proposed"
  shows "\<exists>k n. (network_step V ^^ k) (network_init proposed supported) n \<and> (\<nexists>n'. network_step V n n')"
proof (rule ccontr)
  assume "\<not> ?thesis"
  then have more: "\<exists>n'. network_step V n n'" if "(network_step V ^^ k) (network_init proposed supported) n" for k n
    using that by blast
  have "\<exists>n. (network_step V ^^ k) (network_init proposed supported) n" for k
  proof (induction k)
    case (Suc k)
    then show ?case using more by (metis relpowp_Suc_I)
  qed auto
  then obtain n where n: "(network_step V ^^ (8 * length proposed + 13)) (network_init proposed supported) n" by blast
  then show False
    using network_run_ok [OF n network_init_ok assms] network_progress_bound [of proposed _ n] by fastforce
qed


end
