(* ===== verification/Webrtc_Negotiation.thy ===== *)
theory Webrtc_Negotiation
  imports Negotiation
begin

section \<open>Protocol negotiation over WebRTC\<close>

text \<open>
  The WebRTC transport negotiates without a byte stream: every payload holds complete messages.
  \<open>WebRtcDialerState\<close> of \<open>src/multistream_select/dialer_select.rs\<close> and \<open>webrtc_listener_negotiate\<close> of
  \<open>listener_select.rs\<close>. The last part connects the two the way \<open>src/transport/webrtc/connection.rs\<close> does.
\<close>

datatype webrtc_error =
    InvalidDataError
  | ParseInvalidData
  | MultistreamSelectError negotiation_error
  | StateMismatch

datatype handshake_result = NotReady | Succeeded ms_protocol | Rejected

datatype handshake_state = WaitingResponse | WaitingProtocol

record webrtc_dialer =
  wd_protocol :: ms_protocol
  wd_fallback_names :: "ms_protocol list"
  wd_state :: handshake_state

definition webrtc_proposal :: "varint_lib \<Rightarrow> ms_protocol \<Rightarrow> bool \<Rightarrow> (webrtc_error, u8 list) result" where
  "webrtc_proposal V protocol header =
     (case protocol_try_from protocol of
        Inl e \<Rightarrow> Inl InvalidDataError
      | Inr p \<Rightarrow>
          (case webrtc_encode_multistream_message V (Protocol p) header of
             None \<Rightarrow> Inl InvalidDataError | Some message \<Rightarrow> Inr message))"

definition webrtc_propose ::
  "varint_lib \<Rightarrow> ms_protocol \<Rightarrow> ms_protocol list \<Rightarrow> (webrtc_error, webrtc_dialer \<times> u8 list) result" where
  "webrtc_propose V protocol fallback_names =
     map_sum id (\<lambda>message.
       (\<lparr>wd_protocol = protocol, wd_fallback_names = rev fallback_names, wd_state = WaitingResponse\<rparr>, message))
       (webrtc_proposal V protocol True)"

definition propose_next_fallback ::
  "varint_lib \<Rightarrow> webrtc_dialer \<Rightarrow> (webrtc_error, u8 list option) result \<times> webrtc_dialer" where
  "propose_next_fallback V d =
     (if wd_fallback_names d = [] then (Inr None, d)
      else
        let next_name = last (wd_fallback_names d);
            d' = d\<lparr>wd_fallback_names := butlast (wd_fallback_names d), wd_protocol := next_name\<rparr>
        in (map_sum id Some (webrtc_proposal V next_name False), d'))"

text \<open>
  A length-prefixed message at the start of a payload, and the rest of the payload. The inner result is
  that of \<open>Message::decode\<close>, which the two callers treat differently.
\<close>

definition split_message ::
  "varint_lib \<Rightarrow> u8 list \<Rightarrow> ((protocol_error, ms_message) result \<times> u8 list) option" where
  "split_message V payload =
     (case uvi_decode_usize V payload of
        None \<Rightarrow> None
      | Some (len, tail) \<Rightarrow>
          if length tail < len then None else Some (ms_decode V (take len tail), drop len tail))"

text \<open>What a decoded message means to the dialer: \<open>None\<close> continues the loop, with the header received.\<close>

fun webrtc_on_message ::
  "webrtc_dialer \<Rightarrow> (protocol_error, ms_message) result \<Rightarrow> (webrtc_error, handshake_result) result option" where
  "webrtc_on_message d message =
     (case (wd_state d, message) of
        (WaitingResponse, Inr (Header HeaderV1)) \<Rightarrow> None
      | (WaitingResponse, Inr _) \<Rightarrow> Some (Inl (MultistreamSelectError Failed))
      | (WaitingProtocol, Inr NotAvailable) \<Rightarrow> Some (Inr Rejected)
      | (WaitingProtocol, Inr (Protocol protocol)) \<Rightarrow>
          Some (if protocol = PROTO_MULTISTREAM_1_0 then Inl StateMismatch
                else if wd_protocol d = protocol then Inr (Succeeded (wd_protocol d))
                else Inl (MultistreamSelectError Failed))
      | (WaitingProtocol, Inr ListProtocols) \<Rightarrow> Some (Inl (MultistreamSelectError (ProtocolError InvalidMessage)))
      | _ \<Rightarrow> Some (Inl StateMismatch))"

declare webrtc_on_message.simps [simp del]

lemma webrtc_on_message_None:
  "webrtc_on_message d m = None \<longleftrightarrow> wd_state d = WaitingResponse \<and> m = Inr (Header HeaderV1)"
  by (auto simp: webrtc_on_message.simps split: handshake_state.split sum.split ms_message.split header_line.split)

function webrtc_register_response ::
  "varint_lib \<Rightarrow> webrtc_dialer \<Rightarrow> u8 list \<Rightarrow> (webrtc_error, handshake_result) result \<times> webrtc_dialer" where
  "webrtc_register_response V d remaining =
     (if remaining = [] then
        (case wd_state d of WaitingProtocol \<Rightarrow> (Inr NotReady, d) | WaitingResponse \<Rightarrow> (Inl StateMismatch, d))
      else case split_message V remaining of
        None \<Rightarrow> (Inl ParseInvalidData, d)
      | Some (message, rest) \<Rightarrow>
          (case webrtc_on_message d message of
             None \<Rightarrow> webrtc_register_response V (d\<lparr>wd_state := WaitingProtocol\<rparr>) rest
           | Some r \<Rightarrow> (r, d)))"
  by pat_completeness auto
termination
  by (relation "measure (\<lambda>(V, d, _). case wd_state d of WaitingResponse \<Rightarrow> 1 | WaitingProtocol \<Rightarrow> 0)")
    (auto simp: webrtc_on_message_None)

declare webrtc_register_response.simps [simp del]

datatype listener_select_result =
    Accepted ms_protocol "u8 list"
  | RejectedProposal "u8 list"
  | PendingProtocol "u8 list"

definition decode_multistream_message ::
  "varint_lib \<Rightarrow> u8 list \<Rightarrow> (webrtc_error, ms_message \<times> u8 list) result" where
  "decode_multistream_message V data =
     (case split_message V data of
        Some (Inr message, rest) \<Rightarrow> Inr (message, rest)
      | _ \<Rightarrow> Inl ParseInvalidData)"

text \<open>The answer to a proposal once it has been parsed.\<close>

definition webrtc_listener_answer ::
  "varint_lib \<Rightarrow> ms_protocol list \<Rightarrow> ms_protocol \<Rightarrow> bool \<Rightarrow> (webrtc_error, listener_select_result) result" where
  "webrtc_listener_answer V supported_protocols protocol header =
     (case find (\<lambda>supported. protocol = supported) supported_protocols of
        Some supported \<Rightarrow>
          (case webrtc_encode_multistream_message V (Protocol protocol) header of
             None \<Rightarrow> Inl InvalidDataError | Some message \<Rightarrow> Inr (Accepted supported message))
      | None \<Rightarrow>
          (case webrtc_encode_multistream_message V NotAvailable header of
             None \<Rightarrow> Inl InvalidDataError | Some message \<Rightarrow> Inr (RejectedProposal message)))"

definition webrtc_listener_negotiate ::
  "varint_lib \<Rightarrow> ms_protocol list \<Rightarrow> u8 list \<Rightarrow> bool \<Rightarrow> (webrtc_error, listener_select_result) result" where
  "webrtc_listener_negotiate V supported_protocols raw_payload header_received =
     (case decode_multistream_message V raw_payload of
        Inl e \<Rightarrow> Inl e
      | Inr (Header HeaderV1, payload) \<Rightarrow>
          if header_received then Inl (MultistreamSelectError Failed)
          else if payload = [] then Inr (PendingProtocol raw_payload)
          else (case decode_multistream_message V payload of
                  Inl e \<Rightarrow> Inl e
                | Inr (Protocol protocol, rest) \<Rightarrow>
                    if rest \<noteq> [] then Inl ParseInvalidData
                    else webrtc_listener_answer V supported_protocols protocol True
                | Inr _ \<Rightarrow> Inl ParseInvalidData)
      | Inr (Protocol protocol, rest) \<Rightarrow>
          if \<not> header_received then Inl (MultistreamSelectError Failed)
          else if rest \<noteq> [] then Inl ParseInvalidData
          else webrtc_listener_answer V supported_protocols protocol False
      | Inr _ \<Rightarrow> Inl (MultistreamSelectError Failed))"

subsection \<open>A negotiation\<close>

text \<open>
  The dialer's payload goes to the listener, its answer back to the dialer, which proposes its next
  fallback after a rejection. The result is the protocol of either side, or that the dialer ran out
  of names; \<open>None\<close> is any other end.
\<close>

lemma register_response_fallbacks:
  "wd_fallback_names (snd (webrtc_register_response V d bs)) = wd_fallback_names d"
proof (induction V d bs rule: webrtc_register_response.induct)
  case (1 V d remaining)
  then show ?case
    by (simp add: webrtc_register_response.simps [of V d remaining] split: handshake_state.split option.split prod.split)
qed

function webrtc_dialogue ::
  "varint_lib \<Rightarrow> ms_protocol list \<Rightarrow> webrtc_dialer \<Rightarrow> u8 list \<Rightarrow> bool \<Rightarrow> (ms_protocol \<times> ms_protocol) option option" where
  "webrtc_dialogue V supported d payload header_received =
     (case webrtc_listener_negotiate V supported payload header_received of
        Inr (Accepted p reply) \<Rightarrow>
          (case webrtc_register_response V d reply of
             (Inr (Succeeded q), d') \<Rightarrow> Some (Some (p, q))
           | _ \<Rightarrow> None)
      | Inr (RejectedProposal reply) \<Rightarrow>
          (case webrtc_register_response V d reply of
             (Inr Rejected, d') \<Rightarrow>
               (case propose_next_fallback V d' of
                  (Inr (Some message), d'') \<Rightarrow> webrtc_dialogue V supported d'' message True
                | (Inr None, d'') \<Rightarrow> Some None
                | _ \<Rightarrow> None)
           | _ \<Rightarrow> None)
      | _ \<Rightarrow> None)"
  by pat_completeness auto
termination
proof (relation "measure (\<lambda>(V, supported, d, _). length (wd_fallback_names d))", goal_cases)
  case (2 V supported d payload header_received b reply y d' x z d'' a w)
  then show ?case
    using register_response_fallbacks [of V d reply]
    by (auto simp: propose_next_fallback_def Let_def split: if_splits dest!: sym [of "(_, _)"])
qed auto


declare webrtc_dialogue.simps [simp del]

subsection \<open>Both sides settle on the same protocol\<close>

definition webrtc_name_ok :: "ms_protocol \<Rightarrow> bool" where
  "webrtc_name_ok p \<longleftrightarrow> protocol_ok p \<and> length p + 40 \<le> MAX_FRAME_SIZE"

text \<open>A message with its length prefix, and the payload that carries it.\<close>

definition prefixed :: "varint_lib \<Rightarrow> ms_message \<Rightarrow> u8 list" where
  "prefixed V m = uvi_encode_usize V (ms_encoded_len V m) @ ms_encode V m"

definition payload_of :: "varint_lib \<Rightarrow> bool \<Rightarrow> ms_message \<Rightarrow> u8 list" where
  "payload_of V header m = (if header then prefixed V (Header HeaderV1) else []) @ prefixed V m"

lemma header_length: "length MSG_MULTISTREAM_1_0 = 19"
  by (simp add: MSG_MULTISTREAM_1_0_def ascii_def)

lemma short_messages:
  assumes "webrtc_name_ok p"
  shows "ms_message_ok (Protocol p)" "length (ms_encode V (Protocol p)) + 39 \<le> MAX_FRAME_SIZE"
    "length (ms_encode V NotAvailable) + 39 \<le> MAX_FRAME_SIZE"
  using assms by (simp_all add: webrtc_name_ok_def MSG_PROTOCOL_NA_def ascii_def MAX_FRAME_SIZE_def)

lemma webrtc_encode_payload:
  assumes V: "varint_ok V" and "length (ms_encode V m) + 39 \<le> MAX_FRAME_SIZE"
  shows "webrtc_encode_multistream_message V m header = Some (payload_of V header m)"
proof -
  have "length (ms_encode V m) \<le> usize_max" using assms(2) by (simp add: MAX_FRAME_SIZE_def usize_max_def)
  then have "length (uvi_encode_usize V (length (ms_encode V m))) \<le> 10" by (rule varint_okD(5) [OF V])
  moreover have "length (uvi_encode_usize V 19) \<le> 10" by (rule varint_okD(5) [OF V]) (simp add: usize_max_def)
  ultimately show ?thesis using assms(2)
    by (simp add: webrtc_encode_multistream_message_def payload_of_def prefixed_def encoded_len header_length Let_def)
qed

lemma split_prefixed:
  assumes "varint_ok V" and "ms_message_ok m" and "length (ms_encode V m) \<le> usize_max"
  shows "split_message V (prefixed V m @ rest) = Some (Inr m, rest)" "prefixed V m @ rest \<noteq> []"
proof -
  have "uvi_decode_usize V (prefixed V m @ rest) = Some (length (ms_encode V m), ms_encode V m @ rest)"
    using varint_okD(1) [OF assms(1,3), of "ms_encode V m @ rest"] by (simp add: prefixed_def encoded_len)
  then show "split_message V (prefixed V m @ rest) = Some (Inr m, rest)"
    using ms_decode_encode [OF assms(1,2)] by (simp add: split_message_def)
  have "ms_encode V m \<noteq> []"
    by (cases "(V, m)" rule: ms_encode.cases) (simp_all add: MSG_MULTISTREAM_1_0_def MSG_LS_def MSG_PROTOCOL_NA_def)
  then show "prefixed V m @ rest \<noteq> []" by (simp add: prefixed_def)
qed

lemma split_header:
  assumes "varint_ok V"
  shows "split_message V (prefixed V (Header HeaderV1) @ rest) = Some (Inr (Header HeaderV1), rest)"
    "prefixed V (Header HeaderV1) @ rest \<noteq> []"
  by (rule split_prefixed [OF assms]; simp add: header_length usize_max_def)+

lemma listener_negotiates:
  assumes V: "varint_ok V" and p: "webrtc_name_ok p"
  shows "webrtc_listener_negotiate V supported (payload_of V (\<not> hr) (Protocol p)) hr =
    Inr (if p \<in> set supported then Accepted p (payload_of V (\<not> hr) (Protocol p))
         else RejectedProposal (payload_of V (\<not> hr) NotAvailable))"
proof -
  have le: "length (ms_encode V (Protocol p)) \<le> usize_max"
    using short_messages(2) [OF p, of V] by (simp add: MAX_FRAME_SIZE_def usize_max_def)
  note sp = split_prefixed [OF V short_messages(1) [OF p] le, of "[]", simplified]
  have find: "find (\<lambda>s. p = s) supported = (if p \<in> set supported then Some p else None)"
    by (induction supported) auto
  have "webrtc_listener_answer V supported p header =
      Inr (if p \<in> set supported then Accepted p (payload_of V header (Protocol p))
           else RejectedProposal (payload_of V header NotAvailable))" for header
    using webrtc_encode_payload [OF V short_messages(2) [OF p], of header]
      webrtc_encode_payload [OF V short_messages(3) [OF p], of header]
    by (simp add: webrtc_listener_answer_def find)
  then show ?thesis using sp split_header [OF V, of "prefixed V (Protocol p)"]
    by (simp add: webrtc_listener_negotiate_def decode_multistream_message_def payload_of_def)
qed

lemma dialer_registers:
  assumes V: "varint_ok V" and m: "ms_message_ok m" "length (ms_encode V m) \<le> usize_max"
    and st: "wd_state d = (if hr then WaitingProtocol else WaitingResponse)"
    and r: "webrtc_on_message (d\<lparr>wd_state := WaitingProtocol\<rparr>) (Inr m) = Some r"
  shows "webrtc_register_response V d (payload_of V (\<not> hr) m) = (r, d\<lparr>wd_state := WaitingProtocol\<rparr>)"
proof -
  note sp = split_prefixed [OF V m, of "[]", simplified]
  have last: "webrtc_register_response V (d\<lparr>wd_state := WaitingProtocol\<rparr>) (prefixed V m) = (r, d\<lparr>wd_state := WaitingProtocol\<rparr>)"
    by (subst webrtc_register_response.simps) (simp add: sp r)
  show ?thesis
  proof (cases hr)
    case True
    then have "d\<lparr>wd_state := WaitingProtocol\<rparr> = d" using st by simp
    then show ?thesis using last True by (simp add: payload_of_def)
  next
    case False
    then have "webrtc_on_message d (Inr (Header HeaderV1)) = None" using st by (simp add: webrtc_on_message_None)
    then show ?thesis using last False split_header [OF V, of "prefixed V m"] sp(2)
      by (subst webrtc_register_response.simps) (simp add: payload_of_def)
  qed
qed

lemma webrtc_dialogue_agrees:
  assumes V: "varint_ok V" and "list_all webrtc_name_ok (wd_protocol d # rev (wd_fallback_names d))"
    and "wd_state d = (if hr then WaitingProtocol else WaitingResponse)"
  shows "webrtc_dialogue V supported d (payload_of V (\<not> hr) (Protocol (wd_protocol d))) hr =
    Some (map_option (\<lambda>p. (p, p)) (find (\<lambda>p. p \<in> set supported) (wd_protocol d # rev (wd_fallback_names d))))"
  using assms(2,3)
proof (induction "length (wd_fallback_names d)" arbitrary: d hr rule: less_induct)
  case less
  let ?p = "wd_protocol d" and ?d = "d\<lparr>wd_state := WaitingProtocol\<rparr>"
  have p: "webrtc_name_ok ?p" using less.prems(1) by simp
  note short = short_messages [OF p]
  have le: "length (ms_encode V (Protocol ?p)) \<le> usize_max" "length (ms_encode V NotAvailable) \<le> usize_max"
    using short(2,3) [of V] by (simp_all add: MAX_FRAME_SIZE_def usize_max_def)
  note neg = listener_negotiates [OF V p, of supported hr]
  show ?case
  proof (cases "?p \<in> set supported")
    case True
    have "webrtc_on_message ?d (Inr (Protocol ?p)) = Some (Inr (Succeeded ?p))"
      using p by (simp add: webrtc_on_message.simps webrtc_name_ok_def protocol_ok_def)
    from dialer_registers [OF V short(1) le(1) less.prems(2) this] show ?thesis
      using True neg by (simp add: webrtc_dialogue.simps)
  next
    case False
    have "webrtc_on_message ?d (Inr NotAvailable) = Some (Inr Rejected)" by (simp add: webrtc_on_message.simps)
    note reg = dialer_registers [OF V _ le(2) less.prems(2) this, simplified]
    show ?thesis
    proof (cases "wd_fallback_names d" rule: rev_cases)
      case Nil
      then show ?thesis using False neg reg by (simp add: webrtc_dialogue.simps propose_next_fallback_def)
    next
      case (snoc fs q)
      let ?e = "d\<lparr>wd_state := WaitingProtocol, wd_fallback_names := fs, wd_protocol := q\<rparr>"
      have q: "webrtc_name_ok q" using less.prems(1) snoc by simp
      then have "protocol_try_from q = Inr q" by (simp add: webrtc_name_ok_def protocol_ok_def protocol_try_from_ok)
      then have "propose_next_fallback V ?d = (Inr (Some (payload_of V False (Protocol q))), ?e)"
        using snoc webrtc_encode_payload [OF V short_messages(2) [OF q], of False]
        by (simp add: propose_next_fallback_def webrtc_proposal_def Let_def)
      then have "webrtc_dialogue V supported d (payload_of V (\<not> hr) (Protocol ?p)) hr =
          webrtc_dialogue V supported ?e (payload_of V False (Protocol q)) True"
        using False neg reg by (simp add: webrtc_dialogue.simps [of V supported d])
      also have "\<dots> = Some (map_option (\<lambda>p. (p, p)) (find (\<lambda>p. p \<in> set supported) (q # rev fs)))"
        using less.hyps [of ?e True] less.prems(1) snoc by simp
      finally show ?thesis using False snoc by simp
    qed
  qed
qed

text \<open>
  C28: A WebRTC dialer and listener settle on the same protocol: the first of the dialer's main protocol
  and its fallbacks, in the given order, that the listener supports. If it supports none of them the
  dialer is told so after having proposed them all.
\<close>

theorem webrtc_negotiation_agrees:
  assumes "varint_ok V" and "list_all webrtc_name_ok (protocol # fallback_names)"
  shows "\<exists>d payload. webrtc_propose V protocol fallback_names = Inr (d, payload) \<and>
    webrtc_dialogue V supported d payload False =
      Some (map_option (\<lambda>p. (p, p)) (find (\<lambda>p. p \<in> set supported) (protocol # fallback_names)))"
proof -
  let ?d = "\<lparr>wd_protocol = protocol, wd_fallback_names = rev fallback_names, wd_state = WaitingResponse\<rparr>"
  have p: "webrtc_name_ok protocol" using assms(2) by simp
  then have "protocol_try_from protocol = Inr protocol"
    by (simp add: webrtc_name_ok_def protocol_ok_def protocol_try_from_ok)
  then have "webrtc_propose V protocol fallback_names = Inr (?d, payload_of V True (Protocol protocol))"
    using webrtc_encode_payload [OF assms(1) short_messages(2) [OF p], of True]
    by (simp add: webrtc_propose_def webrtc_proposal_def)
  then show ?thesis using webrtc_dialogue_agrees [OF assms(1), of ?d False supported] assms(2) by simp
qed

theorem webrtc_negotiation_agrees_witness:
  "\<exists>d payload. webrtc_propose leb128 [47, 97] [[47, 98], [47, 99]] = Inr (d, payload) \<and>
    webrtc_dialogue leb128 [[47, 99], [47, 98]] d payload False = Some (Some ([47, 98], [47, 98]))"
proof -
  have "list_all webrtc_name_ok ([47, 97] # [[47, 98], [47, 99]])"
    by (simp add: webrtc_name_ok_def protocol_ok_def MAX_FRAME_SIZE_def PROTO_MULTISTREAM_1_0_def ascii_def)
  from webrtc_negotiation_agrees [OF leb128_ok this, of "[[47, 99], [47, 98]]"] show ?thesis by simp
qed

end
