(* ===== verification/Service_Contract.thy ===== *)
theory Service_Contract
  imports Multiaddr
begin

section \<open>The transport service as the protocols see it\<close>

text \<open>
  What a protocol receives from its \<open>TransportService\<close>: the events of \<open>TransportEvent\<close> and the errors of
  \<open>SubstreamError\<close> (\<open>src/protocol/mod.rs\<close>, \<open>src/error.rs\<close>), and the contract of these events that the
  protocols rely on. Connection events of a peer alternate, a substream event is for a connected peer, and an
  outbound substream that was initiated is answered at most once, by an opened substream or a failure,
  while its connection lasts. The contract is stated over \<open>service_env\<close>: the connected peers, the initiated
  substreams that are not answered yet, and the identifiers given out so far.
\<close>

type_synonym substream = nat
type_synonym substream_id = nat

datatype error_kind = KindNotConnected | KindPermissionDenied | KindOther nat

datatype substream_negotiation_error =
    NeMultistreamFailed | NeMultistreamIo error_kind | NeIoError error_kind | NeOther nat

datatype substream_error =
    SeConnectionClosed
  | SeChannelClogged
  | SePeerDoesNotExist peer_id
  | SeIoError error_kind
  | SeYamuxIo error_kind
  | SeYamuxOther nat
  | SeReadFailure "substream_id option"
  | SeWriteFailure "substream_id option"
  | SeNegotiationError substream_negotiation_error

datatype service_event =
    TeConnectionEstablished peer_id
  | TeConnectionClosed peer_id
  | TeInbound peer_id string "string option" substream
  | TeOutbound peer_id string "string option" substream_id substream
  | TeSubstreamOpenFailure substream_id substream_error
  | TeDialFailure peer_id

record service_env =
  se_connected :: "peer_id set"
  se_outstanding :: "substream_id \<Rightarrow> peer_id option"
  se_used :: "substream_id set"

definition service_env_new :: service_env where
  "service_env_new = \<lparr>se_connected = {}, se_outstanding = \<lambda>_. None, se_used = {}\<rparr>"

fun te_ok :: "service_env \<Rightarrow> service_event \<Rightarrow> bool" where
  "te_ok env (TeConnectionEstablished peer) \<longleftrightarrow> peer \<notin> se_connected env"
| "te_ok env (TeConnectionClosed peer) \<longleftrightarrow> peer \<in> se_connected env"
| "te_ok env (TeInbound peer _ _ _) \<longleftrightarrow> peer \<in> se_connected env"
| "te_ok env (TeOutbound peer _ _ substream _) \<longleftrightarrow> se_outstanding env substream = Some peer"
| "te_ok env (TeSubstreamOpenFailure substream _) \<longleftrightarrow> se_outstanding env substream \<noteq> None"
| "te_ok env (TeDialFailure _) \<longleftrightarrow> True"

fun te_env :: "service_event \<Rightarrow> service_env \<Rightarrow> service_env" where
  "te_env (TeConnectionEstablished peer) env = env\<lparr>se_connected := insert peer (se_connected env)\<rparr>"
| "te_env (TeConnectionClosed peer) env =
     env\<lparr>se_connected := se_connected env - {peer},
         se_outstanding := (\<lambda>sid. if se_outstanding env sid = Some peer then None else se_outstanding env sid)\<rparr>"
| "te_env (TeOutbound _ _ _ substream _) env = env\<lparr>se_outstanding := (se_outstanding env)(substream := None)\<rparr>"
| "te_env (TeSubstreamOpenFailure substream _) env =
     env\<lparr>se_outstanding := (se_outstanding env)(substream := None)\<rparr>"
| "te_env _ env = env"

text \<open>A substream that \<open>open_substream\<close> initiates.\<close>

definition opened_env :: "peer_id \<Rightarrow> substream_id \<Rightarrow> service_env \<Rightarrow> service_env" where
  "opened_env peer substream env =
     env\<lparr>se_outstanding := (se_outstanding env)(substream \<mapsto> peer), se_used := insert substream (se_used env)\<rparr>"

lemma opened_env_simps [simp]:
  "se_connected (opened_env peer substream env) = se_connected env"
  "se_outstanding (opened_env peer substream env) = (se_outstanding env)(substream \<mapsto> peer)"
  "se_used (opened_env peer substream env) = insert substream (se_used env)"
  by (simp_all add: opened_env_def)

subsection \<open>Lemmas the protocols share\<close>

lemma hm_ok_filter: "hm_ok m \<Longrightarrow> hm_ok (filter P m)"
  by (simp add: hm_ok_def distinct_map_filter)

lemma hm_get_filter_value:
  assumes "hm_ok m"
  shows "hm_get (filter (\<lambda>(_, v). P v) m) k =
    (case hm_get m k of None \<Rightarrow> None | Some v \<Rightarrow> if P v then Some v else None)"
proof -
  have iff: "hm_get (filter (\<lambda>(_, v). P v) m) k = Some v \<longleftrightarrow> hm_get m k = Some v \<and> P v" for v
    using assms hm_ok_filter[OF assms, of "\<lambda>(_, v). P v"] by (auto simp: hm_get_in_set)
  show ?thesis
  proof (cases "hm_get (filter (\<lambda>(_, v). P v) m) k")
    case None
    then show ?thesis using iff[of "the (hm_get m k)"] by (cases "hm_get m k") auto
  next
    case (Some v)
    then show ?thesis using iff[of v] by simp
  qed
qed

definition remove_nth :: "nat \<Rightarrow> 'a list \<Rightarrow> 'a list" where
  "remove_nth i xs = take i xs @ drop (Suc i) xs"

lemma mset_remove_nth: "i < length xs \<Longrightarrow> mset xs = add_mset (xs ! i) (mset (remove_nth i xs))"
  by (metis Cons_nth_drop_Suc append_take_drop_id mset_append mset.simps(2) remove_nth_def union_mset_add_mset_right)

lemma set_remove_nth: "set (remove_nth i xs) \<subseteq> set xs"
  by (auto simp: remove_nth_def dest: in_set_takeD in_set_dropD)

lemma length_remove_nth: "i < length xs \<Longrightarrow> Suc (length (remove_nth i xs)) = length xs"
  by (simp add: remove_nth_def)

end
