(* ===== verification/Notification_Handshake.thy ===== *)
theory Notification_Handshake
  imports Service_Contract
begin

section \<open>The handshake service of the notification protocol\<close>

text \<open>
  \<open>src/protocol/notification/negotiation.rs\<close>: the \<open>HandshakeService\<close>, which sends the local handshake
  on a substream, reads the remote one, and gives up after ten seconds. A \<open>Substream\<close> is a handle;
  the answers of its \<open>Sink\<close> and \<open>Stream\<close> functions during one call of \<open>poll_next\<close> are the argument
  \<open>io\<close>, the clock is the argument \<open>now\<close> and a \<open>Delay\<close> is the instant at which it elapses. Every
  substream is asked each question at most once in a call of \<open>poll_next\<close>, because the state of its
  handshake advances with every answer, so an answer per question is enough.

  The lemmas show that \<open>poll_next\<close> never reaches its \<open>expect\<close>, what an event says about the substream
  it names, that a substream whose time is up is never left waiting, and how an entry of the queue
  of finished handshakes that outlives its substream is attached to a later substream.
\<close>

type_synonym handshake = "u8 list"

datatype hs_direction = HsOutbound | HsInbound

datatype handshake_event =
    Negotiated peer_id handshake substream hs_direction
  | NegotiationError peer_id hs_direction

datatype hs_state = SendHandshake | SinkReady | HandshakeSent | ReadHandshake

type_synonym hs_key = "peer_id \<times> hs_direction"
type_synonym hs_entry = "substream \<times> nat \<times> hs_state"

record handshake_service =
  hs_handshake :: handshake
  hs_substreams :: "(hs_key, hs_entry) hash_map"
  hs_ready :: "(peer_id \<times> hs_direction \<times> handshake) list"

text \<open>The durations are in nanoseconds.\<close>

definition NEGOTIATION_TIMEOUT :: nat where
  "NEGOTIATION_TIMEOUT = 10 * 1000000000"

definition handshake_service_new :: "handshake \<Rightarrow> handshake_service" where
  "handshake_service_new handshake =
     \<lparr>hs_handshake = handshake, hs_substreams = [], hs_ready = []\<rparr>"

definition hs_substream_of :: "hs_key \<Rightarrow> handshake_service \<Rightarrow> substream option" where
  "hs_substream_of key svc = map_option fst (hm_get (hs_substreams svc) key)"

definition remove_outbound :: "peer_id \<Rightarrow> handshake_service \<Rightarrow> substream option \<times> handshake_service" where
  "remove_outbound peer svc =
     (hs_substream_of (peer, HsOutbound) svc,
      svc\<lparr>hs_substreams := hm_remove (peer, HsOutbound) (hs_substreams svc)\<rparr>)"

definition remove_inbound :: "peer_id \<Rightarrow> handshake_service \<Rightarrow> substream option \<times> handshake_service" where
  "remove_inbound peer svc =
     (hs_substream_of (peer, HsInbound) svc,
      svc\<lparr>hs_substreams := hm_remove (peer, HsInbound) (hs_substreams svc)\<rparr>)"

definition negotiate_outbound :: "nat \<Rightarrow> peer_id \<Rightarrow> substream \<Rightarrow> handshake_service \<Rightarrow> handshake_service" where
  "negotiate_outbound now peer substream svc =
     svc\<lparr>hs_substreams := hm_insert (peer, HsOutbound)
       (substream, now + NEGOTIATION_TIMEOUT, SendHandshake) (hs_substreams svc)\<rparr>"

definition read_handshake :: "nat \<Rightarrow> peer_id \<Rightarrow> substream \<Rightarrow> handshake_service \<Rightarrow> handshake_service" where
  "read_handshake now peer substream svc =
     svc\<lparr>hs_substreams := hm_insert (peer, HsInbound)
       (substream, now + NEGOTIATION_TIMEOUT, ReadHandshake) (hs_substreams svc)\<rparr>"

definition send_handshake :: "nat \<Rightarrow> peer_id \<Rightarrow> substream \<Rightarrow> handshake_service \<Rightarrow> handshake_service" where
  "send_handshake now peer substream svc =
     svc\<lparr>hs_substreams := hm_insert (peer, HsInbound)
       (substream, now + NEGOTIATION_TIMEOUT, SendHandshake) (hs_substreams svc)\<rparr>"

definition hs_is_empty :: "handshake_service \<Rightarrow> bool" where
  "hs_is_empty svc \<longleftrightarrow> hs_substreams svc = []"

fun pop_ready ::
  "(peer_id \<times> hs_direction \<times> handshake) list \<Rightarrow> handshake_service
   \<Rightarrow> (peer_id \<times> handshake_event) option \<times> handshake_service" where
  "pop_ready [] svc = (None, svc\<lparr>hs_ready := []\<rparr>)"
| "pop_ready ((peer, direction, handshake) # ready) svc =
     (case hm_get (hs_substreams svc) (peer, direction) of
        Some (substream, _, _) \<Rightarrow>
          (Some (peer, Negotiated peer handshake substream direction),
           svc\<lparr>hs_substreams := hm_remove (peer, direction) (hs_substreams svc), hs_ready := ready\<rparr>)
      | None \<Rightarrow> pop_ready ready svc)"

definition pop_event :: "handshake_service \<Rightarrow> (peer_id \<times> handshake_event) option \<times> handshake_service" where
  "pop_event svc = pop_ready (hs_ready svc) svc"

subsection \<open>Polling\<close>

text \<open>
  \<open>Inl ()\<close> is an error of the substream; \<open>io_next\<close> answers \<open>Ready None\<close> when the remote closed it.
\<close>

record substream_io =
  io_ready :: "substream \<Rightarrow> (unit, unit) result poll"
  io_send :: "substream \<Rightarrow> handshake \<Rightarrow> (unit, unit) result"
  io_flush :: "substream \<Rightarrow> (unit, unit) result poll"
  io_next :: "substream \<Rightarrow> (unit, handshake) result option poll"

datatype entry_outcome = EntryPending | EntryError | EntryReady handshake

fun hs_rank :: "hs_state \<Rightarrow> nat" where
  "hs_rank SendHandshake = 3"
| "hs_rank SinkReady = 2"
| "hs_rank HandshakeSent = 1"
| "hs_rank ReadHandshake = 0"

text \<open>
  The inner loop for one substream: its outcome, the handshakes it passed to \<open>start_send\<close>, and the
  state it leaves behind.
\<close>

function poll_entry ::
  "substream_io \<Rightarrow> handshake \<Rightarrow> substream \<Rightarrow> hs_direction \<Rightarrow> hs_state
   \<Rightarrow> entry_outcome \<times> (substream \<times> handshake) list \<times> hs_state" where
  "poll_entry io local substream direction SendHandshake =
     (case io_ready io substream of
        Ready (Inr _) \<Rightarrow> poll_entry io local substream direction SinkReady
      | Ready (Inl _) \<Rightarrow> (EntryError, [], SendHandshake)
      | Pending \<Rightarrow> (EntryPending, [], SendHandshake))"
| "poll_entry io local substream direction SinkReady =
     (case io_send io substream local of
        Inr _ \<Rightarrow>
          (let (out, sent, state) = poll_entry io local substream direction HandshakeSent
           in (out, (substream, local) # sent, state))
      | Inl _ \<Rightarrow> (EntryError, [], SinkReady))"
| "poll_entry io local substream direction HandshakeSent =
     (case io_flush io substream of
        Ready (Inr _) \<Rightarrow>
          (case direction of
             HsOutbound \<Rightarrow> poll_entry io local substream direction ReadHandshake
           | HsInbound \<Rightarrow> (EntryReady [], [], HandshakeSent))
      | Ready (Inl _) \<Rightarrow> (EntryError, [], HandshakeSent)
      | Pending \<Rightarrow> (EntryPending, [], HandshakeSent))"
| "poll_entry io local substream direction ReadHandshake =
     (case io_next io substream of
        Ready (Some (Inr handshake)) \<Rightarrow> (EntryReady handshake, [], ReadHandshake)
      | Ready (Some (Inl _)) \<Rightarrow> (EntryError, [], ReadHandshake)
      | Ready None \<Rightarrow> (EntryError, [], ReadHandshake)
      | Pending \<Rightarrow> (EntryPending, [], ReadHandshake))"
  by pat_completeness auto
termination
  by (relation "measure (\<lambda>(io, local, substream, direction, state). hs_rank state)") auto

definition store_entry :: "hs_key \<Rightarrow> hs_entry \<Rightarrow> handshake_service \<Rightarrow> handshake_service" where
  "store_entry key entry svc = svc\<lparr>hs_substreams := hm_insert key entry (hs_substreams svc)\<rparr>"

definition push_ready :: "peer_id \<Rightarrow> hs_direction \<Rightarrow> handshake \<Rightarrow> handshake_service \<Rightarrow> handshake_service" where
  "push_ready peer direction handshake svc = svc\<lparr>hs_ready := hs_ready svc @ [(peer, direction, handshake)]\<rparr>"

fun poll_entries ::
  "substream_io \<Rightarrow> nat \<Rightarrow> (hs_key \<times> hs_entry) list \<Rightarrow> handshake_service
   \<Rightarrow> (peer_id \<times> handshake_event) option \<times> (substream \<times> handshake) list \<times> handshake_service" where
  "poll_entries io now [] svc = (None, [], svc)"
| "poll_entries io now (((peer, direction), (substream, timer, state)) # entries) svc =
     (if timer \<le> now then (Some (peer, NegotiationError peer direction), [], svc)
      else
        (let (out, sent, state') = poll_entry io (hs_handshake svc) substream direction state;
             svc' = store_entry (peer, direction) (substream, timer, state') svc
         in case out of
              EntryError \<Rightarrow> (Some (peer, NegotiationError peer direction), sent, svc')
            | EntryPending \<Rightarrow>
                (let (event, sent', svc'') = poll_entries io now entries svc'
                 in (event, sent @ sent', svc''))
            | EntryReady handshake \<Rightarrow>
                (let (event, sent', svc'') =
                       poll_entries io now entries (push_ready peer direction handshake svc')
                 in (event, sent @ sent', svc''))))"

definition hs_poll_next ::
  "((hs_key, hs_entry) hash_map \<Rightarrow> (hs_key, hs_entry) hash_map) \<Rightarrow> substream_io \<Rightarrow> nat \<Rightarrow> handshake_service
   \<Rightarrow> (panic, (peer_id \<times> handshake_event) poll) result \<times> (substream \<times> handshake) list \<times> handshake_service" where
  "hs_poll_next order io now svc =
     (case pop_event svc of
        (Some event, svc1) \<Rightarrow> (Inr (Ready event), [], svc1)
      | (None, svc1) \<Rightarrow>
          if hs_substreams svc1 = [] then (Inr Pending, [], svc1)
          else
            (case poll_entries io now (order (hs_substreams svc1)) svc1 of
               (Some event, sent, svc2) \<Rightarrow> (Inr (Ready event), sent, svc2)
             | (None, sent, svc2) \<Rightarrow>
                 (case hs_ready svc2 of
                    [] \<Rightarrow> (Inr Pending, sent, svc2)
                  | (peer, direction, handshake) # ready \<Rightarrow>
                      (case hm_get (hs_substreams svc2) (peer, direction) of
                         None \<Rightarrow> (Inl Panic, sent, svc2\<lparr>hs_ready := ready\<rparr>)
                       | Some (substream, _, _) \<Rightarrow>
                           (Inr (Ready (peer, Negotiated peer handshake substream direction)), sent,
                            svc2\<lparr>hs_substreams := hm_remove (peer, direction) (hs_substreams svc2),
                                 hs_ready := ready\<rparr>)))))"

subsection \<open>What polling does to the tracked substreams\<close>

lemma hs_substream_of_None: "hs_substream_of k svc = None \<longleftrightarrow> k \<notin> hm_keys (hs_substreams svc)"
  by (simp add: hs_substream_of_def hm_keys_iff del: not_None_eq)

lemma poll_entry_ready:
  "poll_entry io local substream direction state = (EntryReady handshake, sent, state') \<Longrightarrow>
   io_next io substream = Ready (Some (Inr handshake))
   \<or> direction = HsInbound \<and> handshake = [] \<and> io_flush io substream = Ready (Inr ())"
  by (induction io local substream direction state arbitrary: sent rule: poll_entry.induct)
     (auto split: poll.splits sum.splits option.splits hs_direction.splits prod.splits)

lemma poll_entry_sent:
  "poll_entry io local substream direction state = (out, sent, state') \<Longrightarrow>
   sent = [] \<or> sent = [(substream, local)]"
  by (induction io local substream direction state arbitrary: sent rule: poll_entry.induct)
     (auto split: poll.splits sum.splits option.splits hs_direction.splits prod.splits)

text \<open>
  \<open>poll_entries\<close> keeps the set of tracked substreams; the queue of finished handshakes grows by
  entries of substreams that were polled; an event it returns is an error of a polled substream.
\<close>

definition same_substreams :: "handshake_service \<Rightarrow> handshake_service \<Rightarrow> bool" where
  "same_substreams svc svc' \<longleftrightarrow>
     (\<forall>k. hs_substream_of k svc' = hs_substream_of k svc) \<and> (hm_ok (hs_substreams svc) \<longrightarrow> hm_ok (hs_substreams svc'))
     \<and> hs_handshake svc' = hs_handshake svc"

lemma same_substreams_refl [simp]: "same_substreams svc svc"
  by (simp add: same_substreams_def)

lemma same_substreams_trans: "same_substreams a b \<Longrightarrow> same_substreams b c \<Longrightarrow> same_substreams a c"
  by (simp add: same_substreams_def)

lemma same_substreams_keys:
  "same_substreams svc svc' \<Longrightarrow> hm_keys (hs_substreams svc') = hm_keys (hs_substreams svc)"
  using hs_substream_of_None[of _ svc] hs_substream_of_None[of _ svc']
  by (auto simp: same_substreams_def)

lemma same_substreams_store:
  "hs_substream_of k svc = Some substream \<Longrightarrow> same_substreams svc (store_entry k (substream, timer, state) svc)"
  by (auto simp: same_substreams_def store_entry_def hs_substream_of_def)

lemma same_substreams_push: "same_substreams svc (push_ready peer direction handshake svc)"
  by (simp add: same_substreams_def push_ready_def hs_substream_of_def)

lemma hs_ready_store [simp]: "hs_ready (store_entry k e svc) = hs_ready svc"
  by (simp add: store_entry_def)

lemma hs_ready_push [simp]: "hs_ready (push_ready peer direction handshake svc) = hs_ready svc @ [(peer, direction, handshake)]"
  by (simp add: push_ready_def)

definition reads_now :: "substream_io \<Rightarrow> substream \<Rightarrow> hs_direction \<Rightarrow> handshake \<Rightarrow> bool" where
  "reads_now io substream direction handshake \<longleftrightarrow>
     io_next io substream = Ready (Some (Inr handshake))
     \<or> direction = HsInbound \<and> handshake = [] \<and> io_flush io substream = Ready (Inr ())"

text \<open>The entries that one round over the substreams adds to the queue.\<close>

definition fresh_ready ::
  "substream_io \<Rightarrow> handshake_service \<Rightarrow> (peer_id \<times> hs_direction \<times> handshake) list \<Rightarrow> bool" where
  "fresh_ready io svc ready \<longleftrightarrow>
     (\<forall>(peer, direction, handshake) \<in> set ready.
        \<exists>substream. hs_substream_of (peer, direction) svc = Some substream \<and> reads_now io substream direction handshake)"

lemma fresh_ready_Nil [simp]: "fresh_ready io svc []"
  by (simp add: fresh_ready_def)

lemma fresh_ready_Cons [simp]:
  "fresh_ready io svc ((peer, direction, handshake) # ready) \<longleftrightarrow>
     (\<exists>substream. hs_substream_of (peer, direction) svc = Some substream \<and> reads_now io substream direction handshake)
     \<and> fresh_ready io svc ready"
  by (simp add: fresh_ready_def)

lemma fresh_ready_cong: "same_substreams svc svc' \<Longrightarrow> fresh_ready io svc' ready \<longleftrightarrow> fresh_ready io svc ready"
  by (simp add: fresh_ready_def same_substreams_def)

lemma poll_entries_spec:
  assumes "poll_entries io now entries svc = (event, sent, svc')"
    and "\<forall>(k, e) \<in> set entries. hs_substream_of k svc = Some (fst e)"
  shows "same_substreams svc svc'
    \<and> (\<exists>new. hs_ready svc' = hs_ready svc @ new \<and> fresh_ready io svc new)
    \<and> (case event of
         None \<Rightarrow> \<forall>(k, substream, timer, state) \<in> set entries. now < timer
       | Some (peer, ev) \<Rightarrow> \<exists>direction. ev = NegotiationError peer direction \<and> (peer, direction) \<in> fst ` set entries)"
  using assms
proof (induction io now entries svc arbitrary: event sent svc' rule: poll_entries.induct)
  case (1 io now svc)
  then show ?case by auto
next
  case (2 io now peer direction substream timer state entries svc)
  show ?case
  proof (cases "timer \<le> now")
    case True
    then show ?thesis using 2 by auto
  next
    case False
    obtain out sent1 state' where out: "poll_entry io (hs_handshake svc) substream direction state = (out, sent1, state')"
      by (metis prod_cases3)
    define svc1 where "svc1 = store_entry (peer, direction) (substream, timer, state') svc"
    have sub: "hs_substream_of (peer, direction) svc = Some substream"
      using 2(4) by simp
    have s1: "same_substreams svc svc1"
      unfolding svc1_def by (rule same_substreams_store[OF sub])
    show ?thesis
    proof (cases out)
      case EntryPending
      obtain sent2 where r: "poll_entries io now entries svc1 = (event, sent2, svc')"
        using 2(3) False out EntryPending by (auto simp: svc1_def split: prod.splits)
      have pre: "\<forall>(k, e) \<in> set entries. hs_substream_of k svc1 = Some (fst e)"
        using 2(4) s1 by (auto simp: same_substreams_def)
      note ih = 2(1)[OF False out[symmetric] refl refl svc1_def EntryPending r pre]
      show ?thesis
        using ih same_substreams_trans[OF s1] fresh_ready_cong[OF s1] False
        by (auto simp: svc1_def split: option.splits)
    next
      case EntryError
      then show ?thesis
        using 2(3) False out s1 by (auto simp: svc1_def)
    next
      case (EntryReady handshake)
      define svc2 where "svc2 = push_ready peer direction handshake svc1"
      obtain sent2 where r: "poll_entries io now entries svc2 = (event, sent2, svc')"
        using 2(3) False out EntryReady by (auto simp: svc1_def svc2_def split: prod.splits)
      have s2: "same_substreams svc svc2"
        using s1 same_substreams_push same_substreams_trans unfolding svc2_def by blast
      have pre: "\<forall>(k, e) \<in> set entries. hs_substream_of k svc2 = Some (fst e)"
        using 2(4) s2 by (auto simp: same_substreams_def)
      note ih = 2(2)[OF False out[symmetric] refl refl svc1_def EntryReady r[unfolded svc2_def] pre[unfolded svc2_def], folded svc2_def]
      have now: "reads_now io substream direction handshake"
        using poll_entry_ready[OF out[unfolded EntryReady]] by (simp add: reads_now_def)
      show ?thesis
        using ih same_substreams_trans[OF s2] fresh_ready_cong[OF s2] False sub now
        by (auto simp: svc1_def svc2_def split: option.splits)
    qed
  qed
qed

lemma pop_ready_spec:
  assumes "pop_ready ready svc = (event, svc')"
  shows "case event of
      None \<Rightarrow> svc' = svc\<lparr>hs_ready := []\<rparr>
    | Some (peer, ev) \<Rightarrow> \<exists>handshake substream direction before after.
        ev = Negotiated peer handshake substream direction
        \<and> hs_substream_of (peer, direction) svc = Some substream
        \<and> ready = before @ (peer, direction, handshake) # after
        \<and> svc' = svc\<lparr>hs_substreams := hm_remove (peer, direction) (hs_substreams svc), hs_ready := after\<rparr>"
  using assms
proof (induction ready svc arbitrary: event svc' rule: pop_ready.induct)
  case (1 svc)
  then show ?case by auto
next
  case (2 peer direction handshake ready svc)
  show ?case
  proof (cases "hm_get (hs_substreams svc) (peer, direction)")
    case None
    note ih = 2(1)[OF None, of event svc']
    have "pop_ready ready svc = (event, svc')"
      using 2(2) None by simp
    from ih[OF this] show ?thesis
      by (fastforce split: option.splits intro: exI[of _ "(peer, direction, handshake) # _"])
  next
    case (Some e)
    then show ?thesis
      using 2(2) by (cases e) (fastforce simp: hs_substream_of_def)
  qed
qed

text \<open>
  What a call of \<open>poll_next\<close> leaves of the tracked substreams: \<open>Negotiated\<close> hands out the substream
  that is tracked for the peer and the direction and stops tracking it, a \<open>NegotiationError\<close> names a
  tracked substream and leaves it in place.
\<close>

definition hs_after :: "handshake_service \<Rightarrow> (peer_id \<times> handshake_event) poll \<Rightarrow> handshake_service \<Rightarrow> bool" where
  "hs_after svc answer svc' \<longleftrightarrow>
     (case answer of
        Pending \<Rightarrow> hm_keys (hs_substreams svc') = hm_keys (hs_substreams svc)
      | Ready (peer, Negotiated peer' handshake substream direction) \<Rightarrow>
          peer' = peer \<and> hs_substream_of (peer, direction) svc = Some substream
          \<and> hm_keys (hs_substreams svc') = hm_keys (hs_substreams svc) - {(peer, direction)}
      | Ready (peer, NegotiationError peer' direction) \<Rightarrow>
          peer' = peer \<and> (peer, direction) \<in> hm_keys (hs_substreams svc)
          \<and> hm_keys (hs_substreams svc') = hm_keys (hs_substreams svc))"

lemma hs_entries_tracked:
  assumes "iteration_order order" and "hm_ok (hs_substreams svc)"
  shows "\<forall>(k, e) \<in> set (order (hs_substreams svc)). hs_substream_of k svc = Some (fst e)"
proof -
  have "set (order (hs_substreams svc)) = set (hs_substreams svc)"
    using assms(1) by (metis iteration_order_def set_mset_mset)
  then show ?thesis
    using assms(2) by (fastforce simp: hs_substream_of_def hm_get_in_set)
qed

lemma hs_substream_of_ready [simp]: "hs_substream_of k (svc\<lparr>hs_ready := r\<rparr>) = hs_substream_of k svc"
  by (simp add: hs_substream_of_def)

text \<open>One round over all tracked substreams, started with an empty queue.\<close>

lemma hs_round_spec:
  assumes order: "iteration_order order" and ok: "hm_ok (hs_substreams svc)"
    and run: "poll_entries io now (order (hs_substreams svc)) (svc\<lparr>hs_ready := []\<rparr>) = (event, sent, svc')"
  shows "hm_keys (hs_substreams svc') = hm_keys (hs_substreams svc)" (is ?keys)
    and "hm_ok (hs_substreams svc')" (is ?ok)
    and "hs_handshake svc' = hs_handshake svc" (is ?handshake)
    and "\<And>peer ev. event = Some (peer, ev) \<Longrightarrow>
      \<exists>direction. ev = NegotiationError peer direction \<and> (peer, direction) \<in> hm_keys (hs_substreams svc)"
    and "\<And>k substream timer state. event = None \<Longrightarrow>
      hm_get (hs_substreams svc) k = Some (substream, timer, state) \<Longrightarrow> now < timer"
    and "\<And>peer direction handshake ready. hs_ready svc' = (peer, direction, handshake) # ready \<Longrightarrow>
      \<exists>substream timer state. hm_get (hs_substreams svc') (peer, direction) = Some (substream, timer, state)
        \<and> hs_substream_of (peer, direction) svc = Some substream \<and> reads_now io substream direction handshake"
proof -
  have tracked: "\<forall>(k, e) \<in> set (order (hs_substreams svc)). hs_substream_of k (svc\<lparr>hs_ready := []\<rparr>) = Some (fst e)"
    using hs_entries_tracked[OF order ok] by simp
  have set: "set (order (hs_substreams svc)) = set (hs_substreams svc)"
    using order by (metis iteration_order_def set_mset_mset)
  note spec = poll_entries_spec[OF run tracked]
  then have same: "same_substreams (svc\<lparr>hs_ready := []\<rparr>) svc'" by blast
  show ?keys ?ok ?handshake
    using same_substreams_keys[OF same] same ok by (simp_all add: same_substreams_def)
  show "\<exists>direction. ev = NegotiationError peer direction \<and> (peer, direction) \<in> hm_keys (hs_substreams svc)"
    if "event = Some (peer, ev)" for peer ev
    using spec that set by (auto simp: hm_keys_def)
  show "now < timer" if "event = None" "hm_get (hs_substreams svc) k = Some (substream, timer, state)"
    for k substream timer state
    using spec that set map_of_SomeD[OF that(2)] by fastforce
  show "\<exists>substream timer state. hm_get (hs_substreams svc') (peer, direction) = Some (substream, timer, state)
      \<and> hs_substream_of (peer, direction) svc = Some substream \<and> reads_now io substream direction handshake"
    if "hs_ready svc' = (peer, direction, handshake) # ready" for peer direction handshake ready
  proof -
    obtain substream where sub: "hs_substream_of (peer, direction) svc = Some substream"
      "reads_now io substream direction handshake"
    proof -
      have "fresh_ready io (svc\<lparr>hs_ready := []\<rparr>) (hs_ready svc')"
        using spec by auto
      then show ?thesis
        using that(1) unfolding \<open>hs_ready svc' = _\<close> by auto
    qed
    moreover have "hs_substream_of (peer, direction) svc' = Some substream"
      using same sub(1) by (simp add: same_substreams_def)
    ultimately show ?thesis
      by (auto simp: hs_substream_of_def)
  qed
qed

lemma hs_poll_cases:
  assumes order: "iteration_order order" and ok: "hm_ok (hs_substreams svc)"
    and poll: "hs_poll_next order io now svc = (result, sent, svc')"
  obtains (popped) peer handshake substream direction before after where
      "result = Inr (Ready (peer, Negotiated peer handshake substream direction))"
      "hs_substream_of (peer, direction) svc = Some substream"
      "hs_ready svc = before @ (peer, direction, handshake) # after"
      "svc' = svc\<lparr>hs_substreams := hm_remove (peer, direction) (hs_substreams svc), hs_ready := after\<rparr>"
  | (empty) "result = Inr Pending" "hs_substreams svc = []" "svc' = svc\<lparr>hs_ready := []\<rparr>"
  | (failed) peer direction where "result = Inr (Ready (peer, NegotiationError peer direction))"
      "(peer, direction) \<in> hm_keys (hs_substreams svc)"
      "hm_keys (hs_substreams svc') = hm_keys (hs_substreams svc)" "hm_ok (hs_substreams svc')"
      "hs_handshake svc' = hs_handshake svc"
  | (waiting) "result = Inr Pending" "hm_keys (hs_substreams svc') = hm_keys (hs_substreams svc)"
      "hm_ok (hs_substreams svc')" "hs_handshake svc' = hs_handshake svc"
      "\<And>k substream timer state. hm_get (hs_substreams svc) k = Some (substream, timer, state) \<Longrightarrow> now < timer"
  | (finished) peer handshake substream direction where
      "result = Inr (Ready (peer, Negotiated peer handshake substream direction))"
      "hs_substream_of (peer, direction) svc = Some substream" "reads_now io substream direction handshake"
      "hm_keys (hs_substreams svc') = hm_keys (hs_substreams svc) - {(peer, direction)}"
      "hm_ok (hs_substreams svc')" "hs_handshake svc' = hs_handshake svc"
proof (cases "pop_event svc")
  case (Pair found svc1)
  note spec = pop_ready_spec[OF Pair[unfolded pop_event_def]]
  show ?thesis
  proof (cases found)
    case (Some event)
    then show ?thesis
      using poll Pair spec by (cases event) (auto simp: hs_poll_next_def intro!: popped)
  next
    case None
    then have svc1: "svc1 = svc\<lparr>hs_ready := []\<rparr>" using spec by simp
    obtain event sent2 svc2
      where run: "poll_entries io now (order (hs_substreams svc)) (svc\<lparr>hs_ready := []\<rparr>) = (event, sent2, svc2)"
      by (metis prod_cases3)
    note round = hs_round_spec[OF order ok run]
    show ?thesis
    proof (cases "hs_substreams svc = []")
      case True
      then show ?thesis
        using poll Pair None svc1 by (intro empty) (auto simp: hs_poll_next_def)
    next
      case False
      note eq = poll[unfolded hs_poll_next_def] Pair None svc1 run False
      show ?thesis
      proof (cases event)
        case (Some ev)
        then show ?thesis
          using eq round(1-4) failed by (cases ev) fastforce
      next
        case noev: None
        show ?thesis
        proof (cases "hs_ready svc2")
          case Nil
          show ?thesis
            using eq noev Nil round(1,2,3,5) by (intro waiting) auto
        next
          case (Cons r ready)
          obtain peer direction handshake where r: "r = (peer, direction, handshake)"
            by (metis prod_cases3)
          obtain substream timer state
            where sub: "hm_get (hs_substreams svc2) (peer, direction) = Some (substream, timer, state)"
              "hs_substream_of (peer, direction) svc = Some substream" "reads_now io substream direction handshake"
            using round(6)[OF Cons[unfolded r]] by blast
          show ?thesis
            using eq noev Cons r round(1,2,3) sub
            by (intro finished[of peer handshake substream direction]) auto
        qed
      qed
    qed
  qed
qed

lemma hs_poll_next_spec:
  assumes "iteration_order order" and "hm_ok (hs_substreams svc)"
    and "hs_poll_next order io now svc = (result, sent, svc')"
  shows "\<exists>answer. result = Inr answer \<and> hs_after svc answer svc'
    \<and> hm_ok (hs_substreams svc') \<and> hs_handshake svc' = hs_handshake svc"
  using assms(2) by (cases rule: hs_poll_cases[OF assms]) (auto simp: hs_after_def)

subsection \<open>Properties of the handshake service\<close>

text \<open>
  C31: a call of \<open>poll_next\<close> on a handshake service that tracks any set of substreams, in any iteration
  order of its \<open>HashMap\<close>, with any answers of the substreams and whatever its queue of finished
  handshakes holds, does not reach the \<open>expect("peer to exist")\<close>; and when the time of one of the
  tracked substreams is up, the call does not return \<open>Poll::Pending\<close>: an event is reported.
\<close>

theorem handshake_poll_total:
  assumes "iteration_order order" and "hm_ok (hs_substreams svc)"
  shows "\<exists>answer. fst (hs_poll_next order io now svc) = Inr answer
    \<and> ((\<exists>k substream timer state. hm_get (hs_substreams svc) k = Some (substream, timer, state) \<and> timer \<le> now)
         \<longrightarrow> answer \<noteq> Pending)"
proof (cases "hs_poll_next order io now svc")
  case (fields result sent svc')
  show ?thesis
    by (cases rule: hs_poll_cases[OF assms fields]) (use fields in \<open>force dest: leD\<close>)+
qed

text \<open>
  When no finished handshake is queued, a \<open>Negotiated\<close> event of \<open>poll_next\<close> is about the substream
  that is tracked for the peer and the direction, and its handshake is the one that this call read from
  that very substream, or is empty for an inbound substream on which this call flushed the local
  handshake. The substream is no longer tracked afterwards.
\<close>

lemma handshake_read_from_substream:
  assumes "iteration_order order" and "hm_ok (hs_substreams svc)" and "hs_ready svc = []"
    and "hs_poll_next order io now svc
           = (Inr (Ready (peer, Negotiated peer' handshake substream direction)), sent, svc')"
  shows "peer' = peer \<and> hs_substream_of (peer, direction) svc = Some substream
    \<and> (io_next io substream = Ready (Some (Inr handshake))
       \<or> direction = HsInbound \<and> handshake = [] \<and> io_flush io substream = Ready (Inr ()))
    \<and> hs_substream_of (peer, direction) svc' = None"
  by (cases rule: hs_poll_cases[OF assms(1,2,4)])
     (use assms(3) in \<open>auto simp: reads_now_def hs_substream_of_None\<close>)

definition hs_peer :: peer_id where
  "hs_peer = \<lparr>pid_multihash = \<lparr>mh_code = 0, mh_digest = [1]\<rparr>\<rparr>"

definition hs_quiet :: substream_io where
  "hs_quiet = \<lparr>io_ready = \<lambda>_. Pending, io_send = \<lambda>_ _. Inr (), io_flush = \<lambda>_. Pending, io_next = \<lambda>_. Pending\<rparr>"

lemma handshake_poll_total_witness:
  "iteration_order (\<lambda>m. m)
   \<and> hm_ok (hs_substreams (read_handshake 0 hs_peer 7 (handshake_service_new [1, 2])))
   \<and> (\<exists>answer. fst (hs_poll_next (\<lambda>m. m) hs_quiet NEGOTIATION_TIMEOUT
         (read_handshake 0 hs_peer 7 (handshake_service_new [1, 2]))) = Inr answer \<and> answer \<noteq> Pending)"
proof -
  have ok: "hm_ok (hs_substreams (read_handshake 0 hs_peer 7 (handshake_service_new [1, 2])))"
    by (simp add: read_handshake_def handshake_service_new_def hm_ok_def)
  have "\<exists>k substream timer state.
      hm_get (hs_substreams (read_handshake 0 hs_peer 7 (handshake_service_new [1, 2]))) k = Some (substream, timer, state)
      \<and> timer \<le> NEGOTIATION_TIMEOUT"
    by (rule exI[of _ "(hs_peer, HsInbound)"]) (simp add: read_handshake_def handshake_service_new_def)
  then show ?thesis
    using handshake_poll_total[OF iteration_order_id ok, of hs_quiet NEGOTIATION_TIMEOUT] ok iteration_order_id
    by blast
qed

text \<open>
  The queue of finished handshakes outlives the substreams. A peer opens a substream while the
  local node opens one to it; in one call of \<open>poll_next\<close> the handshake \<open>h\<close> of the inbound substream
  \<open>s1\<close> is read and queued, and then the outbound substream \<open>s2\<close> fails, which is the event of the
  call. The protocol stops tracking both. When the peer later opens a new inbound substream \<open>s3\<close>, the
  next call reports \<open>s3\<close> as negotiated with the handshake \<open>h\<close> of the dead substream, whatever \<open>s3\<close> answers:
  the handshake of \<open>s3\<close> itself is never read.
\<close>

lemma stale_handshake_reported:
  assumes "now < t + NEGOTIATION_TIMEOUT"
    and "io_next io s1 = Ready (Some (Inr h))" and "io_ready io s2 = Ready (Inl ())"
  shows "\<exists>svc.
      hs_poll_next (\<lambda>m. m) io now (negotiate_outbound t p s2 (read_handshake t p s1 (handshake_service_new local)))
        = (Inr (Ready (p, NegotiationError p HsOutbound)), [], svc)
      \<and> (\<forall>io' now' t'.
          fst (hs_poll_next (\<lambda>m. m) io' now'
                 (read_handshake t' p s3 (snd (remove_inbound p (snd (remove_outbound p svc))))))
          = Inr (Ready (p, Negotiated p h s3 HsInbound)))"
  using assms
  by (simp add: hs_poll_next_def pop_event_def read_handshake_def negotiate_outbound_def
      handshake_service_new_def store_entry_def push_ready_def remove_inbound_def remove_outbound_def)

end
