(* ===== verification/Notification.thy ===== *)
theory Notification
  imports Notification_Handshake
begin

section \<open>The notification protocol\<close>

text \<open>
  \<open>src/protocol/notification/mod.rs\<close> and \<open>types.rs\<close>: the state machine that opens and closes the
  pair of substreams of a notification stream for every peer.

  \<^item> The state is the record \<open>notification_protocol\<close>. A \<open>PeerContext\<close> has the peer state as its only
    field, so \<open>peers\<close> maps a peer to its \<open>npeer_state\<close>. A \<open>FuturesUnordered\<close> is the list of its
    pending futures: a validation is the identity of its oneshot channel with the peer, a timer is
    the instant at which it elapses with the peer. The identities of oneshot channels come from the
    counter \<open>np_next_channel\<close>.
  \<^item> A handler returns its \<open>Result\<close>, the list of its effects in the order they happen (events reported
    to the user, substreams closed, connections started, calls of the transport service) and the
    new state. The answers of the transport service are the argument \<open>sv\<close>, with the clock.
  \<^item> \<open>mem::replace\<close> leaves \<open>Poisoned\<close> behind, so a branch of the source that assigns no state
    is a branch of the model that stores \<open>Poisoned\<close>. A \<open>debug_assert!\<close> that fails is the effect
    \<open>AssertionFailed\<close>; the model continues like a release build.
\<close>

type_synonym channel = nat

datatype notif_direction = DirInbound | DirOutbound

datatype validation_result = ValAccept | ValReject

datatype notification_error =
    ErrRejected | ErrNoConnection | ErrChannelClogged | ErrValidationPending | ErrDialFailure
  | ErrEssentialTaskClosed

datatype inner_notification_event =
    ValidateSubstream string "string option" peer_id handshake channel
  | StreamOpened string "string option" notif_direction peer_id handshake
  | StreamClosed peer_id
  | StreamOpenFailure peer_id notification_error

datatype notification_command =
    OpenSubstream "peer_id list"
  | CloseSubstream "peer_id list"
  | ForceClose peer_id

datatype conn_state = ConnOpen | ConnClosed

datatype inbound_state =
    InClosed | InReadingHandshake | InValidating substream | InSendingHandshake | InOpen substream

datatype outbound_state =
    OutClosed | OutInitiated substream_id | OutNegotiating | OutOpen handshake substream

fun pending_open :: "outbound_state \<Rightarrow> substream_id option" where
  "pending_open (OutInitiated substream) = Some substream"
| "pending_open _ = None"

datatype npeer_state =
    Poisoned
  | ValidationPending conn_state
  | PeerClosed "substream_id option"
  | PeerDialing
  | OutboundInitiated substream_id
  | Validating string "string option" outbound_state inbound_state notif_direction
  | PeerOpen channel

record notification_protocol =
  np_protocol :: string
  np_auto_accept :: bool
  np_peers :: "(peer_id, npeer_state) hash_map"
  np_pending_outbound :: "(substream_id, peer_id) hash_map"
  np_negotiation :: handshake_service
  np_sync_channel_size :: usize
  np_async_channel_size :: usize
  np_pending_validations :: "(channel \<times> peer_id) list"
  np_timers :: "(nat \<times> peer_id) list"
  np_should_dial :: bool
  np_next_channel :: channel

datatype notif_effect =
    Report inner_notification_event
  | CloseStream substream
  | SendShutdown channel
  | RunConnection channel peer_id substream substream
  | DialCalled peer_id
  | OpenedOutbound peer_id substream_id
  | SentHandshake substream handshake
  | ForceClosed peer_id
  | Unregistered
  | AssertionFailed

datatype np_error = PeerAlreadyExists peer_id | PeerDoesntExist peer_id | DialError | OpenError

text \<open>The answers of the \<open>TransportService\<close> while one event is handled.\<close>

record service_answers =
  sv_now :: nat
  sv_dial :: "peer_id \<Rightarrow> bool"
  sv_open :: "peer_id \<Rightarrow> substream_id option"

type_synonym np_outcome = "(np_error, unit) result \<times> notif_effect list \<times> notification_protocol"

definition notification_protocol_new ::
  "string \<Rightarrow> bool \<Rightarrow> bool \<Rightarrow> usize \<Rightarrow> usize \<Rightarrow> handshake \<Rightarrow> notification_protocol" where
  "notification_protocol_new protocol auto_accept should_dial sync_size async_size handshake =
     \<lparr>np_protocol = protocol, np_auto_accept = auto_accept, np_peers = [], np_pending_outbound = [],
      np_negotiation = handshake_service_new handshake, np_sync_channel_size = sync_size,
      np_async_channel_size = async_size, np_pending_validations = [], np_timers = [],
      np_should_dial = should_dial, np_next_channel = 0\<rparr>"

abbreviation np_state :: "notification_protocol \<Rightarrow> peer_id \<Rightarrow> npeer_state option" where
  "np_state np \<equiv> hm_get (np_peers np)"

abbreviation set_state :: "peer_id \<Rightarrow> npeer_state \<Rightarrow> notification_protocol \<Rightarrow> notification_protocol" where
  "set_state peer state np \<equiv> np\<lparr>np_peers := hm_insert peer state (np_peers np)\<rparr>"

abbreviation forget_peer :: "peer_id \<Rightarrow> notification_protocol \<Rightarrow> notification_protocol" where
  "forget_peer peer np \<equiv> np\<lparr>np_peers := hm_remove peer (np_peers np)\<rparr>"

abbreviation add_pending :: "substream_id \<Rightarrow> peer_id \<Rightarrow> notification_protocol \<Rightarrow> notification_protocol" where
  "add_pending substream peer np \<equiv>
     np\<lparr>np_pending_outbound := hm_insert substream peer (np_pending_outbound np)\<rparr>"

abbreviation drop_pending :: "substream_id \<Rightarrow> notification_protocol \<Rightarrow> notification_protocol" where
  "drop_pending substream np \<equiv> np\<lparr>np_pending_outbound := hm_remove substream (np_pending_outbound np)\<rparr>"

abbreviation on_negotiation ::
  "(handshake_service \<Rightarrow> handshake_service) \<Rightarrow> notification_protocol \<Rightarrow> notification_protocol" where
  "on_negotiation f np \<equiv> np\<lparr>np_negotiation := f (np_negotiation np)\<rparr>"

text \<open>\<open>remove_outbound\<close> and \<open>remove_inbound\<close>, whose results the handlers drop.\<close>

definition drop_negotiation :: "peer_id \<Rightarrow> notification_protocol \<Rightarrow> notification_protocol" where
  "drop_negotiation peer np =
     on_negotiation (\<lambda>svc. snd (remove_inbound peer (snd (remove_outbound peer svc)))) np"

abbreviation open_failure :: "peer_id \<Rightarrow> notification_error \<Rightarrow> notif_effect" where
  "open_failure peer error \<equiv> Report (StreamOpenFailure peer error)"

definition check :: "bool \<Rightarrow> notif_effect list" where
  "check b = (if b then [] else [AssertionFailed])"

subsection \<open>Handlers\<close>

definition on_open_substream :: "service_answers \<Rightarrow> peer_id \<Rightarrow> notification_protocol \<Rightarrow> np_outcome" where
  "on_open_substream sv peer np =
     (case np_state np peer of
        None \<Rightarrow>
          if \<not> np_should_dial np then (Inr (), [open_failure peer ErrDialFailure], np)
          else if \<not> sv_dial sv peer then
            (Inl DialError, [DialCalled peer, open_failure peer ErrDialFailure], np)
          else (Inr (), [DialCalled peer], set_state peer PeerDialing np)
      | Some (PeerClosed (Some substream)) \<Rightarrow>
          (Inr (), [], set_state peer (OutboundInitiated substream) (add_pending substream peer np))
      | Some (PeerClosed None) \<Rightarrow>
          (case sv_open sv peer of
             Some substream \<Rightarrow>
               (Inr (), [OpenedOutbound peer substream],
                set_state peer (OutboundInitiated substream) (add_pending substream peer np))
           | None \<Rightarrow>
               (Inr (), [open_failure peer ErrNoConnection], set_state peer (PeerClosed None) np))
      | Some (ValidationPending _) \<Rightarrow> (Inr (), [open_failure peer ErrValidationPending], np)
      | Some _ \<Rightarrow> (Inr (), [], np))"

definition np_on_connection_established ::
  "service_answers \<Rightarrow> peer_id \<Rightarrow> notification_protocol \<Rightarrow> np_outcome" where
  "np_on_connection_established sv peer np =
     (case np_state np peer of
        None \<Rightarrow> (Inr (), [], set_state peer (PeerClosed None) np)
      | Some PeerDialing \<Rightarrow> on_open_substream sv peer (set_state peer (PeerClosed None) np)
      | Some (ValidationPending state) \<Rightarrow>
          (Inr (), check (state = ConnClosed), set_state peer (ValidationPending ConnOpen) np)
      | Some _ \<Rightarrow> (Inl (PeerAlreadyExists peer), [AssertionFailed], set_state peer Poisoned np))"

definition np_on_connection_closed :: "peer_id \<Rightarrow> notification_protocol \<Rightarrow> np_outcome" where
  "np_on_connection_closed peer np0 =
     (let np = np0\<lparr>np_pending_outbound := filter (\<lambda>(_, p). p \<noteq> peer) (np_pending_outbound np0)\<rparr>
      in case np_state np peer of
           None \<Rightarrow> (Inl (PeerDoesntExist peer), [AssertionFailed], np)
         | Some state \<Rightarrow>
             (let np1 = drop_negotiation peer (forget_peer peer np)
              in case state of
                   OutboundInitiated _ \<Rightarrow> (Inr (), [open_failure peer ErrRejected], np1)
                 | PeerOpen shutdown \<Rightarrow> (Inr (), [SendShutdown shutdown], np1)
                 | Validating _ _ outbound inbound _ \<Rightarrow>
                     (case (outbound, inbound) of
                        (OutClosed, InValidating _) \<Rightarrow>
                          (Inr (), [], set_state peer (ValidationPending ConnClosed) np1)
                      | (OutInitiated _, _) \<Rightarrow> (Inr (), [open_failure peer ErrRejected], np1)
                      | (OutNegotiating, _) \<Rightarrow> (Inr (), [open_failure peer ErrRejected], np1)
                      | (OutOpen _ _, _) \<Rightarrow> (Inr (), [open_failure peer ErrRejected], np1)
                      | (_, _) \<Rightarrow> (Inr (), [], np1))
                 | ValidationPending _ \<Rightarrow> (Inr (), [], set_state peer (ValidationPending ConnClosed) np1)
                 | _ \<Rightarrow> (Inr (), [], np1)))"

definition on_outbound_substream ::
  "service_answers \<Rightarrow> string \<Rightarrow> string option \<Rightarrow> peer_id \<Rightarrow> substream_id \<Rightarrow> substream
   \<Rightarrow> notification_protocol \<Rightarrow> np_outcome" where
  "on_outbound_substream sv protocol fallback peer substream_id outbound np0 =
     (case np_state np0 peer of
        None \<Rightarrow> (Inl (PeerDoesntExist peer), [AssertionFailed], np0)
      | Some state \<Rightarrow>
          (let pending_peer = hm_get (np_pending_outbound np0) substream_id;
               np = drop_pending substream_id np0;
               negotiating = on_negotiation (negotiate_outbound (sv_now sv) peer outbound)
           in case state of
                OutboundInitiated substream \<Rightarrow>
                  (Inr (), check (substream = substream_id) @ check (pending_peer = Some peer),
                   set_state peer (Validating protocol fallback OutNegotiating InClosed DirOutbound) (negotiating np))
              | Validating protocol' fallback' outbound_state inbound direction \<Rightarrow>
                  (case inbound of
                     InSendingHandshake \<Rightarrow>
                       (Inr (), [],
                        set_state peer (Validating protocol' fallback' OutNegotiating inbound direction) (negotiating np))
                   | InOpen _ \<Rightarrow>
                       (Inr (), [],
                        set_state peer (Validating protocol' fallback' OutNegotiating inbound direction) (negotiating np))
                   | _ \<Rightarrow>
                       (case outbound_state of
                          OutInitiated substream \<Rightarrow>
                            (Inr (), check (substream = substream_id),
                             set_state peer (Validating protocol' fallback' OutNegotiating inbound direction)
                               (negotiating np))
                        | _ \<Rightarrow> (Inr (), [CloseStream outbound, AssertionFailed], set_state peer Poisoned np)))
              | PeerClosed pending \<Rightarrow>
                  if pending = Some substream_id
                  then (Inr (), [CloseStream outbound], set_state peer (PeerClosed None) np)
                  else (Inr (), [CloseStream outbound, AssertionFailed], set_state peer Poisoned np)
              | _ \<Rightarrow> (Inr (), [CloseStream outbound, AssertionFailed], set_state peer Poisoned np)))"

definition on_inbound_substream ::
  "service_answers \<Rightarrow> string \<Rightarrow> string option \<Rightarrow> peer_id \<Rightarrow> substream \<Rightarrow> notification_protocol \<Rightarrow> np_outcome" where
  "on_inbound_substream sv protocol fallback peer substream np =
     (let reading = on_negotiation (read_handshake (sv_now sv) peer substream)
      in case np_state np peer of
           None \<Rightarrow> (Inl (PeerDoesntExist peer), [AssertionFailed], np)
         | Some (ValidationPending state) \<Rightarrow> (Inr (), [CloseStream substream], np)
         | Some (PeerClosed (Some substream_id)) \<Rightarrow> (Inr (), [CloseStream substream], np)
         | Some (PeerClosed None) \<Rightarrow>
             (Inr (), [],
              set_state peer (Validating protocol fallback OutClosed InReadingHandshake DirInbound) (reading np))
         | Some (Validating protocol' fallback' outbound InClosed direction) \<Rightarrow>
             (Inr (), [],
              set_state peer (Validating protocol' fallback' outbound InReadingHandshake direction) (reading np))
         | Some (OutboundInitiated outbound) \<Rightarrow>
             (Inr (), [],
              set_state peer (Validating protocol fallback (OutInitiated outbound) InReadingHandshake DirOutbound)
                (reading np))
         | Some (Validating _ _ OutClosed (InValidating pending_substream) _) \<Rightarrow>
             (Inr (), [CloseStream substream, CloseStream pending_substream],
              set_state peer (ValidationPending ConnOpen) np)
         | Some state \<Rightarrow> (Inr (), [CloseStream substream], np))"

definition on_substream_open_failure :: "substream_id \<Rightarrow> notification_protocol \<Rightarrow> np_outcome" where
  "on_substream_open_failure substream_id np0 =
     (case hm_get (np_pending_outbound np0) substream_id of
        None \<Rightarrow> (Inr (), [AssertionFailed], np0)
      | Some peer \<Rightarrow>
          (let np = drop_pending substream_id np0
           in case np_state np peer of
                None \<Rightarrow> (Inr (), [AssertionFailed], np)
              | Some (OutboundInitiated _) \<Rightarrow>
                  (Inr (), [open_failure peer ErrRejected], set_state peer (PeerClosed None) np)
              | Some (Validating _ _ outbound _ _) \<Rightarrow>
                  (let np1 = drop_negotiation peer np
                   in case outbound of
                        OutClosed \<Rightarrow> (Inr (), [], set_state peer (PeerClosed None) np1)
                      | OutInitiated substream \<Rightarrow>
                          (Inr (), [open_failure peer ErrRejected],
                           set_state peer (PeerClosed (Some substream)) np1)
                      | OutNegotiating \<Rightarrow>
                          (Inr (), [open_failure peer ErrRejected], set_state peer (PeerClosed None) np1)
                      | OutOpen _ _ \<Rightarrow>
                          (Inr (), [open_failure peer ErrRejected], set_state peer (PeerClosed None) np1))
              | Some (PeerClosed pending) \<Rightarrow>
                  (Inr (), check (pending = Some substream_id), set_state peer (PeerClosed None) np)
              | Some _ \<Rightarrow> (Inr (), [AssertionFailed], set_state peer (PeerClosed None) np)))"

definition on_close_substream :: "peer_id \<Rightarrow> notification_protocol \<Rightarrow> np_outcome" where
  "on_close_substream peer np =
     (case np_state np peer of
        Some (PeerOpen shutdown) \<Rightarrow> (Inr (), [SendShutdown shutdown], set_state peer (PeerClosed None) np)
      | _ \<Rightarrow> (Inr (), [], np))"

definition on_validation_result ::
  "service_answers \<Rightarrow> peer_id \<Rightarrow> validation_result \<Rightarrow> notification_protocol \<Rightarrow> np_outcome" where
  "on_validation_result sv peer result np =
     (case np_state np peer of
        None \<Rightarrow> (Inl (PeerDoesntExist peer), [], np)
      | Some (Validating protocol fallback outbound (InValidating inbound) direction) \<Rightarrow>
          (case result of
             ValReject \<Rightarrow>
               (Inr (), [CloseStream inbound],
                set_state peer (PeerClosed (pending_open outbound)) (drop_negotiation peer np))
           | ValAccept \<Rightarrow>
               (case outbound of
                  OutClosed \<Rightarrow>
                    (case sv_open sv peer of
                       Some substream \<Rightarrow>
                         (Inr (), [OpenedOutbound peer substream],
                          set_state peer
                            (Validating protocol fallback (OutInitiated substream) InSendingHandshake direction)
                            (add_pending substream peer
                               (on_negotiation (send_handshake (sv_now sv) peer inbound) np)))
                     | None \<Rightarrow>
                         (Inl OpenError, [CloseStream inbound, open_failure peer ErrRejected],
                          set_state peer (PeerClosed None) np))
                | _ \<Rightarrow>
                    (Inr (), [],
                     set_state peer (Validating protocol fallback outbound InSendingHandshake direction)
                       (on_negotiation (send_handshake (sv_now sv) peer inbound) np))))
      | Some (ValidationPending state) \<Rightarrow>
          (case state of
             ConnOpen \<Rightarrow>
               (Inr (), (if result = ValAccept then [open_failure peer ErrRejected] else []),
                set_state peer (PeerClosed None) np)
           | ConnClosed \<Rightarrow>
               (Inr (), (if result = ValAccept then [open_failure peer ErrNoConnection] else []),
                forget_peer peer np))
      | Some state \<Rightarrow> (Inr (), [], np))"

text \<open>The end of \<open>on_handshake_event\<close>: the stream is open when both substreams are, else a timer starts.\<close>

definition finish_handshake :: "service_answers \<Rightarrow> peer_id \<Rightarrow> notification_protocol \<Rightarrow> np_outcome" where
  "finish_handshake sv peer np =
     (case np_state np peer of
        Some (Validating protocol fallback (OutOpen handshake outbound) (InOpen inbound) direction) \<Rightarrow>
          (Inr (),
           [Report (StreamOpened protocol fallback direction peer handshake),
            RunConnection (np_next_channel np) peer inbound outbound],
           set_state peer (PeerOpen (np_next_channel np)) (np\<lparr>np_next_channel := Suc (np_next_channel np)\<rparr>))
      | _ \<Rightarrow> (Inr (), [], np\<lparr>np_timers := np_timers np @ [(sv_now sv + 5 * 1000000000, peer)]\<rparr>))"

definition after_effects :: "notif_effect list \<Rightarrow> np_outcome \<Rightarrow> np_outcome" where
  "after_effects effects outcome = (let (result, effects', np) = outcome in (result, effects @ effects', np))"

definition on_handshake_event ::
  "service_answers \<Rightarrow> peer_id \<Rightarrow> handshake_event \<Rightarrow> notification_protocol \<Rightarrow> np_outcome" where
  "on_handshake_event sv peer event np0 =
     (case np_state np0 peer of
        None \<Rightarrow> (Inr (), [AssertionFailed], np0)
      | Some state \<Rightarrow>
          (case event of
             Negotiated peer' handshake substream HsOutbound \<Rightarrow>
               (let np = on_negotiation (\<lambda>svc. snd (remove_outbound peer' svc)) np0
                in case state of
                     Validating protocol fallback OutNegotiating inbound direction \<Rightarrow>
                       finish_handshake sv peer
                         (set_state peer (Validating protocol fallback (OutOpen handshake substream) inbound direction) np)
                   | _ \<Rightarrow>
                       after_effects [AssertionFailed] (finish_handshake sv peer (set_state peer Poisoned np)))
           | Negotiated peer' handshake substream HsInbound \<Rightarrow>
               (let np = on_negotiation (\<lambda>svc. snd (remove_inbound peer' svc)) np0
                in case state of
                     Validating protocol fallback outbound InReadingHandshake direction \<Rightarrow>
                       if outbound \<noteq> OutClosed \<and> np_auto_accept np then
                         (Inr (), [],
                          set_state peer (Validating protocol fallback outbound InSendingHandshake direction)
                            (on_negotiation (send_handshake (sv_now sv) peer' substream) np))
                       else
                         (let tx = np_next_channel np;
                              np1 = set_state peer
                                      (Validating protocol fallback outbound (InValidating substream) direction) np;
                              np2 = np1\<lparr>np_pending_validations := np_pending_validations np1 @ [(tx, peer')],
                                        np_next_channel := Suc tx\<rparr>
                          in after_effects [Report (ValidateSubstream protocol fallback peer' handshake tx)]
                               (finish_handshake sv peer np2))
                   | Validating protocol fallback outbound InSendingHandshake direction \<Rightarrow>
                       finish_handshake sv peer
                         (set_state peer (Validating protocol fallback outbound (InOpen substream) direction) np)
                   | _ \<Rightarrow>
                       after_effects [AssertionFailed] (finish_handshake sv peer (set_state peer Poisoned np)))
           | NegotiationError peer' direction \<Rightarrow>
               (let np = drop_negotiation peer' np0
                in case state of
                     Validating _ _ outbound _ _ \<Rightarrow>
                       (let np1 = set_state peer (PeerClosed (pending_open outbound)) np
                        in if outbound \<noteq> OutClosed then (Inr (), [open_failure peer' ErrRejected], np1)
                           else finish_handshake sv peer np1)
                   | _ \<Rightarrow>
                       after_effects [AssertionFailed] (finish_handshake sv peer (set_state peer Poisoned np)))))"

definition np_on_dial_failure :: "peer_id \<Rightarrow> notification_protocol \<Rightarrow> np_outcome" where
  "np_on_dial_failure peer np =
     (case np_state np peer of
        Some PeerDialing \<Rightarrow> (Inr (), [open_failure peer ErrDialFailure], forget_peer peer np)
      | _ \<Rightarrow> (Inr (), [], np))"

subsection \<open>The event loop\<close>

text \<open>
  What a branch of the \<open>select!\<close> yields. A future of a \<open>FuturesUnordered\<close> is named by its position in
  the list.
\<close>

datatype np_input =
    OfNegotiation peer_id handshake_event
  | OfShutdown "peer_id option"
  | OfTimer nat
  | OfService "service_event option"
  | OfValidation nat validation_result
  | OfCommand "notification_command option"

definition on_shutdown :: "peer_id \<Rightarrow> notification_protocol \<Rightarrow> np_outcome" where
  "on_shutdown peer np =
     (case np_state np peer of
        Some _ \<Rightarrow> (Inr (), [], set_state peer (PeerClosed None) np)
      | None \<Rightarrow> (Inr (), [], np))"

definition on_timer :: "peer_id \<Rightarrow> notification_protocol \<Rightarrow> np_outcome" where
  "on_timer peer np =
     (case np_state np peer of
        Some (Validating _ _ (OutOpen _ outbound) InClosed _) \<Rightarrow>
          (Inr (), [CloseStream outbound, open_failure peer ErrRejected, ForceClosed peer],
           set_state peer (PeerClosed None) np)
      | _ \<Rightarrow> (Inr (), [], np))"

definition on_transport_event ::
  "service_answers \<Rightarrow> service_event \<Rightarrow> notification_protocol \<Rightarrow> np_outcome" where
  "on_transport_event sv event np =
     (case event of
        TeConnectionEstablished peer \<Rightarrow> np_on_connection_established sv peer np
      | TeConnectionClosed peer \<Rightarrow> np_on_connection_closed peer np
      | TeInbound peer protocol fallback substream \<Rightarrow> on_inbound_substream sv protocol fallback peer substream np
      | TeOutbound peer protocol fallback substream_id substream \<Rightarrow>
          on_outbound_substream sv protocol fallback peer substream_id substream np
      | TeSubstreamOpenFailure substream _ \<Rightarrow> on_substream_open_failure substream np
      | TeDialFailure peer \<Rightarrow> np_on_dial_failure peer np)"

fun for_peers ::
  "(peer_id \<Rightarrow> notification_protocol \<Rightarrow> np_outcome) \<Rightarrow> peer_id list \<Rightarrow> notification_protocol
   \<Rightarrow> notif_effect list \<times> notification_protocol" where
  "for_peers f [] np = ([], np)"
| "for_peers f (peer # peers) np =
     (let (_, effects, np1) = f peer np; (effects', np2) = for_peers f peers np1
      in (effects @ effects', np2))"

definition on_command ::
  "service_answers \<Rightarrow> notification_command \<Rightarrow> notification_protocol \<Rightarrow> notif_effect list \<times> notification_protocol" where
  "on_command sv command np =
     (case command of
        OpenSubstream peers \<Rightarrow> for_peers (on_open_substream sv) peers np
      | CloseSubstream peers \<Rightarrow> for_peers on_close_substream peers np
      | ForceClose peer \<Rightarrow> ([ForceClosed peer], np))"

text \<open>The branches of the \<open>select!\<close>: whether the loop ends, the effects and the new state.\<close>

definition handle_input ::
  "service_answers \<Rightarrow> np_input \<Rightarrow> notification_protocol \<Rightarrow> bool \<times> notif_effect list \<times> notification_protocol" where
  "handle_input sv input np =
     (case input of
        OfNegotiation peer event \<Rightarrow> (False, snd (on_handshake_event sv peer event np))
      | OfShutdown None \<Rightarrow> (False, [], np)
      | OfShutdown (Some peer) \<Rightarrow> (False, snd (on_shutdown peer np))
      | OfTimer i \<Rightarrow>
          if i < length (np_timers np)
          then (False, snd (on_timer (snd (np_timers np ! i)) (np\<lparr>np_timers := remove_nth i (np_timers np)\<rparr>)))
          else (False, [], np)
      | OfService None \<Rightarrow> (True, [], np)
      | OfService (Some event) \<Rightarrow> (False, snd (on_transport_event sv event np))
      | OfValidation i result \<Rightarrow>
          if i < length (np_pending_validations np)
          then (False, snd (on_validation_result sv (snd (np_pending_validations np ! i)) result
                  (np\<lparr>np_pending_validations := remove_nth i (np_pending_validations np)\<rparr>)))
          else (False, [], np)
      | OfCommand None \<Rightarrow> (True, [Unregistered], np)
      | OfCommand (Some command) \<Rightarrow> (False, on_command sv command np))"

record np_offers =
  of_io :: substream_io
  of_order :: "(hs_key, hs_entry) hash_map \<Rightarrow> (hs_key, hs_entry) hash_map"
  of_shutdown :: "peer_id option poll"
  of_timer :: "nat poll"
  of_service :: "service_event option poll"
  of_validation :: "(nat \<times> validation_result) poll"
  of_command :: "notification_command option poll"

text \<open>The branches below \<open>negotiation\<close>, in the order of the biased \<open>select!\<close> with their preconditions.\<close>

definition select_input :: "np_offers \<Rightarrow> notification_protocol \<Rightarrow> np_input poll" where
  "select_input offers np =
     (case of_shutdown offers of
        Ready peer \<Rightarrow> Ready (OfShutdown peer)
      | Pending \<Rightarrow>
     (case (if np_timers np = [] then Pending else of_timer offers) of
        Ready i \<Rightarrow> Ready (OfTimer i)
      | Pending \<Rightarrow>
     (case of_service offers of
        Ready event \<Rightarrow> Ready (OfService event)
      | Pending \<Rightarrow>
     (case (if np_pending_validations np = [] then Pending else of_validation offers) of
        Ready (i, result) \<Rightarrow> Ready (OfValidation i result)
      | Pending \<Rightarrow>
     (case of_command offers of
        Ready command \<Rightarrow> Ready (OfCommand command)
      | Pending \<Rightarrow> Pending)))))"

definition poll_sources ::
  "nat \<Rightarrow> np_offers \<Rightarrow> notification_protocol
   \<Rightarrow> (panic, np_input poll) result \<times> notif_effect list \<times> notification_protocol" where
  "poll_sources now offers np =
     (let (polled, sent, svc) =
            (if hs_is_empty (np_negotiation np) then (Inr Pending, [], np_negotiation np)
             else hs_poll_next (of_order offers) (of_io offers) now (np_negotiation np));
          np1 = np\<lparr>np_negotiation := svc\<rparr>;
          effects = map (\<lambda>(substream, handshake). SentHandshake substream handshake) sent
      in case polled of
           Inl panic \<Rightarrow> (Inl panic, effects, np1)
         | Inr (Ready (peer, event)) \<Rightarrow> (Inr (Ready (OfNegotiation peer event)), effects, np1)
         | Inr Pending \<Rightarrow> (Inr (select_input offers np1), effects, np1))"

definition next_event ::
  "service_answers \<Rightarrow> np_offers \<Rightarrow> notification_protocol
   \<Rightarrow> (panic, bool poll) result \<times> notif_effect list \<times> notification_protocol" where
  "next_event sv offers np =
     (case poll_sources (sv_now sv) offers np of
        (Inl panic, effects, np1) \<Rightarrow> (Inl panic, effects, np1)
      | (Inr Pending, effects, np1) \<Rightarrow> (Inr Pending, effects, np1)
      | (Inr (Ready input), effects, np1) \<Rightarrow>
          (let (stop, effects', np2) = handle_input sv input np1
           in (Inr (Ready stop), effects @ effects', np2)))"

end
