(* ===== verification/Notification_Safety.thy ===== *)
theory Notification_Safety
  imports Notification
begin

section \<open>Safety of the notification protocol\<close>

text \<open>
  The invariant of the notification protocol and its preservation by every handler, under the contract
  of the transport service: connection events alternate, a substream event is for a connected peer, and
  an outbound substream that was initiated is answered at most once, by an opened substream or a
  failure, while its connection lasts. The contract is stated over \<open>service_env\<close>: the connected peers, the
  initiated substreams that are not answered yet, and the identifiers given out so far.
\<close>

fun pend :: "npeer_state \<Rightarrow> substream_id option" where
  "pend (PeerClosed pending) = pending"
| "pend (OutboundInitiated substream) = Some substream"
| "pend (Validating _ _ outbound _ _) = pending_open outbound"
| "pend _ = None"

fun tracked :: "npeer_state \<Rightarrow> hs_direction \<Rightarrow> bool" where
  "tracked (Validating _ _ outbound _ _) HsOutbound \<longleftrightarrow> outbound = OutNegotiating"
| "tracked (Validating _ _ _ inbound _) HsInbound \<longleftrightarrow> inbound = InReadingHandshake \<or> inbound = InSendingHandshake"
| "tracked _ _ \<longleftrightarrow> False"

definition is_connected :: "npeer_state \<Rightarrow> bool" where
  "is_connected s \<longleftrightarrow> s \<noteq> PeerDialing \<and> s \<noteq> ValidationPending ConnClosed"

definition owed :: "npeer_state option \<Rightarrow> substream_id option" where
  "owed so = Option.bind so pend"

definition tracked_keys :: "notification_protocol \<Rightarrow> hs_key set" where
  "tracked_keys np = {(p, d). \<exists>s. np_state np p = Some s \<and> tracked s d}"

definition np_core :: "notification_protocol \<Rightarrow> service_env \<Rightarrow> bool" where
  "np_core np env \<longleftrightarrow>
     hm_ok (np_peers np) \<and> hm_ok (np_pending_outbound np) \<and> hm_ok (hs_substreams (np_negotiation np))
     \<and> (\<forall>p. np_state np p \<noteq> Some Poisoned)
     \<and> (\<forall>sid p. hm_get (np_pending_outbound np) sid = Some p \<longrightarrow> owed (np_state np p) = Some sid)
     \<and> (\<forall>sid p. se_outstanding env sid = Some p \<longrightarrow> hm_get (np_pending_outbound np) sid = Some p)
     \<and> (\<forall>p. p \<in> se_connected env \<longleftrightarrow> (\<exists>s. np_state np p = Some s \<and> is_connected s))
     \<and> (\<forall>p sid. owed (np_state np p) = Some sid \<longrightarrow> sid \<in> se_used env)
     \<and> (\<forall>p q sid. owed (np_state np p) = Some sid \<longrightarrow> owed (np_state np q) = Some sid \<longrightarrow> p = q)"

definition np_inv :: "notification_protocol \<Rightarrow> service_env \<Rightarrow> bool" where
  "np_inv np env \<longleftrightarrow> np_core np env \<and> hm_keys (hs_substreams (np_negotiation np)) = tracked_keys np"

lemma owed_simps [simp]: "owed None = None" "owed (Some s) = pend s"
  by (simp_all add: owed_def)

lemma core_peers: "np_core np env \<Longrightarrow> hm_ok (np_peers np)"
  and core_pending_ok: "np_core np env \<Longrightarrow> hm_ok (np_pending_outbound np)"
  and core_substreams: "np_core np env \<Longrightarrow> hm_ok (hs_substreams (np_negotiation np))"
  and core_live: "np_core np env \<Longrightarrow> np_state np p \<noteq> Some Poisoned"
  and core_pending: "np_core np env \<Longrightarrow> hm_get (np_pending_outbound np) sid = Some p \<Longrightarrow> owed (np_state np p) = Some sid"
  and core_outstanding:
    "np_core np env \<Longrightarrow> se_outstanding env sid = Some p \<Longrightarrow> hm_get (np_pending_outbound np) sid = Some p"
  and core_connected: "np_core np env \<Longrightarrow> p \<in> se_connected env \<longleftrightarrow> (\<exists>s. np_state np p = Some s \<and> is_connected s)"
  and core_used: "np_core np env \<Longrightarrow> owed (np_state np p) = Some sid \<Longrightarrow> sid \<in> se_used env"
  and core_unique: "np_core np env \<Longrightarrow> owed (np_state np p) = Some sid \<Longrightarrow> owed (np_state np q) = Some sid \<Longrightarrow> p = q"
  unfolding np_core_def by blast+

lemma core_update:
  assumes core: "np_core np env"
    and st: "np_state np' = (np_state np)(p := so)"
    and ok: "hm_ok (np_peers np')" "hm_ok (np_pending_outbound np')" "hm_ok (hs_substreams (np_negotiation np'))"
    and live: "so \<noteq> Some Poisoned"
    and pen: "\<And>sid q. hm_get (np_pending_outbound np') sid = Some q \<Longrightarrow>
      (hm_get (np_pending_outbound np) sid = Some q \<and> q \<noteq> p) \<or> (q = p \<and> owed so = Some sid)"
    and out: "\<And>sid q. se_outstanding env' sid = Some q \<Longrightarrow> hm_get (np_pending_outbound np') sid = Some q"
    and con: "\<And>q. q \<in> se_connected env' \<longleftrightarrow>
      (if q = p then (\<exists>s. so = Some s \<and> is_connected s) else q \<in> se_connected env)"
    and used: "se_used env \<subseteq> se_used env'"
    and own: "\<And>sid. owed so = Some sid \<Longrightarrow>
      sid \<in> se_used env' \<and> (owed (np_state np p) = Some sid \<or> sid \<notin> se_used env)"
  shows "np_core np' env'"
  unfolding np_core_def
proof (intro conjI allI impI)
  show "np_state np' q \<noteq> Some Poisoned" for q
    using core_live[OF core] live by (simp add: st)
  show "owed (np_state np' q) = Some sid" if "hm_get (np_pending_outbound np') sid = Some q" for sid q
    using pen[OF that] core_pending[OF core] by (auto simp: st)
  show "q \<in> se_connected env' \<longleftrightarrow> (\<exists>s. np_state np' q = Some s \<and> is_connected s)" for q
    using con[of q] core_connected[OF core, of q] by (simp add: st)
  show "sid \<in> se_used env'" if "owed (np_state np' q) = Some sid" for q sid
    using that own[of sid] core_used[OF core, of q sid] used by (cases "q = p") (auto simp: st)
  show "q = r" if "owed (np_state np' q) = Some sid" "owed (np_state np' r) = Some sid" for q r sid
    using that own[of sid] core_unique[OF core, of q sid r] core_unique[OF core, of p sid r]
      core_unique[OF core, of q sid p] core_used[OF core, of q sid] core_used[OF core, of r sid]
    by (cases "q = p"; cases "r = p") (auto simp: st)
qed (use ok out in auto)

lemma inv_update:
  assumes inv: "np_inv np env"
    and st: "np_state np' = (np_state np)(p := so)"
    and ok: "hm_ok (np_peers np')" "hm_ok (np_pending_outbound np')" "hm_ok (hs_substreams (np_negotiation np'))"
    and live: "so \<noteq> Some Poisoned"
    and pen: "\<And>sid q. hm_get (np_pending_outbound np') sid = Some q \<Longrightarrow>
      (hm_get (np_pending_outbound np) sid = Some q \<and> q \<noteq> p) \<or> (q = p \<and> owed so = Some sid)"
    and out: "\<And>sid q. se_outstanding env' sid = Some q \<Longrightarrow> hm_get (np_pending_outbound np') sid = Some q"
    and con: "\<And>q. q \<in> se_connected env' \<longleftrightarrow>
      (if q = p then (\<exists>s. so = Some s \<and> is_connected s) else q \<in> se_connected env)"
    and used: "se_used env \<subseteq> se_used env'"
    and own: "\<And>sid. owed so = Some sid \<Longrightarrow>
      sid \<in> se_used env' \<and> (owed (np_state np p) = Some sid \<or> sid \<notin> se_used env)"
    and keys: "\<And>q d. (q, d) \<in> hm_keys (hs_substreams (np_negotiation np')) \<longleftrightarrow>
      (if q = p then (\<exists>s. so = Some s \<and> tracked s d) else (q, d) \<in> hm_keys (hs_substreams (np_negotiation np)))"
  shows "np_inv np' env'"
  unfolding np_inv_def
proof (intro conjI)
  show "np_core np' env'"
    using inv by (intro core_update[OF _ st ok live pen out con used own]) (simp_all add: np_inv_def)
  have old: "(q, d) \<in> hm_keys (hs_substreams (np_negotiation np)) \<longleftrightarrow> (\<exists>s. np_state np q = Some s \<and> tracked s d)" for q d
    using inv by (simp add: np_inv_def tracked_keys_def)
  show "hm_keys (hs_substreams (np_negotiation np')) = tracked_keys np'"
  proof (rule set_eqI)
    fix k :: hs_key
    obtain q d where "k = (q, d)" by (cases k)
    then show "k \<in> hm_keys (hs_substreams (np_negotiation np')) \<longleftrightarrow> k \<in> tracked_keys np'"
      using keys[of q d] old[of q d] by (simp add: tracked_keys_def st)
  qed
qed

subsection \<open>The effects of a handler on the environment\<close>

text \<open>An identifier that \<open>open_substream\<close> returns is new, and two calls return different ones.\<close>

definition sv_ok :: "service_answers \<Rightarrow> service_env \<Rightarrow> bool" where
  "sv_ok sv env \<longleftrightarrow>
     (\<forall>p sid. sv_open sv p = Some sid \<longrightarrow> sid \<notin> se_used env)
     \<and> (\<forall>p q sid. sv_open sv p = Some sid \<longrightarrow> sv_open sv q = Some sid \<longrightarrow> p = q)"

fun effect_env :: "notif_effect \<Rightarrow> service_env \<Rightarrow> service_env" where
  "effect_env (OpenedOutbound peer substream) env = opened_env peer substream env"
| "effect_env _ env = env"

definition effects_env :: "notif_effect list \<Rightarrow> service_env \<Rightarrow> service_env" where
  "effects_env effects env = fold effect_env effects env"

lemma effects_env_simps [simp]:
  "effects_env [] env = env" "effects_env (e # es) env = effects_env es (effect_env e env)"
  "effects_env (es @ es') env = effects_env es' (effects_env es env)"
  by (simp_all add: effects_env_def)

lemma check_True [simp]: "check True = []"
  by (simp add: check_def)

text \<open>A handler keeps the invariant, with the environment moved by its effects, and fails no assertion.\<close>

definition np_good :: "np_outcome \<Rightarrow> service_env \<Rightarrow> bool" where
  "np_good outcome env \<longleftrightarrow>
     (case outcome of (_, effects, np') \<Rightarrow> np_inv np' (effects_env effects env) \<and> AssertionFailed \<notin> set effects)"

lemma np_good_simp [simp]:
  "np_good (r, effects, np') env \<longleftrightarrow> np_inv np' (effects_env effects env) \<and> AssertionFailed \<notin> set effects"
  by (simp add: np_good_def)

lemmas inv_core = np_inv_def[THEN iffD1, THEN conjunct1]

lemmas inv_facts =
  inv_core[THEN core_peers] inv_core[THEN core_pending_ok] inv_core[THEN core_substreams]

lemma inv_keys:
  "np_inv np env \<Longrightarrow> (q, d) \<in> hm_keys (hs_substreams (np_negotiation np)) \<longleftrightarrow> (\<exists>s. np_state np q = Some s \<and> tracked s d)"
  by (simp add: np_inv_def tracked_keys_def)

lemma inv_pending:
  "np_inv np env \<Longrightarrow> hm_get (np_pending_outbound np) sid = Some p \<Longrightarrow> np_state np p = Some s \<Longrightarrow> pend s = Some sid"
  using core_pending[OF inv_core] by fastforce

lemma inv_used: "np_inv np env \<Longrightarrow> np_state np p = Some s \<Longrightarrow> pend s = Some sid \<Longrightarrow> sid \<in> se_used env"
  using core_used[OF inv_core, of np env p sid] by simp

lemma inv_outstanding:
  "np_inv np env \<Longrightarrow> se_outstanding env sid = Some p \<Longrightarrow> hm_get (np_pending_outbound np) sid = Some p"
  using core_outstanding[OF inv_core] .

lemma inv_connected:
  "np_inv np env \<Longrightarrow> p \<in> se_connected env \<longleftrightarrow> (\<exists>s. np_state np p = Some s \<and> is_connected s)"
  using core_connected[OF inv_core] .

text \<open>
  The four ways in which a handler moves the state of a connected peer: with no change of the pending
  outbound substream, when that substream is answered, when one is initiated, and when a pending one is
  taken up again.
\<close>

definition peer_moved :: "notification_protocol \<Rightarrow> peer_id \<Rightarrow> npeer_state \<Rightarrow> npeer_state \<Rightarrow> notification_protocol \<Rightarrow> bool" where
  "peer_moved np p s s' np' \<longleftrightarrow>
     np_state np p = Some s \<and> np_state np' = (np_state np)(p \<mapsto> s') \<and> s' \<noteq> Poisoned
     \<and> is_connected s' = is_connected s
     \<and> hm_ok (np_peers np') \<and> hm_ok (hs_substreams (np_negotiation np'))
     \<and> (\<forall>q d. (q, d) \<in> hm_keys (hs_substreams (np_negotiation np')) \<longleftrightarrow>
          (if q = p then tracked s' d else (q, d) \<in> hm_keys (hs_substreams (np_negotiation np))))"

lemma inv_move:
  assumes inv: "np_inv np env" and moved: "peer_moved np p s s' np'"
    and "np_pending_outbound np' = np_pending_outbound np" "pend s' = pend s"
  shows "np_inv np' env"
  using assms inv_pending[OF inv] inv_outstanding[OF inv] inv_used[OF inv] inv_connected[OF inv, of p] inv_facts[OF inv]
  by (intro inv_update[OF inv, of np' p "Some s'"]) (auto simp: peer_moved_def)

lemma inv_resolve:
  assumes inv: "np_inv np env" and moved: "peer_moved np p s s' np'"
    and "np_pending_outbound np' = hm_remove sid (np_pending_outbound np)"
    and "pend s = Some sid" "pend s' = None \<or> pend s' = Some sid"
  shows "np_inv np' (env\<lparr>se_outstanding := (se_outstanding env)(sid := None)\<rparr>)"
  using assms inv_pending[OF inv] inv_outstanding[OF inv] inv_used[OF inv] inv_connected[OF inv, of p] inv_facts[OF inv]
  by (intro inv_update[OF inv, of np' p "Some s'"]) (auto simp: peer_moved_def split: if_splits)

lemma inv_initiate:
  assumes inv: "np_inv np env" and moved: "peer_moved np p s s' np'"
    and "np_pending_outbound np' = hm_insert sid p (np_pending_outbound np)"
    and "pend s = None" "pend s' = Some sid" "sid \<notin> se_used env"
  shows "np_inv np' (effect_env (OpenedOutbound p sid) env)"
  using assms inv_pending[OF inv] inv_outstanding[OF inv] inv_used[OF inv] inv_connected[OF inv, of p] inv_facts[OF inv]
  by (intro inv_update[OF inv, of np' p "Some s'"]) (auto simp: peer_moved_def split: if_splits)

lemma inv_retake:
  assumes inv: "np_inv np env" and moved: "peer_moved np p s s' np'"
    and "np_pending_outbound np' = hm_insert sid p (np_pending_outbound np)"
    and "pend s = Some sid" "pend s' = Some sid"
  shows "np_inv np' env"
proof -
  have "q = p" if "hm_get (np_pending_outbound np) sid = Some q" for q
    using core_unique[OF inv_core[OF inv], of q sid p] core_pending[OF inv_core[OF inv] that] assms
    by (simp add: peer_moved_def)
  then show ?thesis
    using assms inv_pending[OF inv] inv_outstanding[OF inv] inv_used[OF inv] inv_connected[OF inv, of p] inv_facts[OF inv]
    by (intro inv_update[OF inv, of np' p "Some s'"]) (auto simp: peer_moved_def split: if_splits)
qed

lemma tracked_eqI:
  "tracked s' HsOutbound = tracked s HsOutbound \<Longrightarrow> tracked s' HsInbound = tracked s HsInbound \<Longrightarrow> tracked s' d = tracked s d"
  by (cases d) simp_all

text \<open>The four ways in which a handler moves the handshakes of a peer together with its state.\<close>

lemma moved_same:
  assumes inv: "np_inv np env" and "np_state np p = Some s"
    and "np_peers np' = hm_insert p s' (np_peers np)" "np_negotiation np' = np_negotiation np"
    and "s' \<noteq> Poisoned" "is_connected s' = is_connected s"
    and "tracked s' HsOutbound = tracked s HsOutbound" "tracked s' HsInbound = tracked s HsInbound"
  shows "peer_moved np p s s' np'"
  using assms inv_facts[OF inv] inv_keys[OF inv] tracked_eqI[of s' s] by (auto simp: peer_moved_def)

lemma moved_drop:
  assumes inv: "np_inv np env" and "np_state np p = Some s"
    and "np_peers np' = hm_insert p s' (np_peers np)"
    and "np_negotiation np' = np_negotiation (drop_negotiation p np)"
    and "s' \<noteq> Poisoned" "is_connected s' = is_connected s"
    and "\<not> tracked s' HsOutbound" "\<not> tracked s' HsInbound"
  shows "peer_moved np p s s' np'"
proof -
  have "tracked s' d \<longleftrightarrow> False" for d
    using assms by (cases d) simp_all
  moreover have "d = HsOutbound \<or> d = HsInbound" for d by (cases d) simp_all
  ultimately show ?thesis
    using assms inv_facts[OF inv]
    by (auto simp: peer_moved_def drop_negotiation_def remove_inbound_def remove_outbound_def)
qed

lemma moved_outbound:
  assumes inv: "np_inv np env" and "np_state np p = Some s"
    and "np_peers np' = hm_insert p s' (np_peers np)"
    and "np_negotiation np' = negotiate_outbound now p substream (np_negotiation np)"
    and "s' \<noteq> Poisoned" "is_connected s' = is_connected s"
    and "tracked s' HsOutbound" "tracked s' HsInbound = tracked s HsInbound"
  shows "peer_moved np p s s' np'"
proof -
  have "tracked s' d \<longleftrightarrow> d = HsOutbound \<or> tracked s d" for d
    using assms by (cases d) simp_all
  then show ?thesis
    using assms inv_facts[OF inv] inv_keys[OF inv] by (auto simp: peer_moved_def negotiate_outbound_def)
qed

lemma moved_inbound:
  assumes inv: "np_inv np env" and "np_state np p = Some s"
    and "np_peers np' = hm_insert p s' (np_peers np)"
    and "np_negotiation np' = read_handshake now p substream (np_negotiation np)
      \<or> np_negotiation np' = send_handshake now p substream (np_negotiation np)"
    and "s' \<noteq> Poisoned" "is_connected s' = is_connected s"
    and "tracked s' HsInbound" "tracked s' HsOutbound = tracked s HsOutbound"
  shows "peer_moved np p s s' np'"
proof -
  have "tracked s' d \<longleftrightarrow> d = HsInbound \<or> tracked s d" for d
    using assms by (cases d) simp_all
  then show ?thesis
    using assms inv_facts[OF inv] inv_keys[OF inv]
    by (auto simp: peer_moved_def read_handshake_def send_handshake_def)
qed

lemmas state_simps = is_connected_def

subsection \<open>Every handler keeps the invariant\<close>

lemma set_state_id: "hm_ok (np_peers np) \<Longrightarrow> np_state np p = Some s \<Longrightarrow> np_inv (set_state p s np) env = np_inv np env"
  by (auto simp: np_inv_def np_core_def tracked_keys_def fun_upd_idem)

lemma on_open_substream_good:
  assumes inv: "np_inv np env" and sv: "\<And>sid. sv_open sv p = Some sid \<Longrightarrow> sid \<notin> se_used env"
  shows "np_good (on_open_substream sv p np) env"
proof (cases "np_state np p")
  case None
  have "np_inv (set_state p PeerDialing np) env"
    by (rule inv_update[OF inv, of _ p "Some PeerDialing"])
       (use None inv_facts[OF inv] inv_core[OF inv] in
        \<open>auto simp: is_connected_def inv_keys[OF inv] core_connected dest: core_pending core_outstanding\<close>)
  then show ?thesis
    using None inv by (simp add: on_open_substream_def)
next
  case (Some s)
  show ?thesis
  proof (cases "\<exists>sid. s = PeerClosed (Some sid)")
    case True
    then obtain sid where s: "s = PeerClosed (Some sid)" by blast
    have "np_inv (set_state p (OutboundInitiated sid) (add_pending sid p np)) env"
      by (rule inv_retake[OF inv moved_same[OF inv Some, where s' = "OutboundInitiated sid"], where sid = sid])
         (simp_all add: s state_simps)
    then show ?thesis
      using Some s by (simp add: on_open_substream_def)
  next
    case False
    have "np_inv (set_state p (OutboundInitiated sid) (add_pending sid p np)) (effect_env (OpenedOutbound p sid) env)"
      if "s = PeerClosed None" "sv_open sv p = Some sid" for sid
      by (rule inv_initiate[OF inv moved_same[OF inv Some, where s' = "OutboundInitiated sid"], where sid = sid])
         (use that sv in \<open>simp_all add: state_simps\<close>)
    then show ?thesis
      using False Some inv set_state_id[OF inv_facts(1)[OF inv] Some]
      by (cases s) (auto simp: on_open_substream_def split: option.splits)
  qed
qed

text \<open>A peer that is not connected gets connected, or an unconnected one changes its state.\<close>

lemma inv_connect:
  assumes inv: "np_inv np env" and "np_state np p = so" "\<And>s. so = Some s \<Longrightarrow> \<not> is_connected s"
    and "s' = PeerClosed None \<or> s' = ValidationPending ConnOpen"
  shows "np_inv (set_state p s' np) (env\<lparr>se_connected := insert p (se_connected env)\<rparr>)"
proof -
  have "owed so = None" "\<not> (\<exists>s d. so = Some s \<and> tracked s d)"
    using assms(3) by (cases so; fastforce simp: is_connected_def)+
  then show ?thesis
    using assms inv_facts[OF inv] inv_keys[OF inv] inv_outstanding[OF inv] core_pending[OF inv_core[OF inv]]
    by (intro inv_update[OF inv, of _ p "Some s'"]) (auto simp: is_connected_def)
qed

lemma inv_forget_unconnected:
  assumes inv: "np_inv np env" and "np_state np p = Some s" "\<not> is_connected s"
  shows "np_inv (forget_peer p np) env"
proof -
  have "pend s = None" "\<not> tracked s d" for d
    using assms(3) by (auto simp: is_connected_def)
  then show ?thesis
    using assms inv_facts[OF inv] inv_keys[OF inv] inv_outstanding[OF inv] inv_connected[OF inv]
      inv_pending[OF inv]
    by (intro inv_update[OF inv, of _ p None]) auto
qed

lemma on_connection_established_good:
  assumes inv: "np_inv np env" and fresh: "p \<notin> se_connected env" and sv: "sv_ok sv env"
  shows "np_good (np_on_connection_established sv p np) (te_env (TeConnectionEstablished p) env)"
proof -
  have off: "\<not> is_connected s" if "np_state np p = Some s" for s
    using fresh that inv_connected[OF inv, of p] by auto
  have new: "np_inv (set_state p s' np) (te_env (TeConnectionEstablished p) env)"
    if "s' = PeerClosed None \<or> s' = ValidationPending ConnOpen" for s'
    using inv_connect[OF inv refl _ that] off by simp
  have opened: "np_good (on_open_substream sv p (set_state p (PeerClosed None) np)) (te_env (TeConnectionEstablished p) env)"
    by (rule on_open_substream_good[OF new]) (use sv in \<open>auto simp: sv_ok_def\<close>)
  show ?thesis
  proof (cases "np_state np p")
    case None
    then show ?thesis using new[of "PeerClosed None"] by (simp add: np_on_connection_established_def)
  next
    case (Some s)
    then show ?thesis
      using off[OF Some] opened new[of "ValidationPending ConnOpen"]
      by (cases s) (auto simp: np_on_connection_established_def is_connected_def)
  qed
qed

lemma on_dial_failure_good:
  assumes inv: "np_inv np env"
  shows "np_good (np_on_dial_failure p np) env"
  using inv inv_forget_unconnected[OF inv, of p PeerDialing]
  by (auto simp: np_on_dial_failure_def is_connected_def split: option.splits npeer_state.splits)

lemma inv_disconnect:
  assumes inv: "np_inv np env" and "so = None \<or> so = Some (ValidationPending ConnClosed)"
    and "np_state np' = (np_state np)(p := so)" "hm_ok (np_peers np')"
    and "np_pending_outbound np' = filter (\<lambda>(_, q). q \<noteq> p) (np_pending_outbound np)"
    and "np_negotiation np' = np_negotiation (drop_negotiation p np)"
  shows "np_inv np' (te_env (TeConnectionClosed p) env)"
proof -
  have "d = HsOutbound \<or> d = HsInbound" for d by (cases d) simp_all
  moreover have "owed so = None" "\<not> (\<exists>s d. so = Some s \<and> tracked s d)" "\<not> (\<exists>s. so = Some s \<and> is_connected s)"
    using assms(2) by (auto simp: is_connected_def)
  ultimately show ?thesis
    using assms inv_facts[OF inv] inv_outstanding[OF inv]
    by (intro inv_update[OF inv, of np' p so])
       (auto simp: hm_get_filter_value hm_ok_filter drop_negotiation_def remove_inbound_def remove_outbound_def
          split: if_splits option.splits)
qed

lemma on_connection_closed_good:
  assumes inv: "np_inv np env" and up: "p \<in> se_connected env"
  shows "np_good (np_on_connection_closed p np) (te_env (TeConnectionClosed p) env)"
proof -
  obtain s where s: "np_state np p = Some s"
    using up inv_connected[OF inv] by blast
  let ?np = "np\<lparr>np_pending_outbound := filter (\<lambda>(_, q). q \<noteq> p) (np_pending_outbound np)\<rparr>"
  have gone: "np_inv (drop_negotiation p (forget_peer p ?np)) (te_env (TeConnectionClosed p) env)"
    by (rule inv_disconnect[OF inv, of None]) (use inv_facts[OF inv] in \<open>simp_all add: drop_negotiation_def\<close>)
  have kept: "np_inv (set_state p (ValidationPending ConnClosed) (drop_negotiation p (forget_peer p ?np)))
      (te_env (TeConnectionClosed p) env)"
    by (rule inv_disconnect[OF inv, of "Some (ValidationPending ConnClosed)"])
       (use inv_facts[OF inv] in \<open>simp_all add: drop_negotiation_def\<close>)
  show ?thesis
    using s gone kept
    by (cases s) (auto simp: np_on_connection_closed_def Let_def split: outbound_state.splits inbound_state.splits)
qed

lemma on_outbound_substream_good:
  assumes inv: "np_inv np env" and out: "se_outstanding env sid = Some p"
  shows "np_good (on_outbound_substream sv protocol fallback p sid substream np)
    (te_env (TeOutbound p protocol fallback sid substream) env)"
proof -
  have pending: "hm_get (np_pending_outbound np) sid = Some p"
    by (rule inv_outstanding[OF inv out])
  obtain s where s: "np_state np p = Some s" "pend s = Some sid"
    using core_pending[OF inv_core[OF inv] pending] by (cases "np_state np p") auto
  have negotiating: "np_inv (set_state p (Validating pr fb OutNegotiating inb dir)
        (on_negotiation (negotiate_outbound (sv_now sv) p substream) (drop_pending sid np)))
      (te_env (TeOutbound p protocol fallback sid substream) env)"
    if "tracked (Validating pr fb OutNegotiating inb dir) HsInbound = tracked s HsInbound" for pr fb inb dir
    using s that unfolding te_env.simps
    by (intro inv_resolve[OF inv moved_outbound[OF inv s(1), where s' = "Validating pr fb OutNegotiating inb dir"
          and now = "sv_now sv" and substream = substream]])
       (auto simp: state_simps)
  have closed: "np_inv (set_state p (PeerClosed None) (drop_pending sid np))
      (te_env (TeOutbound p protocol fallback sid substream) env)" if "s = PeerClosed (Some sid)"
    using s that unfolding te_env.simps
    by (intro inv_resolve[OF inv moved_same[OF inv s(1), where s' = "PeerClosed None"]]) (auto simp: state_simps)
  show ?thesis
    using s pending negotiating closed
    by (cases s) (auto simp: on_outbound_substream_def Let_def split: outbound_state.splits inbound_state.splits)
qed

lemma on_inbound_substream_good:
  assumes inv: "np_inv np env" and up: "p \<in> se_connected env"
  shows "np_good (on_inbound_substream sv protocol fallback p substream np) env"
proof -
  obtain s where s: "np_state np p = Some s"
    using up inv_connected[OF inv] by blast
  have reading: "np_inv (set_state p (Validating pr fb out InReadingHandshake dir)
      (on_negotiation (read_handshake (sv_now sv) p substream) np)) env"
    if "pending_open out = pend s" "is_connected s" "(out = OutNegotiating) = tracked s HsOutbound" for pr fb out dir
    using that
    by (intro inv_move[OF inv moved_inbound[OF inv s, where s' = "Validating pr fb out InReadingHandshake dir"
          and now = "sv_now sv" and substream = substream]]) (auto simp: state_simps)
  have blocked: "np_inv (set_state p (ValidationPending ConnOpen) np) env"
    if "s = Validating pr fb OutClosed (InValidating sub) dir" for pr fb sub dir
    using that
    by (intro inv_move[OF inv moved_same[OF inv s, where s' = "ValidationPending ConnOpen"]]) (auto simp: state_simps)
  show ?thesis
    using s inv reading blocked
    by (cases s)
       (auto simp: on_inbound_substream_def Let_def is_connected_def
          split: outbound_state.splits inbound_state.splits option.splits)
qed

lemma on_substream_open_failure_good:
  assumes inv: "np_inv np env" and out: "se_outstanding env sid = Some p"
  shows "np_good (on_substream_open_failure sid np) (te_env (TeSubstreamOpenFailure sid err) env)"
proof -
  have pending: "hm_get (np_pending_outbound np) sid = Some p"
    by (rule inv_outstanding[OF inv out])
  obtain s where s: "np_state np p = Some s" "pend s = Some sid"
    using core_pending[OF inv_core[OF inv] pending] by (cases "np_state np p") auto
  have closed: "np_inv (set_state p (PeerClosed None) (drop_pending sid np)) (te_env (TeSubstreamOpenFailure sid err) env)"
    if "\<not> tracked s HsOutbound" "\<not> tracked s HsInbound" "is_connected s"
    using s that unfolding te_env.simps
    by (intro inv_resolve[OF inv moved_same[OF inv s(1), where s' = "PeerClosed None"]]) (auto simp: state_simps)
  have dropped: "np_inv (set_state p (PeerClosed so) (drop_negotiation p (drop_pending sid np)))
      (te_env (TeSubstreamOpenFailure sid err) env)"
    if "so = None \<or> so = Some sid" "is_connected s" for so
    using s that unfolding te_env.simps
    by (intro inv_resolve[OF inv moved_drop[OF inv s(1), where s' = "PeerClosed so"]])
       (auto simp: state_simps drop_negotiation_def)
  show ?thesis
    using s pending closed dropped
    by (cases s) (auto simp: on_substream_open_failure_def Let_def state_simps split: outbound_state.splits)
qed

lemma on_close_substream_good:
  assumes inv: "np_inv np env"
  shows "np_good (on_close_substream p np) env"
proof (cases "\<exists>shutdown. np_state np p = Some (PeerOpen shutdown)")
  case True
  then obtain shutdown where s: "np_state np p = Some (PeerOpen shutdown)" by blast
  have "np_inv (set_state p (PeerClosed None) np) env"
    by (intro inv_move[OF inv moved_same[OF inv s, where s' = "PeerClosed None"]]) (auto simp: state_simps)
  then show ?thesis
    using s by (simp add: on_close_substream_def)
next
  case False
  then show ?thesis
    using inv by (auto simp: on_close_substream_def split: option.splits npeer_state.splits)
qed

lemma on_timer_good:
  assumes inv: "np_inv np env"
  shows "np_good (on_timer p np) env"
proof -
  have "np_inv (set_state p (PeerClosed None) np) env"
    if s: "np_state np p = Some (Validating pr fb (OutOpen h sub) InClosed dir)" for pr fb h sub dir
    by (intro inv_move[OF inv moved_same[OF inv s, where s' = "PeerClosed None"]]) (auto simp: state_simps)
  then show ?thesis
    using inv
    by (auto simp: on_timer_def split: option.splits npeer_state.splits outbound_state.splits inbound_state.splits)
qed

lemma inv_other_fields [simp]:
  "np_inv (np\<lparr>np_timers := timers\<rparr>) env = np_inv np env"
  "np_inv (np\<lparr>np_pending_validations := validations\<rparr>) env = np_inv np env"
  "np_inv (np\<lparr>np_next_channel := channel\<rparr>) env = np_inv np env"
  by (simp_all add: np_inv_def np_core_def tracked_keys_def)

lemma on_validation_result_good:
  assumes inv: "np_inv np env" and sv: "sv_ok sv env"
  shows "np_good (on_validation_result sv p result np) env"
proof (cases "np_state np p")
  case None
  then show ?thesis
    using inv by (simp add: on_validation_result_def)
next
  case (Some s)
  have rejected: "np_inv (set_state p (PeerClosed (pending_open out)) (drop_negotiation p np)) env"
    if "s = Validating pr fb out (InValidating sub) dir" for pr fb out sub dir
    using that by (intro inv_move[OF inv moved_drop[OF inv Some, where s' = "PeerClosed (pending_open out)"]])
      (auto simp: state_simps drop_negotiation_def)
  have closed: "np_inv (set_state p (PeerClosed None) np) env"
    if "s = ValidationPending ConnOpen \<or> s = Validating pr fb OutClosed (InValidating sub) dir" for pr fb sub dir
    using that by (intro inv_move[OF inv moved_same[OF inv Some, where s' = "PeerClosed None"]])
      (auto simp: state_simps)
  have initiated: "np_inv
      (set_state p (Validating pr fb (OutInitiated sid) InSendingHandshake dir)
        (add_pending sid p (on_negotiation (send_handshake (sv_now sv) p sub) np)))
      (effect_env (OpenedOutbound p sid) env)"
    if "s = Validating pr fb OutClosed (InValidating sub) dir" "sv_open sv p = Some sid" for pr fb sub dir sid
    using that sv
    by (intro inv_initiate[OF inv moved_inbound[OF inv Some, where now = "sv_now sv" and substream = sub
          and s' = "Validating pr fb (OutInitiated sid) InSendingHandshake dir"]]) (auto simp: state_simps sv_ok_def)
  have accepted: "np_inv
      (set_state p (Validating pr fb out InSendingHandshake dir)
        (on_negotiation (send_handshake (sv_now sv) p sub) np)) env"
    if "s = Validating pr fb out (InValidating sub) dir" for pr fb out sub dir
    using that
    by (intro inv_move[OF inv moved_inbound[OF inv Some, where now = "sv_now sv" and substream = sub
          and s' = "Validating pr fb out InSendingHandshake dir"]]) (auto simp: state_simps)
  have forgotten: "np_inv (forget_peer p np) env" if "s = ValidationPending ConnClosed"
    using that Some by (intro inv_forget_unconnected[OF inv]) (auto simp: state_simps)
  show ?thesis
  proof (cases "\<exists>pr fb out sub dir. s = Validating pr fb out (InValidating sub) dir")
    case True
    then obtain pr fb out sub dir where s: "s = Validating pr fb out (InValidating sub) dir" by blast
    show ?thesis
      using Some s rejected[OF s] closed[of pr fb sub dir] initiated[of pr fb sub dir] accepted[OF s]
      by (cases result; cases out) (auto simp: on_validation_result_def split: option.splits)
  next
    case False
    then show ?thesis
      using Some inv closed forgotten
      by (cases s)
         (auto simp: on_validation_result_def split: inbound_state.splits conn_state.splits)
  qed
qed

text \<open>
  A shutdown notification of a connection handler is harmless when the stream it is about is still the
  open one, or the peer is gone, or nothing happened since its stream was closed.
\<close>

definition shutdown_ok :: "notification_protocol \<Rightarrow> peer_id \<Rightarrow> bool" where
  "shutdown_ok np p \<longleftrightarrow>
     (case np_state np p of
        None \<Rightarrow> True
      | Some (PeerOpen _) \<Rightarrow> True
      | Some (PeerClosed None) \<Rightarrow> True
      | Some _ \<Rightarrow> False)"

lemma on_shutdown_good:
  assumes inv: "np_inv np env" and "shutdown_ok np p"
  shows "np_good (on_shutdown p np) env"
proof (cases "np_state np p")
  case None
  then show ?thesis using inv by (simp add: on_shutdown_def)
next
  case (Some s)
  then have "np_inv (set_state p (PeerClosed None) np) env"
    using assms(2)
    by (intro inv_move[OF inv moved_same[OF inv Some, where s' = "PeerClosed None"]])
       (auto simp: state_simps shutdown_ok_def split: npeer_state.splits option.splits)
  then show ?thesis
    using Some by (simp add: on_shutdown_def)
qed

subsubsection \<open>Handshake events\<close>

lemma finish_handshake_good:
  assumes inv: "np_inv np env"
  shows "np_good (finish_handshake sv p np) env"
proof -
  have "np_inv (set_state p (PeerOpen ch) (np\<lparr>np_next_channel := c\<rparr>)) env"
    if s: "np_state np p = Some (Validating pr fb (OutOpen h out) (InOpen inb) dir)" for pr fb h out inb dir ch c
    by (intro inv_move[OF inv moved_same[OF inv s, where s' = "PeerOpen ch"]]) (auto simp: state_simps)
  then show ?thesis
    using inv
    by (auto simp: finish_handshake_def split: option.splits npeer_state.splits outbound_state.splits inbound_state.splits)
qed

lemma after_effects_good [simp]:
  "np_good (after_effects [Report ev] outcome) env = np_good outcome env"
  by (cases outcome) (simp add: after_effects_def)

lemma moved_negotiated:
  assumes inv: "np_inv np env" and "np_state np p = Some s"
    and "np_peers np' = hm_insert p s' (np_peers np)" "hm_ok (hs_substreams (np_negotiation np'))"
    and keys: "hm_keys (hs_substreams (np_negotiation np')) = hm_keys (hs_substreams (np_negotiation np)) - {(p, d)}"
    and "s' \<noteq> Poisoned" "is_connected s' = is_connected s"
    and "\<not> tracked s' d" "\<And>d'. d' \<noteq> d \<Longrightarrow> tracked s' d' = tracked s d'"
  shows "peer_moved np p s s' np'"
proof -
  have "tracked s' d' \<longleftrightarrow> d' \<noteq> d \<and> tracked s d'" for d'
    using assms by (cases "d' = d") auto
  then show ?thesis
    using assms inv_facts[OF inv] inv_keys[OF inv] by (auto simp: peer_moved_def)
qed

lemma tracked_outboundD:
  "tracked s HsOutbound \<Longrightarrow> \<exists>pr fb inb dir. s = Validating pr fb OutNegotiating inb dir"
  by (cases s) auto

lemma tracked_inboundD:
  "tracked s HsInbound \<Longrightarrow>
   \<exists>pr fb out dir. s = Validating pr fb out InReadingHandshake dir \<or> s = Validating pr fb out InSendingHandshake dir"
  by (cases s) auto

lemma hs_after_Negotiated:
  assumes "hs_after svc (Ready (p, Negotiated p' h sub d)) svc'"
  shows "p' = p" "(p, d) \<in> hm_keys (hs_substreams svc)"
    "hm_keys (hs_substreams svc') = hm_keys (hs_substreams svc) - {(p, d)}"
  using assms hs_substream_of_None[of "(p, d)" svc] by (auto simp: hs_after_def)

lemma outbound_negotiated_good:
  assumes inv: "np_inv np env" and ok: "hm_ok (hs_substreams svc)"
    and after: "hs_after (np_negotiation np) (Ready (p, Negotiated p' h sub HsOutbound)) svc"
  shows "np_good (on_handshake_event sv p (Negotiated p' h sub HsOutbound) (np\<lparr>np_negotiation := svc\<rparr>)) env"
proof -
  note hs = hs_after_Negotiated[OF after]
  obtain s where s: "np_state np p = Some s" "tracked s HsOutbound"
    using hs(2) inv_keys[OF inv] by blast
  obtain pr fb inb dir where eq: "s = Validating pr fb OutNegotiating inb dir"
    using tracked_outboundD[OF s(2)] by blast
  let ?s = "Validating pr fb (OutOpen h sub) inb dir"
  let ?np = "set_state p ?s (np\<lparr>np_negotiation := snd (remove_outbound p' svc)\<rparr>)"
  have keys: "hm_keys (hs_substreams (snd (remove_outbound p' svc)))
      = hm_keys (hs_substreams (np_negotiation np)) - {(p, HsOutbound)}"
    using hs by (auto simp: remove_outbound_def)
  have "tracked ?s d' = tracked s d'" if "d' \<noteq> HsOutbound" for d'
    using that eq by (cases d') auto
  then have "np_inv ?np env"
    using eq keys ok
    by (intro inv_move[OF inv moved_negotiated[OF inv s(1), where s' = ?s and d = HsOutbound]])
       (auto simp: state_simps remove_outbound_def)
  from finish_handshake_good[OF this] show ?thesis
    using s eq by (simp add: on_handshake_event_def)
qed

lemma inbound_negotiated_good:
  assumes inv: "np_inv np env" and ok: "hm_ok (hs_substreams svc)"
    and after: "hs_after (np_negotiation np) (Ready (p, Negotiated p' h sub HsInbound)) svc"
  shows "np_good (on_handshake_event sv p (Negotiated p' h sub HsInbound) (np\<lparr>np_negotiation := svc\<rparr>)) env"
proof -
  note hs = hs_after_Negotiated[OF after]
  obtain s where s: "np_state np p = Some s" "tracked s HsInbound"
    using hs(2) inv_keys[OF inv] by blast
  have keys: "hm_keys (hs_substreams (snd (remove_inbound p' svc)))
      = hm_keys (hs_substreams (np_negotiation np)) - {(p, HsInbound)}"
    using hs by (auto simp: remove_inbound_def)
  have ok': "hm_ok (hs_substreams (snd (remove_inbound p' svc)))"
    using ok by (simp add: remove_inbound_def)
  have tr: "tracked (Validating pr fb out inb dir) d' = tracked s d'"
    if "\<exists>inb'. s = Validating pr fb out inb' dir" "d' \<noteq> HsInbound" for pr fb out inb dir d'
    using that by (cases d') auto
  have moved: "np_inv (set_state p (Validating pr fb out inb dir)
      (np\<lparr>np_negotiation := snd (remove_inbound p' svc)\<rparr>)) env"
    if "\<exists>inb'. s = Validating pr fb out inb' dir" "inb \<noteq> InReadingHandshake" "inb \<noteq> InSendingHandshake"
    for pr fb out inb dir
    using that tr[OF that(1)] keys ok'
    by (intro inv_move[OF inv moved_negotiated[OF inv s(1), where s' = "Validating pr fb out inb dir" and d = HsInbound]])
       (auto simp: state_simps simp del: tracked.simps(1))
  have resend: "np_inv (set_state p (Validating pr fb out InSendingHandshake dir)
      (np\<lparr>np_negotiation := send_handshake now p' sub (snd (remove_inbound p' svc))\<rparr>)) env"
    if eq: "s = Validating pr fb out InReadingHandshake dir" for pr fb out dir now
  proof (rule inv_move[OF inv])
    have "tracked (Validating pr fb out InSendingHandshake dir) d = tracked s d" for d
      using eq by (cases d) auto
    then show "peer_moved np p s (Validating pr fb out InSendingHandshake dir)
      (set_state p (Validating pr fb out InSendingHandshake dir)
        (np\<lparr>np_negotiation := send_handshake now p' sub (snd (remove_inbound p' svc))\<rparr>))"
      using s inv_keys[OF inv] keys ok hs(1) inv_facts[OF inv] eq
      by (auto simp: peer_moved_def state_simps send_handshake_def remove_inbound_def)
  qed (use eq in auto)
  from tracked_inboundD[OF s(2)] consider
    (reading) pr fb out dir where "s = Validating pr fb out InReadingHandshake dir"
  | (sending) pr fb out dir where "s = Validating pr fb out InSendingHandshake dir" by blast
  then show ?thesis
  proof cases
    case reading
    have "np_inv ((set_state p (Validating pr fb out (InValidating sub) dir)
        (np\<lparr>np_negotiation := snd (remove_inbound p' svc)\<rparr>))\<lparr>np_pending_validations := vs, np_next_channel := c\<rparr>) env" for vs c
      unfolding inv_other_fields by (rule moved) (use reading in auto)
    note finish_handshake_good[OF this]
    then show ?thesis
      using s reading hs(1) resend[OF reading] by (auto simp: on_handshake_event_def Let_def)
  next
    case sending
    then show ?thesis
      using s finish_handshake_good[OF moved[of pr fb out dir "InOpen sub"]]
      by (auto simp: on_handshake_event_def Let_def)
  qed
qed

lemma negotiation_error_good:
  assumes inv: "np_inv np env" and ok: "hm_ok (hs_substreams svc)"
    and after: "hs_after (np_negotiation np) (Ready (p, NegotiationError p' d)) svc"
  shows "np_good (on_handshake_event sv p (NegotiationError p' d) (np\<lparr>np_negotiation := svc\<rparr>)) env"
proof -
  have p': "p' = p" and key: "(p, d) \<in> hm_keys (hs_substreams (np_negotiation np))"
    and keys: "hm_keys (hs_substreams svc) = hm_keys (hs_substreams (np_negotiation np))"
    using after by (simp_all add: hs_after_def)
  obtain s where s: "np_state np p = Some s" "tracked s d"
    using key inv_keys[OF inv] by blast
  then obtain pr fb out inb dir where eq: "s = Validating pr fb out inb dir"
    using tracked_outboundD[of s] tracked_inboundD[of s] by (cases d) blast+
  have polled: "np_inv (np\<lparr>np_negotiation := svc\<rparr>) env"
    using inv keys ok by (simp add: np_inv_def np_core_def tracked_keys_def)
  have "np_inv (set_state p (PeerClosed (pending_open out)) (drop_negotiation p (np\<lparr>np_negotiation := svc\<rparr>))) env"
    using eq s by (intro inv_move[OF polled moved_drop[OF polled, where s' = "PeerClosed (pending_open out)"]])
      (auto simp: state_simps drop_negotiation_def)
  then show ?thesis
    using s eq p' finish_handshake_good by (auto simp: on_handshake_event_def Let_def)
qed

subsection \<open>The event loop\<close>

lemma on_handshake_event_good:
  assumes "np_inv np env" and "hm_ok (hs_substreams svc)" and "hs_after (np_negotiation np) (Ready (p, ev)) svc"
  shows "np_good (on_handshake_event sv p ev (np\<lparr>np_negotiation := svc\<rparr>)) env"
proof (cases ev)
  case (Negotiated p' h sub d)
  then show ?thesis
    using assms outbound_negotiated_good inbound_negotiated_good by (cases d) auto
next
  case (NegotiationError p' d)
  then show ?thesis
    using assms negotiation_error_good by auto
qed

lemma on_transport_event_good:
  assumes "np_inv np env" and "te_ok env ev" and "sv_ok sv env"
  shows "np_good (on_transport_event sv ev np) (te_env ev env)"
  using assms
  by (cases ev)
     (auto simp: on_transport_event_def on_connection_established_good on_connection_closed_good
        on_inbound_substream_good on_dial_failure_good
        simp del: np_good_simp te_env.simps(1,2,3,4)
        intro!: on_outbound_substream_good on_substream_open_failure_good)

lemma on_open_substream_used:
  "se_used (effects_env (fst (snd (on_open_substream sv p np))) env) \<subseteq> se_used env \<union> {sid. sv_open sv p = Some sid}"
  by (auto simp: on_open_substream_def split: option.splits npeer_state.splits if_splits)

lemma for_peers_open_good:
  assumes "np_inv np env" and "distinct ps"
    and "\<And>p sid. p \<in> set ps \<Longrightarrow> sv_open sv p = Some sid \<Longrightarrow> sid \<notin> se_used env"
    and "\<And>p q sid. sv_open sv p = Some sid \<Longrightarrow> sv_open sv q = Some sid \<Longrightarrow> p = q"
    and "for_peers (on_open_substream sv) ps np = (effects, np')"
  shows "np_inv np' (effects_env effects env) \<and> AssertionFailed \<notin> set effects"
  using assms
proof (induction ps arbitrary: np env effects np')
  case Nil
  then show ?case by simp
next
  case (Cons p ps)
  obtain r effects1 np1 where first: "on_open_substream sv p np = (r, effects1, np1)"
    by (metis prod_cases3)
  obtain effects2 np2 where rest: "for_peers (on_open_substream sv) ps np1 = (effects2, np2)"
    by (metis surj_pair)
  have eq: "effects = effects1 @ effects2" "np' = np2"
    using Cons.prems(5) first rest by simp_all
  have good: "np_inv np1 (effects_env effects1 env)" "AssertionFailed \<notin> set effects1"
    using on_open_substream_good[OF Cons.prems(1), of sv p] Cons.prems(3) first by auto
  have fresh: "sid \<notin> se_used (effects_env effects1 env)" if "q \<in> set ps" "sv_open sv q = Some sid" for q sid
  proof
    assume "sid \<in> se_used (effects_env effects1 env)"
    then have "sid \<in> se_used env \<or> sv_open sv p = Some sid"
      using on_open_substream_used[of sv p np env] first by auto
    then show False
      using that Cons.prems(2) Cons.prems(3)[of q sid] Cons.prems(4)[of p sid q] by auto
  qed
  show ?case
    using Cons.IH[OF good(1) _ fresh Cons.prems(4) rest] good(2) Cons.prems(2) eq by simp
qed

lemma for_peers_close_good:
  assumes "np_inv np env" and "for_peers on_close_substream ps np = (effects, np')"
  shows "np_inv np' env \<and> AssertionFailed \<notin> set effects \<and> effects_env effects env = env"
  using assms
proof (induction ps arbitrary: np effects np')
  case (Cons p ps)
  obtain r effects1 np1 where first: "on_close_substream p np = (r, effects1, np1)"
    by (metis prod_cases3)
  have e1: "effects_env effects1 env = env"
    using first by (auto simp: on_close_substream_def split: option.splits npeer_state.splits)
  then have "np_inv np1 env" "AssertionFailed \<notin> set effects1"
    using on_close_substream_good[OF Cons.prems(1), of p] first by auto
  then show ?case
    using Cons first e1 by (auto split: prod.splits)
qed auto

fun input_ok :: "service_env \<Rightarrow> notification_protocol \<Rightarrow> np_input \<Rightarrow> bool" where
  "input_ok env np (OfShutdown (Some peer)) \<longleftrightarrow> shutdown_ok np peer"
| "input_ok env np (OfService (Some event)) \<longleftrightarrow> te_ok env event"
| "input_ok env np (OfCommand (Some (OpenSubstream peers))) \<longleftrightarrow> distinct peers"
| "input_ok env np _ \<longleftrightarrow> True"

fun input_env :: "np_input \<Rightarrow> service_env \<Rightarrow> service_env" where
  "input_env (OfService (Some event)) env = te_env event env"
| "input_env _ env = env"

lemma handle_input_good:
  assumes inv: "np_inv np env" and sv: "sv_ok sv env" and ok: "input_ok env np input"
    and not_hs: "\<And>p ev. input \<noteq> OfNegotiation p ev"
    and eq: "handle_input sv input np = (stop, effects, np')"
  shows "np_inv np' (effects_env effects (input_env input env)) \<and> AssertionFailed \<notin> set effects"
proof -
  have pair: "np_inv np' (effects_env effects env') \<and> AssertionFailed \<notin> set effects"
    if "np_good outcome env'" "snd outcome = (effects, np')" for outcome env'
    using that by (cases outcome) simp
  show ?thesis
  proof (cases input)
    case (OfNegotiation p ev)
    then show ?thesis using not_hs by simp
  next
    case (OfShutdown so)
    then show ?thesis
      using inv ok eq pair[OF on_shutdown_good[OF inv]] by (cases so) (auto simp: handle_input_def)
  next
    case (OfTimer i)
    then show ?thesis
      using inv eq pair[OF on_timer_good[of "np\<lparr>np_timers := remove_nth i (np_timers np)\<rparr>" env]] by (auto simp: handle_input_def split: if_splits)
  next
    case (OfService so)
    then show ?thesis
      using inv ok sv eq pair[OF on_transport_event_good] by (cases so) (auto simp: handle_input_def)
  next
    case (OfValidation i result)
    then show ?thesis
      using inv eq
        pair[OF on_validation_result_good[of "np\<lparr>np_pending_validations := remove_nth i (np_pending_validations np)\<rparr>", OF _ sv]]
      by (auto simp: handle_input_def split: if_splits)
  next
    case (OfCommand so)
    show ?thesis
    proof (cases so)
      case None
      then show ?thesis using OfCommand inv eq by (auto simp: handle_input_def)
    next
      case (Some command)
      then show ?thesis
        using OfCommand ok eq sv for_peers_open_good[OF inv, of _ sv] for_peers_close_good[OF inv] inv
        by (cases command) (auto simp: handle_input_def on_command_def sv_ok_def)
    qed
  qed
qed

definition offers_ok :: "service_env \<Rightarrow> notification_protocol \<Rightarrow> np_offers \<Rightarrow> bool" where
  "offers_ok env np offers \<longleftrightarrow>
     iteration_order (of_order offers)
     \<and> (\<forall>peer. of_shutdown offers = Ready peer \<longrightarrow> input_ok env np (OfShutdown peer))
     \<and> (\<forall>event. of_service offers = Ready event \<longrightarrow> input_ok env np (OfService event))
     \<and> (\<forall>command. of_command offers = Ready command \<longrightarrow> input_ok env np (OfCommand command))"

lemma select_input_ok:
  assumes "offers_ok env np offers" and "select_input offers np = Ready input"
  shows "input_ok env np input" "input \<noteq> OfNegotiation p ev"
  using assms by (auto simp: offers_ok_def select_input_def split: poll.splits if_splits)

lemma poll_sources_cases:
  assumes inv: "np_inv np env" and ok: "offers_ok env np offers"
    and poll: "poll_sources now offers np = (result, effects, np1)"
  obtains (negotiation) p ev svc where "result = Inr (Ready (OfNegotiation p ev))" "np1 = np\<lparr>np_negotiation := svc\<rparr>"
      "hm_ok (hs_substreams svc)" "hs_after (np_negotiation np) (Ready (p, ev)) svc"
      "AssertionFailed \<notin> set effects"
  | (selected) "result = Inr (select_input offers np1)" "np_inv np1 env" "offers_ok env np1 offers"
      "AssertionFailed \<notin> set effects"
proof (cases "hs_is_empty (np_negotiation np)")
  case True
  then show ?thesis
    using poll inv ok selected by (auto simp: poll_sources_def)
next
  case False
  obtain polled sent svc
    where hs: "hs_poll_next (of_order offers) (of_io offers) now (np_negotiation np) = (polled, sent, svc)"
    by (metis prod_cases3)
  have order: "iteration_order (of_order offers)"
    using ok by (simp add: offers_ok_def)
  obtain answer where spec: "polled = Inr answer" "hs_after (np_negotiation np) answer svc" "hm_ok (hs_substreams svc)"
    using hs_poll_next_spec[OF order inv_facts(3)[OF inv] hs] by blast
  have sent: "AssertionFailed \<notin> set effects"
    using poll hs spec(1) False by (auto simp: poll_sources_def Let_def split: poll.splits)
  show ?thesis
  proof (cases answer)
    case Pending
    then have "np_inv (np\<lparr>np_negotiation := svc\<rparr>) env"
      using inv spec by (simp add: np_inv_def np_core_def tracked_keys_def hs_after_def)
    moreover have "offers_ok env (np\<lparr>np_negotiation := svc\<rparr>) offers"
    proof -
      have "input_ok env (np\<lparr>np_negotiation := svc\<rparr>) i = input_ok env np i" for i
        by (cases "(env, np, i)" rule: input_ok.cases) (simp_all add: shutdown_ok_def)
      then show ?thesis using ok by (simp add: offers_ok_def)
    qed
    ultimately show ?thesis
      using poll hs spec(1) False Pending sent selected by (auto simp: poll_sources_def Let_def)
  next
    case (Ready e)
    obtain p ev where e: "e = (p, ev)" by (cases e)
    show ?thesis
      using poll hs spec False Ready e sent by (intro negotiation[of p ev svc]) (auto simp: poll_sources_def Let_def)
  qed
qed

text \<open>The states that the event loop reaches, with the environment that the transport service is in.\<close>

inductive notif_reach :: "notification_protocol \<Rightarrow> service_env \<Rightarrow> bool" where
  start: "notif_reach (notification_protocol_new protocol auto_accept should_dial sync_size async_size handshake)
            service_env_new"
| idle: "notif_reach np env \<Longrightarrow> offers_ok env np offers \<Longrightarrow>
     poll_sources now offers np = (Inr Pending, effects, np') \<Longrightarrow> notif_reach np' env"
| event: "notif_reach np env \<Longrightarrow> offers_ok env np offers \<Longrightarrow> sv_ok sv env \<Longrightarrow>
     poll_sources (sv_now sv) offers np = (Inr (Ready input), sent, np1) \<Longrightarrow>
     handle_input sv input np1 = (stop, effects, np') \<Longrightarrow>
     notif_reach np' (effects_env effects (input_env input env))"

lemma step_good:
  assumes inv: "np_inv np env" and ok: "offers_ok env np offers" and sv: "sv_ok sv env"
    and poll: "poll_sources (sv_now sv) offers np = (Inr (Ready input), sent, np1)"
    and handle: "handle_input sv input np1 = (stop, effects, np')"
  shows "np_inv np' (effects_env effects (input_env input env)) \<and> AssertionFailed \<notin> set effects"
proof (cases rule: poll_sources_cases[OF inv ok poll])
  case (1 p ev svc)
  then have "snd (on_handshake_event sv p ev (np\<lparr>np_negotiation := svc\<rparr>)) = (effects, np')"
    using handle by (simp add: handle_input_def)
  then show ?thesis
    using on_handshake_event_good[OF inv 1(3,4), of sv] 1(1)
    by (cases "on_handshake_event sv p ev (np\<lparr>np_negotiation := svc\<rparr>)") simp
next
  case 2
  then show ?thesis
    using handle_input_good[OF 2(2) sv _ _ handle] select_input_ok[OF 2(3)] by auto
qed

lemma notif_reach_inv: "notif_reach np env \<Longrightarrow> np_inv np env"
proof (induction rule: notif_reach.induct)
  case (start protocol auto_accept should_dial sync_size async_size handshake)
  then show ?case
    by (simp add: np_inv_def np_core_def tracked_keys_def notification_protocol_new_def handshake_service_new_def hm_keys_def
        service_env_new_def)
next
  case (idle np env offers now effects np')
  from poll_sources_cases[OF idle.IH idle.hyps(2,3)] show ?case by cases auto
next
  case (event np env offers sv input sent np1 stop effects np')
  from step_good[OF event.IH event.hyps(2-5)] show ?case by blast
qed

subsection \<open>Properties\<close>

text \<open>
  C29: under the contract of the transport service, and as long as no shutdown notification of an old
  connection handler arrives after its peer has moved on, the event loop of the notification protocol
  is safe. Whatever the order of the events and the answers of the substreams, handling the next event
  does not panic, does not fail a debug assertion, leaves no peer in the state \<open>Poisoned\<close>, and keeps track
  of every outbound substream that is still opening: the state of its peer names it.
\<close>

theorem notification_loop_safe:
  assumes "notif_reach np env" and "offers_ok env np offers" and "sv_ok sv env"
    and "next_event sv offers np = (result, effects, np')"
  shows "(\<exists>answer. result = Inr answer) \<and> AssertionFailed \<notin> set effects
    \<and> (\<forall>peer. np_state np' peer \<noteq> Some Poisoned)
    \<and> (\<forall>substream peer. se_outstanding env substream = Some peer \<longrightarrow>
         hm_get (np_pending_outbound np) substream = Some peer
         \<and> (\<exists>state. np_state np peer = Some state \<and> pend state = Some substream))"
proof -
  have inv: "np_inv np env" by (rule notif_reach_inv[OF assms(1)])
  have owed: "hm_get (np_pending_outbound np) sid = Some p \<and> (\<exists>s. np_state np p = Some s \<and> pend s = Some sid)"
    if "se_outstanding env sid = Some p" for sid p
    using inv_outstanding[OF inv that] core_pending[OF inv_core[OF inv], of sid p] by (cases "np_state np p") auto
  obtain polled sent np1 where poll: "poll_sources (sv_now sv) offers np = (polled, sent, np1)"
    by (metis prod_cases3)
  have sent: "\<exists>answer. polled = Inr answer" "AssertionFailed \<notin> set sent"
    by (cases rule: poll_sources_cases[OF inv assms(2) poll]; simp)+
  then obtain answer where answer: "polled = Inr answer" by blast
  have "(\<exists>answer. result = Inr answer) \<and> AssertionFailed \<notin> set effects \<and> (\<exists>env'. np_inv np' env')"
  proof (cases answer)
    case Pending
    then have "notif_reach np1 env"
      using notif_reach.idle[OF assms(1,2)] poll answer by blast
    then show ?thesis
      using notif_reach_inv assms(4) poll answer Pending sent(2) by (auto simp: next_event_def)
  next
    case (Ready input)
    obtain stop effects1 np2 where handle: "handle_input sv input np1 = (stop, effects1, np2)"
      by (metis prod_cases3)
    show ?thesis
      using step_good[OF inv assms(2,3) poll[unfolded answer Ready] handle] assms(4) poll answer Ready handle sent(2)
      by (auto simp: next_event_def)
  qed
  then show ?thesis
    using owed core_live[OF inv_core] by blast
qed

definition no_offers :: np_offers where
  "no_offers = \<lparr>of_io = hs_quiet, of_order = \<lambda>m. m, of_shutdown = Pending, of_timer = Pending, of_service = Pending,
     of_validation = Pending, of_command = Pending\<rparr>"

definition first_protocol :: notification_protocol where
  "first_protocol = notification_protocol_new ''/notif/1'' False False 8 8 [1, 2]"

definition first_answers :: service_answers where
  "first_answers = \<lparr>sv_now = 0, sv_dial = \<lambda>_. False, sv_open = \<lambda>_. None\<rparr>"

lemma first_reached: "notif_reach first_protocol service_env_new"
  unfolding first_protocol_def by (rule notif_reach.start)

lemma notification_loop_safe_witness:
  "offers_ok service_env_new first_protocol (no_offers\<lparr>of_service := Ready (Some (TeConnectionEstablished hs_peer))\<rparr>)
   \<and> sv_ok first_answers service_env_new
   \<and> AssertionFailed \<notin> set (fst (snd (next_event first_answers
        (no_offers\<lparr>of_service := Ready (Some (TeConnectionEstablished hs_peer))\<rparr>) first_protocol)))
   \<and> np_state (snd (snd (next_event first_answers
        (no_offers\<lparr>of_service := Ready (Some (TeConnectionEstablished hs_peer))\<rparr>) first_protocol))) hs_peer
     = Some (PeerClosed None)"
proof -
  let ?offers = "no_offers\<lparr>of_service := Ready (Some (TeConnectionEstablished hs_peer))\<rparr>"
  have ok: "offers_ok service_env_new first_protocol ?offers"
    by (simp add: offers_ok_def no_offers_def iteration_order_id service_env_new_def)
  have sv: "sv_ok first_answers service_env_new"
    by (simp add: sv_ok_def first_answers_def)
  obtain result effects np' where step: "next_event first_answers ?offers first_protocol = (result, effects, np')"
    by (metis prod_cases3)
  have "np_state np' hs_peer = Some (PeerClosed None)"
    using step by (auto simp: next_event_def poll_sources_def hs_is_empty_def first_protocol_def
        notification_protocol_new_def handshake_service_new_def select_input_def no_offers_def handle_input_def
        on_transport_event_def np_on_connection_established_def)
  then show ?thesis
    using notification_loop_safe[OF first_reached ok sv step] ok sv step by simp
qed

end
