(* ===== verification/Notification_Answers.thy ===== *)
theory Notification_Answers
  imports Notification_Safety
begin

section \<open>Answers of the notification protocol to the user\<close>

text \<open>
  A user that asked for a notification stream, or accepted one, waits until the protocol reports
  that the stream is open or that it failed to open. The peer states in which an answer is due are
  \<open>awaiting\<close>; the lemmas relate the reports that every handler makes to the peer states before and
  after it. The second part shows three runs in which the protocol loses track of a peer.
\<close>

fun awaiting_state :: "npeer_state \<Rightarrow> bool" where
  "awaiting_state PeerDialing \<longleftrightarrow> True"
| "awaiting_state (OutboundInitiated _) \<longleftrightarrow> True"
| "awaiting_state (Validating _ _ outbound _ _) \<longleftrightarrow> outbound \<noteq> OutClosed"
| "awaiting_state _ \<longleftrightarrow> False"

definition awaiting :: "notification_protocol \<Rightarrow> peer_id \<Rightarrow> bool" where
  "awaiting np p \<longleftrightarrow> (case np_state np p of None \<Rightarrow> False | Some s \<Rightarrow> awaiting_state s)"

fun answer_for :: "notif_effect \<Rightarrow> peer_id option" where
  "answer_for (Report (StreamOpened _ _ _ peer _)) = Some peer"
| "answer_for (Report (StreamOpenFailure peer _)) = Some peer"
| "answer_for _ = None"

definition answers :: "peer_id \<Rightarrow> notif_effect list \<Rightarrow> nat" where
  "answers p effects = length (filter (\<lambda>e. answer_for e = Some p) effects)"

lemma answers_simps [simp]:
  "answers p [] = 0" "answers p (e # es) = (if answer_for e = Some p then Suc (answers p es) else answers p es)"
  "answers p (es @ es') = answers p es + answers p es'"
  by (simp_all add: answers_def)

lemma answers_check [simp]: "answers p (check b) = 0"
  by (simp add: check_def)

text \<open>The handler leaves every other peer alone.\<close>

definition only_peer :: "peer_id \<Rightarrow> notification_protocol \<Rightarrow> notif_effect list \<Rightarrow> notification_protocol \<Rightarrow> bool" where
  "only_peer p np effects np' \<longleftrightarrow>
     (\<forall>q. q \<noteq> p \<longrightarrow> np_state np' q = np_state np q \<and> answers q effects = 0)"

text \<open>An answer is given exactly when the peer stops awaiting one.\<close>

definition answered_once :: "bool \<Rightarrow> nat \<Rightarrow> bool \<Rightarrow> bool" where
  "answered_once before n after \<longleftrightarrow> n = (if before \<and> \<not> after then 1 else 0)"

text \<open>A request: the peer awaits an answer afterwards, or is answered at once, or is ignored.\<close>

definition requested :: "bool \<Rightarrow> nat \<Rightarrow> bool \<Rightarrow> bool" where
  "requested before n after \<longleftrightarrow> (if before then after \<and> n = 0 else n = 0 \<or> n = 1 \<and> \<not> after)"

definition exactly :: "(bool \<Rightarrow> nat \<Rightarrow> bool \<Rightarrow> bool) \<Rightarrow> peer_id \<Rightarrow> notification_protocol \<Rightarrow> np_outcome \<Rightarrow> bool" where
  "exactly R p np outcome \<longleftrightarrow>
     (case outcome of (_, effects, np') \<Rightarrow>
        only_peer p np effects np' \<and> R (awaiting np p) (answers p effects) (awaiting np' p))"

lemma exactly_simp [simp]:
  "exactly R p np (r, effects, np') \<longleftrightarrow>
     only_peer p np effects np' \<and> R (awaiting np p) (answers p effects) (awaiting np' p)"
  by (simp add: exactly_def)

lemma drop_negotiation_peers [simp]: "np_peers (drop_negotiation p np) = np_peers np"
  by (simp add: drop_negotiation_def)

lemmas answer_defs = only_peer_def awaiting_def answered_once_def requested_def

lemma on_open_substream_answers: "exactly requested p np (on_open_substream sv p np)"
  by (cases "np_state np p")
     (auto simp: on_open_substream_def answer_defs split: npeer_state.splits option.splits)

lemma on_open_substream_closed:
  "np_state np p = Some (PeerClosed None) \<Longrightarrow> exactly (\<lambda>_. answered_once True) p np (on_open_substream sv p np)"
  by (auto simp: on_open_substream_def answer_defs split: option.splits)

lemma on_connection_established_answers:
  assumes inv: "np_inv np env" and fresh: "p \<notin> se_connected env"
  shows "exactly answered_once p np (np_on_connection_established sv p np)"
proof (cases "np_state np p")
  case None
  then show ?thesis by (simp add: np_on_connection_established_def answer_defs)
next
  case (Some s)
  have "\<not> is_connected s"
    using fresh Some inv_connected[OF inv, of p] by auto
  then consider "s = PeerDialing" | "s = ValidationPending ConnClosed"
    by (auto simp: is_connected_def)
  then show ?thesis
  proof cases
    case 1
    then show ?thesis
      using Some on_open_substream_closed[of "set_state p (PeerClosed None) np" p sv]
      by (cases "on_open_substream sv p (set_state p (PeerClosed None) np)")
         (simp add: np_on_connection_established_def only_peer_def awaiting_def)
  next
    case 2
    then show ?thesis using Some by (simp add: np_on_connection_established_def answer_defs)
  qed
qed

lemma on_connection_closed_answers:
  assumes inv: "np_inv np env" and up: "p \<in> se_connected env"
  shows "exactly answered_once p np (np_on_connection_closed p np)"
proof -
  obtain s where s: "np_state np p = Some s" "is_connected s"
    using up inv_connected[OF inv] by blast
  then show ?thesis
    by (cases s)
       (auto simp: np_on_connection_closed_def Let_def answer_defs is_connected_def
          split: outbound_state.splits inbound_state.splits)
qed

lemma on_dial_failure_answers: "exactly answered_once p np (np_on_dial_failure p np)"
  by (auto simp: np_on_dial_failure_def answer_defs split: option.splits npeer_state.splits)

lemma on_inbound_substream_answers:
  "exactly answered_once p np (on_inbound_substream sv protocol fallback p substream np)"
  by (cases "np_state np p"; (cases "the (np_state np p)")?)
     (auto simp: on_inbound_substream_def Let_def answer_defs
        split: npeer_state.splits option.splits outbound_state.splits inbound_state.splits)

lemma inv_resolved_state:
  assumes inv: "np_inv np env" and out: "se_outstanding env sid = Some p"
  obtains s where "hm_get (np_pending_outbound np) sid = Some p" "np_state np p = Some s" "pend s = Some sid"
  using inv_outstanding[OF inv out] core_pending[OF inv_core[OF inv], of sid p] by (cases "np_state np p") auto

lemma on_outbound_substream_answers:
  assumes inv: "np_inv np env" and out: "se_outstanding env sid = Some p"
  shows "exactly answered_once p np (on_outbound_substream sv protocol fallback p sid substream np)"
proof -
  obtain s where s: "hm_get (np_pending_outbound np) sid = Some p" "np_state np p = Some s" "pend s = Some sid"
    by (rule inv_resolved_state[OF assms])
  then show ?thesis
    by (cases s)
       (auto simp: on_outbound_substream_def Let_def answer_defs split: outbound_state.splits inbound_state.splits)
qed

lemma on_substream_open_failure_answers:
  assumes inv: "np_inv np env" and out: "se_outstanding env sid = Some p"
  shows "exactly answered_once p np (on_substream_open_failure sid np)"
proof -
  obtain s where s: "hm_get (np_pending_outbound np) sid = Some p" "np_state np p = Some s" "pend s = Some sid"
    by (rule inv_resolved_state[OF assms])
  then show ?thesis
    by (cases s) (auto simp: on_substream_open_failure_def Let_def answer_defs split: outbound_state.splits)
qed

lemma on_close_substream_answers: "exactly answered_once p np (on_close_substream p np)"
  by (auto simp: on_close_substream_def answer_defs split: option.splits npeer_state.splits)

lemma on_timer_answers: "exactly answered_once p np (on_timer p np)"
  by (auto simp: on_timer_def answer_defs
      split: option.splits npeer_state.splits outbound_state.splits inbound_state.splits)

lemma on_shutdown_answers: "shutdown_ok np p \<Longrightarrow> exactly answered_once p np (on_shutdown p np)"
  by (auto simp: on_shutdown_def shutdown_ok_def answer_defs split: option.splits npeer_state.splits)

lemma on_validation_accept_answers: "exactly requested p np (on_validation_result sv p ValAccept np)"
  by (cases "np_state np p"; (cases "the (np_state np p)")?)
     (auto simp: on_validation_result_def answer_defs
        split: option.splits outbound_state.splits inbound_state.splits conn_state.splits)

text \<open>A rejection by the user is not answered.\<close>

definition withdrawn :: "bool \<Rightarrow> nat \<Rightarrow> bool \<Rightarrow> bool" where
  "withdrawn before n after \<longleftrightarrow> n = 0 \<and> (after \<longrightarrow> before)"

lemma on_validation_reject_answers: "exactly withdrawn p np (on_validation_result sv p ValReject np)"
  by (cases "np_state np p"; (cases "the (np_state np p)")?)
     (auto simp: on_validation_result_def answer_defs withdrawn_def
        split: option.splits outbound_state.splits inbound_state.splits conn_state.splits)

lemma finish_handshake_answers: "exactly answered_once p np (finish_handshake sv p np)"
  by (auto simp: finish_handshake_def answer_defs
      split: option.splits npeer_state.splits outbound_state.splits inbound_state.splits)

lemma exactly_via:
  assumes "exactly answered_once p np1 outcome" and "awaiting np1 p = awaiting np p"
    and "\<And>q. q \<noteq> p \<Longrightarrow> np_state np1 q = np_state np q"
  shows "exactly answered_once p np outcome"
  using assms by (cases outcome) (simp add: only_peer_def)

lemma after_effects_answers [simp]:
  "exactly answered_once p np (after_effects [Report (ValidateSubstream pr fb q h tx)] outcome) = exactly answered_once p np outcome"
  by (cases outcome) (simp add: after_effects_def only_peer_def)

lemma on_handshake_event_answers:
  assumes inv: "np_inv np env" and after: "hs_after (np_negotiation np) (Ready (p, ev)) svc"
  shows "exactly answered_once p np (on_handshake_event sv p ev (np\<lparr>np_negotiation := svc\<rparr>))"
proof (cases ev)
  case (Negotiated p' h sub d)
  note hs = hs_after_Negotiated[OF after[unfolded Negotiated]]
  obtain s where s: "np_state np p = Some s" "tracked s d"
    using hs(2) inv_keys[OF inv] by blast
  show ?thesis
  proof (cases d)
    case HsOutbound
    obtain pr fb inb dir where "s = Validating pr fb OutNegotiating inb dir"
      using tracked_outboundD s(2) HsOutbound by blast
    then show ?thesis
      using s(1) Negotiated HsOutbound
      by (auto simp: on_handshake_event_def awaiting_def intro!: exactly_via[OF finish_handshake_answers])
  next
    case HsInbound
    obtain pr fb out dir where "s = Validating pr fb out InReadingHandshake dir \<or> s = Validating pr fb out InSendingHandshake dir"
      using tracked_inboundD s(2) HsInbound by blast
    then show ?thesis
      using s(1) Negotiated HsInbound
      by (auto simp: on_handshake_event_def Let_def answer_defs simp del: exactly_simp
          intro!: exactly_via[OF finish_handshake_answers])
         (auto simp: answer_defs)
  qed
next
  case (NegotiationError p' d)
  then have p': "p' = p" and "(p, d) \<in> hm_keys (hs_substreams (np_negotiation np))"
    using after by (auto simp: hs_after_def)
  then obtain s where s: "np_state np p = Some s" "tracked s d"
    using inv_keys[OF inv] by blast
  then obtain pr fb out inb dir where "s = Validating pr fb out inb dir"
    using tracked_outboundD[of s] tracked_inboundD[of s] by (cases d) blast+
  then show ?thesis
    using s(1) NegotiationError p'
    by (cases "out = OutClosed")
       (auto simp: on_handshake_event_def Let_def awaiting_def answered_once_def only_peer_def
          intro!: exactly_via[OF finish_handshake_answers])
qed

subsection \<open>One turn of the event loop\<close>

lemma for_peers_other:
  assumes "\<And>p np r effects np'. f p np = (r, effects, np') \<Longrightarrow> only_peer p np effects np'"
    and "for_peers f ps np = (effects, np')" and "q \<notin> set ps"
  shows "np_state np' q = np_state np q \<and> answers q effects = 0"
  using assms(2,3)
proof (induction ps arbitrary: np effects)
  case (Cons p ps)
  obtain r effects1 np1 where first: "f p np = (r, effects1, np1)"
    by (metis prod_cases3)
  then show ?case
    using Cons assms(1)[OF first] by (auto simp: only_peer_def split: prod.splits)
qed auto

lemma for_peers_member:
  assumes only: "\<And>p np r effects np'. f p np = (r, effects, np') \<Longrightarrow> only_peer p np effects np'"
    and R: "\<And>p np. exactly R p np (f p np)"
    and run: "for_peers f ps np = (effects, np')" and q: "q \<in> set ps" and d: "distinct ps"
  shows "R (awaiting np q) (answers q effects) (awaiting np' q)"
  using run q d
proof (induction ps arbitrary: np effects)
  case (Cons p ps)
  obtain r effects1 np1 where first: "f p np = (r, effects1, np1)"
    by (metis prod_cases3)
  obtain effects2 where rest: "for_peers f ps np1 = (effects2, np')" "effects = effects1 @ effects2"
    using Cons.prems(1) first by (auto split: prod.splits)
  show ?case
  proof (cases "q = p")
    case True
    then have "np_state np' q = np_state np1 q \<and> answers q effects2 = 0"
      using for_peers_other[OF only rest(1), where q = q] Cons.prems(3) by auto
    then show ?thesis
      using R[of p np] first rest True by (simp add: awaiting_def)
  next
    case False
    then show ?thesis
      using Cons.IH[OF rest(1)] Cons.prems(2,3) only[OF first] rest(2) by (auto simp: only_peer_def awaiting_def)
  qed
qed auto

fun answer_contract ::
  "np_input \<Rightarrow> notification_protocol \<Rightarrow> peer_id \<Rightarrow> bool \<Rightarrow> nat \<Rightarrow> bool \<Rightarrow> bool" where
  "answer_contract (OfCommand (Some (OpenSubstream peers))) np p =
     (if p \<in> set peers then requested else answered_once)"
| "answer_contract (OfValidation i ValAccept) np p =
     (if i < length (np_pending_validations np) \<and> snd (np_pending_validations np ! i) = p then requested else answered_once)"
| "answer_contract (OfValidation i ValReject) np p =
     (if i < length (np_pending_validations np) \<and> snd (np_pending_validations np ! i) = p then withdrawn else answered_once)"
| "answer_contract _ np p = answered_once"

lemma contract_other:
  "only_peer p np effects np' \<Longrightarrow> q \<noteq> p \<Longrightarrow> answered_once (awaiting np q) (answers q effects) (awaiting np' q)"
  by (simp add: only_peer_def answered_once_def awaiting_def)

lemma contract_peer:
  assumes "exactly R p np outcome" and "snd outcome = (effects, np')"
  shows "(if q = p then R else answered_once) (awaiting np q) (answers q effects) (awaiting np' q)"
  using assms contract_other[of p np effects np' q] by (cases outcome) auto

lemma for_peers_contract:
  assumes R: "\<And>p np. exactly R p np (f p np)" and run: "for_peers f ps np = (effects, np')"
    and d: "distinct ps"
  shows "(if q \<in> set ps then R else answered_once) (awaiting np q) (answers q effects) (awaiting np' q)"
proof -
  have only: "only_peer p np1 e np2" if "f p np1 = (r, e, np2)" for p np1 r e np2
    using R[of p np1] that by simp
  show ?thesis
    using for_peers_member[OF only R run _ d, where q = q] for_peers_other[OF only run, where q = q]
    by (auto simp: answered_once_def awaiting_def)
qed

lemma for_peers_close_answers:
  assumes "for_peers on_close_substream ps np = (effects, np')"
  shows "answered_once (awaiting np q) (answers q effects) (awaiting np' q)"
  using assms
proof (induction ps arbitrary: np effects)
  case (Cons p ps)
  obtain r effects1 np1 where first: "on_close_substream p np = (r, effects1, np1)"
    by (metis prod_cases3)
  have "awaiting np1 q = awaiting np q \<and> answers q effects1 = 0"
    using first by (auto simp: on_close_substream_def awaiting_def split: option.splits npeer_state.splits if_splits)
  then show ?case
    using Cons.IH[of np1] Cons.prems first by (fastforce split: prod.splits)
qed (simp add: answered_once_def)

lemma on_transport_event_answers:
  assumes "np_inv np env" and "te_ok env ev" and "snd (on_transport_event sv ev np) = (effects, np')"
  shows "answered_once (awaiting np q) (answers q effects) (awaiting np' q)"
proof -
  have one: "answered_once (awaiting np q) (answers q effects) (awaiting np' q)"
    if "exactly answered_once p np outcome" "snd outcome = (effects, np')" for p outcome
    using contract_peer[OF that, of q] by (auto split: if_splits)
  show ?thesis
    using assms
    by (cases ev)
       (auto simp: on_transport_event_def
          intro: one[OF on_connection_established_answers] one[OF on_connection_closed_answers]
            one[OF on_inbound_substream_answers] one[OF on_outbound_substream_answers]
            one[OF on_substream_open_failure_answers] one[OF on_dial_failure_answers])
qed

lemma handle_input_answers:
  assumes inv: "np_inv np env" and ok: "input_ok env np input"
    and not_hs: "\<And>p ev. input \<noteq> OfNegotiation p ev"
    and eq: "handle_input sv input np = (stop, effects, np')"
  shows "answer_contract input np q (awaiting np q) (answers q effects) (awaiting np' q)"
proof -
  have one: "answered_once (awaiting np q) (answers q effects) (awaiting np' q)"
    if "exactly answered_once p np outcome" "snd outcome = (effects, np')" for p outcome
    using contract_peer[OF that, of q] by (auto split: if_splits)
  show ?thesis
  proof (cases input)
    case (OfNegotiation p ev)
    then show ?thesis using not_hs by simp
  next
    case (OfShutdown so)
    then show ?thesis
      using ok eq one[OF on_shutdown_answers] by (cases so) (auto simp: handle_input_def answered_once_def)
  next
    case (OfTimer i)
    let ?np = "np\<lparr>np_timers := remove_nth i (np_timers np)\<rparr>"
    have "awaiting ?np q = awaiting np q" by (simp add: awaiting_def)
    then show ?thesis
      using OfTimer eq contract_peer[OF on_timer_answers[of "snd (np_timers np ! i)" ?np], of effects np' q]
      by (auto simp: handle_input_def answered_once_def split: if_splits)
  next
    case (OfService so)
    then show ?thesis
      using inv ok eq on_transport_event_answers[OF inv, of _ sv effects np' q]
      by (cases so) (auto simp: handle_input_def answered_once_def)
  next
    case (OfValidation i result)
    let ?np = "np\<lparr>np_pending_validations := remove_nth i (np_pending_validations np)\<rparr>"
    let ?p = "snd (np_pending_validations np ! i)"
    have "awaiting ?np q = awaiting np q" by (simp add: awaiting_def)
    then show ?thesis
      using OfValidation eq contract_peer[OF on_validation_accept_answers[of ?p ?np sv], of effects np' q]
        contract_peer[OF on_validation_reject_answers[of ?p ?np sv], of effects np' q]
      by (cases result) (auto simp: handle_input_def answered_once_def split: if_splits)
  next
    case (OfCommand so)
    show ?thesis
    proof (cases so)
      case None
      then show ?thesis using OfCommand eq by (auto simp: handle_input_def answered_once_def)
    next
      case (Some command)
      then show ?thesis
        using OfCommand ok eq for_peers_contract[OF on_open_substream_answers[of _ _ sv]] for_peers_close_answers
        by (cases command) (auto simp: handle_input_def on_command_def answered_once_def)
    qed
  qed
qed



subsection \<open>Runs in which a peer is lost\<close>

fun run_inputs ::
  "(service_answers \<times> np_input) list \<Rightarrow> notification_protocol \<Rightarrow> notif_effect list \<times> notification_protocol" where
  "run_inputs [] np = ([], np)"
| "run_inputs ((sv, input) # inputs) np =
     (let (_, effects, np1) = handle_input sv input np; (effects', np2) = run_inputs inputs np1
      in (effects @ effects', np2))"

definition sv_answering :: "substream_id \<Rightarrow> service_answers" where
  "sv_answering substream = \<lparr>sv_now = 0, sv_dial = \<lambda>_. True, sv_open = \<lambda>_. Some substream\<rparr>"

lemmas handler_defs =
  handle_input_def on_transport_event_def on_command_def np_on_connection_established_def np_on_connection_closed_def
  on_open_substream_def on_inbound_substream_def on_outbound_substream_def on_handshake_event_def
  on_validation_result_def on_shutdown_def finish_handshake_def after_effects_def drop_negotiation_def
  remove_inbound_def remove_outbound_def read_handshake_def negotiate_outbound_def send_handshake_def
  remove_nth_def sv_answering_def notification_protocol_new_def handshake_service_new_def

text \<open>
  A failed outbound substream stays pending. When the outbound substream of a peer fails to open
  while an inbound substream of the peer is handled, the failure is reported and the peer is closed, but
  its state keeps the identifier of the failed substream although the substream is not pending any more.
  From then on every inbound substream of the peer is closed at once, and a command to open a
  substream asks the transport for nothing: it waits for the substream that has failed.
\<close>

lemma failed_substream_stays_pending:
  assumes "np_state np peer = Some (Validating protocol fallback (OutInitiated substream_id) inbound direction)"
    and "hm_get (np_pending_outbound np) substream_id = Some peer"
  shows "\<exists>np'. on_substream_open_failure substream_id np = (Inr (), [open_failure peer ErrRejected], np')
    \<and> np_state np' peer = Some (PeerClosed (Some substream_id))
    \<and> hm_get (np_pending_outbound np') substream_id = None
    \<and> (\<forall>sv protocol' fallback' substream.
         on_inbound_substream sv protocol' fallback' peer substream np' = (Inr (), [CloseStream substream], np'))
    \<and> (\<forall>sv. \<exists>np''. on_open_substream sv peer np' = (Inr (), [], np'')
         \<and> np_state np'' peer = Some (OutboundInitiated substream_id))"
  using assms
  by (simp add: on_substream_open_failure_def on_inbound_substream_def on_open_substream_def Let_def
      drop_negotiation_def)

definition simultaneous :: notification_protocol where
  "simultaneous = snd (run_inputs
     [(sv_answering 3, OfService (Some (TeConnectionEstablished hs_peer))),
      (sv_answering 3, OfCommand (Some (OpenSubstream [hs_peer]))),
      (sv_answering 3, OfService (Some (TeInbound hs_peer ''/notif/1'' None 7)))] first_protocol)"

text \<open>
  A shutdown notification that arrives after the peer has opened a new substream drops the peer state
  but not the handshake that is being read: when that handshake completes, the assertion fails and the peer
  is poisoned. A poisoned peer ignores commands to open a substream without an answer, and closes
  inbound substreams.
\<close>

lemma stale_shutdown_poisons:
  assumes "np_state np peer = Some (Validating protocol fallback OutClosed InReadingHandshake direction)"
    and "(peer, HsInbound) \<in> hm_keys (hs_substreams (np_negotiation np))"
  shows "\<exists>np1 np2. on_shutdown peer np = (Inr (), [], np1)
    \<and> (peer, HsInbound) \<in> hm_keys (hs_substreams (np_negotiation np1))
    \<and> on_handshake_event sv peer (Negotiated peer handshake substream HsInbound) np1 = (Inr (), [AssertionFailed], np2)
    \<and> np_state np2 peer = Some Poisoned
    \<and> (\<forall>sv. on_open_substream sv peer np2 = (Inr (), [], np2))
    \<and> (\<forall>sv protocol' fallback' substream'.
         on_inbound_substream sv protocol' fallback' peer substream' np2 = (Inr (), [CloseStream substream'], np2))"
  using assms
  by (simp add: on_shutdown_def on_handshake_event_def on_open_substream_def on_inbound_substream_def
      finish_handshake_def after_effects_def)

definition reconnect_inputs ::
  "peer_id \<Rightarrow> string \<Rightarrow> substream_id \<Rightarrow> substream \<Rightarrow> handshake \<Rightarrow> substream \<Rightarrow> handshake
   \<Rightarrow> (service_answers \<times> np_input) list" where
  "reconnect_inputs p protocol a s1 h1 s2 h2 =
     [(sv_answering a, OfService (Some (TeConnectionEstablished p))),
      (sv_answering a, OfCommand (Some (OpenSubstream [p]))),
      (sv_answering a, OfService (Some (TeInbound p protocol None s1))),
      (sv_answering a, OfNegotiation p (Negotiated p h1 s1 HsInbound)),
      (sv_answering a, OfService (Some (TeConnectionClosed p))),
      (sv_answering a, OfService (Some (TeConnectionEstablished p))),
      (sv_answering a, OfService (Some (TeInbound p protocol None s2))),
      (sv_answering a, OfNegotiation p (Negotiated p h2 s2 HsInbound))]"

text \<open>
  The result of a validation names the peer, not the substream. The user opens a substream to a peer whose
  inbound substream \<open>s1\<close> it is asked to validate; the connection closes, so the peer is forgotten although
  the validation is pending; the peer reconnects and its substream \<open>s2\<close> is sent for validation on a
  second channel. The handle of the user drops the first channel when it stores the second, which counts as
  a rejection: it closes \<open>s2\<close>. When the user then accepts \<open>s2\<close>, nothing happens and no answer is given.
\<close>

lemma stale_validation_rejects:
  shows "\<exists>np1 np2.
      run_inputs (reconnect_inputs p protocol a s1 h1 s2 h2) (notification_protocol_new protocol False True 1 1 local)
        = ([OpenedOutbound p a, Report (ValidateSubstream protocol None p h1 0),
            open_failure p ErrRejected, Report (ValidateSubstream protocol None p h2 1)], np1)
      \<and> np_pending_validations np1 = [(0, p), (1, p)]
      \<and> handle_input sv (OfValidation 0 ValReject) np1 = (False, [CloseStream s2], np2)
      \<and> np_pending_validations np2 = [(1, p)]
      \<and> (\<exists>np3. handle_input sv (OfValidation 0 ValAccept) np2 = (False, [], np3))"
  by (simp add: reconnect_inputs_def handler_defs)

end
