(* ===== verification/Notification_Handle.thy ===== *)
theory Notification_Handle
  imports Notification
begin

section \<open>The connection handler and the user handle of the notification protocol\<close>

text \<open>
  \<open>src/protocol/notification/connection.rs\<close>: the task that owns the two substreams of an open stream,
  writes the notifications of the two channels of the user to the outbound substream and passes what it
  reads from the inbound one to the user. A bounded channel is the list of what it holds with a flag that
  its sender is gone. In one call of \<open>poll_next\<close> the outbound substream is asked once per notification,
  so its answers are functions of the number of the question; \<open>cio_async_first\<close> is the branch that the unbiased
  \<open>select!\<close> polls first.

  \<open>src/protocol/notification/handle.rs\<close>: the handle with which the user sends commands and receives events.
  The commands a call sends are returned with its result; \<open>try_send\<close> on the command channel answers
  with its argument \<open>full\<close>.
\<close>

subsection \<open>The connection handler\<close>

type_synonym notification = "u8 list"

record notif_channel =
  ch_items :: "notification list"
  ch_closed :: bool

record notif_connection =
  cn_peer :: peer_id
  cn_inbound :: substream
  cn_outbound :: substream
  cn_async_rx :: notif_channel
  cn_sync_rx :: notif_channel
  cn_shutdown :: bool
  cn_next_notification :: "notification option"

datatype notify_protocol = NotifyYes | NotifyNo

datatype connection_event = CloseConnection notify_protocol | NotificationRead notification

record connection_io =
  cio_async_first :: "nat \<Rightarrow> bool"
  cio_ready :: "nat \<Rightarrow> (unit, unit) result poll"
  cio_send :: "nat \<Rightarrow> (unit, unit) result"
  cio_flush :: "(unit, unit) result poll"
  cio_reserve :: "(unit, unit) result poll"
  cio_inbound :: "(unit, notification) result option poll"

definition notif_connection_new ::
  "peer_id \<Rightarrow> substream \<Rightarrow> substream \<Rightarrow> notif_channel \<Rightarrow> notif_channel \<Rightarrow> notif_connection" where
  "notif_connection_new peer inbound outbound async_rx sync_rx =
     \<lparr>cn_peer = peer, cn_inbound = inbound, cn_outbound = outbound, cn_async_rx = async_rx, cn_sync_rx = sync_rx,
      cn_shutdown = False, cn_next_notification = None\<rparr>"

definition ch_recv :: "notif_channel \<Rightarrow> notification option poll \<times> notif_channel" where
  "ch_recv ch =
     (case ch_items ch of
        item # items \<Rightarrow> (Ready (Some item), ch\<lparr>ch_items := items\<rparr>)
      | [] \<Rightarrow> (if ch_closed ch then Ready None else Pending, ch))"

definition recv_async :: "notif_connection \<Rightarrow> notification option poll \<times> notif_connection" where
  "recv_async cn = (let (answer, ch) = ch_recv (cn_async_rx cn) in (answer, cn\<lparr>cn_async_rx := ch\<rparr>))"

definition recv_sync :: "notif_connection \<Rightarrow> notification option poll \<times> notif_connection" where
  "recv_sync cn = (let (answer, ch) = ch_recv (cn_sync_rx cn) in (answer, cn\<lparr>cn_sync_rx := ch\<rparr>))"

definition select_notification :: "bool \<Rightarrow> notif_connection \<Rightarrow> notification option poll \<times> notif_connection" where
  "select_notification async_first cn =
     (if async_first
      then (case recv_async cn of (Pending, cn1) \<Rightarrow> recv_sync cn1 | answered \<Rightarrow> answered)
      else (case recv_sync cn of (Pending, cn1) \<Rightarrow> recv_async cn1 | answered \<Rightarrow> answered))"

text \<open>The notification to send next: \<open>Inl\<close> is the end of a channel, \<open>Inr None\<close> that there is none.\<close>

definition take_notification :: "bool \<Rightarrow> notif_connection \<Rightarrow> (unit, notification option) result \<times> notif_connection" where
  "take_notification async_first cn =
     (case cn_next_notification cn of
        Some notification \<Rightarrow> (Inr (Some notification), cn\<lparr>cn_next_notification := None\<rparr>)
      | None \<Rightarrow>
          (case select_notification async_first cn of
             (Pending, cn1) \<Rightarrow> (Inr None, cn1)
           | (Ready None, cn1) \<Rightarrow> (Inl (), cn1)
           | (Ready (Some notification), cn1) \<Rightarrow> (Inr (Some notification), cn1)))"

definition cn_backlog :: "notif_connection \<Rightarrow> nat" where
  "cn_backlog cn = length (ch_items (cn_async_rx cn)) + length (ch_items (cn_sync_rx cn))
     + (case cn_next_notification cn of None \<Rightarrow> 0 | Some _ \<Rightarrow> 1)"

lemma take_notification_backlog:
  "take_notification async_first cn = (Inr (Some notification), cn1) \<Longrightarrow>
   cn_backlog cn = Suc (cn_backlog cn1) \<and> cn_next_notification cn1 = None"
  by (auto simp: take_notification_def select_notification_def recv_async_def recv_sync_def ch_recv_def cn_backlog_def
      split: option.splits list.splits if_splits poll.splits prod.splits)

text \<open>
  The loop that sends the waiting notifications: whether the connection has to be closed, the
  notifications passed to the outbound substream and the connection.
\<close>

function send_loop :: "connection_io \<Rightarrow> nat \<Rightarrow> notif_connection \<Rightarrow> bool \<times> notification list \<times> notif_connection" where
  "send_loop io i cn =
     (case take_notification (cio_async_first io i) cn of
        (Inl _, cn1) \<Rightarrow> (True, [], cn1)
      | (Inr None, cn1) \<Rightarrow> (False, [], cn1)
      | (Inr (Some notification), cn1) \<Rightarrow>
          (case cio_ready io i of
             Pending \<Rightarrow> (False, [], cn1\<lparr>cn_next_notification := Some notification\<rparr>)
           | Ready (Inl _) \<Rightarrow> (True, [], cn1)
           | Ready (Inr _) \<Rightarrow>
               (case cio_send io i of
                  Inl _ \<Rightarrow> (True, [], cn1)
                | Inr _ \<Rightarrow>
                    (let (close, sent, cn2) = send_loop io (Suc i) cn1
                     in (close, notification # sent, cn2)))))"
  by pat_completeness auto
termination
  by (relation "measure (\<lambda>(io, i, cn). cn_backlog cn)") (auto dest!: take_notification_backlog[OF sym])

declare send_loop.simps [simp del]

definition connection_poll_next ::
  "connection_io \<Rightarrow> notif_connection \<Rightarrow> connection_event poll \<times> notification list \<times> notif_connection" where
  "connection_poll_next io cn =
     (if cn_shutdown cn then (Ready (CloseConnection NotifyNo), [], cn)
      else
        (case send_loop io 0 cn of
           (True, sent, cn1) \<Rightarrow> (Ready (CloseConnection NotifyYes), sent, cn1)
         | (False, sent, cn1) \<Rightarrow>
             if cio_flush io = Ready (Inl ()) then (Ready (CloseConnection NotifyYes), sent, cn1)
             else
               (case cio_reserve io of
                  Pending \<Rightarrow> (Pending, sent, cn1)
                | Ready (Inl _) \<Rightarrow> (Ready (CloseConnection NotifyYes), sent, cn1)
                | Ready (Inr _) \<Rightarrow>
                    (case cio_inbound io of
                       Pending \<Rightarrow> (Pending, sent, cn1)
                     | Ready None \<Rightarrow> (Ready (CloseConnection NotifyYes), sent, cn1)
                     | Ready (Some (Inl _)) \<Rightarrow> (Ready (CloseConnection NotifyYes), sent, cn1)
                     | Ready (Some (Inr notification)) \<Rightarrow> (Ready (NotificationRead notification), sent, cn1)))))"

datatype connection_effect =
    NotifyUser peer_id notification
  | CloseSubstreams substream substream
  | NotifyShutdown peer_id
  | ReportClosed peer_id

definition close_connection :: "notify_protocol \<Rightarrow> notif_connection \<Rightarrow> connection_effect list" where
  "close_connection notify cn =
     [CloseSubstreams (cn_inbound cn) (cn_outbound cn)]
     @ (if notify = NotifyYes then [NotifyShutdown (cn_peer cn)] else []) @ [ReportClosed (cn_peer cn)]"

text \<open>One turn of \<open>start\<close>: whether the task ends, its effects. \<open>user_gone\<close> is a failure of \<open>send_item\<close>.\<close>

definition connection_turn ::
  "bool \<Rightarrow> connection_event option \<Rightarrow> notif_connection \<Rightarrow> bool \<times> connection_effect list" where
  "connection_turn user_gone event cn =
     (case event of
        None \<Rightarrow> (True, close_connection NotifyYes cn)
      | Some (CloseConnection notify) \<Rightarrow> (True, close_connection notify cn)
      | Some (NotificationRead notification) \<Rightarrow>
          if user_gone then (True, close_connection NotifyYes cn)
          else (False, [NotifyUser (cn_peer cn) notification]))"

text \<open>Users that push notifications on the two channels, interleaved with the handler being polled.\<close>

datatype cn_op = PushAsync notification | PushSync notification | PollOp connection_io

fun cn_run :: "cn_op list \<Rightarrow> notif_connection \<Rightarrow> (notification list \<times> notif_connection) option" where
  "cn_run [] cn = Some ([], cn)"
| "cn_run (PushAsync n # ops) cn =
     cn_run ops (cn\<lparr>cn_async_rx := (cn_async_rx cn)\<lparr>ch_items := ch_items (cn_async_rx cn) @ [n]\<rparr>\<rparr>)"
| "cn_run (PushSync n # ops) cn =
     cn_run ops (cn\<lparr>cn_sync_rx := (cn_sync_rx cn)\<lparr>ch_items := ch_items (cn_sync_rx cn) @ [n]\<rparr>\<rparr>)"
| "cn_run (PollOp io # ops) cn =
     (case connection_poll_next io cn of
        (Ready (CloseConnection _), _, _) \<Rightarrow> None
      | (_, sent, cn1) \<Rightarrow> map_option (\<lambda>(sent', cn2). (sent @ sent', cn2)) (cn_run ops cn1))"

fun pushed_async :: "cn_op list \<Rightarrow> notification list" where
  "pushed_async [] = []"
| "pushed_async (PushAsync n # ops) = n # pushed_async ops"
| "pushed_async (_ # ops) = pushed_async ops"

fun pushed_sync :: "cn_op list \<Rightarrow> notification list" where
  "pushed_sync [] = []"
| "pushed_sync (PushSync n # ops) = n # pushed_sync ops"
| "pushed_sync (_ # ops) = pushed_sync ops"

abbreviation held :: "notif_connection \<Rightarrow> notification list" where
  "held cn \<equiv> (case cn_next_notification cn of None \<Rightarrow> [] | Some n \<Rightarrow> [n])"

abbreviation async_items :: "notif_connection \<Rightarrow> notification list" where
  "async_items cn \<equiv> ch_items (cn_async_rx cn)"

abbreviation sync_items :: "notif_connection \<Rightarrow> notification list" where
  "sync_items cn \<equiv> ch_items (cn_sync_rx cn)"

lemma shuffles_append:
  "xs \<in> shuffles a b \<Longrightarrow> ys \<in> shuffles c d \<Longrightarrow> xs @ ys \<in> shuffles (a @ c) (b @ d)"
proof (induction a b arbitrary: xs rule: shuffles.induct)
  case (1 ys')
  then show ?case
    by (induction ys' arbitrary: xs) (auto intro: Cons_in_shuffles_rightI)
next
  case (2 xs')
  then show ?case
    by (induction xs' arbitrary: xs) (auto intro: Cons_in_shuffles_leftI)
next
  case (3 x xs' y ys')
  then show ?case
    by (auto simp: Cons_in_shuffles_leftI Cons_in_shuffles_rightI)
qed

text \<open>
  What moved from the channels to the outbound substream between two states of a connection:
  \<open>a\<close> of the asynchronous and \<open>b\<close> of the synchronous channel, interleaved.
\<close>

definition forwarded :: "notif_connection \<Rightarrow> notification list \<Rightarrow> notif_connection \<Rightarrow> notification list \<Rightarrow> notification list \<Rightarrow> bool" where
  "forwarded cn sent cn' a b \<longleftrightarrow>
     (\<exists>w \<in> shuffles a b. sent @ held cn' = held cn @ w)"

lemma take_notification_spec:
  assumes "take_notification first cn = (Inr (Some n), cn1)"
  shows "cn_next_notification cn1 = None
    \<and> (cn_next_notification cn = Some n \<and> async_items cn1 = async_items cn \<and> sync_items cn1 = sync_items cn
       \<or> cn_next_notification cn = None \<and> async_items cn = n # async_items cn1 \<and> sync_items cn1 = sync_items cn
       \<or> cn_next_notification cn = None \<and> sync_items cn = n # sync_items cn1 \<and> async_items cn1 = async_items cn)"
  using assms
  by (auto simp: take_notification_def select_notification_def recv_async_def recv_sync_def ch_recv_def
      split: option.splits list.splits if_splits poll.splits prod.splits)

lemma take_notification_none:
  "take_notification first cn = (Inr None, cn1) \<Longrightarrow>
   cn_next_notification cn = None \<and> cn_next_notification cn1 = None
   \<and> async_items cn1 = async_items cn \<and> sync_items cn1 = sync_items cn"
  by (auto simp: take_notification_def select_notification_def recv_async_def recv_sync_def ch_recv_def
      split: option.splits list.splits if_splits poll.splits prod.splits)

lemma send_loop_forwards:
  "send_loop io i cn = (False, sent, cn') \<Longrightarrow>
   \<exists>a b. async_items cn = a @ async_items cn' \<and> sync_items cn = b @ sync_items cn' \<and> forwarded cn sent cn' a b"
proof (induction io i cn arbitrary: sent rule: send_loop.induct)
  case (1 io i cn)
  obtain taken cn1 where taken: "take_notification (cio_async_first io i) cn = (taken, cn1)"
    by (metis surj_pair)
  show ?case
  proof (cases taken)
    case (Inl u)
    then show ?thesis using 1(2) taken by (simp add: send_loop.simps)
  next
    case (Inr so)
    show ?thesis
    proof (cases so)
      case None
      then show ?thesis
        using 1(2) taken Inr take_notification_none[of "cio_async_first io i" cn cn1]
        by (auto simp: send_loop.simps[of io i cn] forwarded_def)
    next
      case (Some n)
      note spec = take_notification_spec[OF taken[unfolded Inr Some]]
      show ?thesis
      proof (cases "cio_ready io i")
        case Pending
        then have "sent = []" "cn' = cn1\<lparr>cn_next_notification := Some n\<rparr>"
          using 1(2) taken Inr Some by (auto simp: send_loop.simps[of io i cn])
        then show ?thesis
          using spec by (auto simp: forwarded_def)
      next
        case (Ready r)
        then obtain u sent' where r: "r = Inr u" "cio_send io i = Inr ()" "send_loop io (Suc i) cn1 = (False, sent', cn')"
          "sent = n # sent'"
          using 1(2) taken Inr Some by (auto simp: send_loop.simps[of io i cn] split: sum.splits prod.splits)
        obtain a b where ab: "async_items cn1 = a @ async_items cn'" "sync_items cn1 = b @ sync_items cn'"
          "forwarded cn1 sent' cn' a b"
          using 1(1)[OF taken[symmetric] Inr Some Ready r(1,2,3)] by blast
        then have w: "sent' @ held cn' \<in> shuffles a b"
          using spec by (auto simp: forwarded_def)
        from spec consider
          "held cn = [n]" "async_items cn = a @ async_items cn'" "sync_items cn = b @ sync_items cn'"
        | "held cn = []" "async_items cn = (n # a) @ async_items cn'" "sync_items cn = b @ sync_items cn'"
        | "held cn = []" "async_items cn = a @ async_items cn'" "sync_items cn = (n # b) @ sync_items cn'"
          using ab by auto
        then show ?thesis
          using w r(4) by cases (fastforce simp: forwarded_def intro: Cons_in_shuffles_leftI Cons_in_shuffles_rightI)+
      qed
    qed
  qed
qed

lemma connection_poll_forwards:
  assumes "connection_poll_next io cn = (answer, sent, cn')" and "\<And>notify. answer \<noteq> Ready (CloseConnection notify)"
  shows "\<exists>a b. async_items cn = a @ async_items cn' \<and> sync_items cn = b @ sync_items cn' \<and> forwarded cn sent cn' a b"
  using assms
  by (auto simp: connection_poll_next_def dest!: send_loop_forwards
      split: if_splits prod.splits bool.splits poll.splits sum.splits option.splits)

lemma cn_run_forwards:
  "cn_run ops cn = Some (sent, cn') \<Longrightarrow>
   \<exists>a b. async_items cn @ pushed_async ops = a @ async_items cn'
     \<and> sync_items cn @ pushed_sync ops = b @ sync_items cn' \<and> forwarded cn sent cn' a b"
proof (induction ops arbitrary: cn sent)
  case Nil
  then show ?case by (auto simp: forwarded_def)
next
  case (Cons op ops)
  show ?case
  proof (cases op)
    case (PushAsync n)
    then show ?thesis
      using Cons.prems by (auto dest!: Cons.IH simp: forwarded_def)
  next
    case (PushSync n)
    then show ?thesis
      using Cons.prems by (auto dest!: Cons.IH simp: forwarded_def)
  next
    case (PollOp io)
    obtain answer sent1 cn1 where poll: "connection_poll_next io cn = (answer, sent1, cn1)"
      by (metis prod_cases3)
    obtain sent2 where go: "\<And>notify. answer \<noteq> Ready (CloseConnection notify)" "cn_run ops cn1 = Some (sent2, cn')"
      "sent = sent1 @ sent2"
      using Cons.prems PollOp poll by (auto split: poll.splits connection_event.splits)
    obtain a1 b1 where one: "async_items cn = a1 @ async_items cn1" "sync_items cn = b1 @ sync_items cn1"
      "forwarded cn sent1 cn1 a1 b1"
      using connection_poll_forwards[OF poll go(1)] by blast
    obtain a2 b2 where two: "async_items cn1 @ pushed_async ops = a2 @ async_items cn'"
      "sync_items cn1 @ pushed_sync ops = b2 @ sync_items cn'" "forwarded cn1 sent2 cn' a2 b2"
      using Cons.IH[OF go(2)] by blast
    have "forwarded cn sent cn' (a1 @ a2) (b1 @ b2)"
      using one(3) two(3) go(3) shuffles_append[of _ a1 b1 _ a2 b2] unfolding forwarded_def
      by (metis append.assoc)
    then show ?thesis
      using one two PollOp by (intro exI[of _ "a1 @ a2"] exI[of _ "b1 @ b2"]) simp
  qed
qed

text \<open>
  C32: while the connection handler of a notification stream runs, it loses, repeats and reorders nothing. However
  the user interleaves its asynchronous and synchronous sends with the handler being polled, and whatever
  the outbound substream answers: what was passed to the outbound substream, followed by the notification
  the handler holds back while the substream is not ready, is an interleaving of a prefix of the
  asynchronous sends and a prefix of the synchronous sends, and the rest still waits in the two channels.
\<close>

theorem notifications_forwarded_in_order:
  assumes "cn_run ops (notif_connection_new peer inbound outbound
      \<lparr>ch_items = [], ch_closed = False\<rparr> \<lparr>ch_items = [], ch_closed = False\<rparr>) = Some (sent, cn)"
  shows "\<exists>a b. pushed_async ops = a @ ch_items (cn_async_rx cn) \<and> pushed_sync ops = b @ ch_items (cn_sync_rx cn)
    \<and> sent @ (case cn_next_notification cn of None \<Rightarrow> [] | Some n \<Rightarrow> [n]) \<in> shuffles a b"
  using cn_run_forwards[OF assms] by (auto simp: notif_connection_new_def forwarded_def)

definition blocked_io :: connection_io where
  "blocked_io = \<lparr>cio_async_first = \<lambda>i. i = 0, cio_ready = \<lambda>i. if i < 2 then Ready (Inr ()) else Pending,
     cio_send = \<lambda>_. Inr (), cio_flush = Pending, cio_reserve = Pending, cio_inbound = Pending\<rparr>"

lemma notifications_forwarded_in_order_witness:
  "\<exists>sent cn. cn_run [PushAsync [1], PushSync [2], PushAsync [3], PollOp blocked_io]
      (notif_connection_new hs_peer 1 2 \<lparr>ch_items = [], ch_closed = False\<rparr> \<lparr>ch_items = [], ch_closed = False\<rparr>)
      = Some (sent, cn)
    \<and> sent = [[1], [2]] \<and> cn_next_notification cn = Some [3]
    \<and> (\<exists>a b. pushed_async [PushAsync [1], PushSync [2], PushAsync [3], PollOp blocked_io] = a @ ch_items (cn_async_rx cn)
         \<and> sent @ [[3]] \<in> shuffles a b)"
proof -
  let ?ops = "[PushAsync [1], PushSync [2], PushAsync [3], PollOp blocked_io]"
  let ?start = "notif_connection_new hs_peer 1 2 \<lparr>ch_items = [], ch_closed = False\<rparr> \<lparr>ch_items = [], ch_closed = False\<rparr>"
  obtain sent cn where run: "cn_run ?ops ?start = Some (sent, cn)"
    and "sent = [[1], [2]]" "cn_next_notification cn = Some [3]"
    by (simp add: notif_connection_new_def connection_poll_next_def send_loop.simps take_notification_def
        select_notification_def recv_async_def recv_sync_def ch_recv_def blocked_io_def)
  then show ?thesis
    using notifications_forwarded_in_order[OF run] by auto
qed

subsection \<open>The user handle\<close>

text \<open>
  A \<open>NotificationSink\<close> is named by the two channels of a connection, here by the identity of the connection;
  what \<open>try_send\<close> answers on its synchronous channel is an argument. A set of peers that the source
  builds from an iterator is the list of its elements without repetitions.
\<close>

datatype sink_answer = SinkSent | SinkClosed | SinkFull

record notification_handle =
  nh_peers :: "(peer_id, channel) hash_map"
  nh_clogged :: "peer_id set"
  nh_pending_validations :: "(peer_id, channel) hash_map"
  nh_handshake :: handshake

definition notification_handle_new :: "handshake \<Rightarrow> notification_handle" where
  "notification_handle_new handshake =
     \<lparr>nh_peers = [], nh_clogged = {}, nh_pending_validations = [], nh_handshake = handshake\<rparr>"

abbreviation nh_open :: "notification_handle \<Rightarrow> peer_id \<Rightarrow> bool" where
  "nh_open nh peer \<equiv> hm_get (nh_peers nh) peer \<noteq> None"

definition nh_open_substream ::
  "peer_id \<Rightarrow> notification_handle \<Rightarrow> (np_error, unit) result \<times> notification_command list" where
  "nh_open_substream peer nh =
     (if nh_open nh peer then (Inl (PeerAlreadyExists peer), [])
      else (Inr (), [OpenSubstream [peer]]))"

definition nh_open_substream_batch ::
  "peer_id list \<Rightarrow> notification_handle \<Rightarrow> (peer_id list, unit) result \<times> notification_command list" where
  "nh_open_substream_batch peers nh =
     (let to_add = remdups (filter (\<lambda>p. \<not> nh_open nh p) peers);
          to_ignore = remdups (filter (nh_open nh) peers)
      in (if to_ignore = [] then Inr () else Inl to_ignore, [OpenSubstream to_add]))"

definition nh_try_open_substream_batch ::
  "bool \<Rightarrow> peer_id list \<Rightarrow> notification_handle \<Rightarrow> (peer_id list, unit) result \<times> notification_command list" where
  "nh_try_open_substream_batch full peers nh =
     (let to_add = remdups (filter (\<lambda>p. \<not> nh_open nh p) peers)
      in if full then (Inl to_add, []) else (Inr (), [OpenSubstream to_add]))"

definition nh_close_substream :: "peer_id \<Rightarrow> notification_handle \<Rightarrow> notification_command list" where
  "nh_close_substream peer nh = (if \<not> nh_open nh peer then [] else [CloseSubstream [peer]])"

definition nh_close_substream_batch :: "peer_id list \<Rightarrow> notification_handle \<Rightarrow> notification_command list" where
  "nh_close_substream_batch peers nh =
     (let closing = remdups (filter (nh_open nh) peers)
      in if closing = [] then [] else [CloseSubstream closing])"

definition nh_try_close_substream_batch ::
  "bool \<Rightarrow> peer_id list \<Rightarrow> notification_handle \<Rightarrow> (peer_id list, unit) result \<times> notification_command list" where
  "nh_try_close_substream_batch full peers nh =
     (let closing = remdups (filter (nh_open nh) peers)
      in if closing = [] then (Inl [], [])
         else if full then (Inl closing, []) else (Inr (), [CloseSubstream closing]))"

definition nh_set_handshake :: "handshake \<Rightarrow> notification_handle \<Rightarrow> notification_handle" where
  "nh_set_handshake handshake nh = nh\<lparr>nh_handshake := handshake\<rparr>"

definition nh_send_validation_result ::
  "peer_id \<Rightarrow> validation_result \<Rightarrow> notification_handle
   \<Rightarrow> (channel \<times> validation_result) option \<times> notification_handle" where
  "nh_send_validation_result peer result nh =
     (map_option (\<lambda>tx. (tx, result)) (hm_get (nh_pending_validations nh) peer),
      nh\<lparr>nh_pending_validations := hm_remove peer (nh_pending_validations nh)\<rparr>)"

definition sink_send_sync :: "sink_answer \<Rightarrow> (notification_error, unit) result" where
  "sink_send_sync answer =
     (case answer of SinkSent \<Rightarrow> Inr () | SinkClosed \<Rightarrow> Inl ErrNoConnection | SinkFull \<Rightarrow> Inl ErrChannelClogged)"

definition nh_send_sync_notification ::
  "sink_answer \<Rightarrow> peer_id \<Rightarrow> notification_handle
   \<Rightarrow> (notification_error, unit) result \<times> notification_command list \<times> notification_handle" where
  "nh_send_sync_notification answer peer nh =
     (if \<not> nh_open nh peer then (Inr (), [], nh)
      else case sink_send_sync answer of
             Inr _ \<Rightarrow> (Inr (), [], nh)
           | Inl ErrChannelClogged \<Rightarrow>
               (Inl ErrChannelClogged, (if peer \<notin> nh_clogged nh then [ForceClose peer] else []),
                nh\<lparr>nh_clogged := insert peer (nh_clogged nh)\<rparr>)
           | Inl error \<Rightarrow> (Inl error, [], nh))"

definition nh_send_async_notification ::
  "bool \<Rightarrow> peer_id \<Rightarrow> notification_handle \<Rightarrow> (np_error, unit) result" where
  "nh_send_async_notification closed peer nh =
     (if nh_open nh peer then (if closed then Inl (PeerDoesntExist peer) else Inr ())
      else Inl (PeerDoesntExist peer))"

datatype notification_event =
    UserValidate string "string option" peer_id handshake
  | UserOpened string "string option" notif_direction peer_id handshake
  | UserClosed peer_id
  | UserOpenFailure peer_id notification_error
  | UserReceived peer_id notification

text \<open>
  An event of the protocol; \<open>sink\<close> is the connection of a stream that is reported as open. The second component
  of the result is the channel of a validation that is dropped because a new one takes its place.
\<close>

definition nh_on_event ::
  "channel \<Rightarrow> inner_notification_event \<Rightarrow> notification_handle
   \<Rightarrow> notification_event \<times> channel option \<times> notification_handle" where
  "nh_on_event sink event nh =
     (case event of
        StreamOpened protocol fallback direction peer handshake \<Rightarrow>
          (UserOpened protocol fallback direction peer handshake, None,
           nh\<lparr>nh_peers := hm_insert peer sink (nh_peers nh)\<rparr>)
      | StreamClosed peer \<Rightarrow>
          (UserClosed peer, None,
           nh\<lparr>nh_peers := hm_remove peer (nh_peers nh), nh_clogged := nh_clogged nh - {peer}\<rparr>)
      | ValidateSubstream protocol fallback peer handshake tx \<Rightarrow>
          (UserValidate protocol fallback peer handshake, hm_get (nh_pending_validations nh) peer,
           nh\<lparr>nh_pending_validations := hm_insert peer tx (nh_pending_validations nh)\<rparr>)
      | StreamOpenFailure peer error \<Rightarrow> (UserOpenFailure peer error, None, nh))"

text \<open>\<open>poll_next\<close> with no event of the protocol waiting: notifications of peers without a stream are skipped.\<close>

fun nh_poll_notifications ::
  "bool \<Rightarrow> notification_handle \<Rightarrow> (peer_id \<times> notification) list
   \<Rightarrow> notification_event option poll \<times> (peer_id \<times> notification) list" where
  "nh_poll_notifications closed nh [] = (if closed then Ready None else Pending, [])"
| "nh_poll_notifications closed nh ((peer, notification) # notifs) =
     (if nh_open nh peer then (Ready (Some (UserReceived peer notification)), notifs)
      else nh_poll_notifications closed nh notifs)"

definition nh_poll_next ::
  "channel \<Rightarrow> (inner_notification_event list \<times> bool) \<Rightarrow> (peer_id \<times> notification) list \<times> bool \<Rightarrow> notification_handle
   \<Rightarrow> notification_event option poll \<times> inner_notification_event list \<times> (peer_id \<times> notification) list
      \<times> channel option \<times> notification_handle" where
  "nh_poll_next sink events notifs nh =
     (case events of
        (event # rest, _) \<Rightarrow>
          (let (user, dropped, nh1) = nh_on_event sink event nh
           in (Ready (Some user), rest, fst notifs, dropped, nh1))
      | ([], True) \<Rightarrow> (Ready None, [], fst notifs, None, nh)
      | ([], False) \<Rightarrow>
          (let (answer, rest) = nh_poll_notifications (snd notifs) nh (fst notifs)
           in (answer, [], rest, None, nh)))"

lemma nh_poll_notifications_find:
  "fst (nh_poll_notifications closed nh notifs) =
     (case List.find (\<lambda>(peer, _). nh_open nh peer) notifs of
        Some (peer, notification) \<Rightarrow> Ready (Some (UserReceived peer notification))
      | None \<Rightarrow> if closed then Ready None else Pending)"
  by (induction notifs) auto

lemma nh_open_substream_batch_partition:
  assumes "nh_open_substream_batch peers nh = (result, commands)"
  shows "\<exists>to_add. commands = [OpenSubstream to_add] \<and> distinct to_add
    \<and> set to_add = {p \<in> set peers. \<not> nh_open nh p}
    \<and> (case result of Inr _ \<Rightarrow> \<forall>p \<in> set peers. \<not> nh_open nh p
        | Inl to_ignore \<Rightarrow> distinct to_ignore \<and> set to_ignore = {p \<in> set peers. nh_open nh p} \<and> to_ignore \<noteq> [])"
  using assms by (auto simp: nh_open_substream_batch_def Let_def filter_empty_conv split: if_splits) blast+

text \<open>Any number of synchronous sends to peers, with the answers of their sinks.\<close>

fun nh_send_all ::
  "(peer_id \<times> sink_answer) list \<Rightarrow> notification_handle \<Rightarrow> notification_command list \<times> notification_handle" where
  "nh_send_all [] nh = ([], nh)"
| "nh_send_all ((peer, answer) # sends) nh =
     (let (_, commands, nh1) = nh_send_sync_notification answer peer nh;
          (commands', nh2) = nh_send_all sends nh1
      in (commands @ commands', nh2))"

lemma nh_send_sync_cases:
  "nh_send_sync_notification answer peer nh =
     (if nh_open nh peer \<and> answer = SinkFull
      then (Inl ErrChannelClogged, (if peer \<notin> nh_clogged nh then [ForceClose peer] else []),
            nh\<lparr>nh_clogged := insert peer (nh_clogged nh)\<rparr>)
      else (if nh_open nh peer \<and> answer = SinkClosed then Inl ErrNoConnection else Inr (), [], nh))"
  by (cases answer) (simp_all add: nh_send_sync_notification_def sink_send_sync_def)



end
