(* ===== verification/Request_Response.thy ===== *)
theory Request_Response
  imports Service_Contract Manager_Handle
begin

section \<open>The request-response protocol\<close>

text \<open>
  \<open>src/protocol/request_response/mod.rs\<close> and \<open>handle.rs\<close>: requests to peers with their responses, and
  requests of peers that the user answers.

  \<^item> The state is the record \<open>request_response\<close>. A future that waits for a response, for a request or for the
    user's answer is an entry of a list that holds what the future captured; how it ends is an input
    of the event loop, and the code of the future is the function \<open>response_result\<close>,
    \<open>read_request_result\<close> or \<open>answer_effects\<close> of that.
  \<^item> A handler returns its \<open>Result\<close>, its effects in order and the new state. The answers of the transport service
    are the argument \<open>sv\<close>. The set of active requests of a peer is a list without repetitions; the order in
    which it is traversed is the argument \<open>order\<close>.
  \<^item> Request identifiers come from an atomic counter shared by the protocol and the handle, which wraps
    around at \<open>2 ^ 64\<close>.
\<close>

type_synonym request_id = nat
type_synonym payload = "u8 list"
type_synonym channel_id = nat

datatype reject_reason =
    SubstreamOpenError substream_error
  | ReasonConnectionClosed
  | ReasonSubstreamClosed
  | DialFailed "immediate_dial_error option"

datatype request_response_error =
    RequestRejected reject_reason
  | RequestCanceled
  | RequestTimeout
  | NotConnected
  | TooLargePayload
  | UnsupportedProtocol

fun reject_reason_from :: "substream_error \<Rightarrow> reject_reason" where
  "reject_reason_from SeConnectionClosed = ReasonConnectionClosed"
| "reject_reason_from (SeIoError KindNotConnected) = ReasonConnectionClosed"
| "reject_reason_from (SeYamuxIo KindNotConnected) = ReasonConnectionClosed"
| "reject_reason_from (SeNegotiationError (NeIoError KindNotConnected)) = ReasonConnectionClosed"
| "reject_reason_from (SeNegotiationError (NeMultistreamIo KindNotConnected)) = ReasonConnectionClosed"
| "reject_reason_from error = SubstreamOpenError error"

datatype rr_event =
    RequestReceived peer_id "string option" request_id payload channel_id
  | ResponseReceived peer_id "string option" request_id payload
  | RequestFailed peer_id request_id request_response_error

datatype dial_options = OptDial | OptReject

datatype rr_command =
    SendRequest peer_id request_id payload dial_options
  | SendRequestWithFallback peer_id request_id payload "string \<times> payload" dial_options
  | CancelRequest request_id

record request_context =
  rc_peer :: peer_id
  rc_request_id :: request_id
  rc_request :: payload
  rc_fallback :: "(string \<times> payload) option"

record rr_peer_context =
  rp_active :: "request_id list"
  rp_active_inbound :: "(request_id, string option) hash_map"

definition rr_peer_context_new :: rr_peer_context where
  "rr_peer_context_new = \<lparr>rp_active = [], rp_active_inbound = []\<rparr>"

text \<open>What the futures of the three collections captured.\<close>

record response_future =
  rf_peer :: peer_id
  rf_request_id :: request_id
  rf_fallback :: "string option"
  rf_request :: payload
  rf_substream :: substream
  rf_cancel :: channel_id

record request_future =
  qf_peer :: peer_id
  qf_request_id :: request_id
  qf_substream :: substream

record answer_future =
  af_request_id :: request_id
  af_substream :: substream
  af_response_tx :: channel_id

record request_response =
  rr_protocol :: string
  rr_peers :: "(peer_id, rr_peer_context) hash_map"
  rr_pending_outbound :: "(substream_id, request_context) hash_map"
  rr_pending_outbound_responses :: "answer_future list"
  rr_pending_outbound_cancels :: "(request_id, channel_id) hash_map"
  rr_pending_inbound :: "response_future list"
  rr_pending_inbound_requests :: "request_future list"
  rr_pending_dials :: "(peer_id, request_context) hash_map"
  rr_next_request_id :: request_id
  rr_max_concurrent_inbound_requests :: "usize option"
  rr_next_channel :: channel_id

datatype rr_effect =
    RrReport rr_event
  | RrCloseStream substream
  | RrOpened peer_id substream_id
  | RrCancel channel_id
  | RrResponseSent request_id
  | RrFeedback request_id
  | RrAssertionFailed

datatype rr_error = RrPeerAlreadyExists peer_id | RrPeerDoesntExist peer_id | RrInvalidState | RrInvalidData
  | RrSubstreamDoesntExist

record rr_service =
  rs_dial :: "peer_id \<Rightarrow> (immediate_dial_error, unit) result"
  rs_open :: "peer_id \<Rightarrow> (substream_error, substream_id) result"

type_synonym rr_outcome = "(rr_error, unit) result \<times> rr_effect list \<times> request_response"

definition request_response_new :: "string \<Rightarrow> usize option \<Rightarrow> request_response" where
  "request_response_new protocol max_requests =
     \<lparr>rr_protocol = protocol, rr_peers = [], rr_pending_outbound = [], rr_pending_outbound_responses = [],
      rr_pending_outbound_cancels = [], rr_pending_inbound = [], rr_pending_inbound_requests = [],
      rr_pending_dials = [], rr_next_request_id = 0, rr_max_concurrent_inbound_requests = max_requests,
      rr_next_channel = 0\<rparr>"

definition next_request_id :: "request_response \<Rightarrow> request_id \<times> request_response" where
  "next_request_id rr =
     (rr_next_request_id rr, rr\<lparr>rr_next_request_id := (rr_next_request_id rr + 1) mod 2 ^ 64\<rparr>)"

abbreviation rr_set_peer :: "peer_id \<Rightarrow> rr_peer_context \<Rightarrow> request_response \<Rightarrow> request_response" where
  "rr_set_peer peer context rr \<equiv> rr\<lparr>rr_peers := hm_insert peer context (rr_peers rr)\<rparr>"

abbreviation rr_failed :: "peer_id \<Rightarrow> request_id \<Rightarrow> request_response_error \<Rightarrow> rr_effect" where
  "rr_failed peer request_id error \<equiv> RrReport (RequestFailed peer request_id error)"

text \<open>\<open>active.remove(request_id)\<close> on the context of a peer, if the peer exists.\<close>

definition deactivate :: "peer_id \<Rightarrow> request_id \<Rightarrow> request_response \<Rightarrow> request_response" where
  "deactivate peer request_id rr =
     (case hm_get (rr_peers rr) peer of
        None \<Rightarrow> rr
      | Some context \<Rightarrow> rr_set_peer peer (context\<lparr>rp_active := removeAll request_id (rp_active context)\<rparr>) rr)"

subsection \<open>Handlers\<close>

definition rr_on_connection_established :: "rr_service \<Rightarrow> peer_id \<Rightarrow> request_response \<Rightarrow> rr_outcome" where
  "rr_on_connection_established sv peer rr =
     (if hm_get (rr_peers rr) peer \<noteq> None then (Inl (RrPeerAlreadyExists peer), [RrAssertionFailed], rr)
      else
        (let rr1 = rr\<lparr>rr_pending_dials := hm_remove peer (rr_pending_dials rr)\<rparr>
         in case hm_get (rr_pending_dials rr) peer of
              None \<Rightarrow> (Inr (), [], rr_set_peer peer rr_peer_context_new rr1)
            | Some context \<Rightarrow>
                (case rs_open sv peer of
                   Inr substream_id \<Rightarrow>
                     (Inr (), [RrOpened peer substream_id],
                      (rr_set_peer peer (rr_peer_context_new\<lparr>rp_active := [rc_request_id context]\<rparr>) rr1)
                        \<lparr>rr_pending_outbound := hm_insert substream_id
                           \<lparr>rc_peer = peer, rc_request_id = rc_request_id context, rc_request = rc_request context,
                            rc_fallback = rc_fallback context\<rparr> (rr_pending_outbound rr)\<rparr>)
                 | Inl error \<Rightarrow>
                     (Inr (), [rr_failed peer (rc_request_id context) (RequestRejected (reject_reason_from error))],
                      rr1))))"

definition rr_on_connection_closed ::
  "(request_id list \<Rightarrow> request_id list) \<Rightarrow> peer_id \<Rightarrow> request_response \<Rightarrow> rr_outcome" where
  "rr_on_connection_closed order peer rr0 =
     (let rr = rr0\<lparr>rr_pending_outbound := filter (\<lambda>(_, context). rc_peer context \<noteq> peer) (rr_pending_outbound rr0)\<rparr>
      in case hm_get (rr_peers rr) peer of
           None \<Rightarrow> (Inr (), [], rr)
         | Some context \<Rightarrow>
             (Inr (),
              map (\<lambda>request_id. rr_failed peer request_id (RequestRejected ReasonConnectionClosed))
                (order (rp_active context)),
              rr\<lparr>rr_peers := hm_remove peer (rr_peers rr)\<rparr>))"

definition rr_on_outbound_substream ::
  "peer_id \<Rightarrow> substream_id \<Rightarrow> substream \<Rightarrow> string option \<Rightarrow> request_response \<Rightarrow> rr_outcome" where
  "rr_on_outbound_substream peer substream_id substream fallback_protocol rr =
     (case hm_get (rr_pending_outbound rr) substream_id of
        None \<Rightarrow> (Inl RrInvalidState, [RrAssertionFailed], rr)
      | Some context \<Rightarrow>
          (let request = (case (fallback_protocol, rc_fallback context) of
                 (Some protocol, Some (fallback, fallback_request)) \<Rightarrow>
                   if protocol = fallback then fallback_request else rc_request context
               | _ \<Rightarrow> rc_request context);
               tx = rr_next_channel rr
           in (Inr (), [],
               rr\<lparr>rr_pending_outbound := hm_remove substream_id (rr_pending_outbound rr),
                  rr_pending_outbound_cancels := hm_insert (rc_request_id context) tx (rr_pending_outbound_cancels rr),
                  rr_pending_inbound := rr_pending_inbound rr @
                    [\<lparr>rf_peer = peer, rf_request_id = rc_request_id context, rf_fallback = fallback_protocol,
                      rf_request = request, rf_substream = substream, rf_cancel = tx\<rparr>],
                  rr_next_channel := Suc tx\<rparr>)))"

definition rr_on_inbound_request ::
  "peer_id \<Rightarrow> request_id \<Rightarrow> (substream_error, payload) result \<Rightarrow> substream \<Rightarrow> request_response \<Rightarrow> rr_outcome" where
  "rr_on_inbound_request peer request_id request substream rr =
     (case hm_get (rr_peers rr) peer of
        None \<Rightarrow> (Inl (RrPeerDoesntExist peer), [], rr)
      | Some context \<Rightarrow>
          (case hm_get (rp_active_inbound context) request_id of
             None \<Rightarrow> (Inl RrInvalidState, [], rr)
           | Some fallback \<Rightarrow>
               (let rr1 = rr_set_peer peer
                      (context\<lparr>rp_active_inbound := hm_remove request_id (rp_active_inbound context)\<rparr>) rr
                in case request of
                     Inl _ \<Rightarrow> (Inl RrInvalidData, [], rr1)
                   | Inr payload \<Rightarrow>
                       (let tx = rr_next_channel rr
                        in (Inr (), [RrReport (RequestReceived peer fallback request_id payload tx)],
                            rr1\<lparr>rr_pending_outbound_responses := rr_pending_outbound_responses rr1 @
                                  [\<lparr>af_request_id = request_id, af_substream = substream, af_response_tx = tx\<rparr>],
                                rr_next_channel := Suc tx\<rparr>)))))"

definition rr_on_inbound_substream ::
  "peer_id \<Rightarrow> string option \<Rightarrow> substream \<Rightarrow> request_response \<Rightarrow> rr_outcome" where
  "rr_on_inbound_substream peer fallback substream rr =
     (if (case rr_max_concurrent_inbound_requests rr of
            None \<Rightarrow> False
          | Some max_requests \<Rightarrow>
              max_requests \<le> length (rr_pending_inbound_requests rr) + length (rr_pending_outbound_responses rr))
      then (Inr (), [RrCloseStream substream], rr)
      else
        (let (request_id, rr1) = next_request_id rr
         in case hm_get (rr_peers rr1) peer of
              None \<Rightarrow> (Inl (RrPeerDoesntExist peer), [], rr1)
            | Some context \<Rightarrow>
                (Inr (), [],
                 (rr_set_peer peer
                    (context\<lparr>rp_active_inbound := hm_insert request_id fallback (rp_active_inbound context)\<rparr>) rr1)
                   \<lparr>rr_pending_inbound_requests := rr_pending_inbound_requests rr1 @
                      [\<lparr>qf_peer = peer, qf_request_id = request_id, qf_substream = substream\<rparr>]\<rparr>)))"

definition rr_on_dial_failure :: "peer_id \<Rightarrow> request_response \<Rightarrow> rr_outcome" where
  "rr_on_dial_failure peer rr =
     (case hm_get (rr_pending_dials rr) peer of
        None \<Rightarrow> (Inr (), [], rr)
      | Some context \<Rightarrow>
          (Inr (), [rr_failed peer (rc_request_id context) (RequestRejected (DialFailed None))],
           deactivate peer (rc_request_id context) (rr\<lparr>rr_pending_dials := hm_remove peer (rr_pending_dials rr)\<rparr>)))"

definition rr_on_substream_open_failure ::
  "substream_id \<Rightarrow> substream_error \<Rightarrow> request_response \<Rightarrow> rr_outcome" where
  "rr_on_substream_open_failure substream error rr =
     (case hm_get (rr_pending_outbound rr) substream of
        None \<Rightarrow> (Inl RrInvalidState, [RrAssertionFailed], rr)
      | Some context \<Rightarrow>
          (Inr (),
           [rr_failed (rc_peer context) (rc_request_id context)
              (if error = SeNegotiationError NeMultistreamFailed then UnsupportedProtocol
               else RequestRejected (reject_reason_from error))],
           deactivate (rc_peer context) (rc_request_id context)
             (rr\<lparr>rr_pending_outbound := hm_remove substream (rr_pending_outbound rr)\<rparr>)))"

definition on_send_request ::
  "rr_service \<Rightarrow> peer_id \<Rightarrow> request_id \<Rightarrow> payload \<Rightarrow> dial_options \<Rightarrow> (string \<times> payload) option \<Rightarrow> request_response
   \<Rightarrow> (request_response_error, unit) result \<times> rr_effect list \<times> request_response" where
  "on_send_request sv peer request_id request dial_options fallback rr =
     (let new_context = \<lparr>rc_peer = peer, rc_request_id = request_id, rc_request = request, rc_fallback = fallback\<rparr>
      in case hm_get (rr_peers rr) peer of
           None \<Rightarrow>
             (case dial_options of
                OptReject \<Rightarrow> (Inl NotConnected, [], rr)
              | OptDial \<Rightarrow>
                  (case rs_dial sv peer of
                     Inr _ \<Rightarrow> (Inr (), [], rr\<lparr>rr_pending_dials := hm_insert peer new_context (rr_pending_dials rr)\<rparr>)
                   | Inl error \<Rightarrow> (Inl (RequestRejected (DialFailed (Some error))), [], rr)))
         | Some context \<Rightarrow>
             (case rs_open sv peer of
                Inr substream_id \<Rightarrow>
                  (Inr (),
                   [RrOpened peer substream_id] @ (if request_id \<in> set (rp_active context) then [RrAssertionFailed] else []),
                   (rr_set_peer peer (context\<lparr>rp_active := List.insert request_id (rp_active context)\<rparr>) rr)
                     \<lparr>rr_pending_outbound := hm_insert substream_id new_context (rr_pending_outbound rr)\<rparr>)
              | Inl error \<Rightarrow> (Inl (RequestRejected (reject_reason_from error)), [], rr)))"

definition on_substream_event ::
  "peer_id \<Rightarrow> request_id \<Rightarrow> string option \<Rightarrow> (request_response_error, payload) result \<Rightarrow> request_response
   \<Rightarrow> rr_outcome" where
  "on_substream_event peer request_id fallback message rr =
     (case hm_get (rr_peers rr) peer of
        None \<Rightarrow> (Inl (RrPeerDoesntExist peer), [], rr)
      | Some context \<Rightarrow>
          if request_id \<notin> set (rp_active context) then (Inl RrInvalidState, [], rr)
          else
            (Inr (),
             (case message of
                Inr response \<Rightarrow> [RrReport (ResponseReceived peer fallback request_id response)]
              | Inl RequestCanceled \<Rightarrow> []
              | Inl error \<Rightarrow> [rr_failed peer request_id error]),
             deactivate peer request_id rr))"

text \<open>\<open>receiver_alive\<close> is whether the future that holds the other end of the channel still waits.\<close>

definition on_cancel_request :: "bool \<Rightarrow> request_id \<Rightarrow> request_response \<Rightarrow> rr_outcome" where
  "on_cancel_request receiver_alive request_id rr =
     (case hm_get (rr_pending_outbound_cancels rr) request_id of
        Some tx \<Rightarrow>
          (if receiver_alive then Inr () else Inl RrSubstreamDoesntExist, [RrCancel tx],
           rr\<lparr>rr_pending_outbound_cancels := hm_remove request_id (rr_pending_outbound_cancels rr)\<rparr>)
      | None \<Rightarrow> (Inr (), [], rr))"

subsection \<open>The futures\<close>

text \<open>The future of an outbound request: how sending the request ended, then what the \<open>select!\<close> saw first.\<close>

datatype send_outcome = SendTimedOut | SendFailed substream_error | SendDone

datatype wait_outcome =
    WaitCanceled | WaitTimedOut | WaitResponse payload | WaitFailed substream_error | WaitClosed

fun response_result :: "send_outcome \<Rightarrow> wait_outcome \<Rightarrow> (request_response_error, payload) result" where
  "response_result SendTimedOut _ = Inl RequestTimeout"
| "response_result (SendFailed (SeIoError KindPermissionDenied)) _ = Inl TooLargePayload"
| "response_result (SendFailed error) _ = Inl (RequestRejected (reject_reason_from error))"
| "response_result SendDone WaitCanceled = Inl RequestCanceled"
| "response_result SendDone WaitTimedOut = Inl RequestTimeout"
| "response_result SendDone (WaitResponse response) = Inr response"
| "response_result SendDone (WaitFailed error) = Inl (RequestRejected (reject_reason_from error))"
| "response_result SendDone WaitClosed = Inl (RequestRejected ReasonSubstreamClosed)"

fun response_closes :: "send_outcome \<Rightarrow> wait_outcome \<Rightarrow> bool" where
  "response_closes SendDone WaitCanceled \<longleftrightarrow> True"
| "response_closes SendDone WaitTimedOut \<longleftrightarrow> True"
| "response_closes _ _ \<longleftrightarrow> False"

text \<open>The future of an inbound request: what \<open>next\<close> on the substream returned.\<close>

fun read_request_result :: "(substream_error, payload) result option \<Rightarrow> (substream_error, payload) result" where
  "read_request_result (Some request) = request"
| "read_request_result None = Inl SeConnectionClosed"

text \<open>The future of an answer: the user dropped the channel, or sent a response that is then sent or not.\<close>

datatype answer_outcome = AnswerRejected | AnswerSent bool | AnswerSendFailed

definition answer_effects :: "answer_outcome \<Rightarrow> answer_future \<Rightarrow> rr_effect list" where
  "answer_effects outcome future =
     (case outcome of
        AnswerRejected \<Rightarrow> [RrCloseStream (af_substream future)]
      | AnswerSent with_feedback \<Rightarrow>
          RrResponseSent (af_request_id future) # (if with_feedback then [RrFeedback (af_request_id future)] else [])
      | AnswerSendFailed \<Rightarrow> [])"

subsection \<open>The event loop\<close>

definition handle_service_event ::
  "rr_service \<Rightarrow> (request_id list \<Rightarrow> request_id list) \<Rightarrow> service_event \<Rightarrow> request_response \<Rightarrow> rr_outcome" where
  "handle_service_event sv order event rr =
     (case event of
        TeConnectionEstablished peer \<Rightarrow> rr_on_connection_established sv peer rr
      | TeConnectionClosed peer \<Rightarrow> rr_on_connection_closed order peer rr
      | TeInbound peer _ fallback substream \<Rightarrow> rr_on_inbound_substream peer fallback substream rr
      | TeOutbound peer _ fallback substream_id substream \<Rightarrow>
          rr_on_outbound_substream peer substream_id substream fallback rr
      | TeSubstreamOpenFailure substream error \<Rightarrow> rr_on_substream_open_failure substream error rr
      | TeDialFailure peer \<Rightarrow> rr_on_dial_failure peer rr)"

definition report_if_failed ::
  "peer_id \<Rightarrow> request_id \<Rightarrow> (request_response_error, unit) result \<times> rr_effect list \<times> request_response
   \<Rightarrow> rr_effect list \<times> request_response" where
  "report_if_failed peer request_id outcome =
     (case outcome of
        (Inr _, effects, rr) \<Rightarrow> (effects, rr)
      | (Inl error, effects, rr) \<Rightarrow> (effects @ [rr_failed peer request_id error], rr))"

definition handle_user_command ::
  "rr_service \<Rightarrow> bool \<Rightarrow> rr_command \<Rightarrow> request_response \<Rightarrow> rr_effect list \<times> request_response" where
  "handle_user_command sv receiver_alive command rr =
     (case command of
        SendRequest peer request_id request dial_options \<Rightarrow>
          report_if_failed peer request_id (on_send_request sv peer request_id request dial_options None rr)
      | SendRequestWithFallback peer request_id request fallback dial_options \<Rightarrow>
          report_if_failed peer request_id (on_send_request sv peer request_id request dial_options (Some fallback) rr)
      | CancelRequest request_id \<Rightarrow> snd (on_cancel_request receiver_alive request_id rr))"

text \<open>
  What a branch of the \<open>select!\<close> yields; a future is named by its position. \<open>None\<close> ends the loop.
\<close>

datatype rr_input =
    RrService "service_event option"
  | RrResponse nat send_outcome wait_outcome
  | RrAnswered nat answer_outcome
  | RrRequestRead nat "(substream_error, payload) result option"
  | RrCommand "rr_command option"

definition rr_handle_input ::
  "rr_service \<Rightarrow> (request_id list \<Rightarrow> request_id list) \<Rightarrow> bool \<Rightarrow> rr_input \<Rightarrow> request_response
   \<Rightarrow> bool \<times> rr_effect list \<times> request_response" where
  "rr_handle_input sv order receiver_alive input rr =
     (case input of
        RrService None \<Rightarrow> (True, [], rr)
      | RrService (Some event) \<Rightarrow> (False, snd (handle_service_event sv order event rr))
      | RrResponse i send wait \<Rightarrow>
          if i < length (rr_pending_inbound rr) then
            (let future = rr_pending_inbound rr ! i;
                 (_, effects, rr1) =
                   on_substream_event (rf_peer future) (rf_request_id future) (rf_fallback future)
                     (response_result send wait) (rr\<lparr>rr_pending_inbound := remove_nth i (rr_pending_inbound rr)\<rparr>)
             in (False, (if response_closes send wait then [RrCloseStream (rf_substream future)] else []) @ effects,
                 rr1\<lparr>rr_pending_outbound_cancels :=
                       hm_remove (rf_request_id future) (rr_pending_outbound_cancels rr1)\<rparr>))
          else (False, [], rr)
      | RrAnswered i outcome \<Rightarrow>
          if i < length (rr_pending_outbound_responses rr) then
            (False, answer_effects outcome (rr_pending_outbound_responses rr ! i),
             rr\<lparr>rr_pending_outbound_responses := remove_nth i (rr_pending_outbound_responses rr)\<rparr>)
          else (False, [], rr)
      | RrRequestRead i read \<Rightarrow>
          if i < length (rr_pending_inbound_requests rr) then
            (let future = rr_pending_inbound_requests rr ! i
             in (False, snd (rr_on_inbound_request (qf_peer future) (qf_request_id future) (read_request_result read)
                   (qf_substream future) (rr\<lparr>rr_pending_inbound_requests := remove_nth i (rr_pending_inbound_requests rr)\<rparr>))))
          else (False, [], rr)
      | RrCommand None \<Rightarrow> (True, [], rr)
      | RrCommand (Some command) \<Rightarrow> (False, handle_user_command sv receiver_alive command rr))"

end
