(* ===== verification/Request_Answers.thy ===== *)
theory Request_Answers
  imports Request_Response
begin

section \<open>Every request is answered once\<close>

text \<open>
  A request waits either for its peer to be dialed or among the active requests of its peer:
  \<open>requests\<close> is the set of waiting requests with the place where they wait. The invariant \<open>rr_inv\<close> says that
  a request waits in one place, that the substreams the protocol initiated and the futures it runs
  account for every active request, and that the assertions of the source hold. Every handler keeps it
  under the contract of the transport service, and reports each request exactly when it stops waiting.
\<close>

definition requests :: "request_response \<Rightarrow> (bool \<times> peer_id \<times> request_id) set" where
  "requests rr =
     {(True, p, rc_request_id c) | p c. hm_get (rr_pending_dials rr) p = Some c}
     \<union> {(False, p, r) | p r c. hm_get (rr_peers rr) p = Some c \<and> r \<in> set (rp_active c)}"

definition waiting :: "request_response \<Rightarrow> request_id \<Rightarrow> bool" where
  "waiting rr r \<longleftrightarrow> (\<exists>d p. (d, p, r) \<in> requests rr)"

text \<open>An active request has an initiated substream or a running future.\<close>

definition backed :: "request_response \<Rightarrow> service_env \<Rightarrow> peer_id \<Rightarrow> request_id \<Rightarrow> bool" where
  "backed rr env p r \<longleftrightarrow>
     (\<exists>sid c. hm_get (rr_pending_outbound rr) sid = Some c \<and> rc_peer c = p \<and> rc_request_id c = r
        \<and> se_outstanding env sid = Some p)
     \<or> (\<exists>f \<in> set (rr_pending_inbound rr). rf_peer f = p \<and> rf_request_id f = r)"

lemma backed_outI:
  "hm_get (rr_pending_outbound rr) sid = Some c \<Longrightarrow> rc_peer c = p \<Longrightarrow> rc_request_id c = r \<Longrightarrow>
   se_outstanding env sid = Some p \<Longrightarrow> backed rr env p r"
  unfolding backed_def by blast

lemma backed_inI: "f \<in> set (rr_pending_inbound rr) \<Longrightarrow> rf_peer f = p \<Longrightarrow> rf_request_id f = r \<Longrightarrow> backed rr env p r"
  unfolding backed_def by blast

lemma backedE:
  assumes "backed rr env p r"
  obtains (substream) sid c where "hm_get (rr_pending_outbound rr) sid = Some c" "rc_peer c = p" "rc_request_id c = r"
      "se_outstanding env sid = Some p"
  | (future) f where "f \<in> set (rr_pending_inbound rr)" "rf_peer f = p" "rf_request_id f = r"
  using assms unfolding backed_def by blast

text \<open>A request has at most one initiated substream, and none once its future runs.\<close>

definition apart :: "request_response \<Rightarrow> request_id set \<Rightarrow> bool" where
  "apart rr used \<longleftrightarrow>
     (\<forall>sid c sid' c'. hm_get (rr_pending_outbound rr) sid = Some c \<longrightarrow> hm_get (rr_pending_outbound rr) sid' = Some c' \<longrightarrow>
        rc_request_id c = rc_request_id c' \<longrightarrow> sid = sid')
     \<and> (\<forall>f \<in> set (rr_pending_inbound rr).
          rf_request_id f \<in> used
          \<and> (\<forall>sid c. hm_get (rr_pending_outbound rr) sid = Some c \<longrightarrow> rc_request_id c \<noteq> rf_request_id f)
          \<and> (\<forall>p. (True, p, rf_request_id f) \<notin> requests rr))"

definition rr_inv :: "request_response \<Rightarrow> service_env \<Rightarrow> request_id set \<Rightarrow> bool" where
  "rr_inv rr env used \<longleftrightarrow>
     hm_ok (rr_peers rr) \<and> hm_ok (rr_pending_outbound rr) \<and> hm_ok (rr_pending_dials rr)
     \<and> (\<forall>p c. hm_get (rr_peers rr) p = Some c \<longrightarrow>
          distinct (rp_active c) \<and> p \<in> se_connected env \<and> hm_get (rr_pending_dials rr) p = None)
     \<and> (\<forall>d p d' p' r. (d, p, r) \<in> requests rr \<longrightarrow> (d', p', r) \<in> requests rr \<longrightarrow> d = d' \<and> p = p')
     \<and> (\<forall>d p r. (d, p, r) \<in> requests rr \<longrightarrow> r \<in> used)
     \<and> (\<forall>sid c. hm_get (rr_pending_outbound rr) sid = Some c \<longrightarrow>
          (False, rc_peer c, rc_request_id c) \<in> requests rr \<and> sid \<in> se_used env)
     \<and> (\<forall>sid p. se_outstanding env sid = Some p \<longrightarrow>
          (\<exists>c. hm_get (rr_pending_outbound rr) sid = Some c \<and> rc_peer c = p))
     \<and> (\<forall>p r. (False, p, r) \<in> requests rr \<longrightarrow> backed rr env p r)
     \<and> apart rr used"

lemma rr_inv_ok:
  "rr_inv rr env used \<Longrightarrow> hm_ok (rr_peers rr)" "rr_inv rr env used \<Longrightarrow> hm_ok (rr_pending_outbound rr)"
  "rr_inv rr env used \<Longrightarrow> hm_ok (rr_pending_dials rr)"
  unfolding rr_inv_def by (elim conjE, assumption)+

lemma rr_inv_peer:
  "rr_inv rr env used \<Longrightarrow> hm_get (rr_peers rr) p = Some c \<Longrightarrow>
   distinct (rp_active c) \<and> p \<in> se_connected env \<and> hm_get (rr_pending_dials rr) p = None"
  unfolding rr_inv_def by (elim conjE) blast

lemma rr_inv_unique:
  "rr_inv rr env used \<Longrightarrow> (d, p, r) \<in> requests rr \<Longrightarrow> (d', p', r) \<in> requests rr \<Longrightarrow> d = d' \<and> p = p'"
  unfolding rr_inv_def by (elim conjE) blast

lemma rr_inv_used: "rr_inv rr env used \<Longrightarrow> (d, p, r) \<in> requests rr \<Longrightarrow> r \<in> used"
  unfolding rr_inv_def by (elim conjE) blast

lemma rr_inv_pending:
  "rr_inv rr env used \<Longrightarrow> hm_get (rr_pending_outbound rr) sid = Some c \<Longrightarrow>
   (False, rc_peer c, rc_request_id c) \<in> requests rr \<and> sid \<in> se_used env"
  unfolding rr_inv_def by (elim conjE) blast

lemma rr_inv_outstanding:
  "rr_inv rr env used \<Longrightarrow> se_outstanding env sid = Some p \<Longrightarrow>
   \<exists>c. hm_get (rr_pending_outbound rr) sid = Some c \<and> rc_peer c = p"
  unfolding rr_inv_def by (elim conjE) blast

lemma rr_inv_backed: "rr_inv rr env used \<Longrightarrow> (False, p, r) \<in> requests rr \<Longrightarrow> backed rr env p r"
  unfolding rr_inv_def by (elim conjE) blast

lemma rr_inv_apart: "rr_inv rr env used \<Longrightarrow> apart rr used"
  unfolding rr_inv_def by (elim conjE)

lemma apart_pending:
  "apart rr used \<Longrightarrow> hm_get (rr_pending_outbound rr) sid = Some c \<Longrightarrow> hm_get (rr_pending_outbound rr) sid' = Some c' \<Longrightarrow>
   rc_request_id c = rc_request_id c' \<Longrightarrow> sid = sid'"
  unfolding apart_def by blast

lemma apart_future:
  assumes "apart rr used" and "f \<in> set (rr_pending_inbound rr)"
  shows "rf_request_id f \<in> used" "hm_get (rr_pending_outbound rr) sid = Some c \<Longrightarrow> rc_request_id c \<noteq> rf_request_id f"
    "(True, p, rf_request_id f) \<notin> requests rr"
  using assms unfolding apart_def by blast+

lemma requests_dial [simp]:
  "(True, p, r) \<in> requests rr \<longleftrightarrow> (\<exists>c. hm_get (rr_pending_dials rr) p = Some c \<and> rc_request_id c = r)"
  by (auto simp: requests_def)

lemma requests_active [simp]:
  "(False, p, r) \<in> requests rr \<longleftrightarrow> (\<exists>c. hm_get (rr_peers rr) p = Some c \<and> r \<in> set (rp_active c))"
  by (auto simp: requests_def)

fun rr_effect_env :: "rr_effect \<Rightarrow> service_env \<Rightarrow> service_env" where
  "rr_effect_env (RrOpened peer substream) env = opened_env peer substream env"
| "rr_effect_env _ env = env"

definition rr_effects_env :: "rr_effect list \<Rightarrow> service_env \<Rightarrow> service_env" where
  "rr_effects_env effects env = fold rr_effect_env effects env"

lemma rr_effects_env_simps [simp]:
  "rr_effects_env [] env = env" "rr_effects_env (e # es) env = rr_effects_env es (rr_effect_env e env)"
  "rr_effects_env (es @ es') env = rr_effects_env es' (rr_effects_env es env)"
  by (simp_all add: rr_effects_env_def)

text \<open>The reports that answer a request.\<close>

fun rr_answer_for :: "rr_effect \<Rightarrow> request_id option" where
  "rr_answer_for (RrReport (ResponseReceived _ _ r _)) = Some r"
| "rr_answer_for (RrReport (RequestFailed _ r _)) = Some r"
| "rr_answer_for _ = None"

definition rr_answers :: "request_id \<Rightarrow> rr_effect list \<Rightarrow> nat" where
  "rr_answers r effects = length (filter (\<lambda>e. rr_answer_for e = Some r) effects)"

lemma rr_answers_simps [simp]:
  "rr_answers r [] = 0"
  "rr_answers r (e # es) = (if rr_answer_for e = Some r then Suc (rr_answers r es) else rr_answers r es)"
  "rr_answers r (es @ es') = rr_answers r es + rr_answers r es'"
  by (simp_all add: rr_answers_def)

text \<open>
  A handler is good: it keeps the invariant, fails no assertion, and reports exactly the requests that stop
  waiting.
\<close>

definition rr_good :: "request_response \<Rightarrow> rr_effect list \<times> request_response \<Rightarrow> service_env \<Rightarrow> request_id set \<Rightarrow> bool" where
  "rr_good rr outcome env used \<longleftrightarrow>
     (case outcome of (effects, rr') \<Rightarrow>
        rr_inv rr' (rr_effects_env effects env) used \<and> RrAssertionFailed \<notin> set effects
        \<and> (\<forall>r. rr_answers r effects = (if waiting rr r \<and> \<not> waiting rr' r then 1 else 0))
        \<and> (\<forall>r. waiting rr' r \<longrightarrow> waiting rr r))"

lemma rr_good_simp [simp]:
  "rr_good rr (effects, rr') env used \<longleftrightarrow>
     rr_inv rr' (rr_effects_env effects env) used \<and> RrAssertionFailed \<notin> set effects
     \<and> (\<forall>r. rr_answers r effects = (if waiting rr r \<and> \<not> waiting rr' r then 1 else 0))
     \<and> (\<forall>r. waiting rr' r \<longrightarrow> waiting rr r)"
  by (simp add: rr_good_def)

text \<open>Removing one request from the place where it waits.\<close>

lemma waiting_remove:
  assumes "rr_inv rr env used" and "(d, p, r) \<in> requests rr" and "requests rr' = requests rr - {(d, p, r)}"
  shows "waiting rr' q \<longleftrightarrow> waiting rr q \<and> q \<noteq> r" and "waiting rr r"
  unfolding waiting_def assms(3) using assms(2) rr_inv_unique[OF assms(1,2)] by blast+

lemma waiting_same: "requests rr' = requests rr \<Longrightarrow> waiting rr' q = waiting rr q"
  by (simp add: waiting_def)

text \<open>How the invariant is rebuilt after a step, from what the step did to the requests.\<close>

lemma rr_inv_step:
  assumes inv: "rr_inv rr env used"
    and ok: "hm_ok (rr_peers rr')" "hm_ok (rr_pending_outbound rr')" "hm_ok (rr_pending_dials rr')"
    and peers: "\<And>p c. hm_get (rr_peers rr') p = Some c \<Longrightarrow>
      distinct (rp_active c) \<and> p \<in> se_connected env' \<and> hm_get (rr_pending_dials rr') p = None"
    and sub: "\<And>d p r. (d, p, r) \<in> requests rr' \<Longrightarrow>
      (\<exists>d'. (d', p, r) \<in> requests rr) \<or> p = np \<and> r \<notin> used \<and> r \<in> used'"
    and used: "used \<subseteq> used'"
    and one: "\<And>p r. (True, p, r) \<in> requests rr' \<Longrightarrow> (False, p, r) \<in> requests rr' \<Longrightarrow> False"
    and pending: "\<And>sid c. hm_get (rr_pending_outbound rr') sid = Some c \<Longrightarrow>
      (False, rc_peer c, rc_request_id c) \<in> requests rr' \<and> sid \<in> se_used env'"
    and outstanding: "\<And>sid p. se_outstanding env' sid = Some p \<Longrightarrow>
      \<exists>c. hm_get (rr_pending_outbound rr') sid = Some c \<and> rc_peer c = p"
    and backed: "\<And>p r. (False, p, r) \<in> requests rr' \<Longrightarrow> backed rr' env' p r"
    and apart: "apart rr' used'"
  shows "rr_inv rr' env' used'"
proof -
  have same: "p = p'" if a: "(d, p, r) \<in> requests rr'" and b: "(d', p', r) \<in> requests rr'" for d p d' p' r
  proof (cases "r \<in> used")
    case True
    then show ?thesis using sub[OF a] sub[OF b] rr_inv_unique[OF inv] by blast
  next
    case False
    then show ?thesis using sub[OF a] sub[OF b] rr_inv_used[OF inv] by blast
  qed
  have dir: "d = d'" if "(d, p, r) \<in> requests rr'" "(d', p, r) \<in> requests rr'" for d p d' r
    using that one[of p r] by (cases d; cases d') auto
  have used': "r \<in> used'" if "(d, p, r) \<in> requests rr'" for d p r
    using sub[OF that] used rr_inv_used[OF inv] by blast
  show ?thesis
    unfolding rr_inv_def
  proof (intro conjI allI impI)
    show "d = d'" "p = p'" if "(d, p, r) \<in> requests rr'" "(d', p', r) \<in> requests rr'" for d p d' p' r
      using same[OF that] dir[OF that(1)] that(2) by auto
    show "\<exists>c. hm_get (rr_pending_outbound rr') sid = Some c \<and> rc_peer c = p"
      if "se_outstanding env' sid = Some p" for sid p
      by (rule outstanding[OF that])
    show "(False, rc_peer c, rc_request_id c) \<in> requests rr'" "sid \<in> se_used env'"
      if "hm_get (rr_pending_outbound rr') sid = Some c" for sid c
      using pending[OF that] by blast+
    show "backed rr' env' p r" if "(False, p, r) \<in> requests rr'" for p r
      by (rule backed[OF that])
    show "r \<in> used'" if "(d, p, r) \<in> requests rr'" for d p r
      by (rule used'[OF that])
    show "distinct (rp_active c)" "p \<in> se_connected env'" "hm_get (rr_pending_dials rr') p = None"
      if "hm_get (rr_peers rr') p = Some c" for p c
      using peers[OF that] by blast+
  qed (rule ok apart)+
qed

lemma requests_fields [simp]:
  "requests (rr\<lparr>rr_pending_outbound := a\<rparr>) = requests rr"
  "requests (rr\<lparr>rr_pending_inbound := b\<rparr>) = requests rr"
  "requests (rr\<lparr>rr_pending_outbound_cancels := c\<rparr>) = requests rr"
  "requests (rr\<lparr>rr_pending_outbound_responses := d\<rparr>) = requests rr"
  "requests (rr\<lparr>rr_pending_inbound_requests := e\<rparr>) = requests rr"
  "requests (rr\<lparr>rr_next_channel := f\<rparr>) = requests rr"
  "requests (rr\<lparr>rr_next_request_id := g\<rparr>) = requests rr"
  by (simp_all add: requests_def)

lemma requests_eqI:
  assumes "\<And>p r. (True, p, r) \<in> A \<longleftrightarrow> (True, p, r) \<in> B" and "\<And>p r. (False, p, r) \<in> A \<longleftrightarrow> (False, p, r) \<in> B"
  shows "A = B"
proof (rule set_eqI)
  fix x :: "bool \<times> 'a \<times> 'b"
  obtain d p r where "x = (d, p, r)" by (cases x)
  then show "x \<in> A \<longleftrightarrow> x \<in> B"
    using assms by (cases d) auto
qed

lemma requests_deactivate: "requests (deactivate p r rr) = requests rr - {(False, p, r)}"
  by (rule requests_eqI) (auto simp: deactivate_def split: option.splits)

text \<open>A step that changes no request, and one that ends the request \<open>r\<close> of the peer \<open>p\<close>.\<close>

lemma rr_inv_same:
  assumes inv: "rr_inv rr env used"
    and ok: "hm_ok (rr_peers rr')" "hm_ok (rr_pending_outbound rr')" "hm_ok (rr_pending_dials rr')"
    and peers: "\<And>p c. hm_get (rr_peers rr') p = Some c \<Longrightarrow>
      distinct (rp_active c) \<and> p \<in> se_connected env' \<and> hm_get (rr_pending_dials rr') p = None"
    and sub: "requests rr' \<subseteq> requests rr"
    and pending: "\<And>sid c. hm_get (rr_pending_outbound rr') sid = Some c \<Longrightarrow>
      (False, rc_peer c, rc_request_id c) \<in> requests rr' \<and> sid \<in> se_used env'"
    and outstanding: "\<And>sid p. se_outstanding env' sid = Some p \<Longrightarrow>
      \<exists>c. hm_get (rr_pending_outbound rr') sid = Some c \<and> rc_peer c = p"
    and backed: "\<And>p r. (False, p, r) \<in> requests rr' \<Longrightarrow> backed rr' env' p r"
    and apart: "apart rr' used"
  shows "rr_inv rr' env' used"
proof (rule rr_inv_step[OF inv ok peers _ subset_refl _ pending outstanding backed apart])
  show "(\<exists>d'. (d', p, r) \<in> requests rr) \<or> p = undefined \<and> r \<notin> used \<and> r \<in> used" if "(d, p, r) \<in> requests rr'" for d p r
    using sub that by blast
  show False if "(True, p, r) \<in> requests rr'" "(False, p, r) \<in> requests rr'" for p r
    using sub that rr_inv_unique[OF inv] by blast
qed

lemma hm_ok_deactivate: "hm_ok (rr_peers rr) \<Longrightarrow> hm_ok (rr_peers (deactivate p r rr))"
  by (simp add: deactivate_def split: option.split)

lemma deactivate_fields [simp]:
  "rr_pending_outbound (deactivate p r rr) = rr_pending_outbound rr"
  "rr_pending_dials (deactivate p r rr) = rr_pending_dials rr"
  "rr_pending_inbound (deactivate p r rr) = rr_pending_inbound rr"
  "rr_pending_inbound_requests (deactivate p r rr) = rr_pending_inbound_requests rr"
  "rr_pending_outbound_responses (deactivate p r rr) = rr_pending_outbound_responses rr"
  "rr_max_concurrent_inbound_requests (deactivate p r rr) = rr_max_concurrent_inbound_requests rr"
  by (simp_all add: deactivate_def split: option.split)

lemma deactivate_peer:
  "hm_get (rr_peers (deactivate p r rr)) q = Some c \<Longrightarrow>
   \<exists>c0. hm_get (rr_peers rr) q = Some c0 \<and> (distinct (rp_active c0) \<longrightarrow> distinct (rp_active c))"
  by (auto simp: deactivate_def distinct_removeAll split: option.splits if_splits)

subsection \<open>Service events\<close>

lemma requests_other_fields:
  "rr_peers rr' = rr_peers rr \<Longrightarrow> rr_pending_dials rr' = rr_pending_dials rr \<Longrightarrow> requests rr' = requests rr"
  by (simp add: requests_def)

lemma rr_on_outbound_substream_good:
  assumes inv: "rr_inv rr env used" and out: "se_outstanding env sid = Some p"
  shows "rr_good rr (snd (rr_on_outbound_substream p sid substream fallback rr))
    (te_env (TeOutbound p protocol fallback sid substream) env) used"
proof -
  obtain c where c: "hm_get (rr_pending_outbound rr) sid = Some c" "rc_peer c = p"
    using rr_inv_outstanding[OF inv out] by blast
  obtain effects rr' where step: "snd (rr_on_outbound_substream p sid substream fallback rr) = (effects, rr')"
    by (metis surj_pair)
  obtain f where f: "effects = []" "rr_peers rr' = rr_peers rr" "rr_pending_dials rr' = rr_pending_dials rr"
    "rr_pending_outbound rr' = hm_remove sid (rr_pending_outbound rr)"
    "rr_pending_inbound rr' = rr_pending_inbound rr @ [f]" "rf_peer f = p" "rf_request_id f = rc_request_id c"
    using step c by (auto simp: rr_on_outbound_substream_def Let_def)
  have same: "requests rr' = requests rr"
    using f by (intro requests_other_fields)
  have active: "(False, p, rc_request_id c) \<in> requests rr"
    using rr_inv_pending[OF inv c(1)] c(2) by blast
  have "rr_inv rr' (te_env (TeOutbound p protocol fallback sid substream) env) used"
  proof (rule rr_inv_same[OF inv])
    note ap = rr_inv_apart[OF inv]
    show "apart rr' used"
      unfolding apart_def
    proof (intro conjI allI impI ballI)
      show "sid1 = sid2" if "hm_get (rr_pending_outbound rr') sid1 = Some c1" "hm_get (rr_pending_outbound rr') sid2 = Some c2"
        "rc_request_id c1 = rc_request_id c2" for sid1 c1 sid2 c2
        using apart_pending[OF ap, of sid1 c1 sid2 c2] that f(4) by (auto split: if_splits)
      show "rf_request_id g \<in> used" "(True, q, rf_request_id g) \<notin> requests rr'"
        if "g \<in> set (rr_pending_inbound rr')" for g q
        using that f(5,7) same apart_future[OF ap] rr_inv_used[OF inv active] rr_inv_unique[OF inv active, of True q]
        by (auto simp del: requests_dial)
      show "rc_request_id c1 \<noteq> rf_request_id g"
        if "g \<in> set (rr_pending_inbound rr')" "hm_get (rr_pending_outbound rr') sid1 = Some c1" for g sid1 c1
        using that f(4,5,7) apart_future(2)[OF ap] apart_pending[OF ap c(1), of sid1 c1] by (auto split: if_splits)
    qed
    show "backed rr' (te_env (TeOutbound p protocol fallback sid substream) env) q r" if "(False, q, r) \<in> requests rr'" for q r
    proof -
      have "backed rr env q r"
        using rr_inv_backed[OF inv] that same by blast
      then show ?thesis
      proof (cases rule: backedE)
        case (substream sid' c')
        then show ?thesis
          using c f backed_inI[of f rr'] by (cases "sid' = sid") (auto intro: backed_outI)
      next
        case (future f')
        then show ?thesis using f by (auto intro: backed_inI)
      qed
    qed
  qed (use f rr_inv_ok[OF inv] rr_inv_peer[OF inv] rr_inv_pending[OF inv] rr_inv_outstanding[OF inv] same in
      \<open>auto simp del: requests_active split: if_splits\<close>)
  then show ?thesis
    using step f(1) waiting_same[OF same] by simp
qed

text \<open>A step that only ends requests.\<close>

lemma rr_inv_shrink:
  assumes inv: "rr_inv rr env used"
    and ok: "hm_ok (rr_peers rr')" "hm_ok (rr_pending_outbound rr')" "hm_ok (rr_pending_dials rr')"
    and peers: "\<And>p c. hm_get (rr_peers rr') p = Some c \<Longrightarrow>
      distinct (rp_active c) \<and> p \<in> se_connected env' \<and> hm_get (rr_pending_dials rr') p = None"
    and sub: "requests rr' \<subseteq> requests rr"
    and pending: "\<And>sid c. hm_get (rr_pending_outbound rr') sid = Some c \<Longrightarrow>
      hm_get (rr_pending_outbound rr) sid = Some c \<and> (False, rc_peer c, rc_request_id c) \<in> requests rr'"
    and inbound: "set (rr_pending_inbound rr') \<subseteq> set (rr_pending_inbound rr)"
    and used: "se_used env \<subseteq> se_used env'"
    and outstanding: "\<And>sid p. se_outstanding env' sid = Some p \<Longrightarrow>
      \<exists>c. hm_get (rr_pending_outbound rr') sid = Some c \<and> rc_peer c = p"
    and backed: "\<And>p r. (False, p, r) \<in> requests rr' \<Longrightarrow> backed rr' env' p r"
  shows "rr_inv rr' env' used"
proof (rule rr_inv_same[OF inv ok peers sub _ outstanding backed])
  note ap = rr_inv_apart[OF inv]
  show "(False, rc_peer c, rc_request_id c) \<in> requests rr' \<and> sid \<in> se_used env'"
    if "hm_get (rr_pending_outbound rr') sid = Some c" for sid c
    using pending[OF that] rr_inv_pending[OF inv, of sid c] used by blast
  show "apart rr' used"
    unfolding apart_def
  proof (intro conjI allI impI ballI)
    show "sid1 = sid2" if "hm_get (rr_pending_outbound rr') sid1 = Some c1" "hm_get (rr_pending_outbound rr') sid2 = Some c2"
      "rc_request_id c1 = rc_request_id c2" for sid1 c1 sid2 c2
      using apart_pending[OF ap _ _ that(3)] pending[OF that(1)] pending[OF that(2)] by blast
    show "rf_request_id g \<in> used" "(True, q, rf_request_id g) \<notin> requests rr'"
      if "g \<in> set (rr_pending_inbound rr')" for g q
      using that inbound sub apart_future(1,3)[OF ap] by blast+
    show "rc_request_id c1 \<noteq> rf_request_id g"
      if "g \<in> set (rr_pending_inbound rr')" "hm_get (rr_pending_outbound rr') sid1 = Some c1" for g sid1 c1
      using that inbound apart_future(2)[OF ap] pending[OF that(2)] by blast
  qed
qed

lemma rr_on_substream_open_failure_good:
  assumes inv: "rr_inv rr env used" and out: "se_outstanding env sid = Some p"
  shows "rr_good rr (snd (rr_on_substream_open_failure sid error rr)) (te_env (TeSubstreamOpenFailure sid error) env) used"
proof -
  obtain c where c: "hm_get (rr_pending_outbound rr) sid = Some c" "rc_peer c = p"
    using rr_inv_outstanding[OF inv out] by blast
  let ?r = "rc_request_id c"
  let ?rr1 = "rr\<lparr>rr_pending_outbound := hm_remove sid (rr_pending_outbound rr)\<rparr>"
  let ?rr' = "deactivate p ?r ?rr1"
  have req: "requests ?rr' = requests rr - {(False, p, ?r)}"
    by (simp add: requests_deactivate)
  have active: "(False, p, ?r) \<in> requests rr"
    using rr_inv_pending[OF inv c(1)] c(2) by blast
  have "rr_inv ?rr' (te_env (TeSubstreamOpenFailure sid error) env) used"
  proof (rule rr_inv_shrink[OF inv])
    show "hm_get (rr_pending_outbound rr) sid' = Some c' \<and> (False, rc_peer c', rc_request_id c') \<in> requests ?rr'"
      if "hm_get (rr_pending_outbound ?rr') sid' = Some c'" for sid' c'
      using that rr_inv_pending[OF inv, of sid' c'] apart_pending[OF rr_inv_apart[OF inv] c(1), of sid' c'] unfolding req
      by (auto simp del: requests_active split: if_splits)
    show "backed ?rr' (te_env (TeSubstreamOpenFailure sid error) env) q r" if "(False, q, r) \<in> requests ?rr'" for q r
    proof -
      have "backed rr env q r" "(q, r) \<noteq> (p, ?r)"
        using rr_inv_backed[OF inv] that req by blast+
      from this(1) show ?thesis
      proof (cases rule: backedE)
        case (substream sid' c')
        then have "sid' \<noteq> sid" using c \<open>(q, r) \<noteq> (p, ?r)\<close> by auto
        then show ?thesis using substream by (intro backed_outI[of _ sid' c']) auto
      next
        case (future f)
        then show ?thesis by (intro backed_inI[of f]) auto
      qed
    qed
  qed (use rr_inv_ok[OF inv] rr_inv_outstanding[OF inv] req in
      \<open>auto simp: hm_ok_deactivate simp del: requests_active dest!: deactivate_peer dest: rr_inv_peer[OF inv] split: if_splits\<close>)
  then show ?thesis
    using c waiting_remove[OF inv active req] by (simp add: rr_on_substream_open_failure_def)
qed

lemma rr_on_dial_failure_good:
  assumes inv: "rr_inv rr env used"
  shows "rr_good rr (snd (rr_on_dial_failure p rr)) env used"
proof (cases "hm_get (rr_pending_dials rr) p")
  case None
  then show ?thesis
    using inv by (simp add: rr_on_dial_failure_def)
next
  case (Some c)
  let ?r = "rc_request_id c"
  let ?rr1 = "rr\<lparr>rr_pending_dials := hm_remove p (rr_pending_dials rr)\<rparr>"
  have gone: "hm_get (rr_peers rr) p = None"
    using rr_inv_peer[OF inv, of p] Some by (cases "hm_get (rr_peers rr) p") auto
  then have rr': "deactivate p ?r ?rr1 = ?rr1"
    by (simp add: deactivate_def)
  have dial: "(True, p, ?r) \<in> requests rr"
    using Some by simp
  have req: "requests ?rr1 = requests rr - {(True, p, ?r)}"
    by (rule requests_eqI) (use Some in \<open>auto split: if_splits\<close>)
  have "rr_inv ?rr1 env used"
  proof (rule rr_inv_shrink[OF inv])
    show "backed ?rr1 env q r" if "(False, q, r) \<in> requests ?rr1" for q r
      using rr_inv_backed[OF inv, of q r] that unfolding req by (auto simp: backed_def)
    show "hm_get (rr_pending_outbound rr) sid = Some c' \<and> (False, rc_peer c', rc_request_id c') \<in> requests ?rr1"
      if "hm_get (rr_pending_outbound ?rr1) sid = Some c'" for sid c'
      using that rr_inv_pending[OF inv, of sid c'] unfolding req by (auto simp del: requests_active)
  qed (use rr_inv_ok[OF inv] rr_inv_outstanding[OF inv] req in
      \<open>auto simp del: requests_active dest: rr_inv_peer[OF inv]\<close>)
  then show ?thesis
    using Some waiting_remove[OF inv dial req] rr' by (simp add: rr_on_dial_failure_def)
qed

lemma rr_answers_failed:
  "distinct rs \<Longrightarrow> rr_answers r (map (\<lambda>r. rr_failed p r e) rs) = (if r \<in> set rs then 1 else 0)"
  by (induction rs) auto

lemma rr_effects_env_failed: "rr_effects_env (map (\<lambda>r. rr_failed p r e) rs) env = env"
  by (induction rs) auto

lemma rr_on_connection_closed_good:
  assumes inv: "rr_inv rr env used" and order: "iteration_order order"
  shows "rr_good rr (snd (rr_on_connection_closed order p rr)) (te_env (TeConnectionClosed p) env) used"
proof -
  let ?out = "filter (\<lambda>(_, c). rc_peer c \<noteq> p) (rr_pending_outbound rr)"
  let ?env = "te_env (TeConnectionClosed p) env"
  have get: "hm_get ?out sid = (case hm_get (rr_pending_outbound rr) sid of None \<Rightarrow> None
      | Some c \<Rightarrow> if rc_peer c \<noteq> p then Some c else None)" for sid
    by (rule hm_get_filter_value[OF rr_inv_ok(2)[OF inv]])
  have inv': "rr_inv rr' ?env used"
    if peers: "hm_get (rr_peers rr') = (hm_get (rr_peers rr))(p := None)" "hm_ok (rr_peers rr')"
      and fields: "rr_pending_outbound rr' = ?out" "rr_pending_dials rr' = rr_pending_dials rr"
      "rr_pending_inbound rr' = rr_pending_inbound rr" for rr'
  proof (rule rr_inv_shrink[OF inv])
    have req: "(False, q, r) \<in> requests rr' \<longleftrightarrow> (False, q, r) \<in> requests rr \<and> q \<noteq> p" for q r
      using peers by auto
    show "requests rr' \<subseteq> requests rr"
      using peers fields by (auto simp: requests_def split: if_splits)
    show "hm_get (rr_pending_outbound rr) sid = Some c \<and> (False, rc_peer c, rc_request_id c) \<in> requests rr'"
      if "hm_get (rr_pending_outbound rr') sid = Some c" for sid c
      using that rr_inv_pending[OF inv, of sid c] unfolding req fields get
      by (auto simp del: requests_active split: option.splits if_splits)
    show "\<exists>c. hm_get (rr_pending_outbound rr') sid = Some c \<and> rc_peer c = q" if "se_outstanding ?env sid = Some q" for sid q
    proof -
      have "se_outstanding env sid = Some q" "q \<noteq> p"
        using that by (auto split: if_splits)
      then show ?thesis
        using rr_inv_outstanding[OF inv, of sid q] unfolding fields get by auto
    qed
    show "backed rr' ?env q r" if a: "(False, q, r) \<in> requests rr'" for q r
    proof -
      have "backed rr env q r" "q \<noteq> p"
        using rr_inv_backed[OF inv] a unfolding req by blast+
      from this(1) show ?thesis
      proof (cases rule: backedE)
        case (substream sid c)
        then show ?thesis
          using \<open>q \<noteq> p\<close> by (intro backed_outI[of _ sid c]) (auto simp: fields get)
      next
        case (future f)
        then show ?thesis using fields by (intro backed_inI[of f]) auto
      qed
    qed
  qed (use rr_inv_ok[OF inv] rr_inv_peer[OF inv] that in \<open>auto simp: hm_ok_filter split: if_splits\<close>)
  show ?thesis
  proof (cases "hm_get (rr_peers rr) p")
    case None
    then have "(hm_get (rr_peers rr))(p := None) = hm_get (rr_peers rr)" by auto
    then show ?thesis
      using None inv'[of "rr\<lparr>rr_pending_outbound := ?out\<rparr>"] rr_inv_ok[OF inv]
        waiting_same[of "rr\<lparr>rr_pending_outbound := ?out\<rparr>" rr]
      by (simp add: rr_on_connection_closed_def Let_def)
  next
    case (Some c)
    let ?rr' = "rr\<lparr>rr_pending_outbound := ?out, rr_peers := hm_remove p (rr_peers rr)\<rparr>"
    let ?effects = "map (\<lambda>r. rr_failed p r (RequestRejected ReasonConnectionClosed)) (order (rp_active c))"
    have step: "snd (rr_on_connection_closed order p rr) = (?effects, ?rr')"
      using Some by (simp add: rr_on_connection_closed_def Let_def)
    have perm: "mset (order (rp_active c)) = mset (rp_active c)"
      using order by (simp add: iteration_order_def)
    have "distinct (order (rp_active c))" "set (order (rp_active c)) = set (rp_active c)"
      using rr_inv_peer[OF inv Some] mset_eq_imp_distinct_iff[OF perm] mset_eq_setD[OF perm] by auto
    then have count: "rr_answers r ?effects = (if r \<in> set (rp_active c) then 1 else 0)" for r
      by (simp add: rr_answers_failed)
    have wait: "waiting ?rr' r \<longleftrightarrow> waiting rr r \<and> r \<notin> set (rp_active c)" for r
    proof -
      have place: "(d, q, r) \<in> requests ?rr' \<longleftrightarrow> (d, q, r) \<in> requests rr \<and> \<not> (\<not> d \<and> q = p)" for d q
        by (cases d) auto
      have active: "r \<in> set (rp_active c) \<longleftrightarrow> (False, p, r) \<in> requests rr"
        using Some by simp
      show ?thesis
      proof (cases "(False, p, r) \<in> requests rr")
        case True
        have "\<not> waiting ?rr' r"
        proof
          assume "waiting ?rr' r"
          then obtain d q where "(d, q, r) \<in> requests rr" "\<not> (\<not> d \<and> q = p)"
            unfolding waiting_def using place by (elim exE) metis
          then show False using rr_inv_unique[OF inv True] by metis
        qed
        then show ?thesis using True active by blast
      next
        case False
        have "(d, q, r) \<in> requests ?rr' \<longleftrightarrow> (d, q, r) \<in> requests rr" for d q
          using False place[of d q] by (cases d; cases "q = p") auto
        then have "waiting ?rr' r = waiting rr r"
          by (simp add: waiting_def)
        then show ?thesis using False active by blast
      qed
    qed
    have "waiting rr r" if "r \<in> set (rp_active c)" for r
      unfolding waiting_def using that Some by (intro exI[of _ False] exI[of _ p]) simp
    moreover have "rr_effects_env ?effects ?env = ?env"
      by (rule rr_effects_env_failed)
    moreover have "rr_inv ?rr' ?env used"
      by (rule inv') (use rr_inv_ok[OF inv] in auto)
    ultimately show ?thesis
      unfolding step rr_good_simp using count wait by auto
  qed
qed

text \<open>A substream is initiated for the request \<open>r\<close>, which becomes an active request of \<open>p\<close>.\<close>

lemma rr_inv_open:
  assumes inv: "rr_inv rr env used"
    and peers: "hm_ok (rr_peers rr')" "\<And>q. hm_get (rr_peers rr') q = (if q = p then Some ctx else hm_get (rr_peers rr) q)"
    and ctx: "distinct (rp_active ctx)" "\<And>q. q \<in> set (rp_active ctx) \<longleftrightarrow> q = r \<or> (False, p, q) \<in> requests rr"
    and dials: "hm_ok (rr_pending_dials rr')" "\<And>q. hm_get (rr_pending_dials rr') q = (if q = p then None else hm_get (rr_pending_dials rr) q)"
    and out: "rr_pending_outbound rr' = hm_insert sid c (rr_pending_outbound rr)" "rc_peer c = p" "rc_request_id c = r"
    and inb: "rr_pending_inbound rr' = rr_pending_inbound rr"
    and place: "(True, p, r) \<in> requests rr \<or> r \<notin> used"
    and sid: "sid \<notin> se_used env"
    and env': "se_connected env \<subseteq> se_connected env'" "p \<in> se_connected env'" "se_outstanding env' = se_outstanding env"
      "se_used env' = se_used env"
  shows "rr_inv rr' (opened_env p sid env') (insert r used)"
proof -
  note ap = rr_inv_apart[OF inv]
  have active: "(False, q, s) \<in> requests rr' \<longleftrightarrow> (False, q, s) \<in> requests rr \<or> q = p \<and> s = r" for q s
    by (cases "q = p") (auto simp: peers(2) ctx(2))
  have dial: "(True, q, s) \<in> requests rr' \<longleftrightarrow> (True, q, s) \<in> requests rr \<and> q \<noteq> p" for q s
    by (auto simp: dials(2))
  have old: "hm_get (rr_pending_outbound rr) sid' = Some c' \<Longrightarrow> sid' \<noteq> sid \<and> rc_request_id c' \<noteq> r" for sid' c'
    using rr_inv_pending[OF inv, of sid' c'] sid place rr_inv_unique[OF inv, of True p r False] rr_inv_used[OF inv] by blast
  have fut: "f \<in> set (rr_pending_inbound rr) \<Longrightarrow> rf_request_id f \<noteq> r" for f
    using apart_future(1,3)[OF ap] place by blast
  show ?thesis
  proof (rule rr_inv_step[OF inv, where np = p])
    show "(\<exists>d'. (d', q, s) \<in> requests rr) \<or> q = p \<and> s \<notin> used \<and> s \<in> insert r used" if "(d, q, s) \<in> requests rr'" for d q s
      using that place active[of q s] dial[of q s] by (cases d; simp del: requests_active requests_dial; blast)
    show False if "(True, q, s) \<in> requests rr'" "(False, q, s) \<in> requests rr'" for q s
      using that dial[of q s] active[of q s] rr_inv_unique[OF inv, of True q s False] by blast
    show "distinct (rp_active c') \<and> q \<in> se_connected (opened_env p sid env') \<and> hm_get (rr_pending_dials rr') q = None"
      if "hm_get (rr_peers rr') q = Some c'" for q c'
      using that peers(2)[of q] dials(2)[of q] ctx(1) env' rr_inv_peer[OF inv, of q c'] by (auto split: if_splits)
    show "(False, rc_peer c', rc_request_id c') \<in> requests rr' \<and> sid' \<in> se_used (opened_env p sid env')"
      if "hm_get (rr_pending_outbound rr') sid' = Some c'" for sid' c'
      using that rr_inv_pending[OF inv, of sid' c'] env'(4) out unfolding active by (auto simp del: requests_active split: if_splits)
    show "\<exists>c'. hm_get (rr_pending_outbound rr') sid' = Some c' \<and> rc_peer c' = q"
      if "se_outstanding (opened_env p sid env') sid' = Some q" for sid' q
      using that rr_inv_outstanding[OF inv, of sid' q] env'(3) out by (auto split: if_splits)
    show "backed rr' (opened_env p sid env') q s" if a: "(False, q, s) \<in> requests rr'" for q s
    proof (cases "q = p \<and> s = r")
      case True
      then show ?thesis using out by (intro backed_outI[of _ sid c]) auto
    next
      case False
      then have "backed rr env q s"
        using rr_inv_backed[OF inv, of q s] a active by blast
      then show ?thesis
      proof (cases rule: backedE)
        case (substream sid' c')
        then show ?thesis using out old[of sid' c'] env'(3) by (intro backed_outI[of _ sid' c']) auto
      next
        case (future f)
        then show ?thesis using inb by (intro backed_inI[of f]) auto
      qed
    qed
    show "apart rr' (insert r used)"
      unfolding apart_def
    proof (intro conjI allI impI ballI)
      show "sid1 = sid2" if "hm_get (rr_pending_outbound rr') sid1 = Some c1" "hm_get (rr_pending_outbound rr') sid2 = Some c2"
        "rc_request_id c1 = rc_request_id c2" for sid1 c1 sid2 c2
        using that out old[of sid1 c1] old[of sid2 c2] apart_pending[OF ap, of sid1 c1 sid2 c2] by (auto split: if_splits)
      show "rf_request_id g \<in> insert r used" "(True, q, rf_request_id g) \<notin> requests rr'"
        if "g \<in> set (rr_pending_inbound rr')" for g q
        using that[unfolded inb] apart_future(1,3)[OF ap] unfolding dial by blast+
      show "rc_request_id c1 \<noteq> rf_request_id g"
        if "g \<in> set (rr_pending_inbound rr')" "hm_get (rr_pending_outbound rr') sid1 = Some c1" for g sid1 c1
        using that inb fut[of g] out apart_future(2)[OF ap, of g sid1 c1] by (auto split: if_splits)
    qed
  qed (use rr_inv_ok[OF inv] peers dials out in auto)
qed

lemma rr_on_connection_established_good:
  assumes inv: "rr_inv rr env used" and p: "p \<notin> se_connected env"
    and fresh: "\<And>sid. rs_open sv p = Inr sid \<Longrightarrow> sid \<notin> se_used env"
  shows "rr_good rr (snd (rr_on_connection_established sv p rr)) (te_env (TeConnectionEstablished p) env) used"
proof -
  have new: "hm_get (rr_peers rr) p = None"
    using rr_inv_peer[OF inv, of p] p by (cases "hm_get (rr_peers rr) p") auto
  let ?env = "te_env (TeConnectionEstablished p) env"
  let ?rr1 = "rr\<lparr>rr_pending_dials := hm_remove p (rr_pending_dials rr)\<rparr>"
  have shrink: "rr_inv rr' ?env used"
    if peers: "hm_ok (rr_peers rr')" "\<And>q c. hm_get (rr_peers rr') q = Some c \<Longrightarrow> q = p \<and> c = rr_peer_context_new \<or> hm_get (rr_peers rr) q = Some c"
      and active: "\<And>q r. (False, q, r) \<in> requests rr' \<longleftrightarrow> (False, q, r) \<in> requests rr"
      and dials: "rr_pending_dials rr' = hm_remove p (rr_pending_dials rr)"
      and fields: "rr_pending_outbound rr' = rr_pending_outbound rr" "rr_pending_inbound rr' = rr_pending_inbound rr" for rr'
  proof (rule rr_inv_shrink[OF inv])
    have "x \<in> requests rr" if "x \<in> requests rr'" for x
      using that active dials by (cases x; cases "fst x") (auto simp del: requests_active split: if_splits)
    then show "requests rr' \<subseteq> requests rr" by blast
    show "backed rr' ?env q r" if "(False, q, r) \<in> requests rr'" for q r
      using rr_inv_backed[OF inv, of q r] that fields unfolding active backed_def by simp
    show "hm_get (rr_pending_outbound rr) sid = Some c \<and> (False, rc_peer c, rc_request_id c) \<in> requests rr'"
      if "hm_get (rr_pending_outbound rr') sid = Some c" for sid c
      using that rr_inv_pending[OF inv, of sid c] fields unfolding active by auto
    show "distinct (rp_active c) \<and> q \<in> se_connected ?env \<and> hm_get (rr_pending_dials rr') q = None"
      if "hm_get (rr_peers rr') q = Some c" for q c
      using peers(2)[OF that] rr_inv_peer[OF inv, of q c] dials by (auto simp: rr_peer_context_new_def)
  qed (use rr_inv_ok[OF inv] rr_inv_outstanding[OF inv] that in auto)
  show ?thesis
  proof (cases "hm_get (rr_pending_dials rr) p")
    case None
    let ?rr' = "rr_set_peer p rr_peer_context_new ?rr1"
    have "requests ?rr' = requests rr"
      by (rule requests_eqI) (use None new in \<open>auto simp: rr_peer_context_new_def\<close>)
    moreover have "rr_inv ?rr' ?env used"
      by (rule shrink) (use rr_inv_ok[OF inv] new in \<open>auto simp: rr_peer_context_new_def split: if_splits\<close>)
    ultimately show ?thesis
      using None new waiting_same[of ?rr' rr] by (simp add: rr_on_connection_established_def Let_def)
  next
    case (Some c)
    let ?r = "rc_request_id c"
    have dial: "(True, p, ?r) \<in> requests rr" using Some by simp
    have req: "requests ?rr1 = requests rr - {(True, p, ?r)}"
      by (rule requests_eqI) (use Some in \<open>auto split: if_splits\<close>)
    show ?thesis
    proof (cases "rs_open sv p")
      case (Inl error)
      have "rr_inv ?rr1 ?env used"
        by (rule shrink) (use rr_inv_ok[OF inv] in auto)
      then show ?thesis
        using Some Inl new waiting_remove[OF inv dial req] by (simp add: rr_on_connection_established_def)
    next
      case (Inr sid)
      let ?ctx = "rr_peer_context_new\<lparr>rp_active := [?r]\<rparr>"
      let ?c = "\<lparr>rc_peer = p, rc_request_id = ?r, rc_request = rc_request c, rc_fallback = rc_fallback c\<rparr>"
      let ?rr' = "(rr_set_peer p ?ctx ?rr1)\<lparr>rr_pending_outbound := hm_insert sid ?c (rr_pending_outbound rr)\<rparr>"
      have step: "snd (rr_on_connection_established sv p rr) = ([RrOpened p sid], ?rr')"
        using Some Inr new by (simp add: rr_on_connection_established_def)
      have "rr_inv ?rr' (opened_env p sid ?env) (insert ?r used)"
        by (rule rr_inv_open[OF inv, where ctx = ?ctx and c = ?c])
          (use rr_inv_ok[OF inv] new dial fresh[OF Inr] in \<open>auto simp del: requests_dial\<close>)
      moreover have "insert ?r used = used"
        using rr_inv_used[OF inv dial] by blast
      moreover have "waiting ?rr' q \<longleftrightarrow> waiting rr q" for q
      proof -
        have place: "(d, s, q) \<in> requests ?rr' \<longleftrightarrow> (d, s, q) \<in> requests rr - {(True, p, ?r)} \<union> {(False, p, ?r)}" for d s
          using new Some by (cases d) auto
        show ?thesis
          unfolding waiting_def place using dial by blast
      qed
      ultimately show ?thesis
        unfolding step rr_good_simp by simp
    qed
  qed
qed

text \<open>A step that moves no request and initiates no substream.\<close>

lemma rr_good_same:
  assumes inv: "rr_inv rr env used"
    and peers: "hm_ok (rr_peers rr')" "\<And>q. map_option rp_active (hm_get (rr_peers rr') q) = map_option rp_active (hm_get (rr_peers rr) q)"
    and fields: "rr_pending_outbound rr' = rr_pending_outbound rr" "rr_pending_inbound rr' = rr_pending_inbound rr"
      "rr_pending_dials rr' = rr_pending_dials rr"
    and effects: "\<And>e. e \<in> set effects \<Longrightarrow> rr_answer_for e = None \<and> e \<noteq> RrAssertionFailed \<and> (\<forall>q sid. e \<noteq> RrOpened q sid)"
  shows "rr_good rr (effects, rr') env used"
proof -
  have active: "(False, q, r) \<in> requests rr' \<longleftrightarrow> (False, q, r) \<in> requests rr" for q r
    using peers(2)[of q] by (cases "hm_get (rr_peers rr) q"; cases "hm_get (rr_peers rr') q") auto
  have req: "requests rr' = requests rr"
    by (rule requests_eqI) (simp_all add: active fields(3) del: requests_active)
  have env: "rr_effects_env effects env = env"
    using effects
  proof (induction effects)
    case (Cons e es)
    then have "rr_effect_env e env = env" by (cases e) auto
    then show ?case using Cons by simp
  qed simp
  have count: "rr_answers r effects = 0" for r
    unfolding rr_answers_def using effects by (simp add: filter_empty_conv)
  have "rr_inv rr' env used"
  proof (rule rr_inv_shrink[OF inv])
    show "backed rr' env q r" if "(False, q, r) \<in> requests rr'" for q r
      using rr_inv_backed[OF inv, of q r] that fields unfolding req backed_def by simp
    show "distinct (rp_active c) \<and> q \<in> se_connected env \<and> hm_get (rr_pending_dials rr') q = None"
      if "hm_get (rr_peers rr') q = Some c" for q c
      using peers(2)[of q] that rr_inv_peer[OF inv, of q] fields(3) by (cases "hm_get (rr_peers rr) q") auto
  qed (use inv rr_inv_ok[OF inv] rr_inv_outstanding[OF inv] rr_inv_pending[OF inv] req fields peers(1) in
      \<open>auto simp del: requests_active\<close>)
  then show ?thesis
    using effects waiting_same[OF req] count env by auto
qed

lemma rr_on_inbound_substream_good:
  assumes inv: "rr_inv rr env used"
  shows "rr_good rr (snd (rr_on_inbound_substream p fallback substream rr)) env used"
proof -
  obtain effects rr' where step: "snd (rr_on_inbound_substream p fallback substream rr) = (effects, rr')"
    by (metis surj_pair)
  have "rr_good rr (effects, rr') env used"
    by (rule rr_good_same[OF inv])
      (use step rr_inv_ok[OF inv] in
        \<open>auto simp: rr_on_inbound_substream_def next_request_id_def Let_def split: if_splits option.splits\<close>)
  then show ?thesis by (simp add: step)
qed

lemma rr_on_inbound_request_good:
  assumes inv: "rr_inv rr env used"
  shows "rr_good rr (snd (rr_on_inbound_request p r request substream rr)) env used"
proof -
  obtain effects rr' where step: "snd (rr_on_inbound_request p r request substream rr) = (effects, rr')"
    by (metis surj_pair)
  have "rr_good rr (effects, rr') env used"
    by (rule rr_good_same[OF inv])
      (use step rr_inv_ok[OF inv] in
        \<open>auto simp: rr_on_inbound_request_def Let_def split: if_splits option.splits sum.splits\<close>)
  then show ?thesis by (simp add: step)
qed

lemma on_cancel_request_good:
  assumes inv: "rr_inv rr env used"
  shows "rr_good rr (snd (on_cancel_request alive r rr)) env used"
proof -
  obtain effects rr' where step: "snd (on_cancel_request alive r rr) = (effects, rr')"
    by (metis surj_pair)
  have "rr_good rr (effects, rr') env used"
    by (rule rr_good_same[OF inv])
      (use step rr_inv_ok[OF inv] in \<open>auto simp: on_cancel_request_def split: if_splits option.splits\<close>)
  then show ?thesis by (simp add: step)
qed

subsection \<open>Steps that start or cancel a request\<close>

abbreviation waits :: "request_response \<Rightarrow> request_id \<Rightarrow> nat" where
  "waits rr r \<equiv> (if waiting rr r then 1 else 0)"

text \<open>
  The balance of a step that starts the requests \<open>S\<close> and may end the requests \<open>C\<close> without an answer.
\<close>

definition rr_balanced ::
  "request_response \<Rightarrow> rr_effect list \<times> request_response \<Rightarrow> service_env \<Rightarrow> request_id set \<Rightarrow> request_id set \<Rightarrow> request_id set \<Rightarrow> bool" where
  "rr_balanced rr outcome env used S C \<longleftrightarrow>
     (case outcome of (effects, rr') \<Rightarrow>
        rr_inv rr' (rr_effects_env effects env) (used \<union> S) \<and> RrAssertionFailed \<notin> set effects
        \<and> (\<forall>r. r \<notin> C \<longrightarrow> rr_answers r effects + waits rr' r = (if waiting rr r \<or> r \<in> S then 1 else 0))
        \<and> (\<forall>r. rr_answers r effects + waits rr' r \<le> (if waiting rr r \<or> r \<in> S then 1 else 0)))"

lemma rr_good_balanced: "rr_good rr outcome env used \<Longrightarrow> rr_balanced rr outcome env used {} C"
  by (cases outcome) (simp add: rr_balanced_def)

lemma apart_mono: "apart rr used \<Longrightarrow> used \<subseteq> used' \<Longrightarrow> apart rr used'"
  unfolding apart_def by (meson subsetD)

lemma rr_inv_grow: "rr_inv rr env used \<Longrightarrow> rr_inv rr env (used \<union> S)"
  using apart_mono[of rr used "used \<union> S"] unfolding rr_inv_def by (elim conjE, intro conjI) blast+

lemma rr_inv_not_waiting: "rr_inv rr env used \<Longrightarrow> r \<notin> used \<Longrightarrow> \<not> waiting rr r"
  unfolding waiting_def using rr_inv_used by blast

lemma rejected_balanced:
  assumes "rr_inv rr env used" and "r \<notin> used"
  shows "rr_balanced rr (report_if_failed p r (Inl error, [], rr)) env used {r} {}"
  using rr_inv_grow[OF assms(1), of "{r}"] rr_inv_not_waiting[OF assms] by (auto simp: rr_balanced_def report_if_failed_def)

text \<open>The peer \<open>p\<close> is dialed for the new request \<open>r\<close>.\<close>

lemma rr_inv_dial:
  assumes inv: "rr_inv rr env used" and r: "r \<notin> used"
    and place: "\<And>d q s. (d, q, s) \<in> requests rr' \<longleftrightarrow> (d, q, s) \<in> requests rr \<or> (d = True \<and> q = p \<and> s = r)"
    and peers: "rr_peers rr' = rr_peers rr" "hm_get (rr_peers rr) p = None"
    and dials: "hm_ok (rr_pending_dials rr')" "\<And>q. q \<noteq> p \<Longrightarrow> hm_get (rr_pending_dials rr') q = hm_get (rr_pending_dials rr) q"
    and fields: "rr_pending_outbound rr' = rr_pending_outbound rr" "rr_pending_inbound rr' = rr_pending_inbound rr"
  shows "rr_inv rr' env (insert r used)"
proof (rule rr_inv_step[OF inv, where np = p])
  note ap = rr_inv_apart[OF inv]
  show "(\<exists>d'. (d', q, s) \<in> requests rr) \<or> q = p \<and> s \<notin> used \<and> s \<in> insert r used" if "(d, q, s) \<in> requests rr'" for d q s
    using that r unfolding place by blast
  show False if "(True, q, s) \<in> requests rr'" "(False, q, s) \<in> requests rr'" for q s
    using that r rr_inv_used[OF inv, of False q s] rr_inv_unique[OF inv, of True q s False q] unfolding place by blast
  show "distinct (rp_active c) \<and> q \<in> se_connected env \<and> hm_get (rr_pending_dials rr') q = None"
    if "hm_get (rr_peers rr') q = Some c" for q c
    using that peers dials(2)[of q] rr_inv_peer[OF inv, of q c] by (cases "q = p") auto
  show "(False, rc_peer c, rc_request_id c) \<in> requests rr' \<and> sid \<in> se_used env"
    if "hm_get (rr_pending_outbound rr') sid = Some c" for sid c
    using that[unfolded fields] rr_inv_pending[OF inv, of sid c] unfolding place by blast
  show "backed rr' env q s" if "(False, q, s) \<in> requests rr'" for q s
    using that rr_inv_backed[OF inv, of q s] unfolding place backed_def fields by blast
  show "apart rr' (insert r used)"
    using ap r unfolding apart_def fields place by blast
qed (use rr_inv_ok[OF inv] rr_inv_outstanding[OF inv] peers dials fields in auto)

lemma on_send_request_balanced:
  assumes inv: "rr_inv rr env used" and r: "r \<notin> used"
    and dial: "hm_get (rr_pending_dials rr) p = None \<or> opts = OptReject"
    and fresh: "\<And>sid. rs_open sv p = Inr sid \<Longrightarrow> sid \<notin> se_used env"
  shows "rr_balanced rr (report_if_failed p r (on_send_request sv p r request opts fallback rr)) env used {r} {}"
proof -
  let ?c = "\<lparr>rc_peer = p, rc_request_id = r, rc_request = request, rc_fallback = fallback\<rparr>"
  have started: ?thesis
    if outcome: "on_send_request sv p r request opts fallback rr = (Inr (), effects, rr')"
      and effects: "RrAssertionFailed \<notin> set effects" "\<And>q. rr_answers q effects = 0"
      and inv': "rr_inv rr' (rr_effects_env effects env) (insert r used)"
      and place: "\<And>d q s. (d, q, s) \<in> requests rr' \<longleftrightarrow> (d, q, s) \<in> requests rr \<or> (d = d0 \<and> q = p \<and> s = r)" for effects rr' d0
  proof -
    have "waiting rr' s \<longleftrightarrow> waiting rr s \<or> s = r" for s
      unfolding waiting_def place by blast
    then show ?thesis
      using outcome effects inv' by (simp add: rr_balanced_def report_if_failed_def)
  qed
  show ?thesis
  proof (cases "hm_get (rr_peers rr) p")
    case None
    show ?thesis
    proof (cases opts)
      case OptReject
      then have "on_send_request sv p r request opts fallback rr = (Inl NotConnected, [], rr)"
        using None by (simp add: on_send_request_def)
      then show ?thesis using rejected_balanced[OF inv r] by simp
    next
      case OptDial
      show ?thesis
      proof (cases "rs_dial sv p")
        case (Inl error)
        then have "on_send_request sv p r request opts fallback rr = (Inl (RequestRejected (DialFailed (Some error))), [], rr)"
          using None OptDial by (simp add: on_send_request_def)
        then show ?thesis using rejected_balanced[OF inv r] by simp
      next
        case (Inr u)
        let ?rr' = "rr\<lparr>rr_pending_dials := hm_insert p ?c (rr_pending_dials rr)\<rparr>"
        have free: "hm_get (rr_pending_dials rr) p = None" using dial OptDial by simp
        have place: "(d, q, s) \<in> requests ?rr' \<longleftrightarrow> (d, q, s) \<in> requests rr \<or> (d = True \<and> q = p \<and> s = r)" for d q s
          using free by (cases d) auto
        have "rr_inv ?rr' env (insert r used)"
          by (rule rr_inv_dial[OF inv r place]) (use rr_inv_ok[OF inv] None in auto)
        moreover have "on_send_request sv p r request opts fallback rr = (Inr (), [], ?rr')"
          using Inr None OptDial by (simp add: on_send_request_def)
        ultimately show ?thesis
          by (intro started[OF _ _ _ _ place]) auto
      qed
    qed
  next
    case (Some ctx)
    show ?thesis
    proof (cases "rs_open sv p")
      case (Inl error)
      then have "on_send_request sv p r request opts fallback rr = (Inl (RequestRejected (reject_reason_from error)), [], rr)"
        using Some by (simp add: on_send_request_def)
      then show ?thesis using rejected_balanced[OF inv r] by simp
    next
      case (Inr sid)
      let ?ctx = "ctx\<lparr>rp_active := List.insert r (rp_active ctx)\<rparr>"
      let ?rr' = "(rr_set_peer p ?ctx rr)\<lparr>rr_pending_outbound := hm_insert sid ?c (rr_pending_outbound rr)\<rparr>"
      note peer = rr_inv_peer[OF inv Some]
      have "r \<notin> set (rp_active ctx)"
        using rr_inv_used[OF inv, of False p r] r Some by auto
      then have step: "on_send_request sv p r request opts fallback rr = (Inr (), [RrOpened p sid], ?rr')"
        using Some Inr by (simp add: on_send_request_def Let_def)
      have place: "(d, q, s) \<in> requests ?rr' \<longleftrightarrow> (d, q, s) \<in> requests rr \<or> (d = False \<and> q = p \<and> s = r)" for d q s
        using Some by (cases d) auto
      have "rr_inv ?rr' (opened_env p sid env) (insert r used)"
        by (rule rr_inv_open[OF inv, where ctx = ?ctx and c = ?c])
          (use rr_inv_ok[OF inv] Some r peer fresh[OF Inr] in auto)
      then show ?thesis
        by (intro started[OF step _ _ _ place]) auto
    qed
  qed
qed

lemma remove_nth_other: "i < length xs \<Longrightarrow> x \<in> set xs \<Longrightarrow> x \<noteq> xs ! i \<Longrightarrow> x \<in> set (remove_nth i xs)"
  using mset_remove_nth[of i xs] by (metis insert_iff set_mset_add_mset_insert set_mset_mset)

lemma response_ended_inv:
  assumes inv: "rr_inv rr env used" and i: "i < length (rr_pending_inbound rr)"
    and f: "rf_peer (rr_pending_inbound rr ! i) = p" "rf_request_id (rr_pending_inbound rr ! i) = r"
    and req: "requests rr' = requests rr - {(False, p, r)}"
    and peers: "hm_ok (rr_peers rr')" "\<And>q c. hm_get (rr_peers rr') q = Some c \<Longrightarrow>
      \<exists>c0. hm_get (rr_peers rr) q = Some c0 \<and> (distinct (rp_active c0) \<longrightarrow> distinct (rp_active c))"
    and fields: "rr_pending_inbound rr' = remove_nth i (rr_pending_inbound rr)"
      "rr_pending_outbound rr' = rr_pending_outbound rr" "rr_pending_dials rr' = rr_pending_dials rr"
  shows "rr_inv rr' env used"
proof (rule rr_inv_shrink[OF inv])
  have mem: "rr_pending_inbound rr ! i \<in> set (rr_pending_inbound rr)" using i by simp
  show "requests rr' \<subseteq> requests rr" unfolding req by blast
  show "hm_get (rr_pending_outbound rr) sid = Some c \<and> (False, rc_peer c, rc_request_id c) \<in> requests rr'"
    if "hm_get (rr_pending_outbound rr') sid = Some c" for sid c
    using that[unfolded fields] rr_inv_pending[OF inv, of sid c] apart_future(2)[OF rr_inv_apart[OF inv] mem, of sid c] f(2) unfolding req
    by (auto simp del: requests_active)
  show "backed rr' env q s" if a: "(False, q, s) \<in> requests rr'" for q s
  proof -
    have "backed rr env q s" "(q, s) \<noteq> (p, r)"
      using rr_inv_backed[OF inv, of q s] a unfolding req by blast+
    from this(1) show ?thesis
    proof (cases rule: backedE)
      case (substream sid c)
      then show ?thesis by (intro backed_outI[of _ sid c]) (auto simp: fields)
    next
      case (future g)
      then have "g \<in> set (remove_nth i (rr_pending_inbound rr))"
        using \<open>(q, s) \<noteq> (p, r)\<close> f by (intro remove_nth_other[OF i]) auto
      then show ?thesis using future by (intro backed_inI[of g]) (auto simp: fields)
    qed
  qed
qed (use rr_inv_ok[OF inv] rr_inv_outstanding[OF inv] peers(1) in
    \<open>auto simp: fields dest: set_remove_nth[THEN subsetD] dest!: peers(2) dest: rr_inv_peer[OF inv]\<close>)

lemma rr_inv_other_fields:
  assumes "rr_inv rr env used" and "rr_peers rr' = rr_peers rr" and "rr_pending_dials rr' = rr_pending_dials rr"
    and "rr_pending_outbound rr' = rr_pending_outbound rr" and "rr_pending_inbound rr' = rr_pending_inbound rr"
  shows "rr_inv rr' env used"
  using assms(1) requests_other_fields[OF assms(2,3)] unfolding rr_inv_def apart_def backed_def assms(2-) by simp

definition canceled_by_message :: "request_id \<Rightarrow> (request_response_error, payload) result \<Rightarrow> request_id set" where
  "canceled_by_message r message = (if message = Inl RequestCanceled then {r} else {})"

lemma on_substream_event_balanced:
  assumes inv: "rr_inv rr env used" and i: "i < length (rr_pending_inbound rr)"
    and f: "rf_peer (rr_pending_inbound rr ! i) = p" "rf_request_id (rr_pending_inbound rr ! i) = r"
    and step: "on_substream_event p r fallback message (rr\<lparr>rr_pending_inbound := remove_nth i (rr_pending_inbound rr)\<rparr>) = (res, effects, rr1)"
    and rr': "rr' = rr1\<lparr>rr_pending_outbound_cancels := cancels\<rparr>"
  shows "rr_balanced rr (effects, rr') env used {} (canceled_by_message r message)"
proof (cases "(False, p, r) \<in> requests rr")
  case True
  let ?rr0 = "rr\<lparr>rr_pending_inbound := remove_nth i (rr_pending_inbound rr)\<rparr>"
  obtain c where c: "hm_get (rr_peers rr) p = Some c" "r \<in> set (rp_active c)"
    using True by auto
  have rr1: "rr1 = deactivate p r ?rr0"
    and effects: "effects = (case message of Inr response \<Rightarrow> [RrReport (ResponseReceived p fallback r response)]
      | Inl RequestCanceled \<Rightarrow> [] | Inl error \<Rightarrow> [rr_failed p r error])"
    using step c by (simp_all add: on_substream_event_def)
  have req: "requests rr' = requests rr - {(False, p, r)}"
    by (simp add: rr' rr1 requests_deactivate)
  have "rr_inv rr' env used"
    by (rule response_ended_inv[OF inv i f req])
      (use rr_inv_ok[OF inv] in \<open>auto simp: rr' rr1 hm_ok_deactivate dest: deactivate_peer\<close>)
  moreover have "rr_effects_env effects env = env" "RrAssertionFailed \<notin> set effects"
    "rr_answers q effects = (if q = r \<and> message \<noteq> Inl RequestCanceled then 1 else 0)" for q
    unfolding effects by (auto split: sum.splits request_response_error.splits)
  ultimately show ?thesis
    using waiting_remove[OF inv True req] by (auto simp: rr_balanced_def canceled_by_message_def)
next
  case False
  then have rr1: "rr1 = rr\<lparr>rr_pending_inbound := remove_nth i (rr_pending_inbound rr)\<rparr>" and effects: "effects = []"
    using step by (auto simp: on_substream_event_def split: option.splits if_splits)
  have req: "requests rr' = requests rr"
    by (simp add: rr' rr1)
  have "rr_inv rr' env used"
    by (rule response_ended_inv[OF inv i f])
      (use rr_inv_ok[OF inv] False in \<open>auto simp: req rr' rr1 simp del: requests_active\<close>)
  then show ?thesis
    using waiting_same[OF req] by (simp add: rr_balanced_def effects)
qed

end
