(* ===== verification/Request_Runs.thy ===== *)
theory Request_Runs
  imports Request_Answers
begin

section \<open>Runs of the request-response protocol\<close>

text \<open>
  The event loop over arbitrary sequences of inputs. A run records the requests the user sent and canceled and
  all effects so far. Every request is answered exactly once unless it is canceled, and the number of
  inbound requests in progress stays within the configured bound.
\<close>

text \<open>
  The sender of a cancellation channel lives as long as its entry in \<open>pending_outbound_cancels\<close>: the future sees
  its channel resolve only after the entry was taken.
\<close>

definition sender_alive :: "request_response \<Rightarrow> channel_id \<Rightarrow> bool" where
  "sender_alive rr tx \<longleftrightarrow> (\<exists>r. hm_get (rr_pending_outbound_cancels rr) r = Some tx)"

fun rr_command_ok :: "request_response \<Rightarrow> request_id set \<Rightarrow> rr_command \<Rightarrow> bool" where
  "rr_command_ok rr sent (SendRequest p r _ opts) \<longleftrightarrow>
     r \<notin> sent \<and> (hm_get (rr_pending_dials rr) p = None \<or> opts = OptReject)"
| "rr_command_ok rr sent (SendRequestWithFallback p r _ _ opts) \<longleftrightarrow>
     r \<notin> sent \<and> (hm_get (rr_pending_dials rr) p = None \<or> opts = OptReject)"
| "rr_command_ok _ _ (CancelRequest _) \<longleftrightarrow> True"

fun rr_input_ok :: "request_response \<Rightarrow> service_env \<Rightarrow> request_id set \<Rightarrow> rr_input \<Rightarrow> bool" where
  "rr_input_ok rr env sent (RrService (Some event)) \<longleftrightarrow> te_ok env event"
| "rr_input_ok rr env sent (RrResponse i send wait) \<longleftrightarrow>
     (i < length (rr_pending_inbound rr) \<and> response_result send wait = Inl RequestCanceled \<longrightarrow>
      \<not> sender_alive rr (rf_cancel (rr_pending_inbound rr ! i)))"
| "rr_input_ok rr env sent (RrCommand (Some command)) \<longleftrightarrow> rr_command_ok rr sent command"
| "rr_input_ok _ _ _ _ \<longleftrightarrow> True"

fun rr_input_env :: "rr_input \<Rightarrow> service_env \<Rightarrow> service_env" where
  "rr_input_env (RrService (Some event)) env = te_env event env"
| "rr_input_env _ env = env"

fun rr_input_sends :: "rr_input \<Rightarrow> request_id set" where
  "rr_input_sends (RrCommand (Some (SendRequest _ r _ _))) = {r}"
| "rr_input_sends (RrCommand (Some (SendRequestWithFallback _ r _ _ _))) = {r}"
| "rr_input_sends _ = {}"

fun rr_input_cancels :: "rr_input \<Rightarrow> request_id set" where
  "rr_input_cancels (RrCommand (Some (CancelRequest r))) = {r}"
| "rr_input_cancels _ = {}"

definition rr_service_ok :: "rr_service \<Rightarrow> service_env \<Rightarrow> bool" where
  "rr_service_ok sv env \<longleftrightarrow> (\<forall>p sid. rs_open sv p = Inr sid \<longrightarrow> sid \<notin> se_used env)"

inductive rr_reach ::
  "request_response \<Rightarrow> service_env \<Rightarrow> request_id set \<Rightarrow> request_id set \<Rightarrow> rr_effect list \<Rightarrow> bool" where
  init: "rr_reach (request_response_new protocol max_requests) service_env_new {} {} []"
| step: "rr_reach rr env sent canceled history \<Longrightarrow> rr_input_ok rr env sent input \<Longrightarrow> rr_service_ok sv env \<Longrightarrow>
    iteration_order order \<Longrightarrow> rr_handle_input sv order alive input rr = (ended, effects, rr') \<Longrightarrow>
    rr_reach rr' (rr_effects_env effects (rr_input_env input env)) (sent \<union> rr_input_sends input)
      (canceled \<union> rr_input_cancels input) (history @ effects)"

subsection \<open>One step\<close>

text \<open>The futures that run are for different requests, and hold the channel of their request until it is canceled.\<close>

definition cancel_inv :: "request_response \<Rightarrow> request_id set \<Rightarrow> bool" where
  "cancel_inv rr canceled \<longleftrightarrow>
     hm_ok (rr_pending_outbound_cancels rr) \<and> distinct (map rf_request_id (rr_pending_inbound rr))
     \<and> (\<forall>f \<in> set (rr_pending_inbound rr).
          rf_request_id f \<in> canceled \<or> hm_get (rr_pending_outbound_cancels rr) (rf_request_id f) = Some (rf_cancel f))
     \<and> (\<forall>r tx. hm_get (rr_pending_outbound_cancels rr) r = Some tx \<longrightarrow> r \<in> rf_request_id ` set (rr_pending_inbound rr))"

definition input_canceled :: "request_response \<Rightarrow> rr_input \<Rightarrow> request_id set" where
  "input_canceled rr input =
     (case input of
        RrResponse i send wait \<Rightarrow>
          if i < length (rr_pending_inbound rr)
          then canceled_by_message (rf_request_id (rr_pending_inbound rr ! i)) (response_result send wait) else {}
      | _ \<Rightarrow> {})"

lemma input_canceled_by_user:
  assumes "cancel_inv rr canceled" and "rr_input_ok rr env sent input"
  shows "input_canceled rr input \<subseteq> canceled"
proof (cases input)
  case (RrResponse i send wait)
  show ?thesis
  proof (cases "i < length (rr_pending_inbound rr) \<and> response_result send wait = Inl RequestCanceled")
    case True
    let ?f = "rr_pending_inbound rr ! i"
    have "hm_get (rr_pending_outbound_cancels rr) (rf_request_id ?f) \<noteq> Some (rf_cancel ?f)"
      using assms(2) RrResponse True by (auto simp: sender_alive_def)
    then have "rf_request_id ?f \<in> canceled"
      using assms(1) True unfolding cancel_inv_def by auto
    then show ?thesis using RrResponse True by (simp add: input_canceled_def canceled_by_message_def)
  next
    case False
    then show ?thesis using RrResponse by (auto simp: input_canceled_def canceled_by_message_def)
  qed
qed (auto simp: input_canceled_def)

lemma handle_service_event_good:
  assumes inv: "rr_inv rr env used" and ok: "te_ok env event" and sv: "rr_service_ok sv env" and order: "iteration_order order"
  shows "rr_good rr (snd (handle_service_event sv order event rr)) (te_env event env) used"
proof (cases event)
  case (TeConnectionEstablished p)
  then show ?thesis
    using rr_on_connection_established_good[OF inv, of p sv] ok sv by (simp add: handle_service_event_def rr_service_ok_def)
next
  case (TeConnectionClosed p)
  then show ?thesis
    using rr_on_connection_closed_good[OF inv order, of p] by (simp add: handle_service_event_def)
next
  case (TeInbound p protocol fallback substream)
  then show ?thesis
    using rr_on_inbound_substream_good[OF inv] by (simp add: handle_service_event_def)
next
  case (TeOutbound p protocol fallback sid substream)
  then show ?thesis
    using rr_on_outbound_substream_good[OF inv, of sid p substream fallback protocol] ok by (simp add: handle_service_event_def)
next
  case (TeSubstreamOpenFailure sid error)
  then show ?thesis
    using rr_on_substream_open_failure_good[OF inv, of sid _ error] ok by (auto simp: handle_service_event_def)
next
  case (TeDialFailure p)
  then show ?thesis
    using rr_on_dial_failure_good[OF inv, of p] by (simp add: handle_service_event_def)
qed

lemma handle_user_command_balanced:
  assumes inv: "rr_inv rr env used" and ok: "rr_command_ok rr used command" and sv: "rr_service_ok sv env"
  shows "rr_balanced rr (handle_user_command sv alive command rr) env used (rr_input_sends (RrCommand (Some command))) {}"
proof (cases command)
  case (SendRequest p r request opts)
  then show ?thesis
    using on_send_request_balanced[OF inv, of r p opts sv] ok sv by (simp add: handle_user_command_def rr_service_ok_def)
next
  case (SendRequestWithFallback p r request fallback opts)
  then show ?thesis
    using on_send_request_balanced[OF inv, of r p opts sv] ok sv by (simp add: handle_user_command_def rr_service_ok_def)
next
  case (CancelRequest r)
  then show ?thesis
    using rr_good_balanced[OF on_cancel_request_good[OF inv]] by (simp add: handle_user_command_def)
qed

lemma rr_balanced_same: "requests rr0 = requests rr \<Longrightarrow> rr_balanced rr0 outcome env used S C = rr_balanced rr outcome env used S C"
  using waiting_same[of rr0 rr] by (simp add: rr_balanced_def)

lemma rr_balanced_close:
  "rr_balanced rr (effects, rr') env used S C \<Longrightarrow> rr_balanced rr ([RrCloseStream substream] @ effects, rr') env used S C"
  by (simp add: rr_balanced_def)

lemma answer_effects_quiet:
  "e \<in> set (answer_effects outcome f) \<Longrightarrow> rr_answer_for e = None \<and> e \<noteq> RrAssertionFailed \<and> (\<forall>q sid. e \<noteq> RrOpened q sid)"
  by (auto simp: answer_effects_def split: answer_outcome.splits if_splits)

lemma rr_balanced_nothing: "rr_inv rr env used \<Longrightarrow> rr_balanced rr ([], rr) env used {} C"
  by (simp add: rr_balanced_def)

lemma rr_handle_input_balanced:
  assumes inv: "rr_inv rr env used" and ok: "rr_input_ok rr env used input" and sv: "rr_service_ok sv env"
    and order: "iteration_order order" and step: "rr_handle_input sv order alive input rr = (ended, effects, rr')"
  shows "rr_balanced rr (effects, rr') (rr_input_env input env) used (rr_input_sends input) (input_canceled rr input)"
proof (cases input)
  case (RrService event)
  then show ?thesis
    using rr_good_balanced[OF handle_service_event_good[OF inv _ sv order, of "the event"]] rr_balanced_nothing[OF inv] ok step
    by (cases event) (auto simp: rr_handle_input_def)
next
  case (RrCommand command)
  then show ?thesis
    using handle_user_command_balanced[OF inv _ sv, of "the command" alive] rr_balanced_nothing[OF inv] ok step
    by (cases command) (auto simp: rr_handle_input_def input_canceled_def)
next
  case (RrAnswered i outcome)
  show ?thesis
  proof (cases "i < length (rr_pending_outbound_responses rr)")
    case True
    then have "rr_good rr (effects, rr') env used"
      using step RrAnswered rr_inv_ok[OF inv]
      by (intro rr_good_same[OF inv]) (auto simp: rr_handle_input_def dest: answer_effects_quiet)
    then show ?thesis using RrAnswered rr_good_balanced by simp
  next
    case False
    then show ?thesis using step RrAnswered rr_balanced_nothing[OF inv] by (simp add: rr_handle_input_def)
  qed
next
  case (RrRequestRead i read)
  show ?thesis
  proof (cases "i < length (rr_pending_inbound_requests rr)")
    case True
    let ?rr0 = "rr\<lparr>rr_pending_inbound_requests := remove_nth i (rr_pending_inbound_requests rr)\<rparr>"
    have "rr_inv ?rr0 env used"
      by (rule rr_inv_other_fields[OF inv]) simp_all
    note good = rr_good_balanced[OF rr_on_inbound_request_good[OF this]]
    have "rr_balanced ?rr0 (effects, rr') env used {} {}"
      using step RrRequestRead True
        good[of "qf_peer (rr_pending_inbound_requests rr ! i)" "qf_request_id (rr_pending_inbound_requests rr ! i)"
          "read_request_result read" "qf_substream (rr_pending_inbound_requests rr ! i)" "{}"]
      by (simp add: rr_handle_input_def Let_def)
    then show ?thesis using RrRequestRead rr_balanced_same[of ?rr0 rr] by (simp add: input_canceled_def)
  next
    case False
    then show ?thesis using step RrRequestRead rr_balanced_nothing[OF inv] by (simp add: rr_handle_input_def)
  qed
next
  case (RrResponse i send wait)
  show ?thesis
  proof (cases "i < length (rr_pending_inbound rr)")
    case True
    let ?f = "rr_pending_inbound rr ! i"
    obtain res es rr1 where event: "on_substream_event (rf_peer ?f) (rf_request_id ?f) (rf_fallback ?f) (response_result send wait)
        (rr\<lparr>rr_pending_inbound := remove_nth i (rr_pending_inbound rr)\<rparr>) = (res, es, rr1)"
      by (metis surj_pair)
    have out: "effects = (if response_closes send wait then [RrCloseStream (rf_substream ?f)] else []) @ es"
      "rr' = rr1\<lparr>rr_pending_outbound_cancels := hm_remove (rf_request_id ?f) (rr_pending_outbound_cancels rr1)\<rparr>"
      using step RrResponse True event by (auto simp: rr_handle_input_def Let_def)
    have "rr_balanced rr (es, rr') env used {} (input_canceled rr input)"
      using on_substream_event_balanced[OF inv True refl refl event out(2)] RrResponse True by (simp add: input_canceled_def)
    then show ?thesis
      using rr_balanced_close RrResponse out(1) by auto
  next
    case False
    then show ?thesis using step RrResponse rr_balanced_nothing[OF inv] by (simp add: rr_handle_input_def)
  qed
qed

subsection \<open>Cancellation\<close>

definition cancel_view :: "request_response \<Rightarrow> response_future list \<times> (request_id, channel_id) hash_map" where
  "cancel_view rr = (rr_pending_inbound rr, rr_pending_outbound_cancels rr)"

lemma cancel_view_fields [simp]:
  "cancel_view (rr\<lparr>rr_peers := a\<rparr>) = cancel_view rr" "cancel_view (rr\<lparr>rr_pending_outbound := b\<rparr>) = cancel_view rr"
  "cancel_view (rr\<lparr>rr_pending_dials := c\<rparr>) = cancel_view rr" "cancel_view (rr\<lparr>rr_pending_outbound_responses := d\<rparr>) = cancel_view rr"
  "cancel_view (rr\<lparr>rr_pending_inbound_requests := e\<rparr>) = cancel_view rr" "cancel_view (rr\<lparr>rr_next_channel := f\<rparr>) = cancel_view rr"
  "cancel_view (rr\<lparr>rr_next_request_id := g\<rparr>) = cancel_view rr" "cancel_view (deactivate p r rr) = cancel_view rr"
  by (simp_all add: cancel_view_def deactivate_def split: option.split)

lemma cancel_view_quiet:
  "cancel_view (snd (snd (rr_on_connection_established sv p rr))) = cancel_view rr"
  "cancel_view (snd (snd (rr_on_connection_closed order p rr))) = cancel_view rr"
  "cancel_view (snd (snd (rr_on_inbound_substream p fallback substream rr))) = cancel_view rr"
  "cancel_view (snd (snd (rr_on_inbound_request p r request substream rr))) = cancel_view rr"
  "cancel_view (snd (snd (rr_on_dial_failure p rr))) = cancel_view rr"
  "cancel_view (snd (snd (rr_on_substream_open_failure sid error rr))) = cancel_view rr"
  "cancel_view (snd (snd (on_send_request sv p r request' opts fb rr))) = cancel_view rr"
  "cancel_view (snd (snd (on_substream_event p r fallback message rr))) = cancel_view rr"
  by (simp_all add: rr_on_connection_established_def rr_on_connection_closed_def rr_on_inbound_substream_def
      rr_on_inbound_request_def rr_on_dial_failure_def rr_on_substream_open_failure_def on_send_request_def
      on_substream_event_def next_request_id_def Let_def
      split: option.split sum.split dial_options.split)

lemma cancel_view_report: "cancel_view (snd (report_if_failed p r outcome)) = cancel_view (snd (snd outcome))"
  by (simp add: report_if_failed_def split: prod.split sum.split)

lemma cancel_inv_view: "cancel_view rr' = cancel_view rr \<Longrightarrow> cancel_inv rr' canceled = cancel_inv rr canceled"
  by (simp add: cancel_view_def cancel_inv_def)

lemma cancel_inv_mono: "cancel_inv rr canceled \<Longrightarrow> cancel_inv rr (canceled \<union> C)"
  unfolding cancel_inv_def by blast

lemma cancel_inv_outbound:
  assumes inv: "rr_inv rr env used" and cancel: "cancel_inv rr canceled"
  shows "cancel_inv (snd (snd (rr_on_outbound_substream p sid substream fallback rr))) canceled"
proof (cases "hm_get (rr_pending_outbound rr) sid")
  case None
  then show ?thesis using cancel by (simp add: rr_on_outbound_substream_def)
next
  case (Some c)
  have "rc_request_id c \<notin> rf_request_id ` set (rr_pending_inbound rr)"
    using apart_future(2)[OF rr_inv_apart[OF inv] _ Some] by blast
  then show ?thesis
    using cancel Some by (auto simp: rr_on_outbound_substream_def cancel_inv_def Let_def image_iff)
qed

lemma cancel_inv_cancel:
  "cancel_inv rr canceled \<Longrightarrow> cancel_inv (snd (snd (on_cancel_request alive r rr))) (canceled \<union> {r})"
  by (auto simp: on_cancel_request_def cancel_inv_def split: option.splits if_splits)

lemma remove_nth_distinct:
  assumes "distinct (map f xs)" and "i < length xs"
  shows "distinct (map f (remove_nth i xs))" and "x \<in> set (remove_nth i xs) \<Longrightarrow> x \<in> set xs \<and> f x \<noteq> f (xs ! i)"
proof -
  have "mset (map f xs) = add_mset (f (xs ! i)) (mset (map f (remove_nth i xs)))"
    using mset_remove_nth[OF assms(2)] by simp
  then have "distinct (f (xs ! i) # map f (remove_nth i xs))"
    using assms(1) mset_eq_imp_distinct_iff[of "map f xs" "f (xs ! i) # map f (remove_nth i xs)"] by simp
  then show "distinct (map f (remove_nth i xs))" "x \<in> set (remove_nth i xs) \<Longrightarrow> x \<in> set xs \<and> f x \<noteq> f (xs ! i)"
    using set_remove_nth[of i xs] by (auto simp: image_iff)
qed

lemma cancel_inv_response:
  assumes cancel: "cancel_inv rr canceled" and i: "i < length (rr_pending_inbound rr)"
    and view: "cancel_view rr' = (remove_nth i (rr_pending_inbound rr), hm_remove (rf_request_id (rr_pending_inbound rr ! i)) (rr_pending_outbound_cancels rr))"
  shows "cancel_inv rr' canceled"
proof -
  have fields: "rr_pending_inbound rr' = remove_nth i (rr_pending_inbound rr)"
    "rr_pending_outbound_cancels rr' = hm_remove (rf_request_id (rr_pending_inbound rr ! i)) (rr_pending_outbound_cancels rr)"
    using view by (simp_all add: cancel_view_def)
  have "r \<in> rf_request_id ` set (remove_nth i (rr_pending_inbound rr))"
    if "r \<in> rf_request_id ` set (rr_pending_inbound rr)" "r \<noteq> rf_request_id (rr_pending_inbound rr ! i)" for r
    using that remove_nth_other[OF i] by auto
  then show ?thesis
    using cancel remove_nth_distinct[of rf_request_id, OF _ i] unfolding cancel_inv_def fields by auto
qed

lemma cancel_inv_step:
  assumes inv: "rr_inv rr env used" and cancel: "cancel_inv rr canceled"
    and step: "rr_handle_input sv order alive input rr = (ended, effects, rr')"
  shows "cancel_inv rr' (canceled \<union> rr_input_cancels input)"
proof (cases input)
  case (RrService event)
  show ?thesis
  proof (cases event)
    case None
    then show ?thesis using step cancel RrService by (simp add: rr_handle_input_def)
  next
    case (Some ev)
    have rr': "rr' = snd (snd (handle_service_event sv order ev rr))"
      using step RrService Some by (simp add: rr_handle_input_def)
    show ?thesis
      using cancel cancel_inv_outbound[OF inv cancel] RrService Some
      by (cases ev) (simp_all add: rr' handle_service_event_def cancel_view_quiet[THEN cancel_inv_view])
  qed
next
  case (RrCommand command)
  show ?thesis
  proof (cases command)
    case None
    then show ?thesis using step cancel RrCommand by (simp add: rr_handle_input_def)
  next
    case (Some cmd)
    have rr': "rr' = snd (handle_user_command sv alive cmd rr)"
      using step RrCommand Some by (simp add: rr_handle_input_def)
    show ?thesis
    proof (cases "\<exists>r. cmd = CancelRequest r")
      case True
      then show ?thesis
        using cancel_inv_cancel[OF cancel] RrCommand Some by (auto simp: rr' handle_user_command_def)
    next
      case False
      then have "cancel_view rr' = cancel_view rr"
        by (cases cmd) (simp_all add: rr' handle_user_command_def cancel_view_report cancel_view_quiet)
      then show ?thesis using cancel cancel_inv_view cancel_inv_mono by blast
    qed
  qed
next
  case (RrResponse i send wait)
  show ?thesis
  proof (cases "i < length (rr_pending_inbound rr)")
    case True
    have "cancel_view rr' = (remove_nth i (rr_pending_inbound rr), hm_remove (rf_request_id (rr_pending_inbound rr ! i)) (rr_pending_outbound_cancels rr))"
      using step RrResponse True
        cancel_view_quiet(8)[of "rf_peer (rr_pending_inbound rr ! i)" "rf_request_id (rr_pending_inbound rr ! i)"
          "rf_fallback (rr_pending_inbound rr ! i)" "response_result send wait" "rr\<lparr>rr_pending_inbound := remove_nth i (rr_pending_inbound rr)\<rparr>"]
      by (auto simp: rr_handle_input_def Let_def cancel_view_def split: prod.splits)
    then show ?thesis using cancel_inv_response[OF cancel True] cancel_inv_mono by blast
  next
    case False
    then show ?thesis using step cancel RrResponse by (simp add: rr_handle_input_def)
  qed
next
  case (RrAnswered i outcome)
  then have "cancel_view rr' = cancel_view rr"
    using step by (auto simp: rr_handle_input_def split: if_splits)
  then show ?thesis using cancel cancel_inv_view cancel_inv_mono by blast
next
  case (RrRequestRead i read)
  then have "cancel_view rr' = cancel_view rr"
    using step cancel_view_quiet(4)[of "qf_peer (rr_pending_inbound_requests rr ! i)" "qf_request_id (rr_pending_inbound_requests rr ! i)"
        "read_request_result read" "qf_substream (rr_pending_inbound_requests rr ! i)"
        "rr\<lparr>rr_pending_inbound_requests := remove_nth i (rr_pending_inbound_requests rr)\<rparr>"]
    by (auto simp: rr_handle_input_def Let_def split: if_splits)
  then show ?thesis using cancel cancel_inv_view cancel_inv_mono by blast
qed

subsection \<open>All runs\<close>

lemma rr_inv_new: "rr_inv (request_response_new protocol max_requests) service_env_new {}"
  by (simp add: rr_inv_def requests_def apart_def request_response_new_def service_env_new_def)

lemma waiting_new: "\<not> waiting (request_response_new protocol max_requests) r"
  by (simp add: waiting_def requests_def request_response_new_def)

lemma rr_reach_inv:
  assumes "rr_reach rr env sent canceled history"
  shows "rr_inv rr env sent \<and> cancel_inv rr canceled \<and> RrAssertionFailed \<notin> set history
    \<and> (\<forall>r. r \<in> sent - canceled \<longrightarrow> rr_answers r history + waits rr r = 1)
    \<and> (\<forall>r. rr_answers r history + waits rr r \<le> (if r \<in> sent then 1 else 0))"
  using assms
proof induction
  case (init protocol max_requests)
  then show ?case
    using rr_inv_new waiting_new by (simp add: cancel_inv_def request_response_new_def)
next
  case (step rr env sent canceled history input sv order alive ended effects rr')
  have inv: "rr_inv rr env sent" and cancel: "cancel_inv rr canceled" and safe: "RrAssertionFailed \<notin> set history"
    and once: "\<And>r. r \<in> sent - canceled \<Longrightarrow> rr_answers r history + waits rr r = 1"
    and most: "\<And>r. rr_answers r history + waits rr r \<le> (if r \<in> sent then 1 else 0)"
    using step.IH by blast+
  have bal: "rr_balanced rr (effects, rr') (rr_input_env input env) sent (rr_input_sends input) (input_canceled rr input)"
    by (rule rr_handle_input_balanced[OF inv step.hyps(2-)])
  then have inv': "rr_inv rr' (rr_effects_env effects (rr_input_env input env)) (sent \<union> rr_input_sends input)"
    and safe': "RrAssertionFailed \<notin> set effects"
    and one: "\<And>r. r \<notin> input_canceled rr input \<Longrightarrow> rr_answers r effects + waits rr' r = (if waiting rr r \<or> r \<in> rr_input_sends input then 1 else 0)"
    and atmost: "\<And>r. rr_answers r effects + waits rr' r \<le> (if waiting rr r \<or> r \<in> rr_input_sends input then 1 else 0)"
    unfolding rr_balanced_def by simp_all
  have fresh: "r \<notin> sent" if "r \<in> rr_input_sends input" for r
    using that step.hyps(2) by (cases input rule: rr_input_sends.cases) auto
  have user: "input_canceled rr input \<subseteq> canceled"
    by (rule input_canceled_by_user[OF cancel step.hyps(2)])
  have "rr_answers r (history @ effects) + waits rr' r = 1"
    if r: "r \<in> sent \<union> rr_input_sends input - (canceled \<union> rr_input_cancels input)" for r
  proof -
    have "r \<notin> input_canceled rr input" using r user by blast
    from one[OF this] show ?thesis
      using r once[of r] most[of r] fresh[of r] by (auto split: if_splits)
  qed
  moreover have "rr_answers r (history @ effects) + waits rr' r \<le> (if r \<in> sent \<union> rr_input_sends input then 1 else 0)" for r
    using atmost[of r] most[of r] fresh[of r] by (auto split: if_splits)
  ultimately show ?case
    using inv' cancel_inv_step[OF inv cancel step.hyps(5)] safe safe' by auto
qed

subsection \<open>Inbound requests\<close>

abbreviation inbound_in_progress :: "request_response \<Rightarrow> nat" where
  "inbound_in_progress rr \<equiv> length (rr_pending_inbound_requests rr) + length (rr_pending_outbound_responses rr)"

definition inbound_bounded :: "nat \<Rightarrow> request_response \<Rightarrow> bool" where
  "inbound_bounded m rr \<longleftrightarrow> rr_max_concurrent_inbound_requests rr = Some m \<and> inbound_in_progress rr \<le> m"

definition inbound_view :: "request_response \<Rightarrow> usize option \<times> request_future list \<times> answer_future list" where
  "inbound_view rr = (rr_max_concurrent_inbound_requests rr, rr_pending_inbound_requests rr, rr_pending_outbound_responses rr)"

lemma inbound_view_fields [simp]:
  "inbound_view (rr\<lparr>rr_peers := a\<rparr>) = inbound_view rr" "inbound_view (rr\<lparr>rr_pending_outbound := b\<rparr>) = inbound_view rr"
  "inbound_view (rr\<lparr>rr_pending_dials := c\<rparr>) = inbound_view rr" "inbound_view (rr\<lparr>rr_pending_outbound_cancels := d\<rparr>) = inbound_view rr"
  "inbound_view (rr\<lparr>rr_pending_inbound := e\<rparr>) = inbound_view rr" "inbound_view (rr\<lparr>rr_next_channel := f\<rparr>) = inbound_view rr"
  "inbound_view (rr\<lparr>rr_next_request_id := g\<rparr>) = inbound_view rr" "inbound_view (deactivate p r rr) = inbound_view rr"
  by (simp_all add: inbound_view_def deactivate_def split: option.split)

lemma inbound_view_quiet:
  "inbound_view (snd (snd (rr_on_connection_established sv p rr))) = inbound_view rr"
  "inbound_view (snd (snd (rr_on_connection_closed order p rr))) = inbound_view rr"
  "inbound_view (snd (snd (rr_on_outbound_substream p sid substream fallback rr))) = inbound_view rr"
  "inbound_view (snd (snd (rr_on_dial_failure p rr))) = inbound_view rr"
  "inbound_view (snd (snd (rr_on_substream_open_failure sid error rr))) = inbound_view rr"
  "inbound_view (snd (snd (on_send_request sv p r request opts fb rr))) = inbound_view rr"
  "inbound_view (snd (snd (on_substream_event p r fallback message rr))) = inbound_view rr"
  "inbound_view (snd (snd (on_cancel_request alive r rr))) = inbound_view rr"
  by (simp_all add: rr_on_connection_established_def rr_on_connection_closed_def rr_on_outbound_substream_def
      rr_on_dial_failure_def rr_on_substream_open_failure_def on_send_request_def
      on_substream_event_def on_cancel_request_def Let_def
      split: option.split sum.split dial_options.split)

lemma inbound_view_report: "inbound_view (snd (report_if_failed p r outcome)) = inbound_view (snd (snd outcome))"
  by (simp add: report_if_failed_def split: prod.split sum.split)

lemma inbound_bounded_view: "inbound_view rr' = inbound_view rr \<Longrightarrow> inbound_bounded m rr' = inbound_bounded m rr"
  by (auto simp: inbound_view_def inbound_bounded_def split: option.split)

lemma inbound_bounded_substream:
  "inbound_bounded m rr \<Longrightarrow> inbound_bounded m (snd (snd (rr_on_inbound_substream p fallback substream rr)))"
  by (auto simp: rr_on_inbound_substream_def next_request_id_def inbound_bounded_def Let_def split: option.splits)

lemma inbound_bounded_request:
  assumes "inbound_bounded m rr" and "i < length (rr_pending_inbound_requests rr)"
  shows "inbound_bounded m (snd (snd (rr_on_inbound_request p r request substream
    (rr\<lparr>rr_pending_inbound_requests := remove_nth i (rr_pending_inbound_requests rr)\<rparr>))))"
  using assms length_remove_nth[OF assms(2)]
  by (auto simp: rr_on_inbound_request_def inbound_bounded_def Let_def split: option.splits sum.splits)

lemma inbound_bounded_step:
  assumes "inbound_bounded m rr"
  shows "inbound_bounded m (snd (snd (rr_handle_input sv order alive input rr)))"
proof (cases input)
  case (RrService event)
  show ?thesis
  proof (cases event)
    case (Some ev)
    then show ?thesis
      using assms RrService inbound_bounded_substream[OF assms]
      by (cases ev) (simp_all add: rr_handle_input_def handle_service_event_def inbound_view_quiet[THEN inbound_bounded_view])
  qed (use assms RrService in \<open>simp add: rr_handle_input_def\<close>)
next
  case (RrCommand command)
  show ?thesis
  proof (cases command)
    case (Some cmd)
    then show ?thesis
      using assms RrCommand
      by (cases cmd) (simp_all add: rr_handle_input_def handle_user_command_def inbound_view_quiet[THEN inbound_bounded_view]
          inbound_view_report[THEN inbound_bounded_view])
  qed (use assms RrCommand in \<open>simp add: rr_handle_input_def\<close>)
next
  case (RrResponse i send wait)
  then show ?thesis
    using assms inbound_view_quiet(7)[of "rf_peer (rr_pending_inbound rr ! i)" "rf_request_id (rr_pending_inbound rr ! i)"
        "rf_fallback (rr_pending_inbound rr ! i)" "response_result send wait" "rr\<lparr>rr_pending_inbound := remove_nth i (rr_pending_inbound rr)\<rparr>"]
    by (auto simp: rr_handle_input_def Let_def split: prod.splits intro: inbound_bounded_view[THEN iffD2, of _ rr])
next
  case (RrAnswered i outcome)
  then show ?thesis
    using assms length_remove_nth[of i "rr_pending_outbound_responses rr"]
    by (auto simp: rr_handle_input_def inbound_bounded_def split: option.splits)
next
  case (RrRequestRead i read)
  then show ?thesis
    using assms inbound_bounded_request[OF assms] by (simp add: rr_handle_input_def Let_def)
qed

text \<open>A run over any inputs, with the answers of the service and the iteration orders along them.\<close>

type_synonym rr_turn = "rr_service \<times> (request_id list \<Rightarrow> request_id list) \<times> bool \<times> rr_input"

fun rr_run :: "rr_turn list \<Rightarrow> request_response \<Rightarrow> request_response" where
  "rr_run [] rr = rr"
| "rr_run ((sv, order, alive, input) # turns) rr = rr_run turns (snd (snd (rr_handle_input sv order alive input rr)))"

lemma inbound_bounded_run: "inbound_bounded m rr \<Longrightarrow> inbound_bounded m (rr_run turns rr)"
  by (induction turns rr rule: rr_run.induct) (simp_all add: inbound_bounded_step)

subsection \<open>Properties\<close>


definition rr_example_peer :: peer_id where
  "rr_example_peer = \<lparr>pid_multihash = \<lparr>mh_code = 0, mh_digest = [1]\<rparr>\<rparr>"

definition rr_example_service :: "substream_id \<Rightarrow> rr_service" where
  "rr_example_service sid = \<lparr>rs_dial = \<lambda>_. Inr (), rs_open = \<lambda>_. Inr sid\<rparr>"

lemma rr_reach_next:
  assumes "rr_reach rr env sent canceled history" and "rr_input_ok rr env sent input" and "rr_service_ok (rr_example_service sid) env"
    and "rr_handle_input (rr_example_service sid) (\<lambda>xs. xs) True input rr = (False, effects, rr')"
    and "env' = rr_effects_env effects (rr_input_env input env)" and "sent' = sent \<union> rr_input_sends input"
    and "rr_input_cancels input = {}" and "history' = history @ effects"
  shows "rr_reach rr' env' sent' canceled history'"
  using rr_reach.step[OF assms(1-3) _ assms(4)] assms(5-) by (simp add: iteration_order_id)

definition rr_example_context :: request_context where
  "rr_example_context = \<lparr>rc_peer = rr_example_peer, rc_request_id = 7, rc_request = [1, 2], rc_fallback = None\<rparr>"

definition rr_example_dialing :: request_response where
  "rr_example_dialing = (request_response_new ''/req/1'' None)\<lparr>rr_pending_dials := [(rr_example_peer, rr_example_context)]\<rparr>"

lemmas rr_eval = rr_handle_input_def request_response_new_def service_env_new_def rr_example_service_def rr_service_ok_def

lemma rr_example_dialing_reached: "rr_reach rr_example_dialing service_env_new {7} {} []"
  by (rule rr_reach_next[OF rr_reach.init[of "''/req/1''" None],
        where sid = 3 and input = "RrCommand (Some (SendRequest rr_example_peer 7 [1, 2] OptDial))"])
    (simp_all add: rr_eval rr_example_dialing_def rr_example_context_def handle_user_command_def on_send_request_def
      report_if_failed_def)


text \<open>
  C35: whatever the service, the peers and the user do, the protocol never has more inbound requests in
  progress than configured: those being read and those the user has to answer, together.
\<close>

theorem inbound_requests_bounded:
  "length (rr_pending_inbound_requests (rr_run turns (request_response_new protocol (Some m))))
   + length (rr_pending_outbound_responses (rr_run turns (request_response_new protocol (Some m)))) \<le> m"
proof -
  have "inbound_bounded m (request_response_new protocol (Some m))"
    by (simp add: inbound_bounded_def request_response_new_def)
  from inbound_bounded_run[OF this, of turns] show ?thesis
    by (simp add: inbound_bounded_def)
qed

text \<open>
  C37: a request to a peer that is already being dialed for an earlier request replaces that request: when the
  service accepts the second dial, nothing is reported, the earlier request no longer waits anywhere, and it has
  neither a substream nor a future.
\<close>

theorem second_dial_loses_request:
  assumes "rr_inv rr env used" and "hm_get (rr_pending_dials rr) p = Some c" and "rs_dial sv p = Inr ()" and "r \<notin> used"
    and "handle_user_command sv alive (SendRequest p r request OptDial) rr = (effects, rr')"
  shows "waiting rr (rc_request_id c) \<and> \<not> waiting rr' (rc_request_id c) \<and> rr_answers (rc_request_id c) effects = 0
    \<and> rc_request_id c \<notin> rf_request_id ` set (rr_pending_inbound rr')
    \<and> rc_request_id c \<notin> rc_request_id ` snd ` set (rr_pending_outbound rr')"
proof -
  let ?s = "rc_request_id c"
  have dial: "(True, p, ?s) \<in> requests rr" using assms(2) by simp
  have "hm_get (rr_peers rr) p = None"
    using rr_inv_peer[OF assms(1), of p] assms(2) by (cases "hm_get (rr_peers rr) p") auto
  then have out: "effects = []" "rr' = rr\<lparr>rr_pending_dials := hm_insert p
      \<lparr>rc_peer = p, rc_request_id = r, rc_request = request, rc_fallback = None\<rparr> (rr_pending_dials rr)\<rparr>"
    using assms(3,5) by (simp_all add: handle_user_command_def on_send_request_def report_if_failed_def)
  have "?s \<noteq> r" using rr_inv_used[OF assms(1) dial] assms(4) by blast
  have "(d, q, ?s) \<notin> requests rr'" for d q
  proof
    assume a: "(d, q, ?s) \<in> requests rr'"
    then have "(d, q, ?s) \<in> requests rr \<and> (d, q) \<noteq> (True, p)"
      using \<open>?s \<noteq> r\<close> out(2) by (cases d) (auto split: if_splits)
    then show False using rr_inv_unique[OF assms(1) dial, of d q] by blast
  qed
  then have gone: "\<not> waiting rr' ?s" by (simp add: waiting_def)
  have "?s \<notin> rf_request_id ` set (rr_pending_inbound rr)"
    using apart_future(3)[OF rr_inv_apart[OF assms(1)], of _ p] dial by (metis imageE)
  moreover have "?s \<notin> rc_request_id ` snd ` set (rr_pending_outbound rr)"
  proof
    assume "?s \<in> rc_request_id ` snd ` set (rr_pending_outbound rr)"
    then obtain sid c' where "(sid, c') \<in> set (rr_pending_outbound rr)" "rc_request_id c' = ?s" by auto
    then have "hm_get (rr_pending_outbound rr) sid = Some c'"
      using hm_get_in_set[OF rr_inv_ok(2)[OF assms(1)]] by blast
    then show False
      using rr_inv_pending[OF assms(1), of sid c'] rr_inv_unique[OF assms(1) dial] \<open>rc_request_id c' = ?s\<close> by metis
  qed
  moreover have "waiting rr ?s" unfolding waiting_def using dial by blast
  ultimately show ?thesis using gone out by simp
qed

lemma second_dial_loses_request_witness:
  "\<exists>rr env. rr_inv rr env {7} \<and> waiting rr 7
     \<and> \<not> waiting (snd (handle_user_command (rr_example_service 3) True (SendRequest rr_example_peer 8 [] OptDial) rr)) 7"
proof -
  let ?out = "handle_user_command (rr_example_service 3) True (SendRequest rr_example_peer 8 [] OptDial) rr_example_dialing"
  have get: "hm_get (rr_pending_dials rr_example_dialing) rr_example_peer = Some rr_example_context"
    by (simp add: rr_example_dialing_def)
  have "rr_inv rr_example_dialing service_env_new {7}"
    using rr_reach_inv[OF rr_example_dialing_reached] by blast
  from this second_dial_loses_request[OF this get _ _ prod.collapse[symmetric], of "rr_example_service 3" 8] show ?thesis
    by (auto simp: rr_example_service_def rr_example_context_def)
qed

text \<open>
  C38: a cancellation has no effect on a request that still waits for the dial or for its substream: the state is
  unchanged, so that the request is sent and answered as if it had not been canceled.
\<close>

theorem cancel_before_open_ignored:
  assumes "rr_reach rr env sent canceled history" and "waiting rr r" and "r \<notin> rf_request_id ` set (rr_pending_inbound rr)"
  shows "handle_user_command sv alive (CancelRequest r) rr = ([], rr)"
proof -
  have "hm_get (rr_pending_outbound_cancels rr) r = None"
    using rr_reach_inv[OF assms(1)] assms(3) unfolding cancel_inv_def
    by (cases "hm_get (rr_pending_outbound_cancels rr) r") auto
  then show ?thesis
    by (simp add: handle_user_command_def on_cancel_request_def)
qed

lemma cancel_before_open_ignored_witness:
  "waiting rr_example_dialing 7
   \<and> handle_user_command (rr_example_service 3) True (CancelRequest 7) rr_example_dialing = ([], rr_example_dialing)"
proof -
  have "(True, rr_example_peer, 7) \<in> requests rr_example_dialing"
    by (simp add: rr_example_dialing_def rr_example_context_def)
  then have "waiting rr_example_dialing 7"
    unfolding waiting_def by blast
  then show ?thesis
    using cancel_before_open_ignored[OF rr_example_dialing_reached, of 7]
    by (simp add: rr_example_dialing_def request_response_new_def)
qed

end
