(* ===== verification/Request_Handle.thy ===== *)
theory Request_Handle
  imports Request_Runs
begin

section \<open>The handle of the request-response protocol\<close>

text \<open>
  \<open>src/protocol/request_response/handle.rs\<close>: the user's side. The handle shares the counter of request
  identifiers with the protocol, sends commands to it and receives its events; the channels of the
  inbound requests the user has not answered yet are in \<open>rh_pending_responses\<close>. Whether a command finds room
  in its channel is the argument \<open>accepted\<close>. The protocol, the queue of events and the handle together are \<open>rr_system\<close>.
\<close>

datatype request_response_event =
    UserRequestReceived peer_id "string option" request_id payload
  | UserResponseReceived peer_id request_id "string option" payload
  | UserRequestFailed peer_id request_id request_response_error

record rr_handle =
  rh_pending_responses :: "(request_id, channel_id) hash_map"

definition rr_handle_new :: rr_handle where
  "rr_handle_new = \<lparr>rh_pending_responses = []\<rparr>"

text \<open>The conversion of events that carry no channel; the source panics on the others.\<close>

fun event_from :: "rr_event \<Rightarrow> (panic, request_response_event) result" where
  "event_from (ResponseReceived peer fallback request_id response) = Inr (UserResponseReceived peer request_id fallback response)"
| "event_from (RequestFailed peer request_id error) = Inr (UserRequestFailed peer request_id error)"
| "event_from (RequestReceived _ _ _ _ _) = Inl Panic"

definition reject_request :: "request_id \<Rightarrow> rr_handle \<Rightarrow> channel_id option \<times> rr_handle" where
  "reject_request request_id h =
     (case hm_get (rh_pending_responses h) request_id of
        None \<Rightarrow> (None, h)
      | Some sender \<Rightarrow> (Some sender, h\<lparr>rh_pending_responses := hm_remove request_id (rh_pending_responses h)\<rparr>))"

definition cancel_request :: "bool \<Rightarrow> request_id \<Rightarrow> rr_command list" where
  "cancel_request accepted request_id = (if accepted then [CancelRequest request_id] else [])"

definition handle_next_request_id :: "request_id \<Rightarrow> request_id \<times> request_id" where
  "handle_next_request_id next_id = (next_id, (next_id + 1) mod 2 ^ 64)"

datatype command_error = CommandTaskClosed | CommandClogged

definition send_request ::
  "bool \<Rightarrow> peer_id \<Rightarrow> payload \<Rightarrow> dial_options \<Rightarrow> request_id
   \<Rightarrow> (command_error, request_id) result \<times> rr_command list \<times> request_id" where
  "send_request accepted peer request dial_options next_id =
     (let (request_id, next_id1) = handle_next_request_id next_id
      in if accepted then (Inr request_id, [SendRequest peer request_id request dial_options], next_id1)
         else (Inl CommandTaskClosed, [], next_id1))"

definition try_send_request ::
  "bool \<Rightarrow> peer_id \<Rightarrow> payload \<Rightarrow> dial_options \<Rightarrow> request_id
   \<Rightarrow> (command_error, request_id) result \<times> rr_command list \<times> request_id" where
  "try_send_request accepted peer request dial_options next_id =
     (let (request_id, next_id1) = handle_next_request_id next_id
      in if accepted then (Inr request_id, [SendRequest peer request_id request dial_options], next_id1)
         else (Inl CommandClogged, [], next_id1))"

definition send_request_with_fallback ::
  "bool \<Rightarrow> peer_id \<Rightarrow> payload \<Rightarrow> string \<times> payload \<Rightarrow> dial_options \<Rightarrow> request_id
   \<Rightarrow> (command_error, request_id) result \<times> rr_command list \<times> request_id" where
  "send_request_with_fallback accepted peer request fallback dial_options next_id =
     (let (request_id, next_id1) = handle_next_request_id next_id
      in if accepted
         then (Inr request_id, [SendRequestWithFallback peer request_id request fallback dial_options], next_id1)
         else (Inl CommandTaskClosed, [], next_id1))"

definition try_send_request_with_fallback ::
  "bool \<Rightarrow> peer_id \<Rightarrow> payload \<Rightarrow> string \<times> payload \<Rightarrow> dial_options \<Rightarrow> request_id
   \<Rightarrow> (command_error, request_id) result \<times> rr_command list \<times> request_id" where
  "try_send_request_with_fallback accepted peer request fallback dial_options next_id =
     (let (request_id, next_id1) = handle_next_request_id next_id
      in if accepted
         then (Inr request_id, [SendRequestWithFallback peer request_id request fallback dial_options], next_id1)
         else (Inl CommandClogged, [], next_id1))"

text \<open>What is sent on the response channel: the response, and whether feedback is wanted.\<close>

definition send_response ::
  "request_id \<Rightarrow> payload \<Rightarrow> rr_handle \<Rightarrow> (channel_id \<times> payload \<times> bool) option \<times> rr_handle" where
  "send_response request_id response h =
     (case hm_get (rh_pending_responses h) request_id of
        None \<Rightarrow> (None, h)
      | Some response_tx \<Rightarrow>
          (Some (response_tx, response, False), h\<lparr>rh_pending_responses := hm_remove request_id (rh_pending_responses h)\<rparr>))"

definition send_response_with_feedback ::
  "request_id \<Rightarrow> payload \<Rightarrow> rr_handle \<Rightarrow> (channel_id \<times> payload \<times> bool) option \<times> rr_handle" where
  "send_response_with_feedback request_id response h =
     (case hm_get (rh_pending_responses h) request_id of
        None \<Rightarrow> (None, h)
      | Some response_tx \<Rightarrow>
          (Some (response_tx, response, True), h\<lparr>rh_pending_responses := hm_remove request_id (rh_pending_responses h)\<rparr>))"

definition rh_poll_next ::
  "rr_event option poll \<Rightarrow> rr_handle \<Rightarrow> (panic, request_response_event option poll) result \<times> rr_handle" where
  "rh_poll_next received h =
     (case received of
        Pending \<Rightarrow> (Inr Pending, h)
      | Ready None \<Rightarrow> (Inr (Ready None), h)
      | Ready (Some (RequestReceived peer fallback request_id request response_tx)) \<Rightarrow>
          (Inr (Ready (Some (UserRequestReceived peer fallback request_id request))),
           h\<lparr>rh_pending_responses := hm_insert request_id response_tx (rh_pending_responses h)\<rparr>)
      | Ready (Some event) \<Rightarrow>
          (case event_from event of Inl panic \<Rightarrow> (Inl panic, h) | Inr e \<Rightarrow> (Inr (Ready (Some e)), h)))"

lemma rh_poll_next_no_panic: "\<exists>answer. fst (rh_poll_next received h) = Inr answer"
  by (auto simp: rh_poll_next_def split: poll.split option.split rr_event.split)

subsection \<open>Protocol, event queue and handle together\<close>

record rr_system =
  sys_protocol :: request_response
  sys_events :: "rr_event list"
  sys_handle :: rr_handle

fun received_pair :: "rr_event \<Rightarrow> (request_id \<times> channel_id) list" where
  "received_pair (RequestReceived _ _ request_id _ tx) = [(request_id, tx)]"
| "received_pair _ = []"

fun reported :: "rr_effect \<Rightarrow> rr_event list" where
  "reported (RrReport event) = [event]"
| "reported _ = []"

definition received :: "rr_effect list \<Rightarrow> (request_id \<times> channel_id) list" where
  "received effects = concat (map received_pair (concat (map reported effects)))"

lemma received_simps [simp]:
  "received [] = []" "received (e # es) = concat (map received_pair (reported e)) @ received es"
  "received (es @ es') = received es @ received es'"
  by (simp_all add: received_def)

datatype rr_user_op =
    UserReject request_id
  | UserRespond request_id payload
  | UserRespondWithFeedback request_id payload

text \<open>The channels an operation of the user decides.\<close>

fun user_op :: "rr_user_op \<Rightarrow> rr_handle \<Rightarrow> channel_id set \<times> rr_handle" where
  "user_op (UserReject request_id) h = (case reject_request request_id h of (tx, h') \<Rightarrow> (set_option tx, h'))"
| "user_op (UserRespond request_id response) h =
     (case send_response request_id response h of (sent, h') \<Rightarrow> (fst ` set_option sent, h'))"
| "user_op (UserRespondWithFeedback request_id response) h =
     (case send_response_with_feedback request_id response h of (sent, h') \<Rightarrow> (fst ` set_option sent, h'))"

inductive sys_reach :: "rr_system \<Rightarrow> channel_id set \<Rightarrow> bool" where
  init: "sys_reach \<lparr>sys_protocol = request_response_new protocol max_requests, sys_events = [], sys_handle = rr_handle_new\<rparr> {}"
| protocol: "sys_reach s decided \<Longrightarrow> rr_next_request_id (sys_protocol s) + 1 < 2 ^ 64 \<Longrightarrow>
    rr_handle_input sv order alive input (sys_protocol s) = (ended, effects, rr') \<Longrightarrow>
    sys_reach (s\<lparr>sys_protocol := rr', sys_events := sys_events s @ concat (map reported effects)\<rparr>) decided"
| poll: "sys_reach s decided \<Longrightarrow> sys_events s = event # events \<Longrightarrow>
    rh_poll_next (Ready (Some event)) (sys_handle s) = (answer, h') \<Longrightarrow>
    sys_reach (s\<lparr>sys_events := events, sys_handle := h'\<rparr>) decided"
| user: "sys_reach s decided \<Longrightarrow> user_op operation (sys_handle s) = (channels, h') \<Longrightarrow>
    sys_reach (s\<lparr>sys_handle := h'\<rparr>) (decided \<union> channels)"
| send: "sys_reach s decided \<Longrightarrow> rr_next_request_id (sys_protocol s) + 1 < 2 ^ 64 \<Longrightarrow>
    handle_next_request_id (rr_next_request_id (sys_protocol s)) = (request_id, next_id) \<Longrightarrow>
    sys_reach (s\<lparr>sys_protocol := (sys_protocol s)\<lparr>rr_next_request_id := next_id\<rparr>\<rparr>) decided"

text \<open>The inbound requests that are read, whose event is queued, or that the user has to answer.\<close>

abbreviation queued :: "rr_system \<Rightarrow> (request_id \<times> channel_id) list" where
  "queued s \<equiv> concat (map received_pair (sys_events s))"

definition inbound_ids :: "rr_system \<Rightarrow> request_id list" where
  "inbound_ids s = map qf_request_id (rr_pending_inbound_requests (sys_protocol s)) @ map fst (queued s)
     @ map fst (rh_pending_responses (sys_handle s))"

definition open_pairs :: "rr_system \<Rightarrow> (request_id \<times> channel_id) set" where
  "open_pairs s = set (queued s) \<union> set (rh_pending_responses (sys_handle s))"

definition sys_inv :: "rr_system \<Rightarrow> channel_id set \<Rightarrow> bool" where
  "sys_inv s decided \<longleftrightarrow>
     distinct (inbound_ids s) \<and> (\<forall>r \<in> set (inbound_ids s). r < rr_next_request_id (sys_protocol s))
     \<and> (\<forall>(r, tx) \<in> open_pairs s. tx < rr_next_channel (sys_protocol s))
     \<and> distinct (map af_response_tx (rr_pending_outbound_responses (sys_protocol s)))
     \<and> (\<forall>f \<in> set (rr_pending_outbound_responses (sys_protocol s)).
          af_response_tx f < rr_next_channel (sys_protocol s)
          \<and> (af_response_tx f \<in> decided \<or> (af_request_id f, af_response_tx f) \<in> open_pairs s)
          \<and> (\<forall>r. (r, af_response_tx f) \<in> open_pairs s \<longrightarrow> r = af_request_id f))"

lemma sys_inv_ids:
  "sys_inv s decided \<Longrightarrow> distinct (inbound_ids s)"
  "sys_inv s decided \<Longrightarrow> r \<in> set (inbound_ids s) \<Longrightarrow> r < rr_next_request_id (sys_protocol s)"
  unfolding sys_inv_def by blast+

lemma sys_inv_channel: "sys_inv s decided \<Longrightarrow> (r, tx) \<in> open_pairs s \<Longrightarrow> tx < rr_next_channel (sys_protocol s)"
  unfolding sys_inv_def by blast

lemma sys_inv_answers:
  "sys_inv s decided \<Longrightarrow> distinct (map af_response_tx (rr_pending_outbound_responses (sys_protocol s)))"
  "sys_inv s decided \<Longrightarrow> f \<in> set (rr_pending_outbound_responses (sys_protocol s)) \<Longrightarrow> af_response_tx f < rr_next_channel (sys_protocol s)"
  "sys_inv s decided \<Longrightarrow> f \<in> set (rr_pending_outbound_responses (sys_protocol s)) \<Longrightarrow>
     af_response_tx f \<in> decided \<or> (af_request_id f, af_response_tx f) \<in> open_pairs s"
  "sys_inv s decided \<Longrightarrow> f \<in> set (rr_pending_outbound_responses (sys_protocol s)) \<Longrightarrow>
     (r, af_response_tx f) \<in> open_pairs s \<Longrightarrow> r = af_request_id f"
  unfolding sys_inv_def by blast+

lemma sys_invI:
  assumes "distinct (inbound_ids s)" and "\<And>r. r \<in> set (inbound_ids s) \<Longrightarrow> r < rr_next_request_id (sys_protocol s)"
    and "\<And>r tx. (r, tx) \<in> open_pairs s \<Longrightarrow> tx < rr_next_channel (sys_protocol s)"
    and "distinct (map af_response_tx (rr_pending_outbound_responses (sys_protocol s)))"
    and "\<And>f. f \<in> set (rr_pending_outbound_responses (sys_protocol s)) \<Longrightarrow> af_response_tx f < rr_next_channel (sys_protocol s)"
    and "\<And>f. f \<in> set (rr_pending_outbound_responses (sys_protocol s)) \<Longrightarrow>
      af_response_tx f \<in> decided \<or> (af_request_id f, af_response_tx f) \<in> open_pairs s"
    and "\<And>f r. f \<in> set (rr_pending_outbound_responses (sys_protocol s)) \<Longrightarrow> (r, af_response_tx f) \<in> open_pairs s \<Longrightarrow>
      r = af_request_id f"
  shows "sys_inv s decided"
  using assms unfolding sys_inv_def by blast

lemma add_id:
  assumes "distinct xs" and "x \<notin> set xs" and "mset ys = mset xs \<or> mset ys = mset (x # xs)"
  shows "distinct ys \<and> set ys \<subseteq> insert x (set xs)"
  using assms(3)
proof
  assume "mset ys = mset xs"
  then show ?thesis using assms(1) mset_eq_setD mset_eq_imp_distinct_iff by blast
next
  assume "mset ys = mset (x # xs)"
  then have "distinct ys = distinct (x # xs)" "set ys = set (x # xs)"
    by (rule mset_eq_imp_distinct_iff, rule mset_eq_setD)
  then show ?thesis using assms(1,2) by simp
qed

text \<open>A step of the protocol that touches no inbound request.\<close>

definition inbound_quiet :: "request_response \<Rightarrow> rr_effect list \<times> request_response \<Rightarrow> bool" where
  "inbound_quiet rr outcome \<longleftrightarrow>
     (case outcome of (effects, rr') \<Rightarrow>
        received effects = [] \<and> rr_pending_inbound_requests rr' = rr_pending_inbound_requests rr
        \<and> rr_pending_outbound_responses rr' = rr_pending_outbound_responses rr
        \<and> rr_next_channel rr \<le> rr_next_channel rr' \<and> rr_next_request_id rr' = rr_next_request_id rr)"

lemma deactivate_counters [simp]:
  "rr_next_channel (deactivate p r rr) = rr_next_channel rr" "rr_next_request_id (deactivate p r rr) = rr_next_request_id rr"
  by (simp_all add: deactivate_def split: option.split)

lemma received_failed [simp]: "received (map (\<lambda>r. rr_failed p r e) rs) = []"
  by (induction rs) simp_all

lemma handlers_quiet:
  "inbound_quiet rr (snd (rr_on_connection_established sv p rr))"
  "inbound_quiet rr (snd (rr_on_connection_closed order p rr))"
  "inbound_quiet rr (snd (rr_on_outbound_substream p sid substream fallback rr))"
  "inbound_quiet rr (snd (rr_on_dial_failure p rr))"
  "inbound_quiet rr (snd (rr_on_substream_open_failure sid error rr))"
  "inbound_quiet rr (snd (on_send_request sv p r request opts fb rr))"
  "inbound_quiet rr (snd (on_substream_event p r fallback message rr))"
  "inbound_quiet rr (snd (on_cancel_request alive r rr))"
  by (simp_all add: inbound_quiet_def rr_on_connection_established_def rr_on_connection_closed_def rr_on_outbound_substream_def
      rr_on_dial_failure_def rr_on_substream_open_failure_def on_send_request_def
      on_substream_event_def on_cancel_request_def Let_def
      split: option.split sum.split dial_options.split request_response_error.split)

lemma report_quiet: "inbound_quiet rr (snd outcome) \<Longrightarrow> inbound_quiet rr (report_if_failed p r outcome)"
  by (auto simp: inbound_quiet_def report_if_failed_def split: prod.splits sum.splits)

lemma handle_user_command_quiet: "inbound_quiet rr (handle_user_command sv alive command rr)"
  by (cases command) (simp_all add: handle_user_command_def handlers_quiet report_quiet)

abbreviation sys_step :: "rr_system \<Rightarrow> rr_effect list \<Rightarrow> request_response \<Rightarrow> rr_system" where
  "sys_step s effects rr' \<equiv> s\<lparr>sys_protocol := rr', sys_events := sys_events s @ concat (map reported effects)\<rparr>"

lemma queued_step: "queued (sys_step s effects rr') = queued s @ received effects"
  by (simp add: received_def)

lemma sys_inv_quiet:
  assumes "sys_inv s decided" and "inbound_quiet (sys_protocol s) (effects, rr')"
  shows "sys_inv (sys_step s effects rr') decided"
proof -
  have q: "queued (sys_step s effects rr') = queued s"
    using assms(2) unfolding queued_step by (simp add: inbound_quiet_def)
  have "inbound_ids (sys_step s effects rr') = inbound_ids s" "open_pairs (sys_step s effects rr') = open_pairs s"
    unfolding inbound_ids_def open_pairs_def q using assms(2) by (simp_all add: inbound_quiet_def)
  then show ?thesis
    using assms unfolding sys_inv_def by (auto simp: inbound_quiet_def)
qed

lemma next_request_id_fields:
  "fst (next_request_id rr) = rr_next_request_id rr" "rr_peers (snd (next_request_id rr)) = rr_peers rr"
  "rr_pending_inbound_requests (snd (next_request_id rr)) = rr_pending_inbound_requests rr"
  "rr_pending_outbound_responses (snd (next_request_id rr)) = rr_pending_outbound_responses rr"
  "rr_next_channel (snd (next_request_id rr)) = rr_next_channel rr"
  by (simp_all add: next_request_id_def)

lemma next_request_id_room:
  "rr_next_request_id rr + 1 < 2 ^ 64 \<Longrightarrow> rr_next_request_id (snd (next_request_id rr)) = rr_next_request_id rr + 1"
  by (simp add: next_request_id_def)

lemma inbound_substream_outcome:
  assumes "snd (rr_on_inbound_substream p fallback substream rr) = (effects, rr')"
  obtains (refused) "received effects = []" "rr' = rr"
  | (allocated) "effects = []" "rr_next_request_id rr' = rr_next_request_id (snd (next_request_id rr))"
      "rr_next_channel rr' = rr_next_channel rr" "rr_pending_outbound_responses rr' = rr_pending_outbound_responses rr"
      "map qf_request_id (rr_pending_inbound_requests rr') = map qf_request_id (rr_pending_inbound_requests rr)
       \<or> map qf_request_id (rr_pending_inbound_requests rr') = map qf_request_id (rr_pending_inbound_requests rr) @ [rr_next_request_id rr]"
  using assms
  by (auto simp: rr_on_inbound_substream_def case_prod_beta next_request_id_fields Let_def split: if_splits option.splits)

lemma sys_inv_inbound_substream:
  assumes inv: "sys_inv s decided" and room: "rr_next_request_id (sys_protocol s) + 1 < 2 ^ 64"
    and step: "snd (rr_on_inbound_substream p fallback substream (sys_protocol s)) = (effects, rr')"
  shows "sys_inv (sys_step s effects rr') decided"
proof (cases rule: inbound_substream_outcome[OF step])
  case 1
  then show ?thesis
    by (intro sys_inv_quiet[OF inv]) (simp add: inbound_quiet_def)
next
  case 2
  let ?next = "rr_next_request_id (sys_protocol s)"
  have below: "r < ?next" if "r \<in> set (inbound_ids s)" for r
    using inv that unfolding sys_inv_def by blast
  have next_id: "rr_next_request_id rr' = ?next + 1"
    using 2(2) next_request_id_room[OF room] by simp
  have q: "queued (sys_step s effects rr') = queued s" using 2(1) by simp
  have pairs: "open_pairs (sys_step s effects rr') = open_pairs s"
    unfolding open_pairs_def q by simp
  have "mset (inbound_ids (sys_step s effects rr')) = mset (inbound_ids s)
      \<or> mset (inbound_ids (sys_step s effects rr')) = mset (?next # inbound_ids s)"
    unfolding inbound_ids_def q using 2(5) by (elim disjE) (simp_all del: mset_map)
  from add_id[OF sys_inv_ids(1)[OF inv] _ this]
  have ids: "distinct (inbound_ids (sys_step s effects rr'))" "set (inbound_ids (sys_step s effects rr')) \<subseteq> insert ?next (set (inbound_ids s))"
    using below by auto
  show ?thesis
  proof (rule sys_invI)
    show "r < rr_next_request_id (sys_protocol (sys_step s effects rr'))" if "r \<in> set (inbound_ids (sys_step s effects rr'))" for r
      using that ids(2) below[of r] next_id by auto
  qed (use ids(1) sys_inv_channel[OF inv] sys_inv_answers[OF inv] pairs 2(3,4) in auto)
qed

lemma inbound_request_outcome:
  assumes "snd (rr_on_inbound_request p r request substream rr) = (effects, rr')"
  obtains (dropped) "effects = []" "rr_pending_inbound_requests rr' = rr_pending_inbound_requests rr"
      "rr_pending_outbound_responses rr' = rr_pending_outbound_responses rr" "rr_next_channel rr' = rr_next_channel rr"
      "rr_next_request_id rr' = rr_next_request_id rr"
  | (passed) "received effects = [(r, rr_next_channel rr)]" "rr_pending_inbound_requests rr' = rr_pending_inbound_requests rr"
      "rr_pending_outbound_responses rr' = rr_pending_outbound_responses rr
        @ [\<lparr>af_request_id = r, af_substream = substream, af_response_tx = rr_next_channel rr\<rparr>]"
      "rr_next_channel rr' = Suc (rr_next_channel rr)" "rr_next_request_id rr' = rr_next_request_id rr"
proof (cases "hm_get (rr_peers rr) p")
  case None
  show ?thesis by (rule dropped) (use assms None in \<open>simp_all add: rr_on_inbound_request_def\<close>)
next
  case (Some c)
  show ?thesis
  proof (cases "hm_get (rp_active_inbound c) r")
    case None
    show ?thesis by (rule dropped) (use assms Some None in \<open>simp_all add: rr_on_inbound_request_def\<close>)
  next
    case (Some fallback)
    note known = \<open>hm_get (rr_peers rr) p = Some c\<close> Some
    show ?thesis
    proof (cases request)
      case (Inl e)
      show ?thesis by (rule dropped) (use assms known Inl in \<open>auto simp: rr_on_inbound_request_def\<close>)
    next
      case (Inr payload)
      show ?thesis by (rule passed) (use assms known Inr in \<open>auto simp: rr_on_inbound_request_def Let_def\<close>)
    qed
  qed
qed

lemma sys_inv_inbound_request:
  assumes inv: "sys_inv s decided" and i: "i < length (rr_pending_inbound_requests (sys_protocol s))"
    and r: "r = qf_request_id (rr_pending_inbound_requests (sys_protocol s) ! i)"
    and step: "snd (rr_on_inbound_request p r request substream ((sys_protocol s)
      \<lparr>rr_pending_inbound_requests := remove_nth i (rr_pending_inbound_requests (sys_protocol s))\<rparr>)) = (effects, rr')"
  shows "sys_inv (sys_step s effects rr') decided"
proof -
  let ?ids = "\<lambda>q. map qf_request_id (remove_nth i (rr_pending_inbound_requests (sys_protocol s))) @ map fst q
    @ map fst (rh_pending_responses (sys_handle s))"
  have all: "mset (r # ?ids (queued s)) = mset (inbound_ids s)"
    unfolding inbound_ids_def r using mset_remove_nth[OF i] by simp
  then have distinct: "distinct (r # ?ids (queued s))" and sub: "set (r # ?ids (queued s)) = set (inbound_ids s)"
    using sys_inv_ids(1)[OF inv] mset_eq_imp_distinct_iff[OF all] mset_eq_setD[OF all] by blast+
  show ?thesis
  proof (cases rule: inbound_request_outcome[OF step])
    case 1
    have ids: "inbound_ids (sys_step s effects rr') = ?ids (queued s)"
      and pairs: "open_pairs (sys_step s effects rr') = open_pairs s"
      using 1 by (simp_all add: inbound_ids_def open_pairs_def)
    show ?thesis
    proof (rule sys_invI)
      show "distinct (inbound_ids (sys_step s effects rr'))"
        unfolding ids using distinct by simp
      show "q < rr_next_request_id (sys_protocol (sys_step s effects rr'))" if "q \<in> set (inbound_ids (sys_step s effects rr'))" for q
      proof -
        have "q \<in> set (r # ?ids (queued s))" using that unfolding ids by simp
        then show ?thesis unfolding sub using sys_inv_ids(2)[OF inv, of q] 1(5) by simp
      qed
    qed (use sys_inv_channel[OF inv] sys_inv_answers[OF inv] pairs 1 in auto)
  next
    case 2
    let ?tx = "rr_next_channel (sys_protocol s)"
    have ids: "inbound_ids (sys_step s effects rr') = ?ids (queued s @ [(r, ?tx)])"
      and pairs: "open_pairs (sys_step s effects rr') = insert (r, ?tx) (open_pairs s)"
      unfolding inbound_ids_def open_pairs_def queued_step 2(1) using 2(2) by simp_all
    have "mset (?ids (queued s @ [(r, ?tx)])) = mset (r # ?ids (queued s))" by simp
    then have distinct': "distinct (?ids (queued s @ [(r, ?tx)]))" and sub': "set (?ids (queued s @ [(r, ?tx)])) = set (inbound_ids s)"
      using distinct sub mset_eq_imp_distinct_iff mset_eq_setD by blast+
    show ?thesis
    proof (rule sys_invI)
      show "distinct (inbound_ids (sys_step s effects rr'))"
        unfolding ids by (rule distinct')
      show "q < rr_next_request_id (sys_protocol (sys_step s effects rr'))" if "q \<in> set (inbound_ids (sys_step s effects rr'))" for q
        using that[unfolded ids sub'] sys_inv_ids(2)[OF inv, of q] 2(5) by simp
      show "tx < rr_next_channel (sys_protocol (sys_step s effects rr'))" if "(q, tx) \<in> open_pairs (sys_step s effects rr')" for q tx
        using that sys_inv_channel[OF inv, of q tx] 2(4) unfolding pairs by auto
      show "distinct (map af_response_tx (rr_pending_outbound_responses (sys_protocol (sys_step s effects rr'))))"
        using sys_inv_answers(1,2)[OF inv] 2(3) by fastforce
      fix f assume "f \<in> set (rr_pending_outbound_responses (sys_protocol (sys_step s effects rr')))"
      then have f: "f \<in> set (rr_pending_outbound_responses (sys_protocol s)) \<or> f = \<lparr>af_request_id = r, af_substream = substream, af_response_tx = ?tx\<rparr>"
        using 2(3) by auto
      then show "af_response_tx f < rr_next_channel (sys_protocol (sys_step s effects rr'))"
        using sys_inv_answers(2)[OF inv, of f] 2(4) by auto
      show "af_response_tx f \<in> decided \<or> (af_request_id f, af_response_tx f) \<in> open_pairs (sys_step s effects rr')"
        using f sys_inv_answers(3)[OF inv, of f] unfolding pairs by auto
      show "q = af_request_id f" if "(q, af_response_tx f) \<in> open_pairs (sys_step s effects rr')" for q
        using that f sys_inv_answers(2,4)[OF inv, of f] sys_inv_channel[OF inv, of q ?tx] unfolding pairs by auto
    qed
  qed
qed

lemma sys_inv_answered:
  assumes inv: "sys_inv s decided" and i: "i < length (rr_pending_outbound_responses (sys_protocol s))"
  shows "sys_inv (sys_step s (answer_effects outcome f) ((sys_protocol s)
    \<lparr>rr_pending_outbound_responses := remove_nth i (rr_pending_outbound_responses (sys_protocol s))\<rparr>)) decided"
    (is "sys_inv ?s' decided")
proof -
  have "received (answer_effects outcome f) = []"
    by (simp add: answer_effects_def split: answer_outcome.split)
  then have same: "inbound_ids ?s' = inbound_ids s" "open_pairs ?s' = open_pairs s"
    unfolding inbound_ids_def open_pairs_def queued_step by simp_all
  have sub: "set (remove_nth i (rr_pending_outbound_responses (sys_protocol s))) \<subseteq> set (rr_pending_outbound_responses (sys_protocol s))"
    by (rule set_remove_nth)
  show ?thesis
  proof (rule sys_invI)
    fix g assume "g \<in> set (rr_pending_outbound_responses (sys_protocol ?s'))"
    then have g: "g \<in> set (rr_pending_outbound_responses (sys_protocol s))" using sub by auto
    show "af_response_tx g < rr_next_channel (sys_protocol ?s')"
      "af_response_tx g \<in> decided \<or> (af_request_id g, af_response_tx g) \<in> open_pairs ?s'"
      using sys_inv_answers(2,3)[OF inv g] unfolding same by simp_all
    show "r = af_request_id g" if "(r, af_response_tx g) \<in> open_pairs ?s'" for r
      using sys_inv_answers(4)[OF inv g] that unfolding same by blast
  qed (use same sys_inv_ids[OF inv] sys_inv_channel[OF inv] sys_inv_answers(1)[OF inv] remove_nth_distinct(1)[OF _ i] in auto)
qed

lemma sys_inv_protocol:
  assumes inv: "sys_inv s decided" and room: "rr_next_request_id (sys_protocol s) + 1 < 2 ^ 64"
    and step: "rr_handle_input sv order alive input (sys_protocol s) = (ended, effects, rr')"
  shows "sys_inv (sys_step s effects rr') decided"
proof -
  let ?rr = "sys_protocol s"
  have idle: "sys_inv (sys_step s effects rr') decided" if "effects = []" "rr' = ?rr"
    using that by (intro sys_inv_quiet[OF inv]) (simp add: inbound_quiet_def)
  show ?thesis
  proof (cases input)
    case (RrService event)
    show ?thesis
    proof (cases event)
      case None
      then show ?thesis using step RrService by (intro idle) (simp_all add: rr_handle_input_def)
    next
      case (Some ev)
      have out: "snd (handle_service_event sv order ev ?rr) = (effects, rr')"
        using step RrService Some by (simp add: rr_handle_input_def)
      show ?thesis
      proof (cases "\<exists>p protocol fallback substream. ev = TeInbound p protocol fallback substream")
        case True
        then obtain p protocol fallback substream where ev: "ev = TeInbound p protocol fallback substream" by blast
        show ?thesis
          by (rule sys_inv_inbound_substream[OF inv room, of p fallback substream]) (use out ev in \<open>simp add: handle_service_event_def\<close>)
      next
        case False
        then have "inbound_quiet ?rr (snd (handle_service_event sv order ev ?rr))"
          by (cases ev) (simp_all add: handle_service_event_def handlers_quiet)
        then show ?thesis using out sys_inv_quiet[OF inv] by simp
      qed
    qed
  next
    case (RrCommand command)
    show ?thesis
    proof (cases command)
      case None
      then show ?thesis using step RrCommand by (intro idle) (simp_all add: rr_handle_input_def)
    next
      case (Some cmd)
      then have "handle_user_command sv alive cmd ?rr = (effects, rr')"
        using step RrCommand by (simp add: rr_handle_input_def)
      then show ?thesis using handle_user_command_quiet[of ?rr sv alive cmd] sys_inv_quiet[OF inv] by simp
    qed
  next
    case (RrResponse i send wait)
    let ?f = "rr_pending_inbound ?rr ! i"
    let ?mid = "?rr\<lparr>rr_pending_inbound := remove_nth i (rr_pending_inbound ?rr)\<rparr>"
    have "inbound_quiet ?rr (effects, rr')"
      using step RrResponse
        handlers_quiet(7)[of ?mid "rf_peer ?f" "rf_request_id ?f" "rf_fallback ?f" "response_result send wait"]
      by (auto simp: rr_handle_input_def inbound_quiet_def Let_def split: if_splits prod.splits)
    then show ?thesis by (rule sys_inv_quiet[OF inv])
  next
    case (RrAnswered i outcome)
    then show ?thesis
      using step idle sys_inv_answered[OF inv] by (cases "i < length (rr_pending_outbound_responses ?rr)") (auto simp: rr_handle_input_def)
  next
    case (RrRequestRead i read)
    show ?thesis
    proof (cases "i < length (rr_pending_inbound_requests ?rr)")
      case True
      show ?thesis
        by (rule sys_inv_inbound_request[OF inv True refl]) (use step RrRequestRead True in \<open>auto simp: rr_handle_input_def Let_def\<close>)
    next
      case False
      then show ?thesis using step RrRequestRead by (intro idle) (simp_all add: rr_handle_input_def)
    qed
  qed
qed

lemma hm_insert_new: "k \<notin> fst ` set m \<Longrightarrow> hm_insert k v m = m @ [(k, v)]"
  by (induction m) auto

lemma sys_inv_poll:
  assumes inv: "sys_inv s decided" and events: "sys_events s = event # events"
    and poll: "rh_poll_next (Ready (Some event)) (sys_handle s) = (answer, h')"
  shows "sys_inv (s\<lparr>sys_events := events, sys_handle := h'\<rparr>) decided" (is "sys_inv ?s' decided")
proof -
  have moved: "mset (inbound_ids ?s') = mset (inbound_ids s) \<and> open_pairs ?s' = open_pairs s"
  proof (cases "received_pair event")
    case Nil
    then have "h' = sys_handle s"
      using poll by (cases event) (auto simp: rh_poll_next_def)
    then show ?thesis using Nil events by (simp add: inbound_ids_def open_pairs_def)
  next
    case (Cons pair rest)
    then obtain p fb r request tx where event: "event = RequestReceived p fb r request tx"
      by (cases event) auto
    have h': "h' = (sys_handle s)\<lparr>rh_pending_responses := hm_insert r tx (rh_pending_responses (sys_handle s))\<rparr>"
      using poll event by (simp add: rh_poll_next_def)
    have "r \<notin> fst ` set (rh_pending_responses (sys_handle s))"
      using sys_inv_ids(1)[OF inv] events event by (auto simp: inbound_ids_def)
    then have "hm_insert r tx (rh_pending_responses (sys_handle s)) = rh_pending_responses (sys_handle s) @ [(r, tx)]"
      by (rule hm_insert_new)
    then show ?thesis using h' events event by (simp add: inbound_ids_def open_pairs_def)
  qed
  have "distinct (inbound_ids ?s')" "set (inbound_ids ?s') = set (inbound_ids s)" "open_pairs ?s' = open_pairs s"
    using sys_inv_ids(1)[OF inv] moved mset_eq_imp_distinct_iff[of "inbound_ids ?s'" "inbound_ids s"]
      mset_eq_setD[of "inbound_ids ?s'" "inbound_ids s"] by simp_all
  then show ?thesis
    by (intro sys_invI) (use sys_inv_ids[OF inv] sys_inv_channel[OF inv] sys_inv_answers[OF inv] in simp_all)
qed

lemma user_op_cases:
  assumes "user_op operation h = (channels, h')"
  obtains (unknown) "channels = {}" "h' = h"
  | (taken) r tx where "hm_get (rh_pending_responses h) r = Some tx" "channels = {tx}"
      "h' = h\<lparr>rh_pending_responses := hm_remove r (rh_pending_responses h)\<rparr>"
proof -
  have "(channels = {} \<and> h' = h) \<or> (\<exists>r tx. hm_get (rh_pending_responses h) r = Some tx \<and> channels = {tx}
      \<and> h' = h\<lparr>rh_pending_responses := hm_remove r (rh_pending_responses h)\<rparr>)"
    using assms
    by (cases operation) (auto simp: reject_request_def send_response_def send_response_with_feedback_def split: option.splits)
  then show ?thesis
    by (elim disjE exE conjE) (rule unknown, assumption+, rule taken, assumption+)
qed

lemma sys_inv_user:
  assumes inv: "sys_inv s decided" and op: "user_op operation (sys_handle s) = (channels, h')"
  shows "sys_inv (s\<lparr>sys_handle := h'\<rparr>) (decided \<union> channels)" (is "sys_inv ?s' _")
proof (cases rule: user_op_cases[OF op])
  case 1
  then show ?thesis using inv by simp
next
  case (2 r tx)
  let ?pending = "rh_pending_responses (sys_handle s)"
  have "distinct (map fst ?pending)"
    using sys_inv_ids(1)[OF inv] by (simp add: inbound_ids_def)
  then have ok: "hm_ok ?pending" by (simp add: hm_ok_def)
  have pending: "set (hm_remove r ?pending) = {(q, c) \<in> set ?pending. q \<noteq> r}"
    by (auto simp: AList.delete_eq)
  have only: "c = tx" if "(r, c) \<in> set ?pending" for c
    using 2(1) hm_get_in_set[OF ok, of r c] that by simp
  have pairs: "open_pairs ?s' \<subseteq> open_pairs s" "open_pairs s \<subseteq> insert (r, tx) (open_pairs ?s')"
    using pending only 2(3) by (auto simp: open_pairs_def)
  have ids: "distinct (inbound_ids ?s')" "set (inbound_ids ?s') \<subseteq> set (inbound_ids s)"
  proof -
    define front where "front = map qf_request_id (rr_pending_inbound_requests (sys_protocol s)) @ map fst (queued s)"
    have "inbound_ids s = front @ map fst ?pending" "inbound_ids ?s' = front @ map fst (hm_remove r ?pending)"
      using 2(3) by (simp_all add: inbound_ids_def front_def)
    moreover have "set (map fst (hm_remove r ?pending)) \<subseteq> set (map fst ?pending)" "distinct (map fst (hm_remove r ?pending))"
      using pending hm_ok_remove[OF ok, of r] by (auto simp: hm_ok_def)
    ultimately show "distinct (inbound_ids ?s')" "set (inbound_ids ?s') \<subseteq> set (inbound_ids s)"
      using sys_inv_ids(1)[OF inv] unfolding distinct_append set_append by auto
  qed
  show ?thesis
  proof (rule sys_invI)
    fix f assume "f \<in> set (rr_pending_outbound_responses (sys_protocol ?s'))"
    then have f: "f \<in> set (rr_pending_outbound_responses (sys_protocol s))" by simp
    show "af_response_tx f < rr_next_channel (sys_protocol ?s')"
      using sys_inv_answers(2)[OF inv f] by simp
    show "af_response_tx f \<in> decided \<union> channels \<or> (af_request_id f, af_response_tx f) \<in> open_pairs ?s'"
      using sys_inv_answers(3)[OF inv f] pairs(2) 2(2) by blast
    show "q = af_request_id f" if "(q, af_response_tx f) \<in> open_pairs ?s'" for q
      using sys_inv_answers(4)[OF inv f] that pairs(1) by blast
  qed (use ids pairs(1) sys_inv_ids(2)[OF inv] sys_inv_channel[OF inv] sys_inv_answers(1)[OF inv] in auto)
qed

lemma sys_inv_send:
  assumes inv: "sys_inv s decided" and room: "rr_next_request_id (sys_protocol s) + 1 < 2 ^ 64"
    and next_id: "handle_next_request_id (rr_next_request_id (sys_protocol s)) = (r, next_id)"
  shows "sys_inv (s\<lparr>sys_protocol := (sys_protocol s)\<lparr>rr_next_request_id := next_id\<rparr>\<rparr>) decided" (is "sys_inv ?s' _")
proof -
  have "next_id = rr_next_request_id (sys_protocol s) + 1"
    using next_id room unfolding handle_next_request_id_def by (metis mod_less snd_conv)
  moreover have "inbound_ids ?s' = inbound_ids s" "open_pairs ?s' = open_pairs s"
    by (simp_all add: inbound_ids_def open_pairs_def)
  ultimately show ?thesis
    using inv unfolding sys_inv_def by (auto intro: less_SucI)
qed

lemma sys_reach_inv: "sys_reach s decided \<Longrightarrow> sys_inv s decided"
proof (induction rule: sys_reach.induct)
  case (init protocol max_requests)
  then show ?case
    by (simp add: sys_inv_def inbound_ids_def open_pairs_def request_response_new_def rr_handle_new_def)
next
  case (protocol s decided sv order alive input ended effects rr')
  then show ?case by (intro sys_inv_protocol)
next
  case (poll s decided event events answer h')
  then show ?case by (intro sys_inv_poll)
next
  case (user s decided operation channels h')
  then show ?case by (intro sys_inv_user)
next
  case (send s decided request_id next_id)
  then show ?case by (intro sys_inv_send)
qed


lemma sys_reach_next:
  assumes "sys_reach \<lparr>sys_protocol = rr, sys_events = events, sys_handle = h\<rparr> decided"
    and "rr_handle_input sv order alive input rr = (ended, effects, rr')" and "rr_next_request_id rr + 1 < 2 ^ 64"
  shows "sys_reach \<lparr>sys_protocol = rr', sys_events = events @ concat (map reported effects), sys_handle = h\<rparr> decided"
  using sys_reach.protocol[OF assms(1)] assms(2,3) by fastforce


end
