(* ===== verification/Transport_Service.thy ===== *)
theory Transport_Service
  imports Service_Contract Manager_Handle
begin

section \<open>The transport service\<close>

text \<open>
  \<open>src/protocol/connection.rs\<close> and \<open>src/protocol/transport_service.rs\<close>: the connections a protocol may use and
  the events it gets.

  \<^item> A \<open>ConnectionHandle\<close> holds a strong or a weak sender of the command channel of its connection: the field
    \<open>ch_active\<close>. Whether a weak sender can be upgraded is the argument \<open>alive\<close>, what \<open>try_send\<close> answers the argument
    \<open>sent\<close>.
  \<^item> A keep-alive timeout of the \<open>KeepAliveTracker\<close> is its deadline with the key the future returns; which of the elapsed
    futures \<open>FuturesUnordered\<close> yields is the argument \<open>pick\<close>. Wakers are not modelled.
  \<^item> The channel \<open>rx\<close> is the list of the events that are ready, with the flag whether it is closed behind them.
    A poll returns the events that it left in the channel.
\<close>

type_synonym instant = nat

subsection \<open>Connection handles\<close>

record connection_handle =
  ch_active :: bool
  ch_connection_id :: connection_id

definition connection_handle_new :: "connection_id \<Rightarrow> connection_handle" where
  "connection_handle_new connection_id = \<lparr>ch_active = True, ch_connection_id = connection_id\<rparr>"

definition ch_downgrade :: "connection_handle \<Rightarrow> (panic, connection_handle \<times> connection_handle) result" where
  "ch_downgrade h =
     (if ch_active h then Inr (connection_handle_new (ch_connection_id h), h\<lparr>ch_active := False\<rparr>) else Inl Panic)"

definition ch_close :: "connection_handle \<Rightarrow> connection_handle" where
  "ch_close h = (if ch_active h then h\<lparr>ch_active := False\<rparr> else h)"

definition ch_try_upgrade :: "bool \<Rightarrow> connection_handle \<Rightarrow> connection_handle" where
  "ch_try_upgrade alive h = (if \<not> ch_active h then if alive then h\<lparr>ch_active := True\<rparr> else h else h)"

definition ch_try_get_permit :: "bool \<Rightarrow> connection_handle \<Rightarrow> bool" where
  "ch_try_get_permit alive h = (if ch_active h then True else alive)"

fun ch_send_error :: "send_result \<Rightarrow> (substream_error, unit) result" where
  "ch_send_error Sent = Inr ()"
| "ch_send_error Full = Inl SeChannelClogged"
| "ch_send_error Closed = Inl SeConnectionClosed"

definition ch_open_substream :: "bool \<Rightarrow> send_result \<Rightarrow> connection_handle \<Rightarrow> (substream_error, unit) result" where
  "ch_open_substream alive sent h =
     (if ch_active h then ch_send_error sent
      else if alive then ch_send_error sent else Inl SeConnectionClosed)"

datatype close_error = ClosePeerDoesntExist peer_id | CloseConnectionClosed | CloseChannelClogged

fun close_send_error :: "send_result \<Rightarrow> (close_error, unit) result" where
  "close_send_error Sent = Inr ()"
| "close_send_error Full = Inl CloseChannelClogged"
| "close_send_error Closed = Inl CloseConnectionClosed"

definition ch_force_close :: "bool \<Rightarrow> send_result \<Rightarrow> connection_handle \<Rightarrow> (close_error, unit) result" where
  "ch_force_close alive sent h =
     (if ch_active h then close_send_error sent
      else if alive then close_send_error sent else Inl CloseConnectionClosed)"

subsection \<open>The connections of a peer\<close>

record connection_context =
  cc_primary :: connection_handle
  cc_secondary :: "connection_handle option"

definition connection_context_new :: "connection_handle \<Rightarrow> connection_context" where
  "connection_context_new primary = \<lparr>cc_primary = primary, cc_secondary = None\<rparr>"

definition cc_downgrade :: "connection_id \<Rightarrow> connection_context \<Rightarrow> connection_context" where
  "cc_downgrade connection_id c =
     (if ch_connection_id (cc_primary c) = connection_id then c\<lparr>cc_primary := ch_close (cc_primary c)\<rparr>
      else case cc_secondary c of
             Some handle \<Rightarrow>
               if ch_connection_id handle = connection_id then c\<lparr>cc_secondary := Some (ch_close handle)\<rparr> else c
           | None \<Rightarrow> c)"

definition cc_try_upgrade :: "bool \<Rightarrow> connection_id \<Rightarrow> connection_context \<Rightarrow> connection_context" where
  "cc_try_upgrade alive connection_id c =
     (if ch_connection_id (cc_primary c) = connection_id then c\<lparr>cc_primary := ch_try_upgrade alive (cc_primary c)\<rparr>
      else case cc_secondary c of
             Some handle \<Rightarrow>
               if ch_connection_id handle = connection_id
               then c\<lparr>cc_secondary := Some (ch_try_upgrade alive handle)\<rparr> else c
           | None \<Rightarrow> c)"

subsection \<open>Keep-alive timeouts\<close>

type_synonym ka_key = "peer_id \<times> connection_id"

record keep_alive_tracker =
  ka_timeout :: nat
  ka_last_activity :: "(ka_key, instant) hash_map"
  ka_pending :: "(instant \<times> ka_key) list"

definition keep_alive_tracker_new :: "nat \<Rightarrow> keep_alive_tracker" where
  "keep_alive_tracker_new timeout = \<lparr>ka_timeout = timeout, ka_last_activity = [], ka_pending = []\<rparr>"

definition substream_activity :: "instant \<Rightarrow> peer_id \<Rightarrow> connection_id \<Rightarrow> keep_alive_tracker \<Rightarrow> keep_alive_tracker" where
  "substream_activity now peer connection_id t =
     (let t1 = t\<lparr>ka_last_activity := hm_insert (peer, connection_id) now (ka_last_activity t)\<rparr>
      in if hm_get (ka_last_activity t) (peer, connection_id) = None
         then t1\<lparr>ka_pending := ka_pending t @ [(now + ka_timeout t, (peer, connection_id))]\<rparr> else t1)"

definition ka_on_connection_established ::
  "instant \<Rightarrow> peer_id \<Rightarrow> connection_id \<Rightarrow> keep_alive_tracker \<Rightarrow> keep_alive_tracker" where
  "ka_on_connection_established now peer connection_id t = substream_activity now peer connection_id t"

definition ka_on_connection_closed :: "peer_id \<Rightarrow> connection_id \<Rightarrow> keep_alive_tracker \<Rightarrow> keep_alive_tracker" where
  "ka_on_connection_closed peer connection_id t =
     t\<lparr>ka_last_activity := hm_remove (peer, connection_id) (ka_last_activity t)\<rparr>"

type_synonym ka_pick = "(instant \<times> ka_key) list \<Rightarrow> nat option"

definition pick_ok :: "instant \<Rightarrow> ka_pick \<Rightarrow> bool" where
  "pick_ok now pick \<longleftrightarrow>
     (\<forall>pending. case pick pending of
        None \<Rightarrow> \<forall>(deadline, _) \<in> set pending. now < deadline
      | Some i \<Rightarrow> i < length pending \<and> fst (pending ! i) \<le> now)"

definition ka_poll_next :: "instant \<Rightarrow> ka_pick \<Rightarrow> keep_alive_tracker \<Rightarrow> ka_key option \<times> keep_alive_tracker" where
  "ka_poll_next now pick t =
     (case pick (ka_pending t) of
        None \<Rightarrow> (None, t)
      | Some i \<Rightarrow>
          if i < length (ka_pending t) then
            (let key = snd (ka_pending t ! i); t1 = t\<lparr>ka_pending := remove_nth i (ka_pending t)\<rparr>
             in case hm_get (ka_last_activity t) key of
                  None \<Rightarrow> (None, t1)
                | Some last_activity \<Rightarrow>
                    (let inactive_for = now - last_activity
                     in if inactive_for < ka_timeout t
                        then (None, t1\<lparr>ka_pending := ka_pending t1 @ [(now + (ka_timeout t - inactive_for), key)]\<rparr>)
                        else (Some key, t1\<lparr>ka_last_activity := hm_remove key (ka_last_activity t)\<rparr>)))
          else (None, t))"

subsection \<open>The service\<close>

datatype ts_direction = DirInbound | DirOutbound substream_id

datatype inner_event =
    InConnectionEstablished peer_id connection_id connection_handle
  | InConnectionClosed peer_id connection_id
  | InDialFailure peer_id
  | InSubstreamOpened peer_id protocol_name "protocol_name option" ts_direction connection_id substream
  | InSubstreamOpenFailure substream_id substream_error

fun opened_event :: "peer_id \<Rightarrow> protocol_name \<Rightarrow> protocol_name option \<Rightarrow> ts_direction \<Rightarrow> substream \<Rightarrow> service_event" where
  "opened_event peer protocol fallback DirInbound substream = TeInbound peer protocol fallback substream"
| "opened_event peer protocol fallback (DirOutbound substream_id) substream =
     TeOutbound peer protocol fallback substream_id substream"

fun event_from_inner :: "inner_event \<Rightarrow> (panic, service_event) result" where
  "event_from_inner (InDialFailure peer) = Inr (TeDialFailure peer)"
| "event_from_inner (InSubstreamOpened peer protocol fallback direction _ substream) =
     Inr (opened_event peer protocol fallback direction substream)"
| "event_from_inner (InSubstreamOpenFailure substream error) = Inr (TeSubstreamOpenFailure substream error)"
| "event_from_inner _ = Inl Panic"

record transport_service =
  ts_local_peer_id :: peer_id
  ts_protocol :: protocol_name
  ts_fallback_names :: "protocol_name list"
  ts_connections :: "(peer_id, connection_context) hash_map"
  ts_next_substream_id :: substream_id
  ts_keep_alive_tracker :: keep_alive_tracker
  ts_substream_keep_alive :: substream_keep_alive
  ts_pending_outbound :: "(substream_id, connection_id) hash_map"
  ts_pending_events :: "service_event list"

definition transport_service_new ::
  "peer_id \<Rightarrow> protocol_name \<Rightarrow> protocol_name list \<Rightarrow> substream_id \<Rightarrow> nat \<Rightarrow> substream_keep_alive \<Rightarrow> transport_service" where
  "transport_service_new local_peer_id protocol fallback_names next_substream_id keep_alive_timeout keep_alive =
     \<lparr>ts_local_peer_id = local_peer_id, ts_protocol = protocol, ts_fallback_names = fallback_names, ts_connections = [],
      ts_next_substream_id = next_substream_id, ts_keep_alive_tracker = keep_alive_tracker_new keep_alive_timeout,
      ts_substream_keep_alive = keep_alive, ts_pending_outbound = [], ts_pending_events = []\<rparr>"

abbreviation ts_track :: "(keep_alive_tracker \<Rightarrow> keep_alive_tracker) \<Rightarrow> transport_service \<Rightarrow> transport_service" where
  "ts_track f s \<equiv> s\<lparr>ts_keep_alive_tracker := f (ts_keep_alive_tracker s)\<rparr>"

definition ts_on_connection_established ::
  "instant \<Rightarrow> peer_id \<Rightarrow> connection_id \<Rightarrow> connection_handle \<Rightarrow> transport_service
   \<Rightarrow> service_event option \<times> transport_service" where
  "ts_on_connection_established now peer connection_id handle s =
     (case hm_get (ts_connections s) peer of
        Some context \<Rightarrow>
          (case cc_secondary context of
             Some _ \<Rightarrow> (None, s)
           | None \<Rightarrow>
               (None, (ts_track (ka_on_connection_established now peer connection_id) s)
                 \<lparr>ts_connections := hm_insert peer (context\<lparr>cc_secondary := Some handle\<rparr>) (ts_connections s)\<rparr>))
      | None \<Rightarrow>
          (Some (TeConnectionEstablished peer),
           ts_track (ka_on_connection_established now peer connection_id)
             (s\<lparr>ts_connections := hm_insert peer (connection_context_new handle) (ts_connections s)\<rparr>)))"

text \<open>The flag is whether the debug assertion fails; \<open>order\<close> is the iteration order of the failed substreams.\<close>

definition ts_on_connection_closed ::
  "(substream_id list \<Rightarrow> substream_id list) \<Rightarrow> peer_id \<Rightarrow> connection_id \<Rightarrow> transport_service \<Rightarrow> bool \<times> transport_service" where
  "ts_on_connection_closed order peer connection_id s0 =
     (let failed = map fst (filter (\<lambda>(_, c). c = connection_id) (ts_pending_outbound s0));
          s = (ts_track (ka_on_connection_closed peer connection_id) s0)
            \<lparr>ts_pending_outbound := filter (\<lambda>(_, c). c \<noteq> connection_id) (ts_pending_outbound s0),
             ts_pending_events := ts_pending_events s0 @
               map (\<lambda>substream. TeSubstreamOpenFailure substream SeConnectionClosed) (order failed)\<rparr>
      in case hm_get (ts_connections s) peer of
           None \<Rightarrow> (True, s)
         | Some context \<Rightarrow>
             if ch_connection_id (cc_primary context) = connection_id then
               (case cc_secondary context of
                  None \<Rightarrow>
                    (False, s\<lparr>ts_connections := hm_remove peer (ts_connections s),
                              ts_pending_events := ts_pending_events s @ [TeConnectionClosed peer]\<rparr>)
                | Some handle \<Rightarrow>
                    (False, s\<lparr>ts_connections := hm_insert peer \<lparr>cc_primary = handle, cc_secondary = None\<rparr> (ts_connections s)\<rparr>))
             else (False, s\<lparr>ts_connections := hm_insert peer (context\<lparr>cc_secondary := None\<rparr>) (ts_connections s)\<rparr>))"

definition ts_dial :: "send_result \<Rightarrow> transport_manager \<Rightarrow> peer_id \<Rightarrow> (immediate_dial_error, unit) result \<times> inner_command option" where
  "ts_dial sent m peer = handle_dial sent m peer"

definition ts_dial_address :: "send_result \<Rightarrow> multiaddr \<Rightarrow> (immediate_dial_error, unit) result \<times> inner_command option" where
  "ts_dial_address sent address = handle_dial_address sent address"

definition ts_add_known_address ::
  "manager_env \<Rightarrow> supported_transport set \<Rightarrow> transport_manager \<Rightarrow> peer_id \<Rightarrow> multiaddr list \<Rightarrow> usize \<times> transport_manager" where
  "ts_add_known_address env supported m peer addresses =
     add_known_address env supported m peer
       (me_multiaddr_order env (remdups (map (\<lambda>address.
          case last_opt address of Some (P2p _) \<Rightarrow> address | _ \<Rightarrow> address @ [P2p (pid_multihash peer)]) addresses)))"

definition ts_unregister_protocol :: "send_result \<Rightarrow> transport_service \<Rightarrow> inner_command option" where
  "ts_unregister_protocol sent s = handle_unregister_protocol sent (ts_protocol s)"

definition ts_open_substream ::
  "bool \<Rightarrow> send_result \<Rightarrow> instant \<Rightarrow> peer_id \<Rightarrow> transport_service
   \<Rightarrow> (substream_error, substream_id) result \<times> transport_service" where
  "ts_open_substream alive sent now peer s =
     (case hm_get (ts_connections s) peer of
        None \<Rightarrow> (Inl (SePeerDoesNotExist peer), s)
      | Some context \<Rightarrow>
          (let connection = cc_primary context; connection_id = ch_connection_id connection
           in if \<not> ch_try_get_permit alive connection then (Inl SeConnectionClosed, s)
              else
                (let substream_id = ts_next_substream_id s;
                     s1 = s\<lparr>ts_next_substream_id := (substream_id + 1) mod 2 ^ 64\<rparr>;
                     connection1 = (if ts_substream_keep_alive s = KeepAliveYes then ch_try_upgrade alive connection else connection);
                     s2 = (if ts_substream_keep_alive s = KeepAliveYes
                           then (ts_track (substream_activity now peer connection_id) s1)
                             \<lparr>ts_connections := hm_insert peer (context\<lparr>cc_primary := connection1\<rparr>) (ts_connections s1)\<rparr>
                           else s1)
                 in case ch_open_substream alive sent connection1 of
                      Inr _ \<Rightarrow>
                        (Inr substream_id, s2\<lparr>ts_pending_outbound := hm_insert substream_id connection_id (ts_pending_outbound s2)\<rparr>)
                    | Inl error \<Rightarrow> (Inl error, s2))))"

text \<open>\<open>answers\<close> is the state of a connection's channel: whether its weak sender upgrades, and what \<open>try_send\<close> answers.\<close>

definition ts_force_close ::
  "(connection_id \<Rightarrow> bool \<times> send_result) \<Rightarrow> peer_id \<Rightarrow> transport_service
   \<Rightarrow> (close_error, unit) result \<times> connection_id list" where
  "ts_force_close answers peer s =
     (case hm_get (ts_connections s) peer of
        None \<Rightarrow> (Inl (ClosePeerDoesntExist peer), [])
      | Some context \<Rightarrow>
          (let close = (\<lambda>h. ch_force_close (fst (answers (ch_connection_id h))) (snd (answers (ch_connection_id h))) h);
               closed = (\<lambda>h. if close h = Inr () then [ch_connection_id h] else [])
           in (close (cc_primary context),
               (case cc_secondary context of Some h \<Rightarrow> closed h | None \<Rightarrow> []) @ closed (cc_primary context))))"

subsection \<open>Polling the service\<close>

text \<open>
  One event of the channel: the event for the protocol, if there is one. The flag is whether an assertion failed.
  \<open>alive\<close> tells which connections still have a strong sender.
\<close>

definition ts_on_inner ::
  "(connection_id \<Rightarrow> bool) \<Rightarrow> (substream_id list \<Rightarrow> substream_id list) \<Rightarrow> instant \<Rightarrow> inner_event \<Rightarrow> transport_service
   \<Rightarrow> (panic, service_event option) result \<times> bool \<times> transport_service" where
  "ts_on_inner alive order now event s =
     (case event of
        InConnectionEstablished peer connection sender \<Rightarrow>
          (case ts_on_connection_established now peer connection sender s of (answer, s1) \<Rightarrow> (Inr answer, False, s1))
      | InConnectionClosed peer connection \<Rightarrow>
          (case ts_on_connection_closed order peer connection s of
             (failed, s1) \<Rightarrow>
               (case ts_pending_events s1 of
                  [] \<Rightarrow> (Inr None, failed, s1)
                | event # events \<Rightarrow> (Inr (Some event), failed, s1\<lparr>ts_pending_events := events\<rparr>)))
      | InSubstreamOpened peer protocol fallback direction connection_id substream \<Rightarrow>
          (let s1 = (case direction of
                 DirOutbound substream_id \<Rightarrow> s\<lparr>ts_pending_outbound := hm_remove substream_id (ts_pending_outbound s)\<rparr>
               | DirInbound \<Rightarrow> s);
               s2 = (if protocol = ts_protocol s1 \<and> ts_substream_keep_alive s1 = KeepAliveYes
                     then (case hm_get (ts_connections s1) peer of
                             None \<Rightarrow> ts_track (substream_activity now peer connection_id) s1
                           | Some context \<Rightarrow>
                               (ts_track (substream_activity now peer connection_id) s1)
                                 \<lparr>ts_connections := hm_insert peer (cc_try_upgrade (alive connection_id) connection_id context)
                                    (ts_connections s1)\<rparr>)
                     else s1)
           in (Inr (Some (opened_event peer protocol fallback direction substream)), False, s2))
      | InSubstreamOpenFailure substream error \<Rightarrow>
          (Inr (Some (TeSubstreamOpenFailure substream error)), False,
           s\<lparr>ts_pending_outbound := hm_remove substream (ts_pending_outbound s)\<rparr>)
      | event \<Rightarrow> (map_sum id Some (event_from_inner event), False, s))"

text \<open>The loop over the channel: the answer, whether an assertion failed, what is left in the channel and the new state.\<close>

fun ts_poll_rx ::
  "(connection_id \<Rightarrow> bool) \<Rightarrow> (substream_id list \<Rightarrow> substream_id list) \<Rightarrow> instant \<Rightarrow> bool \<Rightarrow> inner_event list \<Rightarrow> transport_service
   \<Rightarrow> (panic, service_event option poll) result \<times> bool \<times> inner_event list \<times> transport_service" where
  "ts_poll_rx alive order now closed [] s = (Inr (if closed then Ready None else Pending), False, [], s)"
| "ts_poll_rx alive order now closed (event # events) s =
     (case ts_on_inner alive order now event s of
        (Inl panic, failed, s1) \<Rightarrow> (Inl panic, failed, events, s1)
      | (Inr (Some answer), failed, s1) \<Rightarrow> (Inr (Ready (Some answer)), failed, events, s1)
      | (Inr None, failed, s1) \<Rightarrow>
          (case ts_poll_rx alive order now closed events s1 of
             (result, failed', rest, s2) \<Rightarrow> (result, failed \<or> failed', rest, s2)))"

lemma ka_poll_next_shrinks:
  "ka_poll_next now pick t = (Some key, t') \<Longrightarrow> length (ka_pending t') < length (ka_pending t)"
  using length_remove_nth[of _ "ka_pending t"]
  by (auto simp: ka_poll_next_def Let_def split: option.splits if_splits) (metis lessI)

text \<open>The loop over the elapsed keep-alive timeouts, which downgrade their connections.\<close>

function ts_keep_alive_loop :: "instant \<Rightarrow> ka_pick \<Rightarrow> transport_service \<Rightarrow> transport_service" where
  "ts_keep_alive_loop now pick s =
     (case ka_poll_next now pick (ts_keep_alive_tracker s) of
        (None, t) \<Rightarrow> s\<lparr>ts_keep_alive_tracker := t\<rparr>
      | (Some (peer, connection_id), t) \<Rightarrow>
          (let s1 = s\<lparr>ts_keep_alive_tracker := t\<rparr>
           in ts_keep_alive_loop now pick
                (case hm_get (ts_connections s1) peer of
                   None \<Rightarrow> s1
                 | Some context \<Rightarrow>
                     s1\<lparr>ts_connections := hm_insert peer (cc_downgrade connection_id context) (ts_connections s1)\<rparr>)))"
  by pat_completeness auto
termination
  by (relation "measure (\<lambda>(_, _, s). length (ka_pending (ts_keep_alive_tracker s)))")
    (auto dest!: ka_poll_next_shrinks[OF sym] split: option.split)

declare ts_keep_alive_loop.simps [simp del]

definition ts_poll_next ::
  "(connection_id \<Rightarrow> bool) \<Rightarrow> (substream_id list \<Rightarrow> substream_id list) \<Rightarrow> ka_pick \<Rightarrow> instant \<Rightarrow> bool \<Rightarrow> inner_event list
   \<Rightarrow> transport_service \<Rightarrow> (panic, service_event option poll) result \<times> bool \<times> inner_event list \<times> transport_service" where
  "ts_poll_next alive order pick now closed events s =
     (case ts_pending_events s of
        event # queued \<Rightarrow> (Inr (Ready (Some event)), False, events, s\<lparr>ts_pending_events := queued\<rparr>)
      | [] \<Rightarrow>
          (case ts_poll_rx alive order now closed events s of
             (Inr Pending, failed, rest, s1) \<Rightarrow> (Inr Pending, failed, rest, ts_keep_alive_loop now pick s1)
           | answer \<Rightarrow> answer))"

end
