(* ===== verification/Service_Refines.thy ===== *)
theory Service_Refines
  imports Transport_Service
begin

section \<open>The transport service implements its contract\<close>

text \<open>
  The events the connections report to a service follow \<open>in_ok\<close>: a connection is established and closed once, a peer
  has at most two live connections, the events of a connection come while it is live, and a substream is answered
  at most once and only if the connection accepted its opening. Under this contract every event the service
  passes to its protocol satisfies \<open>te_ok\<close>, the contract the protocols' theorems assume, whatever the interleaving of polls
  and calls of the protocol.
\<close>

record link_env =
  le_live :: "connection_id \<Rightarrow> peer_id option"
  le_opening :: "substream_id \<Rightarrow> connection_id option"
  le_used :: "connection_id set"

definition link_env_new :: link_env where
  "link_env_new = \<lparr>le_live = \<lambda>_. None, le_opening = \<lambda>_. None, le_used = {}\<rparr>"

fun in_ok :: "link_env \<Rightarrow> inner_event \<Rightarrow> bool" where
  "in_ok L (InConnectionEstablished peer connection handle) \<longleftrightarrow>
     connection \<notin> le_used L \<and> ch_connection_id handle = connection
     \<and> \<not> (\<exists>a b. a \<noteq> b \<and> le_live L a = Some peer \<and> le_live L b = Some peer)"
| "in_ok L (InConnectionClosed peer connection) \<longleftrightarrow> le_live L connection = Some peer"
| "in_ok L (InDialFailure _) \<longleftrightarrow> True"
| "in_ok L (InSubstreamOpened peer _ _ DirInbound connection _) \<longleftrightarrow> le_live L connection = Some peer"
| "in_ok L (InSubstreamOpened peer _ _ (DirOutbound substream) connection _) \<longleftrightarrow>
     le_live L connection = Some peer \<and> le_opening L substream = Some connection"
| "in_ok L (InSubstreamOpenFailure substream _) \<longleftrightarrow> le_opening L substream \<noteq> None"

fun in_env :: "inner_event \<Rightarrow> link_env \<Rightarrow> link_env" where
  "in_env (InConnectionEstablished peer connection _) L =
     L\<lparr>le_live := (le_live L)(connection \<mapsto> peer), le_used := insert connection (le_used L)\<rparr>"
| "in_env (InConnectionClosed _ connection) L =
     L\<lparr>le_live := (le_live L)(connection := None),
       le_opening := (\<lambda>sid. if le_opening L sid = Some connection then None else le_opening L sid)\<rparr>"
| "in_env (InSubstreamOpened _ _ _ (DirOutbound substream) _ _) L = L\<lparr>le_opening := (le_opening L)(substream := None)\<rparr>"
| "in_env (InSubstreamOpenFailure substream _) L = L\<lparr>le_opening := (le_opening L)(substream := None)\<rparr>"
| "in_env _ L = L"

definition link_opened :: "connection_id \<Rightarrow> substream_id \<Rightarrow> link_env \<Rightarrow> link_env" where
  "link_opened connection substream L = L\<lparr>le_opening := (le_opening L)(substream \<mapsto> connection)\<rparr>"

subsection \<open>The invariant\<close>

text \<open>The connections of a peer by their identifiers; upgrades and downgrades do not change them.\<close>

definition cc_ids :: "connection_context \<Rightarrow> connection_id \<times> connection_id option" where
  "cc_ids c = (ch_connection_id (cc_primary c), map_option ch_connection_id (cc_secondary c))"

definition conn_ids :: "transport_service \<Rightarrow> peer_id \<Rightarrow> (connection_id \<times> connection_id option) option" where
  "conn_ids s p = map_option cc_ids (hm_get (ts_connections s) p)"

fun ids_of :: "(connection_id \<times> connection_id option) option \<Rightarrow> connection_id set" where
  "ids_of None = {}"
| "ids_of (Some (a, b)) = insert a (set_option b)"

fun ids_distinct :: "(connection_id \<times> connection_id option) option \<Rightarrow> bool" where
  "ids_distinct (Some (a, Some b)) \<longleftrightarrow> a \<noteq> b"
| "ids_distinct _ \<longleftrightarrow> True"

abbreviation fail_event :: "substream_id \<Rightarrow> service_event" where
  "fail_event sid \<equiv> TeSubstreamOpenFailure sid SeConnectionClosed"

text \<open>
  \<open>sids\<close> are the substreams whose failure is queued, \<open>gone\<close> the peer whose closing is queued behind them, if any.
\<close>

definition conn_part :: "transport_service \<Rightarrow> link_env \<Rightarrow> bool" where
  "conn_part s L \<longleftrightarrow>
     (\<forall>p c. le_live L c = Some p \<longleftrightarrow> c \<in> ids_of (conn_ids s p)) \<and> (\<forall>p. ids_distinct (conn_ids s p))
     \<and> (\<forall>c. le_live L c \<noteq> None \<longrightarrow> c \<in> le_used L)"

definition open_part :: "transport_service \<Rightarrow> link_env \<Rightarrow> bool" where
  "open_part s L \<longleftrightarrow>
     hm_ok (ts_pending_outbound s) \<and> le_opening L = hm_get (ts_pending_outbound s)
     \<and> (\<forall>sid c. le_opening L sid = Some c \<longrightarrow> le_live L c \<noteq> None \<and> sid < ts_next_substream_id s)"

definition queue_part :: "transport_service \<Rightarrow> link_env \<Rightarrow> service_env \<Rightarrow> substream_id list \<Rightarrow> peer_id option \<Rightarrow> bool" where
  "queue_part s L E sids gone \<longleftrightarrow>
     ts_pending_events s = map fail_event sids @ map TeConnectionClosed (case gone of None \<Rightarrow> [] | Some p \<Rightarrow> [p])
     \<and> distinct sids \<and> (\<forall>p. gone = Some p \<longrightarrow> conn_ids s p = None)
     \<and> (\<forall>sid \<in> set sids. le_opening L sid = None \<and> sid < ts_next_substream_id s \<and> se_outstanding E sid \<noteq> None)"

definition env_part :: "transport_service \<Rightarrow> link_env \<Rightarrow> service_env \<Rightarrow> substream_id list \<Rightarrow> peer_id option \<Rightarrow> bool" where
  "env_part s L E sids gone \<longleftrightarrow>
     se_connected E = {p. conn_ids s p \<noteq> None} \<union> set_option gone
     \<and> (\<forall>sid. sid \<notin> set sids \<longrightarrow> se_outstanding E sid = Option.bind (le_opening L sid) (le_live L))
     \<and> (\<forall>sid \<in> se_used E. sid < ts_next_substream_id s)"

definition link_inv :: "transport_service \<Rightarrow> link_env \<Rightarrow> service_env \<Rightarrow> substream_id list \<Rightarrow> peer_id option \<Rightarrow> bool" where
  "link_inv s L E sids gone \<longleftrightarrow>
     conn_part s L \<and> open_part s L \<and> queue_part s L E sids gone \<and> env_part s L E sids gone"

definition linked :: "transport_service \<Rightarrow> link_env \<Rightarrow> service_env \<Rightarrow> bool" where
  "linked s L E \<longleftrightarrow> (\<exists>sids gone. link_inv s L E sids gone)"

lemma linkedI: "link_inv s L E sids gone \<Longrightarrow> linked s L E"
  unfolding linked_def by blast

lemma link_invD:
  assumes "link_inv s L E sids gone"
  shows "conn_part s L" "open_part s L" "queue_part s L E sids gone" "env_part s L E sids gone"
  using assms unfolding link_inv_def by blast+

lemma conn_partD:
  assumes "conn_part s L"
  shows "le_live L c = Some p \<longleftrightarrow> c \<in> ids_of (conn_ids s p)" "ids_distinct (conn_ids s p)"
    "le_live L c = Some p \<Longrightarrow> c \<in> le_used L"
  using assms unfolding conn_part_def by blast+

lemma open_partD:
  assumes "open_part s L"
  shows "hm_ok (ts_pending_outbound s)" "le_opening L sid = hm_get (ts_pending_outbound s) sid"
    "le_opening L sid = Some c \<Longrightarrow> le_live L c \<noteq> None" "le_opening L sid = Some c \<Longrightarrow> sid < ts_next_substream_id s"
  using assms unfolding open_part_def by auto

lemma queue_partD:
  assumes "queue_part s L E sids gone"
  shows "ts_pending_events s = map fail_event sids @ map TeConnectionClosed (case gone of None \<Rightarrow> [] | Some p \<Rightarrow> [p])"
    "distinct sids" "gone = Some p \<Longrightarrow> conn_ids s p = None"
    "sid \<in> set sids \<Longrightarrow> le_opening L sid = None" "sid \<in> set sids \<Longrightarrow> sid < ts_next_substream_id s"
    "sid \<in> set sids \<Longrightarrow> se_outstanding E sid \<noteq> None"
  using assms unfolding queue_part_def by blast+

lemma env_partD:
  assumes "env_part s L E sids gone"
  shows "p \<in> se_connected E \<longleftrightarrow> conn_ids s p \<noteq> None \<or> gone = Some p"
    "sid \<notin> set sids \<Longrightarrow> se_outstanding E sid = Option.bind (le_opening L sid) (le_live L)"
    "sid \<in> se_used E \<Longrightarrow> sid < ts_next_substream_id s"
  using assms unfolding env_part_def by (auto simp: elem_set)

lemma cc_ids_upgrade [simp]:
  "cc_ids (cc_try_upgrade alive c ctx) = cc_ids ctx" "cc_ids (cc_downgrade c ctx) = cc_ids ctx"
  "cc_ids (ctx\<lparr>cc_primary := ch_try_upgrade alive (cc_primary ctx)\<rparr>) = cc_ids ctx"
  by (auto simp: cc_ids_def cc_try_upgrade_def cc_downgrade_def ch_try_upgrade_def ch_close_def split: option.splits)

lemma conn_ids_insert: "conn_ids (s\<lparr>ts_connections := hm_insert p ctx (ts_connections s')\<rparr>) q =
    (if q = p then Some (cc_ids ctx) else map_option cc_ids (hm_get (ts_connections s') q))"
  by (simp add: conn_ids_def)

text \<open>What the invariant sees of the state.\<close>

lemma link_inv_view:
  assumes "link_inv s L E sids gone" and "conn_ids s' = conn_ids s" and "ts_pending_outbound s' = ts_pending_outbound s"
    and "ts_pending_events s' = ts_pending_events s" and "ts_next_substream_id s \<le> ts_next_substream_id s'"
  shows "link_inv s' L E sids gone"
  unfolding link_inv_def
proof (intro conjI)
  note parts = link_invD[OF assms(1)]
  have le: "x < ts_next_substream_id s'" if "x < ts_next_substream_id s" for x
    using that assms(5) by simp
  show "conn_part s' L"
    using parts(1) unfolding conn_part_def assms(2) .
  show "open_part s' L"
    using parts(2) le unfolding open_part_def assms(3) by blast
  show "queue_part s' L E sids gone"
    using parts(3) le unfolding queue_part_def assms(2,4) by blast
  show "env_part s' L E sids gone"
    using parts(4) le unfolding env_part_def assms(2) by blast
qed

lemma ts_keep_alive_loop_view:
  "conn_ids (ts_keep_alive_loop now pick s) = conn_ids s
   \<and> ts_pending_outbound (ts_keep_alive_loop now pick s) = ts_pending_outbound s
   \<and> ts_pending_events (ts_keep_alive_loop now pick s) = ts_pending_events s
   \<and> ts_next_substream_id (ts_keep_alive_loop now pick s) = ts_next_substream_id s"
proof (induction now pick s rule: ts_keep_alive_loop.induct)
  case (1 now pick s)
  show ?case
  proof (cases "ka_poll_next now pick (ts_keep_alive_tracker s)")
    case (Pair key t)
    show ?thesis
    proof (cases key)
      case None
      then show ?thesis
        using Pair by (subst (1 2 3 4) ts_keep_alive_loop.simps) (simp add: conn_ids_def fun_eq_iff)
    next
      case (Some pc)
      obtain p c where pc: "pc = (p, c)" by (cases pc)
      let ?s1 = "s\<lparr>ts_keep_alive_tracker := t\<rparr>"
      let ?s2 = "case hm_get (ts_connections ?s1) p of None \<Rightarrow> ?s1
        | Some context \<Rightarrow> ?s1\<lparr>ts_connections := hm_insert p (cc_downgrade c context) (ts_connections ?s1)\<rparr>"
      have loop: "ts_keep_alive_loop now pick s = ts_keep_alive_loop now pick ?s2"
        using Pair Some pc by (subst ts_keep_alive_loop.simps) (simp add: Let_def)
      have "conn_ids ?s2 = conn_ids s"
        by (auto simp: conn_ids_def fun_eq_iff split: option.split)
      then show ?thesis
        unfolding loop using 1[OF Pair[symmetric] Some pc[symmetric] refl] by (simp split: option.splits)
    qed
  qed
qed

subsection \<open>Opening a substream\<close>

text \<open>The cases of \<open>open_substream\<close>: refused before an identifier is allocated, or after, or initiated.\<close>

lemma ts_open_substream_cases:
  assumes "ts_open_substream alive sent now p s = (result, s')"
  obtains (refused) e where "result = Inl e" "s' = s"
  | (failed) e where "result = Inl e" "conn_ids s' = conn_ids s" "ts_pending_outbound s' = ts_pending_outbound s"
      "ts_pending_events s' = ts_pending_events s" "ts_next_substream_id s' = (ts_next_substream_id s + 1) mod 2 ^ 64"
  | (opened) c where "result = Inr (ts_next_substream_id s)" "conn_ids s' = conn_ids s"
      "\<exists>b. conn_ids s p = Some (c, b)"
      "ts_pending_outbound s' = hm_insert (ts_next_substream_id s) c (ts_pending_outbound s)"
      "ts_pending_events s' = ts_pending_events s" "ts_next_substream_id s' = (ts_next_substream_id s + 1) mod 2 ^ 64"
proof (cases "hm_get (ts_connections s) p")
  case None
  show ?thesis by (rule refused) (use assms None in \<open>auto simp: ts_open_substream_def\<close>)
next
  case (Some ctx)
  show ?thesis
  proof (cases "ch_try_get_permit alive (cc_primary ctx)")
    case False
    show ?thesis by (rule refused) (use assms Some False in \<open>auto simp: ts_open_substream_def\<close>)
  next
    case True
    let ?c = "ch_connection_id (cc_primary ctx)"
    let ?h = "if ts_substream_keep_alive s = KeepAliveYes then ch_try_upgrade alive (cc_primary ctx) else cc_primary ctx"
    let ?s1 = "s\<lparr>ts_next_substream_id := (ts_next_substream_id s + 1) mod 2 ^ 64\<rparr>"
    let ?s2 = "if ts_substream_keep_alive s = KeepAliveYes
      then (ts_track (substream_activity now p ?c) ?s1)
        \<lparr>ts_connections := hm_insert p (ctx\<lparr>cc_primary := ?h\<rparr>) (ts_connections ?s1)\<rparr> else ?s1"
    have ids: "conn_ids ?s2 = conn_ids s"
      using Some by (auto simp: conn_ids_def fun_eq_iff)
    have fields: "ts_pending_outbound ?s2 = ts_pending_outbound s" "ts_pending_events ?s2 = ts_pending_events s"
      "ts_next_substream_id ?s2 = (ts_next_substream_id s + 1) mod 2 ^ 64"
      by simp_all
    have out: "(result, s') = (case ch_open_substream alive sent ?h of
        Inr _ \<Rightarrow> (Inr (ts_next_substream_id s), ?s2\<lparr>ts_pending_outbound := hm_insert (ts_next_substream_id s) ?c (ts_pending_outbound ?s2)\<rparr>)
      | Inl error \<Rightarrow> (Inl error, ?s2))"
      using assms Some True unfolding ts_open_substream_def by (simp only: Let_def option.case if_True not_True_eq_False if_False)
    show ?thesis
    proof (cases "ch_open_substream alive sent ?h")
      case (Inl e)
      show ?thesis by (rule failed[of e]) (use out Inl ids fields in simp_all)
    next
      case (Inr u)
      have s': "s' = ?s2\<lparr>ts_pending_outbound := hm_insert (ts_next_substream_id s) ?c (ts_pending_outbound ?s2)\<rparr>"
        and result: "result = Inr (ts_next_substream_id s)" using out Inr by simp_all
      have "conn_ids s' = conn_ids ?s2" unfolding s' by (simp add: conn_ids_def fun_eq_iff)
      then show ?thesis
        by (intro opened[of ?c, OF result]) (use ids fields Some s' in \<open>simp_all add: conn_ids_def cc_ids_def\<close>)
    qed
  qed
qed

text \<open>An initiated substream has a fresh identifier and belongs to a connected peer.\<close>

lemma link_inv_opened:
  assumes inv: "link_inv s L E sids gone" and room: "ts_next_substream_id s + 1 < 2 ^ 64"
    and step: "ts_open_substream alive sent now p s = (Inr sid, s')"
  obtains c where "sid \<notin> se_used E" "p \<in> se_connected E" "link_inv s' (link_opened c sid L) (opened_env p sid E) sids gone"
    "le_live L c = Some p"
proof (cases rule: ts_open_substream_cases[OF step])
  case (3 c)
  note parts = link_invD[OF inv]
  obtain b where b: "conn_ids s p = Some (c, b)" using 3(3) by blast
  then have live: "le_live L c = Some p"
    using conn_partD(1)[OF parts(1), of c p] by simp
  have sid: "sid = ts_next_substream_id s" and next_id: "ts_next_substream_id s' = sid + 1"
    using 3(1,6) room by (simp_all add: mod_less)
  have fresh: "hm_get (ts_pending_outbound s) sid = None"
    using open_partD(2,4)[OF parts(2), of sid] sid by (cases "hm_get (ts_pending_outbound s) sid") auto
  have new: "sid \<notin> se_used E" "sid \<notin> set sids"
    using env_partD(3)[OF parts(4), of sid] queue_partD(5)[OF parts(3), of sid] sid by auto
  have le: "x < ts_next_substream_id s'" if "x < ts_next_substream_id s" for x
    using that sid next_id by simp
  let ?L = "link_opened c sid L" and ?E = "opened_env p sid E"
  have "link_inv s' ?L ?E sids gone"
    unfolding link_inv_def
  proof (intro conjI)
    show "conn_part s' ?L"
      using parts(1) unfolding conn_part_def 3(2) by (simp add: link_opened_def)
    show "open_part s' ?L"
      unfolding open_part_def 3(4)
    proof (intro conjI allI impI)
      show "hm_ok (hm_insert (ts_next_substream_id s) c (ts_pending_outbound s))"
        using open_partD(1)[OF parts(2)] by simp
      show "le_opening ?L = hm_get (hm_insert (ts_next_substream_id s) c (ts_pending_outbound s))"
        using open_partD(2)[OF parts(2)] sid by (auto simp: link_opened_def fun_eq_iff)
      show "le_live ?L c' \<noteq> None" "sid' < ts_next_substream_id s'" if "le_opening ?L sid' = Some c'" for sid' c'
        using that live open_partD(3,4)[OF parts(2), of sid' c'] next_id le
        by (auto simp: link_opened_def split: if_splits)
    qed
    show "queue_part s' ?L ?E sids gone"
      unfolding queue_part_def 3(2,5)
      using queue_partD[OF parts(3)] le new by (auto simp: link_opened_def)
    show "env_part s' ?L ?E sids gone"
      using parts(4) le next_id new live unfolding env_part_def 3(2) by (auto simp: link_opened_def)
  qed
  moreover have "p \<in> se_connected E"
    using env_partD(1)[OF parts(4), of p] b by simp
  ultimately show ?thesis using that new(1) live by blast
qed (use step in auto)

lemma link_inv_open_failed:
  assumes inv: "link_inv s L E sids gone" and room: "ts_next_substream_id s + 1 < 2 ^ 64"
    and step: "ts_open_substream alive sent now p s = (Inl error, s')"
  shows "link_inv s' L E sids gone"
proof (cases rule: ts_open_substream_cases[OF step])
  case (1 e)
  then show ?thesis using inv by simp
next
  case (2 e)
  then show ?thesis using room by (intro link_inv_view[OF inv]) (simp_all add: mod_less)
qed simp

subsection \<open>Queued events\<close>

lemma link_inv_deliver:
  assumes inv: "link_inv s L E sids gone" and events: "ts_pending_events s = event # queued"
  obtains sids' gone' where "te_ok E event" "link_inv (s\<lparr>ts_pending_events := queued\<rparr>) L (te_env event E) sids' gone'"
proof (cases sids)
  note parts = link_invD[OF inv]
  let ?s = "s\<lparr>ts_pending_events := queued\<rparr>"
  have ids: "conn_ids ?s = conn_ids s" by (simp add: conn_ids_def fun_eq_iff)
  {
    case (Cons sid rest)
    have event: "event = fail_event sid" and queued: "queued = map fail_event rest @ map TeConnectionClosed (case gone of None \<Rightarrow> [] | Some p \<Rightarrow> [p])"
      using queue_partD(1)[OF parts(3)] events Cons by simp_all
    have "te_ok E event"
      using queue_partD(6)[OF parts(3), of sid] Cons event by simp
    moreover have "link_inv ?s L (te_env event E) rest gone"
      unfolding link_inv_def
    proof (intro conjI)
      show "conn_part ?s L" using parts(1) unfolding conn_part_def ids .
      show "open_part ?s L" using parts(2) unfolding open_part_def by simp
      show "queue_part ?s L (te_env event E) rest gone"
        unfolding queue_part_def ids using queue_partD(2-)[OF parts(3)] Cons queued event by auto
      show "env_part ?s L (te_env event E) rest gone"
        using parts(4) queue_partD(4)[OF parts(3), of sid] Cons unfolding env_part_def ids event by auto
    qed
    ultimately show ?thesis by (rule that)
  next
    case Nil
    then obtain p where gone: "gone = Some p" and event: "event = TeConnectionClosed p" and queued: "queued = []"
      using queue_partD(1)[OF parts(3)] events by (cases gone) auto
    have "te_ok E event"
      using env_partD(1)[OF parts(4), of p] gone event by simp
    moreover have "link_inv ?s L (te_env event E) [] None"
      unfolding link_inv_def
    proof (intro conjI)
      show "conn_part ?s L" using parts(1) unfolding conn_part_def ids .
      show "open_part ?s L" using parts(2) unfolding open_part_def by simp
      show "queue_part ?s L (te_env event E) [] None"
        unfolding queue_part_def using queued by simp
      have none: "conn_ids s p = None" by (rule queue_partD(3)[OF parts(3) gone])
      then have "le_live L c \<noteq> Some p" for c
        using conn_partD(1)[OF parts(1), of c p] by simp
      then show "env_part ?s L (te_env event E) [] None"
        using parts(4) none Nil gone unfolding env_part_def ids event by (auto simp: bind_eq_Some_conv)
    qed
    ultimately show ?thesis by (rule that)
  }
qed

subsection \<open>Events of the connections\<close>

abbreviation idle_inv :: "transport_service \<Rightarrow> link_env \<Rightarrow> service_env \<Rightarrow> bool" where
  "idle_inv s L E \<equiv> link_inv s L E [] None"

lemma link_inv_idle:
  assumes "link_inv s L E sids gone" and "ts_pending_events s = []"
  shows "sids = []" "gone = None"
  using queue_partD(1)[OF link_invD(3)[OF assms(1)]] assms(2) by (auto split: option.splits)

lemma inner_established:
  assumes inv: "idle_inv s L E" and ok: "in_ok L (InConnectionEstablished p c h)"
    and step: "ts_on_connection_established now p c h s = (answer, s')"
  shows "case answer of
      None \<Rightarrow> idle_inv s' (in_env (InConnectionEstablished p c h) L) E
    | Some event \<Rightarrow> te_ok E event \<and> idle_inv s' (in_env (InConnectionEstablished p c h) L) (te_env event E)"
proof -
  note parts = link_invD[OF inv]
  let ?L = "in_env (InConnectionEstablished p c h) L"
  have new: "c \<notin> le_used L" "ch_connection_id h = c" using ok by simp_all
  have dead: "le_live L c = None"
    using conn_partD(3)[OF parts(1), of c] new by (cases "le_live L c") auto
  then have notmem: "c \<notin> ids_of (conn_ids s q)" for q
    using conn_partD(1)[OF parts(1), of c q] by simp
  have pend: "le_opening L sid \<noteq> Some c" for sid
    using open_partD(3)[OF parts(2), of sid c] dead by blast
  have result: "idle_inv s' ?L E'"
    if ids: "\<And>q. conn_ids s' q = (if q = p then new_ids else conn_ids s q)"
      and new_ids: "ids_of new_ids = insert c (ids_of (conn_ids s p))" "ids_distinct new_ids" "new_ids \<noteq> None"
      and fields: "ts_pending_outbound s' = ts_pending_outbound s" "ts_pending_events s' = ts_pending_events s"
      "ts_next_substream_id s' = ts_next_substream_id s"
      and E': "se_connected E' = insert p (se_connected E)" "se_outstanding E' = se_outstanding E" "se_used E' = se_used E"
    for new_ids E'
    unfolding link_inv_def
  proof (intro conjI)
    show "conn_part s' ?L"
      unfolding conn_part_def
    proof (intro conjI allI impI)
      show "le_live ?L c' = Some q \<longleftrightarrow> c' \<in> ids_of (conn_ids s' q)" for q c'
        using conn_partD(1)[OF parts(1), of c' q] notmem[of q] new_ids(1) by (auto simp: ids)
      show "ids_distinct (conn_ids s' q)" for q
        using conn_partD(2)[OF parts(1), of q] new_ids(2) by (simp add: ids)
      show "c' \<in> le_used ?L" if "le_live ?L c' \<noteq> None" for c'
        using that conn_partD(3)[OF parts(1), of c'] by (auto split: if_splits)
    qed
    show "open_part s' ?L"
      using parts(2) unfolding open_part_def fields by simp
    show "queue_part s' ?L E' [] None"
      using parts(3) unfolding queue_part_def fields by simp
    show "env_part s' ?L E' [] None"
      using parts(4) E' new_ids(3) pend unfolding env_part_def fields by (auto simp: ids bind_eq_Some_conv split: option.splits bind_splits)
  qed
  show ?thesis
  proof (cases "hm_get (ts_connections s) p")
    case None
    then have none: "conn_ids s p = None" by (simp add: conn_ids_def)
    let ?s = "ts_track (ka_on_connection_established now p c) (s\<lparr>ts_connections := hm_insert p (connection_context_new h) (ts_connections s)\<rparr>)"
    have out: "answer = Some (TeConnectionEstablished p)" "s' = ?s"
      using step None by (simp_all add: ts_on_connection_established_def)
    have "te_ok E (TeConnectionEstablished p)"
      using env_partD(1)[OF parts(4), of p] none by simp
    moreover have "idle_inv s' ?L (te_env (TeConnectionEstablished p) E)"
      by (rule result[of "Some (c, None)"])
        (use out new none in \<open>auto simp: conn_ids_def connection_context_new_def cc_ids_def\<close>)
    ultimately show ?thesis using out by simp
  next
    case (Some ctx)
    let ?a = "ch_connection_id (cc_primary ctx)"
    have a: "le_live L ?a = Some p"
      using conn_partD(1)[OF parts(1), of ?a p] Some by (simp add: conn_ids_def cc_ids_def)
    have "cc_secondary ctx = None"
    proof (rule ccontr)
      assume "cc_secondary ctx \<noteq> None"
      then obtain h2 where h2: "cc_secondary ctx = Some h2" by blast
      then have "le_live L (ch_connection_id h2) = Some p" "?a \<noteq> ch_connection_id h2"
        using conn_partD(1)[OF parts(1), of "ch_connection_id h2" p] conn_partD(2)[OF parts(1), of p] Some
        by (simp_all add: conn_ids_def cc_ids_def)
      then show False using ok a by auto
    qed
    then have out: "answer = None" "s' = (ts_track (ka_on_connection_established now p c) s)
        \<lparr>ts_connections := hm_insert p (ctx\<lparr>cc_secondary := Some h\<rparr>) (ts_connections s)\<rparr>"
      and ids: "conn_ids s p = Some (?a, None)"
      using step Some by (simp_all add: ts_on_connection_established_def conn_ids_def cc_ids_def)
    have "idle_inv s' ?L E"
      by (rule result[of "Some (?a, Some c)"])
        (use out new ids notmem[of p] env_partD(1)[OF parts(4), of p] in \<open>auto simp: conn_ids_def cc_ids_def\<close>)
    then show ?thesis using out by simp
  qed
qed

lemma inner_closed:
  assumes inv: "idle_inv s L E" and ok: "in_ok L (InConnectionClosed p c)" and order: "iteration_order order"
    and step: "ts_on_connection_closed order p c s = (failed, s')"
  shows "\<not> failed \<and> (\<exists>sids gone. link_inv s' (in_env (InConnectionClosed p c) L) E sids gone)"
proof -
  note parts = link_invD[OF inv]
  let ?L = "in_env (InConnectionClosed p c) L"
  let ?sids = "order (map fst (filter (\<lambda>(_, c'). c' = c) (ts_pending_outbound s)))"
  let ?out = "filter (\<lambda>(_, c'). c' \<noteq> c) (ts_pending_outbound s)"
  have live: "le_live L c = Some p" using ok by simp
  note okout = open_partD(1)[OF parts(2)]
  have get: "hm_get ?out sid = (if le_opening L sid = Some c then None else le_opening L sid)" for sid
    unfolding hm_get_filter_value[OF okout] open_partD(2)[OF parts(2)] by (simp split: option.split)
  have perm: "mset ?sids = mset (map fst (filter (\<lambda>(_, c'). c' = c) (ts_pending_outbound s)))"
    using iteration_orderD(1)[OF order] .
  have sids: "distinct ?sids" "sid \<in> set ?sids \<longleftrightarrow> le_opening L sid = Some c" for sid
  proof -
    show "distinct ?sids"
      unfolding mset_eq_imp_distinct_iff[OF perm] using okout by (simp add: hm_ok_def distinct_map_filter)
    have "sid \<in> set ?sids \<longleftrightarrow> (sid, c) \<in> set (ts_pending_outbound s)"
      unfolding mset_eq_setD[OF perm] by (auto simp: image_iff)
    then show "sid \<in> set ?sids \<longleftrightarrow> le_opening L sid = Some c"
      using hm_get_in_set[OF okout, of sid c] open_partD(2)[OF parts(2), of sid] by simp
  qed
  have result: "link_inv s' ?L E ?sids gone"
    if ids: "\<And>q. conn_ids s' q = (if q = p then new_ids else conn_ids s q)"
      and new_ids: "ids_of new_ids = ids_of (conn_ids s p) - {c}" "ids_distinct new_ids"
      and gone: "gone = (if new_ids = None then Some p else None)"
      and fields: "ts_pending_outbound s' = ?out" "ts_next_substream_id s' = ts_next_substream_id s"
      "ts_pending_events s' = map fail_event ?sids @ map TeConnectionClosed (case gone of None \<Rightarrow> [] | Some p \<Rightarrow> [p])"
    for new_ids gone
    unfolding link_inv_def
  proof (intro conjI)
    show "conn_part s' ?L"
      unfolding conn_part_def
    proof (intro conjI allI impI)
      show "le_live ?L c' = Some q \<longleftrightarrow> c' \<in> ids_of (conn_ids s' q)" for q c'
      proof (cases "q = p")
        case True
        then show ?thesis
          using conn_partD(1)[OF parts(1), of c' p] new_ids(1) unfolding ids by simp
      next
        case False
        then have "c' \<noteq> c \<or> le_live L c' \<noteq> Some q" using live by auto
        then show ?thesis
          using conn_partD(1)[OF parts(1), of c' q] False unfolding ids by auto
      qed
      show "ids_distinct (conn_ids s' q)" for q
        using conn_partD(2)[OF parts(1), of q] new_ids(2) unfolding ids by simp
      show "c' \<in> le_used ?L" if "le_live ?L c' \<noteq> None" for c'
        using that conn_partD(3)[OF parts(1), of c'] by (auto split: if_splits)
    qed
    show "open_part s' ?L"
      unfolding open_part_def fields
    proof (intro conjI allI impI)
      show "hm_ok ?out" by (rule hm_ok_filter[OF okout])
      show "le_opening ?L = hm_get ?out" by (auto simp: get fun_eq_iff)
      show "le_live ?L c' \<noteq> None" "sid < ts_next_substream_id s" if "le_opening ?L sid = Some c'" for sid c'
        using that open_partD(3,4)[OF parts(2), of sid c'] by (auto split: if_splits)
    qed
    show "queue_part s' ?L E ?sids gone"
      unfolding queue_part_def fields(2)
    proof (intro conjI allI impI ballI)
      show "ts_pending_events s' = map fail_event ?sids @ map TeConnectionClosed (case gone of None \<Rightarrow> [] | Some p \<Rightarrow> [p])"
        by (rule fields(3))
      show "distinct ?sids" by (rule sids(1))
      show "conn_ids s' q = None" if "gone = Some q" for q
        using that gone ids[of q] by (auto split: if_splits)
      fix sid assume "sid \<in> set ?sids"
      then have o: "le_opening L sid = Some c" using sids(2) by blast
      then show "le_opening ?L sid = None" by simp
      show "sid < ts_next_substream_id s" by (rule open_partD(4)[OF parts(2) o])
      show "se_outstanding E sid \<noteq> None" using env_partD(2)[OF parts(4), of sid] o live by simp
    qed
    show "env_part s' ?L E ?sids gone"
      unfolding env_part_def fields(2)
    proof (intro conjI allI impI ballI)
      have "conn_ids s p \<noteq> None"
        using conn_partD(1)[OF parts(1), of c p] live by (cases "conn_ids s p") auto
      then show "se_connected E = {q. conn_ids s' q \<noteq> None} \<union> set_option gone"
        using env_partD(1)[OF parts(4)] gone by (auto simp: ids split: if_splits)
      show "se_outstanding E sid = Option.bind (le_opening ?L sid) (le_live ?L)" if "sid \<notin> set ?sids" for sid
        using env_partD(2)[OF parts(4), of sid] that sids(2)[of sid] by (cases "le_opening L sid") auto
      show "sid < ts_next_substream_id s" if "sid \<in> se_used E" for sid
        by (rule env_partD(3)[OF parts(4) that])
    qed
  qed
  have queue: "ts_pending_events s = []" using queue_partD(1)[OF parts(3)] by simp
  obtain ctx where ctx: "hm_get (ts_connections s) p = Some ctx"
    using conn_partD(1)[OF parts(1), of c p] live by (cases "hm_get (ts_connections s) p") (auto simp: conn_ids_def)
  let ?a = "ch_connection_id (cc_primary ctx)"
  have ids: "conn_ids s p = Some (?a, map_option ch_connection_id (cc_secondary ctx))"
    using ctx by (simp add: conn_ids_def cc_ids_def)
  have mem: "c = ?a \<or> (\<exists>h. cc_secondary ctx = Some h \<and> ch_connection_id h = c)"
    using conn_partD(1)[OF parts(1), of c p] live ids by auto
  note def = ts_on_connection_closed_def Let_def
  consider (last) "c = ?a" "cc_secondary ctx = None" | (primary) h where "c = ?a" "cc_secondary ctx = Some h"
    | (secondary) h where "c \<noteq> ?a" "cc_secondary ctx = Some h" "ch_connection_id h = c"
    using mem by (cases "cc_secondary ctx") auto
  then show ?thesis
  proof cases
    case last
    have "link_inv s' ?L E ?sids (Some p)"
      by (rule result[of None]) (use step ctx last queue ids in \<open>auto simp: def conn_ids_def\<close>)
    then show ?thesis using step ctx last by (auto simp: def)
  next
    case (primary h)
    have "?a \<noteq> ch_connection_id h"
      using conn_partD(2)[OF parts(1), of p] ids primary by simp
    then have "link_inv s' ?L E ?sids None"
      by (intro result[of "Some (ch_connection_id h, None)"])
        (use step ctx primary queue ids in \<open>auto simp: def conn_ids_def cc_ids_def\<close>)
    then show ?thesis using step ctx primary by (auto simp: def)
  next
    case (secondary h)
    have "link_inv s' ?L E ?sids None"
      by (rule result[of "Some (?a, None)"])
        (use step ctx secondary queue ids in \<open>auto simp: def conn_ids_def cc_ids_def\<close>)
    then show ?thesis using step ctx secondary by (auto simp: def)
  qed
qed

text \<open>An answered substream.\<close>

lemma link_inv_answered:
  assumes inv: "idle_inv s L E" and view: "conn_ids s' = conn_ids s" "ts_pending_outbound s' = hm_remove sid (ts_pending_outbound s)"
    "ts_pending_events s' = ts_pending_events s" "ts_next_substream_id s' = ts_next_substream_id s"
    and L': "L' = L\<lparr>le_opening := (le_opening L)(sid := None)\<rparr>"
    and E': "E' = E\<lparr>se_outstanding := (se_outstanding E)(sid := None)\<rparr>"
  shows "idle_inv s' L' E'"
  unfolding link_inv_def
proof (intro conjI)
  note parts = link_invD[OF inv]
  show "conn_part s' L'" using parts(1) unfolding conn_part_def view(1) L' by simp
  show "open_part s' L'"
    using parts(2) unfolding open_part_def view(2,4) L' by auto
  show "queue_part s' L' E' [] None"
    using parts(3) unfolding queue_part_def view(1,3,4) by simp
  show "env_part s' L' E' [] None"
    using parts(4) unfolding env_part_def view(1,4) L' E' by simp
qed

lemma opened_view:
  assumes "ts_on_inner alive order now (InSubstreamOpened p protocol fallback direction c substream) s = (answer, failed, s')"
  shows "answer = Inr (Some (opened_event p protocol fallback direction substream))" "\<not> failed" "conn_ids s' = conn_ids s"
    "ts_pending_outbound s' = (case direction of DirOutbound sid \<Rightarrow> hm_remove sid (ts_pending_outbound s) | DirInbound \<Rightarrow> ts_pending_outbound s)"
    "ts_pending_events s' = ts_pending_events s" "ts_next_substream_id s' = ts_next_substream_id s"
  using assms
  by (auto simp: ts_on_inner_def Let_def conn_ids_def fun_eq_iff split: ts_direction.splits option.splits if_splits)

lemma ts_on_inner_refines:
  assumes inv: "idle_inv s L E" and ok: "in_ok L event" and order: "iteration_order order"
    and step: "ts_on_inner alive order now event s = (answer, failed, s')"
  shows "\<not> failed \<and> (case answer of
      Inl _ \<Rightarrow> False
    | Inr None \<Rightarrow> idle_inv s' (in_env event L) E
    | Inr (Some e) \<Rightarrow> te_ok E e \<and> linked s' (in_env event L) (te_env e E))"
proof (cases event)
  case (InConnectionEstablished p c h)
  obtain a s1 where est: "ts_on_connection_established now p c h s = (a, s1)" by (metis surj_pair)
  then have out: "answer = Inr a" "s' = s1" "\<not> failed"
    using step InConnectionEstablished by (auto simp: ts_on_inner_def)
  show ?thesis
    using inner_established[OF inv _ est] ok InConnectionEstablished out by (auto split: option.splits dest: linkedI)
next
  case (InConnectionClosed p c)
  obtain f s1 where closed: "ts_on_connection_closed order p c s = (f, s1)" by (metis surj_pair)
  obtain sids gone where mid: "\<not> f" "link_inv s1 (in_env event L) E sids gone"
    using inner_closed[OF inv _ order closed] ok InConnectionClosed by auto
  show ?thesis
  proof (cases "ts_pending_events s1")
    case Nil
    then show ?thesis
      using mid step InConnectionClosed closed link_inv_idle[OF mid(2)] by (auto simp: ts_on_inner_def)
  next
    case (Cons e queued)
    obtain sids' gone' where "te_ok E e" "link_inv (s1\<lparr>ts_pending_events := queued\<rparr>) (in_env event L) (te_env e E) sids' gone'"
      by (rule link_inv_deliver[OF mid(2) Cons])
    note this(1) linkedI[OF this(2)]
    then show ?thesis
      using mid(1) Cons step InConnectionClosed closed by (auto simp: ts_on_inner_def)
  qed
next
  case (InDialFailure p)
  then show ?thesis using linkedI[OF inv] step by (auto simp: ts_on_inner_def)
next
  case (InSubstreamOpened p protocol fallback direction c substream)
  note view = opened_view[OF step[unfolded InSubstreamOpened]]
  note parts = link_invD[OF inv]
  show ?thesis
  proof (cases direction)
    case DirInbound
    have "idle_inv s' L E"
      by (rule link_inv_view[OF inv]) (use view DirInbound in simp_all)
    moreover have "conn_ids s p \<noteq> None"
      using conn_partD(1)[OF parts(1), of c p] ok InSubstreamOpened DirInbound by (cases "conn_ids s p") auto
    then have "p \<in> se_connected E" using env_partD(1)[OF parts(4), of p] by simp
    ultimately show ?thesis
      using view(1,2) InSubstreamOpened DirInbound by (auto dest: linkedI)
  next
    case (DirOutbound sid)
    have "le_live L c = Some p" "le_opening L sid = Some c"
      using ok InSubstreamOpened DirOutbound by simp_all
    then have "se_outstanding E sid = Some p"
      using env_partD(2)[OF parts(4), of sid] by simp
    moreover have "idle_inv s' (in_env event L) (te_env (opened_event p protocol fallback direction substream) E)"
      by (rule link_inv_answered[OF inv, of _ sid]) (use view InSubstreamOpened DirOutbound in simp_all)
    ultimately show ?thesis
      using view(1,2) InSubstreamOpened DirOutbound by (auto dest: linkedI)
  qed
next
  case (InSubstreamOpenFailure sid error)
  note parts = link_invD[OF inv]
  have out: "answer = Inr (Some (TeSubstreamOpenFailure sid error))" "\<not> failed"
    "s' = s\<lparr>ts_pending_outbound := hm_remove sid (ts_pending_outbound s)\<rparr>"
    using step InSubstreamOpenFailure by (auto simp: ts_on_inner_def)
  obtain c where c: "le_opening L sid = Some c" using ok InSubstreamOpenFailure by auto
  then have "se_outstanding E sid \<noteq> None"
    using env_partD(2)[OF parts(4), of sid] open_partD(3)[OF parts(2) c] by simp
  moreover have "idle_inv s' (in_env event L) (te_env (TeSubstreamOpenFailure sid error) E)"
    by (rule link_inv_answered[OF inv, of _ sid]) (use out InSubstreamOpenFailure in \<open>simp_all add: conn_ids_def fun_eq_iff\<close>)
  ultimately show ?thesis using out by (auto dest: linkedI)
qed

subsection \<open>Runs of the service\<close>

fun in_oks :: "link_env \<Rightarrow> inner_event list \<Rightarrow> bool" where
  "in_oks L [] \<longleftrightarrow> True"
| "in_oks L (event # events) \<longleftrightarrow> in_ok L event \<and> in_oks (in_env event L) events"

abbreviation consumed :: "inner_event list \<Rightarrow> inner_event list \<Rightarrow> link_env \<Rightarrow> link_env" where
  "consumed events rest L \<equiv> fold in_env (take (length events - length rest) events) L"

fun answer_env :: "service_event option poll \<Rightarrow> service_env \<Rightarrow> service_env" where
  "answer_env (Ready (Some event)) E = te_env event E"
| "answer_env _ E = E"

fun answer_ok :: "service_env \<Rightarrow> service_event option poll \<Rightarrow> bool" where
  "answer_ok E (Ready (Some event)) \<longleftrightarrow> te_ok E event"
| "answer_ok _ _ \<longleftrightarrow> True"

lemma ts_poll_rx_refines:
  assumes "idle_inv s L E" and "in_oks L events" and "iteration_order order"
    and "ts_poll_rx alive order now closed events s = (result, failed, rest, s')"
  shows "\<not> failed \<and> (\<exists>used answer. events = used @ rest \<and> result = Inr answer \<and> answer_ok E answer
    \<and> linked s' (fold in_env used L) (answer_env answer E) \<and> (answer = Pending \<longrightarrow> rest = []))"
  using assms
proof (induction events arbitrary: s L failed)
  case Nil
  then show ?case by (auto dest: linkedI)
next
  case (Cons event events)
  obtain a f s1 where inner: "ts_on_inner alive order now event s = (a, f, s1)" by (metis surj_pair)
  note one = ts_on_inner_refines[OF Cons.prems(1) _ Cons.prems(3) inner]
  have "\<not> f" and a: "a \<noteq> Inl x" for x using one Cons.prems(2) by (auto split: sum.splits)
  then obtain e where e: "a = Inr e" by (cases a) auto
  show ?case
  proof (cases e)
    case None
    obtain r f' rest' s2 where loop: "ts_poll_rx alive order now closed events s1 = (r, f', rest', s2)" by (metis surj_pair)
    have out: "result = r" "failed = (f \<or> f')" "rest = rest'" "s' = s2"
      using Cons.prems(4) inner e None loop by auto
    have "idle_inv s1 (in_env event L) E" using one Cons.prems(2) e None by auto
    moreover have "ts_poll_rx alive order now closed events s1 = (result, f', rest, s')"
      using loop out by simp
    ultimately obtain used answer
      where "\<not> f'" "events = used @ rest" "result = Inr answer" "answer_ok E answer"
        "linked s' (fold in_env used (in_env event L)) (answer_env answer E)" "answer = Pending \<longrightarrow> rest = []"
      using Cons.IH[of s1 "in_env event L" f'] Cons.prems(2,3) by auto
    then show ?thesis
      using out \<open>\<not> f\<close> by (intro conjI exI[of _ "event # used"] exI[of _ answer]) auto
  next
    case (Some ev)
    then have out: "result = Inr (Ready (Some ev))" "failed = f" "rest = events" "s' = s1"
      using Cons.prems(4) inner e by auto
    then show ?thesis
      using one Cons.prems(2) e Some \<open>\<not> f\<close> by (intro conjI exI[of _ "[event]"] exI[of _ "Ready (Some ev)"]) auto
  qed
qed

lemma ts_poll_next_refines:
  assumes inv: "linked s L E" and ok: "in_oks L events" and order: "iteration_order order"
    and step: "ts_poll_next alive order pick now closed events s = (result, failed, rest, s')"
  shows "\<not> failed \<and> (\<exists>answer. result = Inr answer \<and> answer_ok E answer \<and> linked s' (consumed events rest L) (answer_env answer E))"
proof -
  obtain sids gone where link: "link_inv s L E sids gone" using inv unfolding linked_def by blast
  show ?thesis
  proof (cases "ts_pending_events s")
    case (Cons event queued)
    then have out: "result = Inr (Ready (Some event))" "\<not> failed" "rest = events" "s' = s\<lparr>ts_pending_events := queued\<rparr>"
      using step by (auto simp: ts_poll_next_def)
    obtain sids' gone' where "te_ok E event" "link_inv s' L (te_env event E) sids' gone'"
      using link_inv_deliver[OF link Cons] out(4) by metis
    then show ?thesis using out linkedI by auto
  next
    case Nil
    have idle: "idle_inv s L E" using link link_inv_idle[OF link Nil] by simp
    obtain r f rest1 s1 where rx: "ts_poll_rx alive order now closed events s = (r, f, rest1, s1)" by (metis surj_pair)
    obtain used answer where rx': "\<not> f" "events = used @ rest1" "r = Inr answer" "answer_ok E answer"
      "linked s1 (fold in_env used L) (answer_env answer E)"
      using ts_poll_rx_refines[OF idle ok order rx] by auto
    have env: "consumed events rest1 L = fold in_env used L" using rx'(2) by simp
    show ?thesis
    proof (cases answer)
      case Pending
      then have out: "result = Inr Pending" "\<not> failed" "rest = rest1" "s' = ts_keep_alive_loop now pick s1"
        using step Nil rx rx'(1,3) by (auto simp: ts_poll_next_def)
      obtain sids' gone' where mid: "link_inv s1 (fold in_env used L) E sids' gone'"
        using rx'(5) Pending unfolding linked_def by auto
      have "link_inv s' (fold in_env used L) E sids' gone'"
        unfolding out(4) by (rule link_inv_view[OF mid]) (simp_all add: ts_keep_alive_loop_view)
      then have "linked s' (fold in_env used L) E" by (rule linkedI)
      then show ?thesis using out env by simp
    next
      case (Ready e)
      then have "result = Inr answer" "\<not> failed" "rest = rest1" "s' = s1"
        using step Nil rx rx'(1,3) by (auto simp: ts_poll_next_def)
      then show ?thesis using rx' env by auto
    qed
  qed
qed

text \<open>
  The runs of a service: its protocol opens substreams and polls, other protocols take identifiers from the shared
  counter, and time passes.
\<close>

inductive ts_reach :: "transport_service \<Rightarrow> link_env \<Rightarrow> service_env \<Rightarrow> instant \<Rightarrow> bool" where
  init: "ts_reach (transport_service_new local_peer protocol fallbacks next_id timeout keep_alive) link_env_new service_env_new now"
| opened: "ts_reach s L E before \<Longrightarrow> before \<le> now \<Longrightarrow> ts_next_substream_id s + 1 < 2 ^ 64 \<Longrightarrow>
    ts_open_substream alive sent now p s = (Inr sid, s') \<Longrightarrow> conn_ids s p = Some (c, b) \<Longrightarrow>
    ts_reach s' (link_opened c sid L) (opened_env p sid E) now"
| refused: "ts_reach s L E before \<Longrightarrow> before \<le> now \<Longrightarrow> ts_next_substream_id s + 1 < 2 ^ 64 \<Longrightarrow>
    ts_open_substream alive sent now p s = (Inl error, s') \<Longrightarrow> ts_reach s' L E now"
| shared: "ts_reach s L E now \<Longrightarrow> ts_next_substream_id s \<le> next_id \<Longrightarrow>
    ts_reach (s\<lparr>ts_next_substream_id := next_id\<rparr>) L E now"
| poll: "ts_reach s L E before \<Longrightarrow> before \<le> now \<Longrightarrow> in_oks L events \<Longrightarrow> iteration_order order \<Longrightarrow> pick_ok now pick \<Longrightarrow>
    ts_poll_next alive order pick now closed events s = (Inr answer, failed, rest, s') \<Longrightarrow>
    ts_reach s' (consumed events rest L) (answer_env answer E) now"

lemma linked_new:
  "linked (transport_service_new local_peer protocol fallbacks next_id timeout keep_alive) link_env_new service_env_new"
  by (rule linkedI[of _ _ _ "[]" None])
    (simp add: link_inv_def conn_part_def open_part_def queue_part_def env_part_def conn_ids_def transport_service_new_def
      link_env_new_def service_env_new_def fun_eq_iff)

lemma ts_reach_linked: "ts_reach s L E now \<Longrightarrow> linked s L E"
proof (induction rule: ts_reach.induct)
  case (init local_peer protocol fallbacks next_id timeout keep_alive now)
  show ?case by (rule linked_new)
next
  case (opened s L E before now alive sent p sid s' c b)
  obtain sids gone where link: "link_inv s L E sids gone" using opened.IH unfolding linked_def by blast
  show ?case
  proof (cases rule: ts_open_substream_cases[OF opened.hyps(4)])
    case (3 c')
    then have "c' = c" using opened.hyps(5) by auto
    obtain c'' where *: "link_inv s' (link_opened c'' sid L) (opened_env p sid E) sids gone"
      by (rule link_inv_opened[OF link opened.hyps(3,4)])
    have "le_opening (link_opened c'' sid L) sid = hm_get (ts_pending_outbound s') sid"
      by (rule open_partD(2)[OF link_invD(2)[OF *]])
    then have "c'' = c" using 3(1,4) \<open>c' = c\<close> by (simp add: link_opened_def)
    then show ?thesis using linkedI[OF *] by simp
  qed simp_all
next
  case (refused s L E before now alive sent p error s')
  then obtain sids gone where link: "link_inv s L E sids gone" unfolding linked_def by blast
  show ?case by (rule linkedI[OF link_inv_open_failed[OF link refused.hyps(3,4)]])
next
  case (shared s L E now next_id)
  then obtain sids gone where link: "link_inv s L E sids gone" unfolding linked_def by blast
  show ?case
    by (rule linkedI[OF link_inv_view[OF link]]) (use shared.hyps(2) in \<open>simp_all add: conn_ids_def fun_eq_iff\<close>)
next
  case (poll s L E before now events order pick alive closed answer failed rest s')
  show ?case using ts_poll_next_refines[OF poll.IH poll.hyps(3,4,6)] by simp
qed

subsection \<open>A connection beyond the second\<close>

text \<open>
  Outside of \<open>in_ok\<close>: the service ignores a third connection of a peer, but when that connection closes it forgets the secondary
  connection, so that closing the primary one is reported as the end of the last connection although the secondary
  one lives.
\<close>

lemma third_connection_drops_secondary:
  assumes "hm_get (ts_connections s) p = Some ctx" and "cc_secondary ctx = Some h"
    and "c \<noteq> ch_connection_id (cc_primary ctx)" and "ts_on_connection_closed order p c s = (failed, s1)"
    and "ts_on_connection_closed order p (ch_connection_id (cc_primary ctx)) s1 = (failed', s2)"
  shows "hm_get (ts_connections s1) p = Some (ctx\<lparr>cc_secondary := None\<rparr>) \<and> TeConnectionClosed p \<in> set (ts_pending_events s2)"
  using assms by (auto simp: ts_on_connection_closed_def Let_def)

end
