(* ===== verification/Keep_Alive.thy ===== *)
theory Keep_Alive
  imports Service_Refines
begin

section \<open>Keep-alive timeouts\<close>

text \<open>
  The \<open>KeepAliveTracker\<close> re-arms its futures lazily: activity only updates the time stamp, and a future that elapses too
  early is replaced by one for the remaining time. Every tracked connection has a future that elapses in
  time, so that polling until no future is ready reports exactly the connections that were idle for the timeout.
\<close>

definition ka_inv :: "instant \<Rightarrow> keep_alive_tracker \<Rightarrow> bool" where
  "ka_inv now t \<longleftrightarrow>
     (\<forall>key since. hm_get (ka_last_activity t) key = Some since \<longrightarrow>
        since \<le> now \<and> (\<exists>d. (d, key) \<in> set (ka_pending t) \<and> d \<le> since + ka_timeout t))"

lemma ka_invD:
  assumes "ka_inv now t" and "hm_get (ka_last_activity t) key = Some since"
  shows "since \<le> now" "\<exists>d. (d, key) \<in> set (ka_pending t) \<and> d \<le> since + ka_timeout t"
  using assms unfolding ka_inv_def by blast+

lemma ka_inv_later: "ka_inv before t \<Longrightarrow> before \<le> now \<Longrightarrow> ka_inv now t"
  unfolding ka_inv_def by (meson le_trans)

lemma ka_inv_new: "ka_inv now (keep_alive_tracker_new timeout)"
  by (simp add: ka_inv_def keep_alive_tracker_new_def)

lemma ka_inv_activity:
  assumes "ka_inv now t"
  shows "ka_inv now (substream_activity now p c t)"
proof (cases "hm_get (ka_last_activity t) (p, c)")
  case None
  show ?thesis
    unfolding ka_inv_def
  proof (intro allI impI)
    fix key since assume "hm_get (ka_last_activity (substream_activity now p c t)) key = Some since"
    then have "key = (p, c) \<and> since = now \<or> key \<noteq> (p, c) \<and> hm_get (ka_last_activity t) key = Some since"
      using None by (auto simp: substream_activity_def split: if_splits)
    then show "since \<le> now \<and> (\<exists>d. (d, key) \<in> set (ka_pending (substream_activity now p c t))
        \<and> d \<le> since + ka_timeout (substream_activity now p c t))"
      using None ka_invD[OF assms, of key since] by (auto simp: substream_activity_def)
  qed
next
  case (Some since0)
  then obtain d where d: "(d, (p, c)) \<in> set (ka_pending t)" "d \<le> since0 + ka_timeout t" "since0 \<le> now"
    using ka_invD[OF assms Some] by blast
  show ?thesis
    unfolding ka_inv_def
  proof (intro allI impI)
    fix key since assume "hm_get (ka_last_activity (substream_activity now p c t)) key = Some since"
    then have "key = (p, c) \<and> since = now \<or> key \<noteq> (p, c) \<and> hm_get (ka_last_activity t) key = Some since"
      using Some by (auto simp: substream_activity_def Let_def split: if_splits)
    moreover have "ka_pending (substream_activity now p c t) = ka_pending t"
      "ka_timeout (substream_activity now p c t) = ka_timeout t"
      using Some by (simp_all add: substream_activity_def Let_def)
    moreover have "d \<le> now + ka_timeout t" using d by simp
    ultimately show "since \<le> now \<and> (\<exists>d. (d, key) \<in> set (ka_pending (substream_activity now p c t))
        \<and> d \<le> since + ka_timeout (substream_activity now p c t))"
      using d(1) ka_invD[OF assms, of key since] by auto
  qed
qed

lemma ka_inv_closed: "ka_inv now t \<Longrightarrow> ka_inv now (ka_on_connection_closed p c t)"
  unfolding ka_inv_def by (auto simp: ka_on_connection_closed_def split: if_splits)

text \<open>The cases of a poll that finds a future ready.\<close>

lemma ka_poll_cases:
  assumes "pick (ka_pending t) = Some i" and "i < length (ka_pending t)" and "ka_poll_next now pick t = (answer, t')"
  obtains (untracked) "answer = None" "hm_get (ka_last_activity t) (snd (ka_pending t ! i)) = None"
      "t' = t\<lparr>ka_pending := remove_nth i (ka_pending t)\<rparr>"
  | (early) since where "answer = None" "hm_get (ka_last_activity t) (snd (ka_pending t ! i)) = Some since" "now - since < ka_timeout t"
      "t' = t\<lparr>ka_pending := remove_nth i (ka_pending t) @ [(now + (ka_timeout t - (now - since)), snd (ka_pending t ! i))]\<rparr>"
  | (elapsed) since where "answer = Some (snd (ka_pending t ! i))" "hm_get (ka_last_activity t) (snd (ka_pending t ! i)) = Some since"
      "ka_timeout t \<le> now - since"
      "t' = t\<lparr>ka_pending := remove_nth i (ka_pending t), ka_last_activity := hm_remove (snd (ka_pending t ! i)) (ka_last_activity t)\<rparr>"
proof (cases "hm_get (ka_last_activity t) (snd (ka_pending t ! i))")
  case None
  show ?thesis by (rule untracked) (use assms None in \<open>simp_all add: ka_poll_next_def Let_def\<close>)
next
  case (Some since)
  show ?thesis
  proof (cases "now - since < ka_timeout t")
    case True
    show ?thesis by (rule early[of since]) (use assms Some True in \<open>simp_all add: ka_poll_next_def Let_def\<close>)
  next
    case False
    show ?thesis by (rule elapsed[of since]) (use assms Some False in \<open>simp_all add: ka_poll_next_def Let_def\<close>)
  qed
qed

lemma remove_nth_keeps: "x \<in> set xs \<Longrightarrow> i < length xs \<Longrightarrow> x \<noteq> xs ! i \<Longrightarrow> x \<in> set (remove_nth i xs)"
  using mset_remove_nth[of i xs] by (metis insert_iff set_mset_add_mset_insert set_mset_mset)

lemma ka_inv_poll:
  assumes inv: "ka_inv now t" and pick: "pick (ka_pending t) = Some i" and i: "i < length (ka_pending t)"
    and poll: "ka_poll_next now pick t = (answer, t')"
  shows "ka_inv now t'"
  unfolding ka_inv_def
proof (intro allI impI)
  fix key since assume get: "hm_get (ka_last_activity t') key = Some since"
  let ?k = "snd (ka_pending t ! i)"
  have other: "since \<le> now \<and> (\<exists>d. (d, key) \<in> set (remove_nth i (ka_pending t)) \<and> d \<le> since + ka_timeout t)"
    if k: "key \<noteq> ?k" and g: "hm_get (ka_last_activity t) key = Some since"
  proof -
    obtain d where d: "(d, key) \<in> set (ka_pending t)" "d \<le> since + ka_timeout t"
      using ka_invD(2)[OF inv g] by blast
    then have "(d, key) \<in> set (remove_nth i (ka_pending t))"
      using k by (intro remove_nth_keeps[OF _ i]) (auto dest: arg_cong[where f = snd])
    then show ?thesis using d(2) ka_invD(1)[OF inv g] by blast
  qed
  show "since \<le> now \<and> (\<exists>d. (d, key) \<in> set (ka_pending t') \<and> d \<le> since + ka_timeout t')"
  proof (cases rule: ka_poll_cases[OF pick i poll])
    case 1
    then have "key \<noteq> ?k" using get by auto
    then show ?thesis using other get 1 by auto
  next
    case (2 since0)
    show ?thesis
    proof (cases "key = ?k")
      case True
      then have "since0 = since" "since \<le> now" using 2 get ka_invD(1)[OF inv 2(2)] by auto
      then show ?thesis using 2 True by auto
    next
      case False
      then show ?thesis using other get 2 by auto
    qed
  next
    case (3 since0)
    then have "key \<noteq> ?k" "hm_get (ka_last_activity t) key = Some since" using get by (auto split: if_splits)
    then show ?thesis using other 3 by auto
  qed
qed

subsection \<open>Polling until nothing is ready\<close>

abbreviation ripe :: "instant \<Rightarrow> keep_alive_tracker \<Rightarrow> (instant \<times> ka_key) list" where
  "ripe now t \<equiv> filter (\<lambda>(d, _). d \<le> now) (ka_pending t)"

lemma ripe_remove: "i < length xs \<Longrightarrow> P (xs ! i) \<Longrightarrow> length (filter P (remove_nth i xs)) < length (filter P xs)"
  using mset_remove_nth[of i xs] by (metis filter_mset_add_mset lessI mset_filter size_add_mset size_mset)

lemma ka_poll_ripe:
  assumes "pick (ka_pending t) = Some i" and "i < length (ka_pending t)" and "fst (ka_pending t ! i) \<le> now"
    and "ka_poll_next now pick t = (answer, t')"
  shows "length (ripe now t') < length (ripe now t)"
proof -
  have "length (filter (\<lambda>(d, _). d \<le> now) (remove_nth i (ka_pending t))) < length (ripe now t)"
    using ripe_remove[OF assms(2), of "\<lambda>(d, _). d \<le> now"] assms(3) by (simp add: case_prod_beta)
  then show ?thesis
    by (cases rule: ka_poll_cases[OF assms(1,2,4)]) auto
qed

text \<open>A poll that used up a future wakes its task, which polls again.\<close>

function ka_drain :: "instant \<Rightarrow> ka_pick \<Rightarrow> keep_alive_tracker \<Rightarrow> ka_key list \<times> keep_alive_tracker" where
  "ka_drain now pick t =
     (case pick (ka_pending t) of
        None \<Rightarrow> ([], t)
      | Some i \<Rightarrow>
          if i < length (ka_pending t) \<and> fst (ka_pending t ! i) \<le> now then
            (case ka_poll_next now pick t of
               (answer, t1) \<Rightarrow>
                 (case ka_drain now pick t1 of
                    (keys, t2) \<Rightarrow> ((case answer of None \<Rightarrow> keys | Some key \<Rightarrow> key # keys), t2)))
          else ([], t))"
  by pat_completeness auto
termination
  by (relation "measure (\<lambda>(now, _, t). length (ripe now t))") (auto dest: ka_poll_ripe[OF _ _ _ sym])

declare ka_drain.simps [simp del]

definition overdue :: "instant \<Rightarrow> keep_alive_tracker \<Rightarrow> ka_key \<Rightarrow> bool" where
  "overdue now t key \<longleftrightarrow> (\<exists>since. hm_get (ka_last_activity t) key = Some since \<and> since + ka_timeout t \<le> now)"

lemma ka_drain_exact:
  assumes "ka_inv now t" and "pick_ok now pick" and "ka_drain now pick t = (keys, t')"
  shows "set keys = {key. overdue now t key} \<and> distinct keys
    \<and> hm_get (ka_last_activity t') = (\<lambda>key. if overdue now t key then None else hm_get (ka_last_activity t) key)"
  using assms
proof (induction now pick t arbitrary: keys rule: ka_drain.induct)
  case (1 now pick t)
  have pick: "case pick (ka_pending t) of None \<Rightarrow> \<forall>(d, _) \<in> set (ka_pending t). now < d
      | Some i \<Rightarrow> i < length (ka_pending t) \<and> fst (ka_pending t ! i) \<le> now"
    using "1.prems"(2) unfolding pick_ok_def by blast
  show ?case
  proof (cases "pick (ka_pending t)")
    case None
    have "\<not> overdue now t key" for key
      using ka_invD(2)[OF "1.prems"(1)] pick None unfolding overdue_def by fastforce
    then show ?thesis
      using "1.prems"(3) None by (simp add: ka_drain.simps[of now pick t])
  next
    case (Some i)
    let ?k = "snd (ka_pending t ! i)"
    have i: "i < length (ka_pending t)" "fst (ka_pending t ! i) \<le> now" using pick Some by auto
    obtain answer t1 where poll: "ka_poll_next now pick t = (answer, t1)" by (metis surj_pair)
    obtain keys1 t2 where rest: "ka_drain now pick t1 = (keys1, t2)" by (metis surj_pair)
    have out: "keys = (case answer of None \<Rightarrow> keys1 | Some key \<Rightarrow> key # keys1)" "t' = t2"
      using "1.prems"(3) Some i poll rest by (simp_all add: ka_drain.simps[of now pick t])
    have IH: "set keys1 = {key. overdue now t1 key} \<and> distinct keys1
        \<and> hm_get (ka_last_activity t') = (\<lambda>key. if overdue now t1 key then None else hm_get (ka_last_activity t1) key)"
      by (rule "1.IH"[OF Some _ poll[symmetric] ka_inv_poll[OF "1.prems"(1) Some i(1) poll] "1.prems"(2)])
        (use i rest out in auto)
    show ?thesis
    proof (cases rule: ka_poll_cases[OF Some i(1) poll])
      case 1
      then have eqs: "overdue now t1 = overdue now t" "ka_last_activity t1 = ka_last_activity t" by (simp_all add: overdue_def fun_eq_iff)
      show ?thesis using IH unfolding eqs by (simp add: out 1(1))
    next
      case (2 since)
      then have eqs: "overdue now t1 = overdue now t" "ka_last_activity t1 = ka_last_activity t" by (simp_all add: overdue_def fun_eq_iff)
      show ?thesis using IH unfolding eqs by (simp add: out 2(1))
    next
      case (3 since)
      have k: "overdue now t ?k"
        using 3 ka_invD(1)[OF "1.prems"(1) 3(2)] by (auto simp: overdue_def)
      have "overdue now t1 key \<longleftrightarrow> overdue now t key \<and> key \<noteq> ?k" for key
        using 3 by (auto simp: overdue_def)
      then show ?thesis using IH out 3 k by (auto simp: fun_eq_iff)
    qed
  qed
qed

subsection \<open>The tracker of a service\<close>

lemma ka_inv_next: "ka_inv now t \<Longrightarrow> ka_inv now (snd (ka_poll_next now pick t))"
proof (cases "pick (ka_pending t)")
  case None
  then show "ka_inv now t \<Longrightarrow> ka_inv now (snd (ka_poll_next now pick t))" by (simp add: ka_poll_next_def)
next
  case (Some i)
  assume inv: "ka_inv now t"
  show "ka_inv now (snd (ka_poll_next now pick t))"
  proof (cases "i < length (ka_pending t)")
    case True
    show ?thesis
      using ka_inv_poll[where pick = pick and t' = "snd (ka_poll_next now pick t)", OF inv Some True prod.collapse[symmetric]] .
  next
    case False
    then show ?thesis using inv Some by (simp add: ka_poll_next_def)
  qed
qed

lemma ka_inv_loop: "ka_inv now (ts_keep_alive_tracker s) \<Longrightarrow> ka_inv now (ts_keep_alive_tracker (ts_keep_alive_loop now pick s))"
proof (induction now pick s rule: ts_keep_alive_loop.induct)
  case (1 now pick s)
  obtain answer t where poll: "ka_poll_next now pick (ts_keep_alive_tracker s) = (answer, t)" by (metis surj_pair)
  have inv: "ka_inv now t" using ka_inv_next[OF "1.prems", of pick] poll by simp
  show ?case
  proof (cases answer)
    case None
    then show ?thesis using poll inv by (subst ts_keep_alive_loop.simps) simp
  next
    case (Some key)
    obtain p c where key: "key = (p, c)" by (cases key)
    let ?s1 = "s\<lparr>ts_keep_alive_tracker := t\<rparr>"
    let ?s2 = "case hm_get (ts_connections ?s1) p of None \<Rightarrow> ?s1
      | Some context \<Rightarrow> ?s1\<lparr>ts_connections := hm_insert p (cc_downgrade c context) (ts_connections ?s1)\<rparr>"
    have loop: "ts_keep_alive_loop now pick s = ts_keep_alive_loop now pick ?s2"
      using poll Some key by (subst ts_keep_alive_loop.simps) (simp add: Let_def)
    have "ts_keep_alive_tracker ?s2 = t" by (simp split: option.split)
    then show ?thesis
      unfolding loop using "1.IH"[OF poll[symmetric] Some key[symmetric] refl] inv by simp
  qed
qed

lemma ka_inv_open:
  assumes "ka_inv now (ts_keep_alive_tracker s)"
  shows "ka_inv now (ts_keep_alive_tracker (snd (ts_open_substream alive sent now p s)))"
  using assms ka_inv_activity[OF assms]
  by (simp add: ts_open_substream_def Let_def split: option.split sum.split)

lemma ka_inv_inner:
  assumes "ka_inv now (ts_keep_alive_tracker s)"
  shows "ka_inv now (ts_keep_alive_tracker (snd (snd (ts_on_inner alive order now event s))))"
proof (cases event)
  case (InConnectionEstablished p c h)
  then show ?thesis
    using assms ka_inv_activity[OF assms]
    by (simp add: ts_on_inner_def ts_on_connection_established_def ka_on_connection_established_def split: option.split)
next
  case (InConnectionClosed p c)
  then show ?thesis
    using ka_inv_closed[OF assms]
    by (simp add: ts_on_inner_def ts_on_connection_closed_def Let_def split: option.split list.split prod.split)
next
  case (InSubstreamOpened p protocol fallback direction c substream)
  then show ?thesis
    using assms ka_inv_activity[OF assms]
    by (simp add: ts_on_inner_def Let_def split: option.split ts_direction.split)
qed (use assms in \<open>simp_all add: ts_on_inner_def\<close>)

lemma ka_inv_rx:
  "ka_inv now (ts_keep_alive_tracker s) \<Longrightarrow>
   ka_inv now (ts_keep_alive_tracker (snd (snd (snd (ts_poll_rx alive order now closed events s)))))"
proof (induction events arbitrary: s)
  case (Cons event events)
  obtain a f s1 where inner: "ts_on_inner alive order now event s = (a, f, s1)" by (metis surj_pair)
  then have "ka_inv now (ts_keep_alive_tracker s1)" using ka_inv_inner[OF Cons.prems, of alive order event] by simp
  then show ?case using Cons.IH[of s1] inner by (auto split: sum.splits option.splits prod.splits)
qed simp

lemma ts_reach_ka: "ts_reach s L E now \<Longrightarrow> ka_inv now (ts_keep_alive_tracker s)"
proof (induction rule: ts_reach.induct)
  case (init local_peer protocol fallbacks next_id timeout keep_alive now)
  show ?case by (simp add: transport_service_new_def ka_inv_new)
next
  case (opened s L E before now alive sent p sid s' c b)
  then show ?case using ka_inv_open[OF ka_inv_later[OF opened.IH opened.hyps(2)], of alive sent p] by simp
next
  case (refused s L E before now alive sent p error s')
  then show ?case using ka_inv_open[OF ka_inv_later[OF refused.IH refused.hyps(2)], of alive sent p] by simp
next
  case (shared s L E now next_id)
  then show ?case by simp
next
  case (poll s L E before now events order pick alive closed answer failed rest s')
  have inv: "ka_inv now (ts_keep_alive_tracker s)" by (rule ka_inv_later[OF poll.IH poll.hyps(2)])
  show ?case
    using poll.hyps(6) inv ka_inv_rx[OF inv, of alive order closed events] ka_inv_loop
    by (auto simp: ts_poll_next_def split: list.splits prod.splits sum.splits poll.splits)
qed

subsection \<open>Properties\<close>

text \<open>
  C39: in every run of a transport service whose connections report events in the order of \<open>in_ok\<close>, every event the
  service passes to its protocol satisfies the contract of \<open>te_ok\<close>, on which the theorems about the protocols rest: no poll
  panics or fails an assertion; a substream it initiates has an identifier that was not used before and is for a
  peer that is connected from the protocol's view; and a substream that is not answered yet is still being opened
  over a live connection, or its failure is queued.
\<close>

theorem service_contract:
  assumes "ts_reach s L E before"
  shows "(in_oks L events \<and> iteration_order order
      \<and> ts_poll_next alive order pick now closed events s = (result, failed, rest, s') \<longrightarrow>
      \<not> failed \<and> (\<exists>answer. result = Inr answer \<and> answer_ok E answer))
    \<and> (ts_next_substream_id s + 1 < 2 ^ 64 \<and> ts_open_substream alive' sent now p s = (Inr sid, s'') \<longrightarrow>
      sid \<notin> se_used E \<and> p \<in> se_connected E)
    \<and> (se_outstanding E sid' \<noteq> None \<longrightarrow> fail_event sid' \<in> set (ts_pending_events s)
      \<or> (\<exists>c. hm_get (ts_pending_outbound s) sid' = Some c \<and> le_live L c \<noteq> None))"
proof -
  have inv: "linked s L E" by (rule ts_reach_linked[OF assms])
  then obtain sids gone where link: "link_inv s L E sids gone" unfolding linked_def by blast
  note parts = link_invD[OF link]
  have "fail_event sid' \<in> set (ts_pending_events s) \<or> (\<exists>c. hm_get (ts_pending_outbound s) sid' = Some c \<and> le_live L c \<noteq> None)"
    if "se_outstanding E sid' \<noteq> None"
  proof (cases "sid' \<in> set sids")
    case True
    then show ?thesis using queue_partD(1)[OF parts(3)] by simp
  next
    case False
    then show ?thesis
      using that env_partD(2)[OF parts(4), of sid'] open_partD(2)[OF parts(2), of sid']
      by (cases "hm_get (ts_pending_outbound s) sid'") auto
  qed
  moreover have "sid \<notin> se_used E \<and> p \<in> se_connected E"
    if room: "ts_next_substream_id s + 1 < 2 ^ 64" and opened: "ts_open_substream alive' sent now p s = (Inr sid, s'')"
    by (rule link_inv_opened[OF link room opened]) blast
  ultimately show ?thesis
    using ts_poll_next_refines[OF inv] by blast
qed

definition pick_first :: "instant \<Rightarrow> ka_pick" where
  "pick_first now pending =
     (case filter (\<lambda>i. fst (pending ! i) \<le> now) [0..<length pending] of [] \<Rightarrow> None | i # _ \<Rightarrow> Some i)"

lemma pick_first_ok: "pick_ok now (pick_first now)"
  unfolding pick_ok_def
proof
  fix pending :: "(instant \<times> ka_key) list"
  show "case pick_first now pending of None \<Rightarrow> \<forall>(deadline, _) \<in> set pending. now < deadline
      | Some i \<Rightarrow> i < length pending \<and> fst (pending ! i) \<le> now"
  proof (cases "filter (\<lambda>i. fst (pending ! i) \<le> now) [0..<length pending]")
    case Nil
    then have "\<not> fst (pending ! i) \<le> now" if "i < length pending" for i
      using that by (auto simp: filter_empty_conv)
    then have "\<forall>x \<in> set pending. now < fst x" by (metis in_set_conv_nth not_le)
    then show ?thesis using Nil by (auto simp: pick_first_def)
  next
    case (Cons i more)
    then have "i \<in> set (filter (\<lambda>i. fst (pending ! i) \<le> now) [0..<length pending])" by simp
    then have "i < length pending \<and> fst (pending ! i) \<le> now" unfolding set_filter by simp
    then show ?thesis using Cons by (simp add: pick_first_def)
  qed
qed

definition example_service :: transport_service where
  "example_service = transport_service_new example_local ''/req/1'' [] 0 5 KeepAliveYes"

definition example_connection :: "inner_event list" where
  "example_connection = [InConnectionEstablished example_peer 0 (connection_handle_new 0)]"

definition example_connected :: transport_service where
  "example_connected = example_service
     \<lparr>ts_connections := [(example_peer, connection_context_new (connection_handle_new 0))],
      ts_keep_alive_tracker := \<lparr>ka_timeout = 5, ka_last_activity = [((example_peer, 0), 1)], ka_pending = [(6, (example_peer, 0))]\<rparr>\<rparr>"

definition example_link :: link_env where
  "example_link = \<lparr>le_live = [0 \<mapsto> example_peer], le_opening = \<lambda>_. None, le_used = {0}\<rparr>"

lemma example_poll:
  "ts_poll_next (\<lambda>_. True) (\<lambda>xs. xs) (pick_first 1) 1 False example_connection example_service
   = (Inr (Ready (Some (TeConnectionEstablished example_peer))), False, [], example_connected)"
  by (simp add: ts_poll_next_def example_connection_def example_connected_def example_service_def transport_service_new_def
      ts_on_inner_def ts_on_connection_established_def ka_on_connection_established_def substream_activity_def
      keep_alive_tracker_new_def)

lemma example_connected_reached:
  "ts_reach example_connected example_link (te_env (TeConnectionEstablished example_peer) service_env_new) 1"
proof -
  have ok: "in_oks link_env_new example_connection"
    by (simp add: example_connection_def link_env_new_def connection_handle_new_def)
  have start: "ts_reach example_service link_env_new service_env_new 0"
    unfolding example_service_def by (rule ts_reach.init)
  from ts_reach.poll[OF start _ ok iteration_order_id pick_first_ok example_poll] show ?thesis
    by (simp add: example_connection_def example_link_def link_env_new_def fun_eq_iff)
qed

lemma example_open:
  "fst (ts_open_substream True Sent 1 example_peer example_connected) = Inr 0" "conn_ids example_connected example_peer = Some (0, None)"
  "ts_next_substream_id example_connected + 1 < 2 ^ 64"
  by (simp_all add: ts_open_substream_def example_connected_def example_service_def transport_service_new_def
      ch_try_get_permit_def ch_open_substream_def ch_try_upgrade_def connection_context_new_def connection_handle_new_def
      conn_ids_def cc_ids_def)

lemma service_contract_witness:
  "te_ok service_env_new (TeConnectionEstablished example_peer)
   \<and> fst (ts_poll_next (\<lambda>_. True) (\<lambda>xs. xs) (pick_first 1) 1 False example_connection example_service)
     = Inr (Ready (Some (TeConnectionEstablished example_peer)))
   \<and> fst (ts_open_substream True Sent 1 example_peer example_connected) = Inr 0
   \<and> 0 \<notin> se_used (te_env (TeConnectionEstablished example_peer) service_env_new)
   \<and> (\<exists>c. hm_get (ts_pending_outbound (snd (ts_open_substream True Sent 1 example_peer example_connected))) 0 = Some c
        \<and> le_live (link_opened 0 0 example_link) c \<noteq> None)"
proof -
  let ?opened = "snd (ts_open_substream True Sent 1 example_peer example_connected)"
  have ok: "in_oks link_env_new example_connection"
    by (simp add: example_connection_def link_env_new_def connection_handle_new_def)
  have start: "ts_reach example_service link_env_new service_env_new 0"
    unfolding example_service_def by (rule ts_reach.init)
  have started: "ts_open_substream True Sent 1 example_peer example_connected = (Inr 0, ?opened)"
    using example_open(1) by (metis prod.collapse)
  have reached: "ts_reach ?opened (link_opened 0 0 example_link)
      (opened_env example_peer 0 (te_env (TeConnectionEstablished example_peer) service_env_new)) 1"
    by (rule ts_reach.opened[OF example_connected_reached order_refl example_open(3) started example_open(2)])
  have "te_ok service_env_new (TeConnectionEstablished example_peer)"
    using service_contract[OF start, of example_connection "\<lambda>xs. xs" "\<lambda>_. True" "pick_first 1" 1 False
        "Inr (Ready (Some (TeConnectionEstablished example_peer)))" False "[]" example_connected] ok example_poll
    by (simp add: iteration_order_id)
  moreover have "0 \<notin> se_used (te_env (TeConnectionEstablished example_peer) service_env_new)"
    using service_contract[OF example_connected_reached, where now = 1 and p = example_peer and sid = 0 and alive' = True
        and sent = Sent and s'' = ?opened] started example_open(3) by blast
  moreover have "ts_pending_events ?opened = []"
    by (simp add: ts_open_substream_def example_connected_def example_service_def transport_service_new_def
        ch_try_get_permit_def ch_open_substream_def ch_try_upgrade_def connection_context_new_def connection_handle_new_def)
  moreover from this have "\<exists>c. hm_get (ts_pending_outbound ?opened) 0 = Some c \<and> le_live (link_opened 0 0 example_link) c \<noteq> None"
    using service_contract[OF reached, where sid' = 0] by simp
  ultimately show ?thesis using example_open(1) example_poll by simp
qed



end
