(* ===== verification/Spec2Isabelle.thy ===== *)
theory Spec2Isabelle
  imports Manager_Moves Kad_Routing Kad_Engine Webrtc_Negotiation Notification_Answers Notification_Handle Request_Handle Keep_Alive
begin

text \<open>
  A verification library for litep2p, an implementation of the libp2p networking stack in Rust. Paths
  are relative to the crate root, \<open>src/\<close>.

  \<^bold>\<open>The program.\<close> A node owns a \<open>TransportManager\<close>, which keeps the addresses and the connection state of
  every known peer, applies the connection limits and drives the transports (TCP, WebSocket, QUIC,
  WebRTC): protocols ask it to dial, the transports report opened, failed, established and closed
  connections. On top of the connections run the user protocols, among them Kademlia, whose routing
  table decides which peers a query contacts.

  \<^bold>\<open>Theories.\<close>
  \<^item> \<open>Prelude\<close>: machine integers, hash maps and ordered maps, binary search and the lemmas on them.
  \<^item> \<open>Multiaddr\<close>: peer identities (\<open>src/peer_id.rs\<close>), multiaddresses and the public addresses of a node
    (\<open>src/addresses.rs\<close>).
  \<^item> \<open>Address_Store\<close>: \<open>src/transport/manager/address.rs\<close>. The store never exceeds its capacity, evicts
    only the worst address and only for a better one, and returns the best addresses in order.
  \<^item> \<open>Peer_State\<close>: \<open>src/transport/manager/peer_state.rs\<close>. The transitions keep at most two live
    connections and refine operations on the set of live connections and the outstanding attempt.
  \<^item> \<open>Connection_Limits\<close>: \<open>src/transport/manager/limits.rs\<close>, as an instance of an admission contract.
  \<^item> \<open>Transport_Manager\<close>, \<open>Manager_Handle\<close>: \<open>src/transport/manager/mod.rs\<close> and \<open>handle.rs\<close>, every handler
    and one iteration of the event loop as a function of its input.
  \<^item> \<open>Manager_Safety\<close>, \<open>Manager_Moves\<close>: the invariant of the connection table over all runs of the event
    loop, the refinement of the peer state machine, absence of panics, and the runs in which a dial
    attempt is lost or a panic is reached.
  \<^item> \<open>Kad_Types\<close>, \<open>Kad_Routing\<close>: keys, the XOR metric, protobuf peers, k-buckets and the routing table of
    \<open>src/protocol/libp2p/kademlia\<close>. \<open>closest\<close> returns the nearest known peers in order.

  \<^item> \<open>Kad_Store\<close>, \<open>Kad_Message\<close>: \<open>record.rs\<close>, \<open>store.rs\<close> and \<open>message.rs\<close> of the same directory. The memory
    store stays within its limits and keeps the closest providers; messages survive the round trip.
  \<^item> \<open>Kad_Query\<close>: what the iterative queries share, the locale \<open>iterative_query\<close> with its lemmas on every
    run of a query and a driver that answers every message.
  \<^item> \<open>Kad_Find_Node\<close>, \<open>Kad_Get_Record\<close>, \<open>Kad_Get_Providers\<close>: the query contexts of \<open>query/\<close>, each an
    interpretation of that locale. No peer is asked twice, the results are the closest peers, the
    records and the providers that answered, and a query over a universe of \<open>n\<close> peers that all answer
    or fail ends within \<open>3 n + 1\<close> steps of the driver, the fuel the termination theorem gives it.
  \<^item> \<open>Kad_Engine\<close>: \<open>query/mod.rs\<close>, \<open>target_peers.rs\<close> and \<open>find_many_nodes.rs\<close>. The engine never panics,
    reports each query as finished once, and starves none.
  \<^item> \<open>Multistream\<close>: messages and frames of \<open>src/multistream_select\<close>. What one side sends is what the other
    receives, however the bytes are fragmented.
  \<^item> \<open>Negotiation\<close>, \<open>Webrtc_Negotiation\<close>: the dialer and the listener of the same directory, connected by a
    network and over WebRTC payloads. Both sides settle on the same protocol, in a bounded number of steps.
  \<^item> \<open>Notification_Handshake\<close>, \<open>Notification\<close>: \<open>negotiation.rs\<close>, \<open>types.rs\<close> and \<open>mod.rs\<close> of
    \<open>src/protocol/notification\<close>, the handshake service, every handler of the protocol and its biased
    event loop. A poll of the service does not panic and reports handshakes that timed out.
  \<^item> \<open>Notification_Safety\<close>, \<open>Notification_Answers\<close>: the invariant of the protocol over all runs that the
    contract of the transport service allows (no panic, no failed assertion, no poisoned peer), the reports
    the user gets, and the runs in which a peer is lost.
  \<^item> \<open>Notification_Handle\<close>: \<open>connection.rs\<close> and \<open>handle.rs\<close> of the same directory. The connection handler
    forwards notifications in order and loses none while it runs.
  \<^item> \<open>Service_Contract\<close>: the events a protocol gets from its transport service and the contract of their order
    (\<open>src/protocol/mod.rs\<close>, \<open>src/error.rs\<close>), on which the protocols' theorems rest.
  \<^item> \<open>Transport_Service\<close>: \<open>src/protocol/connection.rs\<close> and \<open>src/protocol/transport_service.rs\<close>, the handles of a
    connection, the keep-alive tracker and the service with its poll.
  \<^item> \<open>Service_Refines\<close>, \<open>Keep_Alive\<close>: the service implements \<open>Service_Contract\<close>: over all interleavings of polls and calls,
    every event it passes on is one the protocols' theorems allow, given the order \<open>in_ok\<close> of the connections' events; its
    tracker reports exactly the connections that were idle for the timeout.
  \<^item> \<open>Request_Response\<close>, \<open>Request_Handle\<close>: \<open>mod.rs\<close> and \<open>handle.rs\<close> of \<open>src/protocol/request_response\<close>, every handler,
    the futures and the event loop of the protocol and the user's handle.
  \<^item> \<open>Request_Answers\<close>, \<open>Request_Runs\<close>: every handler keeps the invariant of the protocol and balances requests
    and answers; over all runs each request is answered once unless canceled, inbound requests stay within
    their bound, and the runs in which a request is lost or a cancellation ignored. \<open>Request_Handle\<close> composes
    protocol, event queue and handle: responses reach the substream of their request.

  \<^bold>\<open>Not modelled.\<close> The transports and cryptography, which wrap other crates. Not covered yet: the codecs and the
  substreams, the \<open>ProtocolSet\<close> that distributes the events of a connection (what the transport service relies on
  of it is \<open>in_ok\<close>), the Kademlia event loop and the smaller protocols (ping, identify, bitswap, mDNS).

  \<^bold>\<open>Conventions.\<close> A method that takes \<open>&mut self\<close> returns its result and the new state. Errors are the left
  side of a sum. A panic of the source is a value as well. Iteration over a \<open>HashMap\<close> takes its order
  as an argument of which only that it visits every entry once is known. Code of other crates (hash
  functions, the multihash and multiaddr binary formats, the transports' answers) is a field of an
  environment record, and what is relied on is a named predicate of that record.
\<close>

end
